(* ===== verification/Prelude.thy ===== *)
theory Prelude
  imports
    Complex_Main
    "HOL-Library.Char_ord"
    "HOL-Library.List_Lexorder"
    "HOL-Library.Option_ord"
    "HOL-Library.Product_Lexorder"
    "HOL-Library.Multiset"
    "HOL-Library.Sublist"
    "HOL-Library.Word"
begin

text \<open>
  The vocabulary the components share.

  \<^item> Strings.  A Rust \<open>String\<close> is its UTF-8 byte sequence, here a \<^typ>\<open>string\<close> (a list of
    8-bit \<^typ>\<open>char\<close>s).  Byte-lexicographic order is the order of Rust's \<open>str\<close>, substring and prefix
    tests on valid UTF-8 agree with the tests on bytes, and \<open>trim\<close> strips the UTF-8 encodings of the
    Unicode white-space characters.
  \<^item> Numbers.  Fixed-width unsigned fields are machine words; where the code counts or subtracts,
    the conversions \<open>as_u32\<close>, \<open>wrap_i64\<close> and \<open>wrap_u64\<close> write the wrap-around of a release build out.
    Binary32 results are rationals rounded by \<open>f32_round\<close>.
  \<^item> Containers.  Ordered maps are strictly sorted association lists, hash maps are association
    lists with distinct keys; both meet the interface \<open>map_store\<close>.
  \<^item> Folds.  \<open>stream_fold\<close> and \<open>counting_fold\<close> are the interfaces of the stream passes (character
    lives, contract runs): an invariant kept by each step, and a tally that each step raises by the
    weight of its event.
\<close>

section \<open>Collections of facts\<close>

named_theorems str_simps \<open>unfolding rules of the string operations\<close>
named_theorems num_simps \<open>unfolding rules of the machine-number conversions\<close>

section \<open>Strings\<close>

definition starts_with :: "string \<Rightarrow> string \<Rightarrow> bool" where
  "starts_with s p \<longleftrightarrow> prefix p s"

definition contains_str :: "string \<Rightarrow> string \<Rightarrow> bool" where
  "contains_str s n \<longleftrightarrow> sublist n s"

definition strip_prefix :: "string \<Rightarrow> string \<Rightarrow> string option" where
  "strip_prefix p s = (if prefix p s then Some (drop (length p) s) else None)"

definition is_ascii_digit :: "char \<Rightarrow> bool" where
  "is_ascii_digit c \<longleftrightarrow> CHR ''0'' \<le> c \<and> c \<le> CHR ''9''"

definition is_ascii_uppercase :: "char \<Rightarrow> bool" where
  "is_ascii_uppercase c \<longleftrightarrow> CHR ''A'' \<le> c \<and> c \<le> CHR ''Z''"

definition is_ascii_lowercase :: "char \<Rightarrow> bool" where
  "is_ascii_lowercase c \<longleftrightarrow> CHR ''a'' \<le> c \<and> c \<le> CHR ''z''"

definition is_ascii_alphabetic :: "char \<Rightarrow> bool" where
  "is_ascii_alphabetic c \<longleftrightarrow> is_ascii_uppercase c \<or> is_ascii_lowercase c"

definition is_ascii_alphanumeric :: "char \<Rightarrow> bool" where
  "is_ascii_alphanumeric c \<longleftrightarrow> is_ascii_alphabetic c \<or> is_ascii_digit c"

definition is_ascii :: "char \<Rightarrow> bool" where
  "is_ascii c \<longleftrightarrow> (of_char c :: nat) < 128"

definition char_to_ascii_lowercase :: "char \<Rightarrow> char" where
  "char_to_ascii_lowercase c =
     (if is_ascii_uppercase c then char_of ((of_char c :: nat) + 32) else c)"

definition to_ascii_lowercase :: "string \<Rightarrow> string" where
  "to_ascii_lowercase s = map char_to_ascii_lowercase s"

definition eq_ignore_ascii_case :: "string \<Rightarrow> string \<Rightarrow> bool" where
  "eq_ignore_ascii_case a b \<longleftrightarrow> to_ascii_lowercase a = to_ascii_lowercase b"

lemmas char_class_defs =
  is_ascii_digit_def is_ascii_uppercase_def is_ascii_lowercase_def is_ascii_alphabetic_def
  is_ascii_alphanumeric_def is_ascii_def

text \<open>The UTF-8 encodings of the characters with the Unicode property \<open>White_Space\<close>, which is
  what \<open>str::trim\<close> strips.\<close>

definition ws_encodings :: "string list" where
  "ws_encodings =
     [[CHR 0x09], [CHR 0x0A], [CHR 0x0B], [CHR 0x0C], [CHR 0x0D], [CHR 0x20],
      [CHR 0xC2, CHR 0x85], [CHR 0xC2, CHR 0xA0], [CHR 0xE1, CHR 0x9A, CHR 0x80],
      [CHR 0xE2, CHR 0x80, CHR 0x80], [CHR 0xE2, CHR 0x80, CHR 0x81], [CHR 0xE2, CHR 0x80, CHR 0x82],
      [CHR 0xE2, CHR 0x80, CHR 0x83], [CHR 0xE2, CHR 0x80, CHR 0x84], [CHR 0xE2, CHR 0x80, CHR 0x85],
      [CHR 0xE2, CHR 0x80, CHR 0x86], [CHR 0xE2, CHR 0x80, CHR 0x87], [CHR 0xE2, CHR 0x80, CHR 0x88],
      [CHR 0xE2, CHR 0x80, CHR 0x89], [CHR 0xE2, CHR 0x80, CHR 0x8A], [CHR 0xE2, CHR 0x80, CHR 0xA8],
      [CHR 0xE2, CHR 0x80, CHR 0xA9], [CHR 0xE2, CHR 0x80, CHR 0xAF], [CHR 0xE2, CHR 0x81, CHR 0x9F],
      [CHR 0xE3, CHR 0x80, CHR 0x80]]"

text \<open>Strip one of the encodings \<open>es\<close> (all of them non-empty) from the front as long as one is there.\<close>

function strip_while :: "string list \<Rightarrow> string \<Rightarrow> string" where
  "strip_while es s =
     (case find (\<lambda>e. e \<noteq> [] \<and> prefix e s) es of
        None \<Rightarrow> s
      | Some e \<Rightarrow> strip_while es (drop (length e) s))"
  by pat_completeness auto
termination
proof (relation "measure (\<lambda>(es, s). length s)", goal_cases)
  case 1
  show ?case by simp
next
  case (2 es s e)
  then have "e \<noteq> []" "prefix e s"
    by (auto simp: find_Some_iff)
  then show ?case
    by (auto simp: prefix_def)
qed

declare strip_while.simps [simp del]

definition trim_start :: "string \<Rightarrow> string" where
  "trim_start s = strip_while ws_encodings s"

definition trim_end :: "string \<Rightarrow> string" where
  "trim_end s = rev (strip_while (map rev ws_encodings) (rev s))"

definition trim :: "string \<Rightarrow> string" where
  "trim s = trim_end (trim_start s)"

definition trim_end_matches :: "char \<Rightarrow> string \<Rightarrow> string" where
  "trim_end_matches c s = rev (dropWhile (\<lambda>x. x = c) (rev s))"

definition trim_matches :: "char \<Rightarrow> string \<Rightarrow> string" where
  "trim_matches c s = trim_end_matches c (dropWhile (\<lambda>x. x = c) s)"

text \<open>\<open>str::split\<close> on a character class: every separator ends a (possibly empty) piece.\<close>

fun split_on :: "(char \<Rightarrow> bool) \<Rightarrow> string \<Rightarrow> string list" where
  "split_on p [] = [[]]"
| "split_on p (c # cs) =
     (if p c then [] # split_on p cs
      else (case split_on p cs of [] \<Rightarrow> [[c]] | w # ws \<Rightarrow> (c # w) # ws))"

fun join :: "string \<Rightarrow> string list \<Rightarrow> string" where
  "join sep [] = []"
| "join sep [w] = w"
| "join sep (w # ws) = w @ sep @ join sep ws"

text \<open>The characters of a UTF-8 string, each as its byte sequence: a continuation byte
  (\<open>0x80..0xBF\<close>) belongs to the character of the byte before it.\<close>

definition is_continuation :: "char \<Rightarrow> bool" where
  "is_continuation c \<longleftrightarrow> 128 \<le> (of_char c :: nat) \<and> (of_char c :: nat) < 192"

function utf8_chars :: "string \<Rightarrow> string list" where
  "utf8_chars [] = []"
| "utf8_chars (c # cs) =
     (c # takeWhile is_continuation cs) # utf8_chars (dropWhile is_continuation cs)"
  by pat_completeness auto
termination
  by (relation "measure length") (auto simp: le_imp_less_Suc length_dropWhile_le)

lemma split_on_ne [simp]: "split_on p s \<noteq> []"
  by (induction s) (auto split: list.splits)

lemma split_on_none: "\<forall>c \<in> set s. \<not> p c \<Longrightarrow> split_on p s = [s]"
  by (induction s) auto

lemma split_on_append:
  "p sep \<Longrightarrow> \<forall>c \<in> set a. \<not> p c \<Longrightarrow> split_on p (a @ sep # b) = a # split_on p b"
  by (induction a) (auto split: list.splits)

lemma concat_utf8_chars: "concat (utf8_chars s) = s"
  by (induction s rule: utf8_chars.induct) auto

lemma strip_prefix_Some_iff: "strip_prefix p s = Some r \<longleftrightarrow> s = p @ r"
  by (auto simp: strip_prefix_def prefix_def)

lemma strip_prefix_append [simp]: "strip_prefix p (p @ r) = Some r"
  by (simp add: strip_prefix_Some_iff)

lemma char_to_ascii_lowercase_idem [simp]:
  "char_to_ascii_lowercase (char_to_ascii_lowercase c) = char_to_ascii_lowercase c"
proof (cases "is_ascii_uppercase c")
  case True
  then have "(of_char c :: nat) \<le> 90" "65 \<le> (of_char c :: nat)"
    by (auto simp: is_ascii_uppercase_def less_eq_char_def)
  then have "\<not> is_ascii_uppercase (char_of ((of_char c :: nat) + 32))"
    by (simp add: is_ascii_uppercase_def less_eq_char_def)
  with True show ?thesis by (simp add: char_to_ascii_lowercase_def)
qed (simp add: char_to_ascii_lowercase_def)

lemma to_ascii_lowercase_idem [simp]: "to_ascii_lowercase (to_ascii_lowercase s) = to_ascii_lowercase s"
  by (simp add: to_ascii_lowercase_def)

lemma length_to_ascii_lowercase [simp]: "length (to_ascii_lowercase s) = length s"
  by (simp add: to_ascii_lowercase_def)

lemmas [str_simps] =
  starts_with_def contains_str_def strip_prefix_def to_ascii_lowercase_def
  char_to_ascii_lowercase_def eq_ignore_ascii_case_def

section \<open>Numbers\<close>

type_synonym u8 = "8 word"
type_synonym u16 = "16 word"
type_synonym u32 = "32 word"
type_synonym u64 = "64 word"

text \<open>Signed 64-bit values are integers; \<open>wrap_i64\<close> and \<open>wrap_u64\<close> are the wrap-around of two's
  complement arithmetic, \<open>as_u32\<close> the truncating \<open>as u32\<close> of a count, \<open>tdiv\<close> the division of Rust,
  which truncates towards zero.\<close>

type_synonym i64 = int

definition as_u32 :: "nat \<Rightarrow> nat" where
  "as_u32 n = n mod 2 ^ 32"

definition wrap_i64 :: "int \<Rightarrow> i64" where
  "wrap_i64 x = (x + 2 ^ 63) mod 2 ^ 64 - 2 ^ 63"

definition wrap_u64 :: "int \<Rightarrow> int" where
  "wrap_u64 x = x mod 2 ^ 64"

definition tdiv :: "int \<Rightarrow> int \<Rightarrow> int" where
  "tdiv a b = sgn a * sgn b * (\<bar>a\<bar> div \<bar>b\<bar>)"

lemma as_u32_small [simp]: "n < 2 ^ 32 \<Longrightarrow> as_u32 n = n"
  by (simp add: as_u32_def)

lemma as_u32_0 [simp]: "as_u32 0 = 0"
  by (simp add: as_u32_def)

lemma wrap_i64_small [num_simps]: "- (2 ^ 63) \<le> x \<Longrightarrow> x < 2 ^ 63 \<Longrightarrow> wrap_i64 x = x"
  by (simp add: wrap_i64_def)

lemma wrap_u64_small [num_simps]: "0 \<le> x \<Longrightarrow> x < 2 ^ 64 \<Longrightarrow> wrap_u64 x = x"
  by (simp add: wrap_u64_def)

lemma tdiv_nonneg [num_simps]: "0 \<le> a \<Longrightarrow> 0 < b \<Longrightarrow> tdiv a b = a div b"
  by (cases "a = 0") (auto simp: tdiv_def sgn_if)

text \<open>\<open>str::parse::<i64>\<close>: an optional sign, then one or more decimal digits, the value in range.\<close>

definition digits_value :: "string \<Rightarrow> nat" where
  "digits_value s = foldl (\<lambda>n c. 10 * n + (of_char c - 48)) 0 s"

definition parse_digits :: "string \<Rightarrow> int option" where
  "parse_digits s =
     (if s \<noteq> [] \<and> list_all is_ascii_digit s then Some (int (digits_value s)) else None)"

definition parse_i64 :: "string \<Rightarrow> i64 option" where
  "parse_i64 s =
     (case (case s of
              [] \<Rightarrow> None
            | c # cs \<Rightarrow>
                if c = CHR ''+'' then parse_digits cs
                else if c = CHR ''-'' then map_option uminus (parse_digits cs)
                else parse_digits s) of
        None \<Rightarrow> None
      | Some v \<Rightarrow> if - (2 ^ 63) \<le> v \<and> v < 2 ^ 63 then Some v else None)"

text \<open>
  Binary32 arithmetic.  A finite value is a rational; \<open>f32_round\<close> rounds to the nearest multiple of
  the unit in the last place (24-bit significand, ties to even), which is the rounding of every value
  the modelled code computes: quotients of counts and short sums of them, all of them in the normal range.
\<close>

fun nlog2 :: "nat \<Rightarrow> nat" where
  "nlog2 n = (if n \<le> 1 then 0 else Suc (nlog2 (n div 2)))"

declare nlog2.simps [simp del]

definition pow2 :: "int \<Rightarrow> rat" where
  "pow2 k = (if 0 \<le> k then 2 ^ nat k else 1 / 2 ^ nat (- k))"

definition rlog2 :: "rat \<Rightarrow> int" where
  "rlog2 x =
     (let (p, q) = quotient_of x; k = int (nlog2 (nat p)) - int (nlog2 (nat q))
      in if pow2 k \<le> x then k else k - 1)"

definition round_half_even :: "rat \<Rightarrow> int" where
  "round_half_even x =
     (let n = \<lfloor>x\<rfloor>; r = x - of_int n
      in if r < 1 / 2 then n else if 1 / 2 < r then n + 1 else if even n then n else n + 1)"

definition f32_round_pos :: "rat \<Rightarrow> rat" where
  "f32_round_pos x = (let u = pow2 (rlog2 x - 23) in of_int (round_half_even (x / u)) * u)"

definition f32_round :: "rat \<Rightarrow> rat" where
  "f32_round x = (if x = 0 then 0 else if 0 < x then f32_round_pos x else - f32_round_pos (- x))"

definition f32_of_nat :: "nat \<Rightarrow> rat" where
  "f32_of_nat n = f32_round (of_nat n)"

definition f32_div :: "rat \<Rightarrow> rat \<Rightarrow> rat" where
  "f32_div a b = f32_round (a / b)"

definition f32_add :: "rat \<Rightarrow> rat \<Rightarrow> rat" where
  "f32_add a b = f32_round (a + b)"

lemma f32_round_0 [simp]: "f32_round 0 = 0"
  by (simp add: f32_round_def)

lemma nlog2_bounds: "0 < n \<Longrightarrow> 2 ^ nlog2 n \<le> n \<and> n < 2 ^ Suc (nlog2 n)"
proof (induction n rule: nlog2.induct)
  case (1 n)
  show ?case
  proof (cases "n \<le> 1")
    case True
    with "1.prems" show ?thesis by (simp add: nlog2.simps)
  next
    case False
    with "1.IH" have "2 ^ nlog2 (n div 2) \<le> n div 2" "n div 2 < 2 ^ Suc (nlog2 (n div 2))"
      by auto
    moreover from False have "nlog2 n = Suc (nlog2 (n div 2))"
      by (simp add: nlog2.simps [of n])
    ultimately show ?thesis by auto
  qed
qed

lemma pow2_pos: "0 < pow2 k"
  by (simp add: pow2_def)

lemma pow2_minus_one: "pow2 (k - 1) = pow2 k / 2"
proof (cases "0 < k")
  case True
  then have "nat k = Suc (nat (k - 1))" by simp
  with True show ?thesis by (simp add: pow2_def)
next
  case False
  then have "nat (- (k - 1)) = Suc (nat (- k))" by simp
  with False show ?thesis by (cases "k = 0") (simp_all add: pow2_def)
qed

lemma pow2_diff: "pow2 (int a - int b) = 2 ^ a / 2 ^ b"
proof (cases "b \<le> a")
  case True
  then show ?thesis
    by (simp add: pow2_def power_diff nat_diff_distrib)
next
  case False
  then have "nat (- (int a - int b)) = b - a" by simp
  with False show ?thesis
    by (simp add: pow2_def power_diff)
qed

lemma pow2_minus: "pow2 (k - int n) = pow2 k / 2 ^ n"
proof (induction n)
  case (Suc n)
  have "pow2 (k - int (Suc n)) = pow2 ((k - int n) - 1)" by (simp add: algebra_simps)
  also have "\<dots> = pow2 (k - int n) / 2" by (rule pow2_minus_one)
  finally show ?case using Suc by simp
qed simp

lemma pow2_rlog2_le:
  assumes "0 < x"
  shows "pow2 (rlog2 x) \<le> x"
proof -
  obtain p q where pq: "quotient_of x = (p, q)" by fastforce
  have q: "0 < q" by (rule quotient_of_denom_pos [OF pq])
  have x: "x = of_int p / of_int q" by (rule quotient_of_div [OF pq])
  with assms q have p: "0 < p" by (simp add: zero_less_divide_iff)
  let ?a = "nlog2 (nat p)" and ?b = "nlog2 (nat q)"
  have "2 ^ ?a \<le> nat p" using nlog2_bounds [of "nat p"] p by simp
  then have a: "(2 ^ ?a :: rat) \<le> of_int p"
    using p by (metis of_int_le_iff of_int_numeral of_int_power of_nat_le_iff of_nat_numeral
        of_nat_power nat_0_le order_less_imp_le)
  have "nat q < 2 ^ Suc ?b" using nlog2_bounds [of "nat q"] q by simp
  then have b: "(of_int q :: rat) < 2 ^ Suc ?b"
    using q by (metis of_int_less_iff of_int_numeral of_int_power of_nat_less_iff of_nat_numeral
        of_nat_power nat_0_le order_less_imp_le)
  have "pow2 (int ?a - int ?b - 1) = 2 ^ ?a / 2 ^ Suc ?b"
    by (simp add: pow2_minus_one pow2_diff)
  also have "\<dots> \<le> of_int p / of_int q"
    using a b q p by (intro frac_le) auto
  finally have low: "pow2 (int ?a - int ?b - 1) \<le> x" using x by simp
  show ?thesis
    using low by (simp add: rlog2_def pq Let_def)
qed

lemma round_half_even_error: "\<bar>of_int (round_half_even x) - x\<bar> \<le> 1 / 2"
proof -
  define r where "r = x - of_int \<lfloor>x\<rfloor>"
  have r: "0 \<le> r" "r < 1" "x = of_int \<lfloor>x\<rfloor> + r"
    by (simp_all add: r_def) linarith+
  have "of_int (round_half_even x) - x =
      (if r < 1 / 2 then - r else if 1 / 2 < r then 1 - r else if even \<lfloor>x\<rfloor> then - r else 1 - r)"
    by (simp add: round_half_even_def Let_def r_def)
  then show ?thesis
    using r(1,2) by (auto simp: abs_if)
qed

text \<open>The relative error of one binary32 rounding is at most \<open>2^-24\<close>.\<close>

lemma f32_round_error: "\<bar>f32_round x - x\<bar> \<le> \<bar>x\<bar> / 2 ^ 24"
proof -
  have pos: "\<bar>f32_round_pos y - y\<bar> \<le> y / 2 ^ 24" if "0 < y" for y
  proof -
    define u where "u = pow2 (rlog2 y - 23)"
    have u: "0 < u" by (simp add: u_def pow2_pos)
    have "f32_round_pos y - y = (of_int (round_half_even (y / u)) - y / u) * u"
      using u by (simp add: f32_round_pos_def u_def Let_def algebra_simps)
    then have "\<bar>f32_round_pos y - y\<bar> \<le> 1 / 2 * u"
      using round_half_even_error [of "y / u"] u by (simp add: abs_mult mult_right_mono)
    also have "\<dots> = pow2 (rlog2 y) / 2 ^ 24"
      using pow2_minus [of "rlog2 y" 23] by (simp add: u_def)
    also have "\<dots> \<le> y / 2 ^ 24"
      using pow2_rlog2_le [OF that] by (simp add: divide_right_mono)
    finally show ?thesis .
  qed
  consider "x = 0" | "0 < x" | "x < 0" by linarith
  then show ?thesis
  proof cases
    case 3
    have "\<bar>- f32_round_pos (- x) - x\<bar> = \<bar>f32_round_pos (- x) - (- x)\<bar>" by (simp add: abs_if)
    with pos [of "- x"] 3 show ?thesis by (simp add: f32_round_def)
  qed (use pos [of x] in \<open>simp_all add: f32_round_def\<close>)
qed

text \<open>A value read from outside may also be infinite or not a number; comparisons with \<open>NaN\<close> fail.\<close>

datatype flt = Fin rat | PInf | NInf | NaN

fun flt_le :: "flt \<Rightarrow> flt \<Rightarrow> bool" where
  "flt_le NaN _ = False"
| "flt_le _ NaN = False"
| "flt_le NInf _ = True"
| "flt_le _ PInf = True"
| "flt_le (Fin a) (Fin b) = (a \<le> b)"
| "flt_le _ _ = False"

fun flt_lt :: "flt \<Rightarrow> flt \<Rightarrow> bool" where
  "flt_lt NaN _ = False"
| "flt_lt _ NaN = False"
| "flt_lt PInf _ = False"
| "flt_lt _ NInf = False"
| "flt_lt (Fin a) (Fin b) = (a < b)"
| "flt_lt _ _ = True"

text \<open>\<open>(x - 1.0).abs()\<close> in binary32.\<close>

fun flt_abs_minus_one :: "flt \<Rightarrow> flt" where
  "flt_abs_minus_one (Fin a) = Fin \<bar>f32_round (a - 1)\<bar>"
| "flt_abs_minus_one NaN = NaN"
| "flt_abs_minus_one _ = PInf"

section \<open>Iterators\<close>

text \<open>\<open>Iterator::max_by\<close> keeps the last of several greatest elements.\<close>

definition max_by_last :: "('a \<Rightarrow> 'k::linorder) \<Rightarrow> 'a list \<Rightarrow> 'a option" where
  "max_by_last f xs =
     foldl (\<lambda>acc x. case acc of None \<Rightarrow> Some x | Some y \<Rightarrow> if f y \<le> f x then Some x else Some y) None xs"

lemma max_by_last_snoc:
  "max_by_last f (xs @ [x]) =
     (case max_by_last f xs of None \<Rightarrow> Some x | Some y \<Rightarrow> if f y \<le> f x then Some x else Some y)"
  by (simp add: max_by_last_def)

lemma max_by_last_None [simp]: "max_by_last f xs = None \<longleftrightarrow> xs = []"
  by (induction xs rule: rev_induct) (auto simp: max_by_last_snoc max_by_last_def split: option.splits)

lemma max_by_last_Some:
  "max_by_last f xs = Some x \<Longrightarrow> x \<in> set xs \<and> (\<forall>y \<in> set xs. f y \<le> f x)"
proof (induction xs arbitrary: x rule: rev_induct)
  case Nil
  then show ?case by (simp add: max_by_last_def)
next
  case (snoc z zs)
  show ?case
  proof (cases "max_by_last f zs")
    case None
    with snoc.prems show ?thesis by (simp add: max_by_last_snoc)
  next
    case (Some y)
    from snoc.IH [OF Some] have y: "y \<in> set zs" "\<forall>w \<in> set zs. f w \<le> f y" by auto
    with Some snoc.prems show ?thesis
      by (auto simp: max_by_last_snoc split: if_splits dest: order_trans)
  qed
qed

text \<open>The \<open>?\<close> operator on a result without a value.\<close>

lemma sum_bind_ok: "(case x of Inl e \<Rightarrow> Inl e | Inr u \<Rightarrow> y u) = Inr v \<longleftrightarrow> (\<exists>u. x = Inr u \<and> y u = Inr v)"
  by (cases x) auto

lemma subseq_skip: "subseq (d # ds) (xs @ ys) \<Longrightarrow> d \<notin> set xs \<Longrightarrow> subseq (d # ds) ys"
  by (induction xs) auto

text \<open>A stable sort forgets the order of its input except among equal keys.\<close>

lemma sort_key_eqI:
  assumes "mset xs = mset ys"
    and "\<And>k. filter (\<lambda>x. f x = k) xs = filter (\<lambda>x. f x = k) ys"
  shows "sort_key f xs = sort_key f ys"
proof (rule properties_for_sort_key)
  show "mset (sort_key f ys) = mset xs"
    using assms(1) by simp
  show "sorted (map f (sort_key f ys))"
    by simp
  fix k
  show "filter (\<lambda>y. f k = f y) (sort_key f ys) = filter (\<lambda>x. f k = f x) xs"
    using sort_key_stable [of f "f k" ys] assms(2) [of "f k"]
    by (simp add: eq_commute)
qed

section \<open>Maps\<close>

text \<open>An ordered map (\<open>BTreeMap\<close>) is a strictly sorted association list; a \<open>HashMap\<close> is an association
  list with distinct keys, whose order stands for nothing.\<close>

type_synonym ('k, 'v) btree = "('k \<times> 'v) list"
type_synonym ('k, 'v) hmap = "('k \<times> 'v) list"

fun btree_insert :: "'k::linorder \<Rightarrow> 'v \<Rightarrow> ('k, 'v) btree \<Rightarrow> ('k, 'v) btree" where
  "btree_insert k v [] = [(k, v)]"
| "btree_insert k v ((k', v') # m) =
     (if k < k' then (k, v) # (k', v') # m
      else if k = k' then (k, v) # m
      else (k', v') # btree_insert k v m)"

definition btree_ok :: "('k::linorder, 'v) btree \<Rightarrow> bool" where
  "btree_ok m \<longleftrightarrow> sorted_wrt (<) (map fst m)"

definition hmap_remove :: "'k \<Rightarrow> ('k, 'v) hmap \<Rightarrow> ('k, 'v) hmap" where
  "hmap_remove k m = filter (\<lambda>(k', v). k' \<noteq> k) m"

definition hmap_insert :: "'k \<Rightarrow> 'v \<Rightarrow> ('k, 'v) hmap \<Rightarrow> ('k, 'v) hmap" where
  "hmap_insert k v m = (k, v) # hmap_remove k m"

definition hmap_ok :: "('k, 'v) hmap \<Rightarrow> bool" where
  "hmap_ok m \<longleftrightarrow> distinct (map fst m)"

text \<open>What a client of a map relies on, whichever map it is.\<close>

locale map_store =
  fixes empty :: "'m"
    and insert :: "'k \<Rightarrow> 'v \<Rightarrow> 'm \<Rightarrow> 'm"
    and lookup :: "'m \<Rightarrow> 'k \<Rightarrow> 'v option"
    and invar :: "'m \<Rightarrow> bool"
  assumes invar_empty: "invar empty"
    and invar_insert: "invar m \<Longrightarrow> invar (insert k v m)"
    and lookup_empty: "lookup empty k = None"
    and lookup_insert: "invar m \<Longrightarrow> lookup (insert k v m) k' = (if k' = k then Some v else lookup m k')"
begin

lemma invar_build: "invar m \<Longrightarrow> invar (foldl (\<lambda>m (k, v). insert k v m) m kvs)"
  by (induction kvs arbitrary: m) (auto simp: invar_insert)

text \<open>Building by repeated insertion: the last binding of a key wins.\<close>

lemma lookup_build:
  "invar m \<Longrightarrow> lookup (foldl (\<lambda>m (k, v). insert k v m) m kvs) k =
     (case map_of (rev kvs) k of None \<Rightarrow> lookup m k | Some v \<Rightarrow> Some v)"
proof (induction kvs rule: rev_induct)
  case Nil
  then show ?case by simp
next
  case (snoc kv kvs)
  then show ?case
    by (cases kv) (auto simp: lookup_insert invar_build)
qed

end

locale map_store_remove = map_store +
  fixes remove :: "'k \<Rightarrow> 'm \<Rightarrow> 'm"
  assumes invar_remove: "invar m \<Longrightarrow> invar (remove k m)"
    and lookup_remove: "invar m \<Longrightarrow> lookup (remove k m) k' = (if k' = k then None else lookup m k')"
begin

lemma insert_after_remove:
  "invar m \<Longrightarrow> lookup (insert k v (remove k m)) = lookup (insert k v m)"
  by (auto simp: fun_eq_iff lookup_insert lookup_remove invar_remove)

end

lemma btree_insert_keys: "fst ` set (btree_insert k v m) = Set.insert k (fst ` set m)"
  by (induction k v m rule: btree_insert.induct) (simp_all add: insert_commute)

lemma btree_insert_ok: "btree_ok m \<Longrightarrow> btree_ok (btree_insert k v m)"
proof (induction m)
  case (Cons p m)
  then have "btree_ok m" by (simp add: btree_ok_def)
  note IH = Cons.IH [OF this]
  show ?case
  proof (cases "k < fst p")
    case True
    with Cons.prems show ?thesis by (cases p) (auto simp: btree_ok_def)
  next
    case False
    have "x \<in> Set.insert k (fst ` set m)" if "x \<in> fst ` set (btree_insert k v m)" for x
      using that by (simp only: btree_insert_keys)
    with False IH Cons.prems show ?thesis
      by (cases p) (fastforce simp: btree_ok_def not_less)
  qed
qed (simp add: btree_ok_def)

lemma btree_lookup_insert:
  "map_of (btree_insert k v m) k' = (if k' = k then Some v else map_of m k')"
  by (induction m) auto

lemma hmap_keys_remove: "map fst (hmap_remove k m) = filter (\<lambda>x. x \<noteq> k) (map fst m)"
  by (induction m) (auto simp: hmap_remove_def)

lemma hmap_lookup_remove: "map_of (hmap_remove k m) k' = (if k' = k then None else map_of m k')"
  by (induction m) (auto simp: hmap_remove_def)

interpretation bt: map_store "[]" btree_insert map_of btree_ok
  by unfold_locales (auto simp: btree_ok_def [of "[]"] btree_insert_ok btree_lookup_insert)

interpretation hm: map_store_remove "[]" hmap_insert map_of hmap_ok hmap_remove
  by unfold_locales
    (auto simp: hmap_ok_def hmap_insert_def hmap_keys_remove hmap_lookup_remove)

section \<open>Closed vocabularies\<close>

text \<open>An enum with a stable spelling: \<open>as_str\<close> prints, \<open>parse\<close> reads, \<open>all\<close> enumerates.\<close>

locale closed_vocabulary =
  fixes as_str :: "'a \<Rightarrow> string"
    and parse :: "string \<Rightarrow> 'a option"
    and all :: "'a list"
  assumes parse_as_str: "parse (as_str c) = Some c"
    and parse_sound: "parse s = Some c \<Longrightarrow> s = as_str c"
    and all_complete: "c \<in> set all"
    and all_distinct: "distinct all"
begin

lemma as_str_inj: "as_str c = as_str d \<longleftrightarrow> c = d"
proof
  assume "as_str c = as_str d"
  then have "parse (as_str c) = parse (as_str d)" by (rule arg_cong)
  then show "c = d" by (simp add: parse_as_str)
qed simp

lemma parse_iff: "parse s = Some c \<longleftrightarrow> s = as_str c"
  using parse_sound parse_as_str by blast

lemma parse_None_iff: "parse s = None \<longleftrightarrow> s \<notin> set (map as_str all)"
proof (cases "parse s")
  case None
  then have "s \<noteq> as_str c" for c by (auto simp: parse_as_str)
  with None show ?thesis by auto
next
  case (Some c)
  then have "s = as_str c" by (rule parse_sound)
  with Some all_complete show ?thesis by auto
qed

lemma spellings_distinct: "distinct (map as_str all)"
  using all_distinct by (simp add: distinct_map inj_on_def as_str_inj)

end

section \<open>Stream passes\<close>

locale stream_fold =
  fixes step :: "'s \<Rightarrow> 'e \<Rightarrow> 's"
    and inv :: "'s \<Rightarrow> bool"
  assumes inv_step: "inv s \<Longrightarrow> inv (step s e)"
begin

lemma inv_run: "inv s \<Longrightarrow> inv (foldl step s es)"
  by (induction es arbitrary: s) (auto simp: inv_step)

end

locale counting_fold = stream_fold step inv
  for step :: "'s \<Rightarrow> 'e \<Rightarrow> 's" and inv :: "'s \<Rightarrow> bool" +
  fixes tally :: "'s \<Rightarrow> nat"
    and weight :: "'e \<Rightarrow> nat"
  assumes tally_step: "inv s \<Longrightarrow> tally (step s e) = tally s + weight e"
begin

lemma tally_run: "inv s \<Longrightarrow> tally (foldl step s es) = tally s + sum_list (map weight es)"
  by (induction es arbitrary: s) (auto simp: tally_step inv_step)

end

section \<open>Step relations\<close>

locale step_system =
  fixes step :: "'s \<Rightarrow> 's \<Rightarrow> bool"
    and initial :: "'s \<Rightarrow> bool"
    and inv :: "'s \<Rightarrow> bool"
  assumes inv_initial: "initial s \<Longrightarrow> inv s"
    and inv_step: "step s s' \<Longrightarrow> inv s \<Longrightarrow> inv s'"
begin

lemma inv_reachable:
  assumes "step\<^sup>*\<^sup>* s s'" "initial s"
  shows "inv s'"
  using assms by (induction rule: rtranclp_induct) (auto intro: inv_initial inv_step)

end

lemma sum_list_indicator: "sum_list (map (\<lambda>e. if P e then 1 else 0) es) = length (filter P es)"
  by (induction es) auto

end
