(* ===== verification/Events.thy ===== *)
theory Events
  imports Prelude
begin

text \<open>
  The data model of \<open>crates/starstats-core/src/events.rs\<close>: one record per event struct, one datatype
  per enum, the tagged union \<open>game_event\<close>, and the two readers every other component uses, the place
  an event names (\<open>location_raw\<close>) and its timestamp (\<open>timestamp_of\<close>, from \<open>inference.rs\<close>).  Records
  share field names as the structs do; a field is written with its record's name
  (\<open>player_death.zone\<close>) wherever several records have it.
\<close>

section \<open>Event payloads\<close>

datatype server_phase = Start | End
datatype quantum_target_phase = FuelRequested | Selected
datatype equip_action = Equip | Store
datatype launcher_category = Auth | Install | Patch | Update | Error | Info
datatype mission_marker_kind = Phase | Objective
datatype mission_objective_state = InProgress | Completed | Failed | Withdrawn | Unknown
datatype session_end_kind = SystemQuit | FastShutdown

record loadout_item =
  "class" :: string
  port :: string
  category :: string

record process_init =
  timestamp :: string
  local_session :: string
  env_session :: string
  online :: bool

record legacy_login =
  timestamp :: string
  handle :: string
  server_time :: "string option"

record join_pu =
  timestamp :: string
  address :: string
  port :: u16
  shard :: string
  location_id :: string

record change_server =
  timestamp :: string
  phase :: server_phase
  is_shard_persisted :: bool
  is_server :: bool
  is_multiplayer :: bool
  is_online :: "bool option"

record seed_solar_system =
  timestamp :: string
  solar_system :: string
  shard :: string
  success :: bool

record resolve_spawn =
  timestamp :: string
  player_geid :: string
  fallback :: bool

record player_death =
  timestamp :: string
  body_class :: string
  body_id :: string
  zone :: "string option"

record player_incapacitated =
  timestamp :: string
  queue_id :: u64
  zone :: "string option"

record actor_death =
  timestamp :: string
  victim :: string
  victim_geid :: "string option"
  zone :: string
  killer :: string
  killer_geid :: "string option"
  weapon :: string
  damage_type :: string

record actor_ejected =
  timestamp :: string
  actor :: string
  actor_geid :: "string option"
  vehicle_class :: string
  vehicle_id :: "string option"
  to_zone :: string

record vehicle_destruction =
  timestamp :: string
  vehicle_class :: string
  vehicle_id :: "string option"
  destroy_level :: u8
  caused_by :: string
  zone :: "string option"

record hud_notification =
  timestamp :: string
  "text" :: string
  notification_id :: u64
  mission_id :: "string option"
  objective_id :: "string option"

record location_inventory_requested =
  timestamp :: string
  player :: string
  location :: string

record planet_terrain_load =
  timestamp :: string
  planet :: string

record quantum_target_selected =
  timestamp :: string
  phase :: quantum_target_phase
  vehicle_class :: string
  vehicle_id :: string
  destination :: string

record quantum_route =
  timestamp :: string
  start_system :: string
  destination :: string
  vehicle_class :: string
  vehicle_id :: string

record quantum_arrived =
  timestamp :: string
  vehicle_class :: string
  vehicle_id :: string

record mission_quantum_destination_selected =
  timestamp :: string
  beacon_id :: string
  is_mission_destination :: bool
  travel_confirmed :: bool

record travel_to_contract_location =
  timestamp :: string
  beacon_id :: string
  travel_started :: bool
  travel_completed :: bool

record vehicle_stowed =
  timestamp :: string
  vehicle_id :: string
  landing_area :: string
  landing_area_id :: string
  zone_host_id :: "string option"

record attachment_received =
  timestamp :: string
  player :: string
  item_class :: string
  item_id :: string
  status :: string
  port :: string
  elapsed_seconds :: flt

record item_equip_change =
  timestamp :: string
  action :: equip_action
  item_class :: string
  port :: "string option"
  items_count :: "u32 option"

record game_crash =
  timestamp :: string
  channel :: string
  crash_dir_name :: string
  primary_log_name :: "string option"
  total_size_bytes :: u64

record launcher_activity =
  timestamp :: string
  level :: string
  message :: string
  category :: launcher_category

record mission_start =
  timestamp :: string
  mission_id :: string
  marker_kind :: mission_marker_kind
  mission_name :: "string option"

record mission_end =
  timestamp :: string
  mission_id :: "string option"
  outcome :: "string option"

record mission_objective =
  timestamp :: string
  objective_id :: string
  mission_id :: "string option"
  state :: "mission_objective_state option"
  "text" :: "string option"

record shop_buy_request =
  timestamp :: string
  shop_id :: "string option"
  item_class :: "string option"
  quantity :: "u32 option"
  raw :: string
  price :: "i64 option"
  shop_name :: "string option"

record shop_flow_response =
  timestamp :: string
  shop_id :: "string option"
  success :: "bool option"
  raw :: string

record commodity_buy_request =
  timestamp :: string
  commodity :: "string option"
  quantity :: "flt option"
  raw :: string

record commodity_sell_request =
  timestamp :: string
  commodity :: "string option"
  quantity :: "flt option"
  raw :: string

record session_end =
  timestamp :: string
  kind :: session_end_kind

record remote_match =
  timestamp :: string
  rule_id :: string
  event_name :: string
  fields_map :: "(string, string) btree"

record burst_summary =
  timestamp :: string
  rule_id :: string
  size :: u32
  end_timestamp :: string
  anchor_body_sample :: "string option"
  kind :: "string option"
  categories :: "(string, u64) hmap option"
  items :: "(loadout_item list) option"

record location_changed =
  timestamp :: string
  "from" :: "string option"
  to :: string

record shop_request_timed_out =
  timestamp :: string
  shop_id :: "string option"
  item_class :: "string option"
  timed_out_after_secs :: u32

datatype game_event =
    ProcessInit process_init
  | LegacyLogin legacy_login
  | JoinPu join_pu
  | ChangeServer change_server
  | SeedSolarSystem seed_solar_system
  | ResolveSpawn resolve_spawn
  | ActorDeath actor_death
  | PlayerDeath player_death
  | PlayerIncapacitated player_incapacitated
  | VehicleDestruction vehicle_destruction
  | ActorEjected actor_ejected
  | HudNotification hud_notification
  | LocationInventoryRequested location_inventory_requested
  | PlanetTerrainLoad planet_terrain_load
  | QuantumTargetSelected quantum_target_selected
  | AttachmentReceived attachment_received
  | VehicleStowed vehicle_stowed
  | GameCrash game_crash
  | LauncherActivity launcher_activity
  | MissionStart mission_start
  | MissionEnd mission_end
  | ShopBuyRequest shop_buy_request
  | ShopFlowResponse shop_flow_response
  | CommodityBuyRequest commodity_buy_request
  | CommoditySellRequest commodity_sell_request
  | SessionEnd session_end
  | RemoteMatch remote_match
  | BurstSummary burst_summary
  | LocationChanged location_changed
  | ShopRequestTimedOut shop_request_timed_out
  | MissionObjective mission_objective
  | QuantumRoute quantum_route
  | QuantumArrived quantum_arrived
  | ItemEquipChange item_equip_change
  | MissionQuantumDestinationSelected mission_quantum_destination_selected
  | TravelToContractLocation travel_to_contract_location

section \<open>Readers\<close>

definition location_raw :: "game_event \<Rightarrow> string option" where
  "location_raw ev =
     (case ev of
        LocationInventoryRequested e \<Rightarrow> Some (location_inventory_requested.location e)
      | PlanetTerrainLoad e \<Rightarrow> Some (planet_terrain_load.planet e)
      | QuantumTargetSelected e \<Rightarrow> Some (quantum_target_selected.destination e)
      | VehicleStowed e \<Rightarrow> Some (vehicle_stowed.landing_area e)
      | LocationChanged e \<Rightarrow> Some (location_changed.to e)
      | ActorDeath e \<Rightarrow> Some (actor_death.zone e)
      | PlayerDeath e \<Rightarrow> player_death.zone e
      | PlayerIncapacitated e \<Rightarrow> player_incapacitated.zone e
      | _ \<Rightarrow> None)"

primrec timestamp_of :: "game_event \<Rightarrow> string" where
  "timestamp_of (ProcessInit e) = process_init.timestamp e"
| "timestamp_of (LegacyLogin e) = legacy_login.timestamp e"
| "timestamp_of (JoinPu e) = join_pu.timestamp e"
| "timestamp_of (ChangeServer e) = change_server.timestamp e"
| "timestamp_of (SeedSolarSystem e) = seed_solar_system.timestamp e"
| "timestamp_of (ResolveSpawn e) = resolve_spawn.timestamp e"
| "timestamp_of (ActorDeath e) = actor_death.timestamp e"
| "timestamp_of (PlayerDeath e) = player_death.timestamp e"
| "timestamp_of (PlayerIncapacitated e) = player_incapacitated.timestamp e"
| "timestamp_of (VehicleDestruction e) = vehicle_destruction.timestamp e"
| "timestamp_of (ActorEjected e) = actor_ejected.timestamp e"
| "timestamp_of (HudNotification e) = hud_notification.timestamp e"
| "timestamp_of (LocationInventoryRequested e) = location_inventory_requested.timestamp e"
| "timestamp_of (PlanetTerrainLoad e) = planet_terrain_load.timestamp e"
| "timestamp_of (QuantumTargetSelected e) = quantum_target_selected.timestamp e"
| "timestamp_of (AttachmentReceived e) = attachment_received.timestamp e"
| "timestamp_of (VehicleStowed e) = vehicle_stowed.timestamp e"
| "timestamp_of (GameCrash e) = game_crash.timestamp e"
| "timestamp_of (LauncherActivity e) = launcher_activity.timestamp e"
| "timestamp_of (MissionStart e) = mission_start.timestamp e"
| "timestamp_of (MissionEnd e) = mission_end.timestamp e"
| "timestamp_of (ShopBuyRequest e) = shop_buy_request.timestamp e"
| "timestamp_of (ShopFlowResponse e) = shop_flow_response.timestamp e"
| "timestamp_of (CommodityBuyRequest e) = commodity_buy_request.timestamp e"
| "timestamp_of (CommoditySellRequest e) = commodity_sell_request.timestamp e"
| "timestamp_of (SessionEnd e) = session_end.timestamp e"
| "timestamp_of (RemoteMatch e) = remote_match.timestamp e"
| "timestamp_of (BurstSummary e) = burst_summary.timestamp e"
| "timestamp_of (LocationChanged e) = location_changed.timestamp e"
| "timestamp_of (ShopRequestTimedOut e) = shop_request_timed_out.timestamp e"
| "timestamp_of (MissionObjective e) = mission_objective.timestamp e"
| "timestamp_of (QuantumRoute e) = quantum_route.timestamp e"
| "timestamp_of (QuantumArrived e) = quantum_arrived.timestamp e"
| "timestamp_of (ItemEquipChange e) = item_equip_change.timestamp e"
| "timestamp_of (MissionQuantumDestinationSelected e) = mission_quantum_destination_selected.timestamp e"
| "timestamp_of (TravelToContractLocation e) = travel_to_contract_location.timestamp e"

end
