(* ===== verification/Transactions.thy ===== *)
theory Transactions
  imports Events
begin

text \<open>
  Transaction pairing (\<open>crates/starstats-core/src/transactions.rs\<close>): shop requests and responses are joined
  by a greedy scan, commodity requests pass through, unanswered requests age out against a clock that
  is read by hand from ISO-like strings.  The lemmas show that the scan pairs each response at most once
  and only with an earlier request of the same shop, that it leaves no request unanswered that a
  spare response could answer, that every request yields exactly one row, and that the day count of
  the clock is the count of the proleptic Gregorian calendar.
\<close>

section \<open>Data\<close>

datatype transaction_kind = Shop | CommodityBuy | CommoditySell

datatype transaction_status = Pending | Confirmed | Rejected | TimedOut | Submitted

record transaction =
  kind :: transaction_kind
  status :: transaction_status
  started_at :: string
  confirmed_at :: "string option"
  shop_id :: "string option"
  item :: "string option"
  quantity :: "flt option"
  raw_request :: string
  raw_response :: "string option"

definition COMMERCE_EVENT_TYPES :: "string list" where
  "COMMERCE_EVENT_TYPES =
     [''shop_buy_request'', ''shop_flow_response'', ''commodity_buy_request'', ''commodity_sell_request'']"

section \<open>The clock\<close>

text \<open>Hinnant's algorithm in \<open>i64\<close>/\<open>u64\<close> arithmetic, with the wrap-around of a release build.\<close>

definition days_from_civil :: "i64 \<Rightarrow> i64 \<Rightarrow> i64 \<Rightarrow> i64" where
  "days_from_civil y0 m d =
     (let y = (if m \<le> 2 then wrap_i64 (y0 - 1) else y0);
          era = tdiv (if 0 \<le> y then y else wrap_i64 (y - 399)) 400;
          yoe = wrap_u64 (y - era * 400);
          m_u = wrap_u64 m;
          d_u = wrap_u64 d;
          doy = wrap_u64 (wrap_u64 (153 * (if 2 < m_u then m_u - 3 else m_u + 9) + 2) div 5 + d_u - 1);
          doe = wrap_u64 (yoe * 365 + yoe div 4 - yoe div 100 + doy)
      in wrap_i64 (era * 146097 + wrap_i64 doe - 719468))"

definition before_char :: "char \<Rightarrow> string \<Rightarrow> string" where
  "before_char c s = takeWhile (\<lambda>x. x \<noteq> c) s"

definition parse_iso_secs :: "string \<Rightarrow> i64 option" where
  "parse_iso_secs s =
     (if s = [] then None
      else
        let normalised = map (\<lambda>c. if c = CHR ''T'' then CHR '' '' else c) s;
            primary = trim (before_char CHR ''Z''
                        (before_char CHR ''+'' (before_char CHR ''.'' normalised)))
        in case map parse_i64 (split_on (\<lambda>c. c \<in> {CHR '' '', CHR ''-'', CHR '':''}) primary) of
             Some y # Some mo # Some d # Some h # Some mi # Some se # _ \<Rightarrow>
               Some (wrap_i64 (days_from_civil y mo d * 86400 + h * 3600 + mi * 60 + se))
           | _ \<Rightarrow> None)"

definition age_status :: "string \<Rightarrow> i64 option \<Rightarrow> i64 \<Rightarrow> transaction_status" where
  "age_status started now_secs window_secs =
     (case (now_secs, parse_iso_secs started) of
        (Some now, Some start) \<Rightarrow> if window_secs < wrap_i64 (now - start) then TimedOut else Pending
      | _ \<Rightarrow> Pending)"

section \<open>Pairing\<close>

definition shop_ids_agree :: "shop_flow_response \<Rightarrow> shop_buy_request \<Rightarrow> bool" where
  "shop_ids_agree resp req =
     (case (shop_flow_response.shop_id resp, shop_buy_request.shop_id req) of
        (Some a, Some b) \<Rightarrow> a = b
      | _ \<Rightarrow> True)"

text \<open>The request a response is matched to: among the requests that are not yet paired, agree on the
  shop and are not later than the response, the (last) one with the greatest timestamp.\<close>

definition pick_request ::
  "shop_buy_request list \<Rightarrow> shop_flow_response option list \<Rightarrow> shop_flow_response \<Rightarrow> nat option" where
  "pick_request reqs paired resp =
     max_by_last (\<lambda>i. shop_buy_request.timestamp (reqs ! i))
       (filter (\<lambda>i. shop_buy_request.timestamp (reqs ! i) \<le> shop_flow_response.timestamp resp)
          (filter (\<lambda>i. if paired ! i \<noteq> None then False else shop_ids_agree resp (reqs ! i))
             [0..<length reqs]))"

definition pair_step ::
  "shop_buy_request list \<Rightarrow> shop_flow_response option list \<Rightarrow> shop_flow_response
     \<Rightarrow> shop_flow_response option list" where
  "pair_step reqs paired resp =
     (case pick_request reqs paired resp of
        None \<Rightarrow> paired
      | Some i \<Rightarrow> paired[i := Some resp])"

definition pair_responses ::
  "shop_buy_request list \<Rightarrow> shop_flow_response list \<Rightarrow> shop_flow_response option list" where
  "pair_responses reqs resps = foldl (pair_step reqs) (replicate (length reqs) None) resps"

definition shop_status ::
  "shop_buy_request \<Rightarrow> shop_flow_response option \<Rightarrow> i64 option \<Rightarrow> i64 \<Rightarrow> transaction_status" where
  "shop_status req resp now_secs window_secs =
     (case resp of
        None \<Rightarrow> age_status (shop_buy_request.timestamp req) now_secs window_secs
      | Some r \<Rightarrow>
          (case shop_flow_response.success r of
             Some True \<Rightarrow> Confirmed
           | Some False \<Rightarrow> Rejected
           | None \<Rightarrow> Confirmed))"

definition shop_transaction ::
  "i64 option \<Rightarrow> i64 \<Rightarrow> shop_buy_request \<Rightarrow> shop_flow_response option \<Rightarrow> transaction" where
  "shop_transaction now_secs window_secs req resp =
     \<lparr>kind = Shop,
      status = shop_status req resp now_secs window_secs,
      started_at = shop_buy_request.timestamp req,
      confirmed_at = map_option shop_flow_response.timestamp resp,
      shop_id = shop_buy_request.shop_id req,
      item = shop_buy_request.item_class req,
      quantity = map_option (\<lambda>q. Fin (of_nat (unat q))) (shop_buy_request.quantity req),
      raw_request = shop_buy_request.raw req,
      raw_response = map_option shop_flow_response.raw resp\<rparr>"

definition commodity_buy_transaction :: "commodity_buy_request \<Rightarrow> transaction" where
  "commodity_buy_transaction buy =
     \<lparr>kind = CommodityBuy, status = Submitted, started_at = commodity_buy_request.timestamp buy,
      confirmed_at = None, shop_id = None, item = commodity_buy_request.commodity buy,
      quantity = commodity_buy_request.quantity buy, raw_request = commodity_buy_request.raw buy,
      raw_response = None\<rparr>"

definition commodity_sell_transaction :: "commodity_sell_request \<Rightarrow> transaction" where
  "commodity_sell_transaction sell =
     \<lparr>kind = CommoditySell, status = Submitted, started_at = commodity_sell_request.timestamp sell,
      confirmed_at = None, shop_id = None, item = commodity_sell_request.commodity sell,
      quantity = commodity_sell_request.quantity sell, raw_request = commodity_sell_request.raw sell,
      raw_response = None\<rparr>"

definition shop_requests :: "game_event list \<Rightarrow> shop_buy_request list" where
  "shop_requests events = List.map_filter (\<lambda>ev. case ev of ShopBuyRequest r \<Rightarrow> Some r | _ \<Rightarrow> None) events"

definition shop_responses :: "game_event list \<Rightarrow> shop_flow_response list" where
  "shop_responses events = List.map_filter (\<lambda>ev. case ev of ShopFlowResponse r \<Rightarrow> Some r | _ \<Rightarrow> None) events"

definition commodity_buys :: "game_event list \<Rightarrow> commodity_buy_request list" where
  "commodity_buys events =
     List.map_filter (\<lambda>ev. case ev of CommodityBuyRequest r \<Rightarrow> Some r | _ \<Rightarrow> None) events"

definition commodity_sells :: "game_event list \<Rightarrow> commodity_sell_request list" where
  "commodity_sells events =
     List.map_filter (\<lambda>ev. case ev of CommoditySellRequest r \<Rightarrow> Some r | _ \<Rightarrow> None) events"

definition pair_transactions :: "game_event list \<Rightarrow> string \<Rightarrow> i64 \<Rightarrow> transaction list" where
  "pair_transactions events now window_secs =
     (let reqs = shop_requests events;
          paired = pair_responses reqs (shop_responses events);
          now_secs = parse_iso_secs now;
          out = map2 (shop_transaction now_secs window_secs) reqs paired
                @ map commodity_buy_transaction (commodity_buys events)
                @ map commodity_sell_transaction (commodity_sells events)
      in sort_key transaction.started_at out)"

section \<open>The scan\<close>

definition can_answer :: "shop_flow_response \<Rightarrow> shop_buy_request \<Rightarrow> bool" where
  "can_answer resp req \<longleftrightarrow>
     shop_ids_agree resp req \<and> shop_buy_request.timestamp req \<le> shop_flow_response.timestamp resp"

lemma can_answer_spelled:
  "can_answer resp req \<longleftrightarrow> shop_buy_request.timestamp req \<le> shop_flow_response.timestamp resp \<and>
     (\<forall>a b. shop_flow_response.shop_id resp = Some a \<longrightarrow> shop_buy_request.shop_id req = Some b \<longrightarrow> a = b)"
  by (auto simp: can_answer_def shop_ids_agree_def split: option.splits)

abbreviation (input) req_time :: "shop_buy_request list \<Rightarrow> nat \<Rightarrow> string" where
  "req_time reqs i \<equiv> shop_buy_request.timestamp (reqs ! i)"

lemma pick_request_Some:
  assumes "pick_request reqs paired resp = Some i"
  shows "i < length reqs" "paired ! i = None" "can_answer resp (reqs ! i)"
    "\<And>j. j < length reqs \<Longrightarrow> paired ! j = None \<Longrightarrow> can_answer resp (reqs ! j) \<Longrightarrow>
       req_time reqs j \<le> req_time reqs i"
  using max_by_last_Some [OF assms [unfolded pick_request_def]]
  by (auto simp: can_answer_def split: if_splits)

lemma pick_request_None:
  "pick_request reqs paired resp = None \<Longrightarrow> j < length reqs \<Longrightarrow> paired ! j = None \<Longrightarrow>
     \<not> can_answer resp (reqs ! j)"
  by (auto simp: pick_request_def can_answer_def filter_empty_conv)

lemma length_pair_step [simp]: "length (pair_step reqs paired resp) = length paired"
  by (simp add: pair_step_def split: option.splits)

lemma pair_responses_Nil [simp]: "pair_responses reqs [] = replicate (length reqs) None"
  by (simp add: pair_responses_def)

lemma pair_responses_snoc:
  "pair_responses reqs (resps @ [r]) = pair_step reqs (pair_responses reqs resps) r"
  by (simp add: pair_responses_def)

lemma length_pair_responses [simp]: "length (pair_responses reqs resps) = length reqs"
  by (induction resps rule: rev_induct) (simp_all add: pair_responses_snoc)

text \<open>The responses in use, as a multiset: filling a free slot adds one.\<close>

definition used_responses :: "'a option list \<Rightarrow> 'a multiset" where
  "used_responses paired = mset (List.map_filter (\<lambda>x. x) paired)"

lemma used_responses_update:
  assumes "i < length paired" "paired ! i = None"
  shows "used_responses (paired[i := Some r]) = add_mset r (used_responses paired)"
proof -
  have split: "paired = take i paired @ None # drop (Suc i) paired"
    using assms by (metis id_take_nth_drop)
  have upd: "paired[i := Some r] = take i paired @ Some r # drop (Suc i) paired"
    using assms(1) by (rule upd_conv_take_nth_drop)
  show ?thesis
    by (subst split, subst upd) (simp add: used_responses_def List.map_filter_def)
qed

lemma used_responses_replicate [simp]: "used_responses (replicate n None) = {#}"
  by (simp add: used_responses_def List.map_filter_def)

lemma used_responses_le: "used_responses (pair_responses reqs resps) \<subseteq># mset resps"
proof (induction resps rule: rev_induct)
  case (snoc r resps)
  show ?case
  proof (cases "pick_request reqs (pair_responses reqs resps) r")
    case None
    then have "used_responses (pair_responses reqs (resps @ [r])) = used_responses (pair_responses reqs resps)"
      by (simp add: pair_responses_snoc pair_step_def)
    also note snoc.IH
    also have "mset resps \<subseteq># mset (resps @ [r])" by simp
    finally show ?thesis .
  next
    case (Some i)
    with pick_request_Some [OF Some] snoc.IH show ?thesis
      by (simp add: pair_responses_snoc pair_step_def used_responses_update)
  qed
qed simp

lemma pair_responses_valid:
  "i < length reqs \<Longrightarrow> pair_responses reqs resps ! i = Some r \<Longrightarrow> can_answer r (reqs ! i)"
proof (induction resps arbitrary: i r rule: rev_induct)
  case (snoc r' resps)
  show ?case
  proof (cases "pick_request reqs (pair_responses reqs resps) r'")
    case None
    with snoc show ?thesis by (simp add: pair_responses_snoc pair_step_def)
  next
    case (Some k)
    with snoc pick_request_Some [OF Some] show ?thesis
      by (cases "i = k") (simp_all add: pair_responses_snoc pair_step_def)
  qed
qed simp

lemma pair_step_keeps:
  assumes "length paired = length reqs" "paired ! j = Some r"
  shows "pair_step reqs paired r' ! j = Some r"
proof (cases "pick_request reqs paired r'")
  case None
  with assms show ?thesis by (simp add: pair_step_def)
next
  case (Some k)
  with pick_request_Some(2) [OF Some] assms show ?thesis
    by (cases "j = k") (simp_all add: pair_step_def)
qed

text \<open>A request that is free at the end was free at every step, so a response that could answer it
  was given to a request at least as late.\<close>

lemma pair_responses_greedy:
  assumes "i < length reqs" "pair_responses reqs resps ! i = None"
    and "r \<in> set resps" "can_answer r (reqs ! i)"
  shows "\<exists>j < length reqs. pair_responses reqs resps ! j = Some r \<and> req_time reqs i \<le> req_time reqs j"
  using assms
proof (induction resps rule: rev_induct)
  case (snoc r' resps)
  let ?before = "pair_responses reqs resps" and ?after = "pair_step reqs (pair_responses reqs resps) r'"
  have free: "?before ! i = None"
    using snoc.prems(2) pair_step_keeps [of ?before reqs i]
    by (cases "?before ! i") (auto simp: pair_responses_snoc)
  show ?case
  proof (cases "r \<in> set resps")
    case True
    with snoc.IH snoc.prems(1,4) free obtain j where
      "j < length reqs" "?before ! j = Some r" "req_time reqs i \<le> req_time reqs j" by blast
    then show ?thesis
      using pair_step_keeps [of ?before reqs j r r'] by (auto simp: pair_responses_snoc)
  next
    case False
    with snoc.prems(3) have "r' = r" by simp
    with pick_request_None [of reqs ?before r] snoc.prems(1,4) free
    obtain k where k: "pick_request reqs ?before r = Some k" by fastforce
    with pick_request_Some [OF k] snoc.prems(1,4) free \<open>r' = r\<close> show ?thesis
      by (intro exI [of _ k]) (simp add: pair_responses_snoc pair_step_def)
  qed
qed simp

section \<open>Rows\<close>

definition request_raw :: "game_event \<Rightarrow> string option" where
  "request_raw ev =
     (case ev of
        ShopBuyRequest r \<Rightarrow> Some (shop_buy_request.raw r)
      | CommodityBuyRequest r \<Rightarrow> Some (commodity_buy_request.raw r)
      | CommoditySellRequest r \<Rightarrow> Some (commodity_sell_request.raw r)
      | _ \<Rightarrow> None)"

lemma map_raw_request_shop:
  "length reqs = length paired \<Longrightarrow>
     map raw_request (map2 (shop_transaction now w) reqs paired) = map shop_buy_request.raw reqs"
  by (induction reqs paired rule: list_induct2) (simp_all add: shop_transaction_def)

lemma request_raws_split:
  "mset (List.map_filter request_raw events) =
     mset (map shop_buy_request.raw (shop_requests events)) +
     mset (map commodity_buy_request.raw (commodity_buys events)) +
     mset (map commodity_sell_request.raw (commodity_sells events))"
proof (induction events)
  case (Cons ev events)
  then show ?case
    by (cases ev)
      (simp_all add: request_raw_def shop_requests_def commodity_buys_def commodity_sells_def
        List.map_filter_simps)
qed (simp add: request_raw_def shop_requests_def commodity_buys_def commodity_sells_def
    List.map_filter_simps)

lemma shop_transaction_shape:
  "tx = shop_transaction now w req resp \<Longrightarrow>
     kind tx = Shop \<and> status tx \<noteq> Submitted \<and>
     (confirmed_at tx = None \<longleftrightarrow> raw_response tx = None) \<and>
     (status tx \<in> {Confirmed, Rejected} \<longleftrightarrow> raw_response tx \<noteq> None) \<and>
     (status tx = TimedOut \<longrightarrow> now \<noteq> None)"
  by (auto simp: shop_transaction_def shop_status_def age_status_def split: option.splits bool.splits)

lemma pair_transactions_cases:
  assumes "tx \<in> set (pair_transactions events now w)"
  shows "(\<exists>req resp. tx = shop_transaction (parse_iso_secs now) w req resp) \<or>
         (\<exists>buy. tx = commodity_buy_transaction buy) \<or> (\<exists>sell. tx = commodity_sell_transaction sell)"
  using assms by (auto simp: pair_transactions_def Let_def)

section \<open>The calendar\<close>

definition leap_year :: "nat \<Rightarrow> bool" where
  "leap_year y \<longleftrightarrow> 4 dvd y \<and> (100 dvd y \<longrightarrow> 400 dvd y)"

definition month_length :: "nat \<Rightarrow> nat \<Rightarrow> nat" where
  "month_length y m =
     (if m = 2 then (if leap_year y then 29 else 28)
      else if m \<in> {4, 6, 9, 11} then 30 else 31)"

text \<open>Days from the first of January of year 0 to a date of the proleptic Gregorian calendar.\<close>

definition calendar_days :: "nat \<Rightarrow> nat \<Rightarrow> nat \<Rightarrow> nat" where
  "calendar_days y m d =
     (\<Sum>k<y. if leap_year k then 366 else 365) + (\<Sum>k=1..<m. month_length y k) + (d - 1)"

lemma ceil_div_Suc: "0 < k \<Longrightarrow> (Suc y + (k - 1)) div k = (y + (k - 1)) div k + (if k dvd y then 1 else 0)"
  for y k :: nat
proof -
  assume k: "0 < k"
  have "Suc y + (k - 1) = y + k" using k by simp
  moreover have "(y + (k - 1)) div k = y div k + (if k dvd y then 0 else 1)"
  proof (cases "k dvd y")
    case True
    then obtain c where "y = c * k" by (auto simp: dvd_def mult.commute)
    moreover have "(k - 1 + c * k) div k = c + (k - 1) div k"
      using k by (intro div_mult_self1) simp
    ultimately show ?thesis using k by (simp add: add.commute)
  next
    case False
    then have r: "0 < y mod k" "y mod k < k" using k by (simp_all add: mod_greater_zero_iff_not_dvd)
    have "y + (k - 1) = (y div k) * k + (y mod k + (k - 1))" by simp
    moreover have "(y mod k + (k - 1)) div k = 1"
    proof -
      obtain c where c: "y mod k = Suc c" using r by (cases "y mod k") auto
      then have "y mod k + (k - 1) = k + c" using k by simp
      moreover have "c < k" using c r by simp
      ultimately show ?thesis using k by (simp add: div_add_self1)
    qed
    ultimately have "(y + (k - 1)) div k = y div k + 1"
      using k by (metis div_mult_self3 less_not_refl)
    with False show ?thesis by simp
  qed
  ultimately show ?thesis using k by simp
qed

lemma years_closed_form:
  "(\<Sum>k<y. if leap_year k then 366 else 365) + (y + 99) div 100 =
     365 * y + (y + 3) div 4 + (y + 399) div 400"
proof (induction y)
  case (Suc y)
  have four: "100 dvd y \<Longrightarrow> 4 dvd y" "400 dvd y \<Longrightarrow> 100 dvd y" by presburger+
  have "(Suc y + 3) div 4 = (y + 3) div 4 + (if 4 dvd y then 1 else 0)"
    "(Suc y + 99) div 100 = (y + 99) div 100 + (if 100 dvd y then 1 else 0)"
    "(Suc y + 399) div 400 = (y + 399) div 400 + (if 400 dvd y then 1 else 0)"
    using ceil_div_Suc [of 4 y] ceil_div_Suc [of 100 y] ceil_div_Suc [of 400 y] by simp_all
  with Suc four show ?case by (auto simp: leap_year_def)
qed simp

lemma year_days_from_march:
  "(\<Sum>k<y. if leap_year k then 366 else 365) + (if leap_year y then 60 else 59) + y div 100 =
     365 * y + y div 4 + y div 400 + 60"
  using years_closed_form [of "Suc y"] by (auto simp: leap_year_def)

lemma year_days_before_march:
  "(\<Sum>k<Suc y. if leap_year k then 366 else 365) + y div 100 = 365 * y + y div 4 + y div 400 + 366"
proof -
  have "(Suc y + 3) div 4 = y div 4 + 1" "(Suc y + 99) div 100 = y div 100 + 1"
    "(Suc y + 399) div 400 = y div 400 + 1"
    by simp_all
  with years_closed_form [of "Suc y"] show ?thesis by simp
qed

lemma month_days:
  assumes "1 \<le> m" "m \<le> 12"
  shows "(\<Sum>k=1..<m. month_length y k) + (if 2 < m then 0 else 306) =
    (153 * (if 2 < m then m - 3 else m + 9) + 2) div 5 + (if 2 < m then (if leap_year y then 60 else 59) else 0)"
proof -
  have "m = 1 \<or> m = 2 \<or> m = 3 \<or> m = 4 \<or> m = 5 \<or> m = 6 \<or> m = 7 \<or> m = 8 \<or> m = 9 \<or> m = 10
      \<or> m = 11 \<or> m = 12"
    using assms by arith
  then show ?thesis
    by (elim disjE) (simp_all add: month_length_def sum.atLeast_Suc_lessThan)
qed

text \<open>Counting the years from March, the days of a date in closed form.\<close>

lemma calendar_days_closed:
  assumes "1 \<le> y" and m: "1 \<le> m" "m \<le> 12"
  defines "Y \<equiv> (if m \<le> 2 then y - 1 else y)"
  shows "calendar_days y m d + Y div 100 =
    365 * Y + Y div 4 + Y div 400 + (153 * (if 2 < m then m - 3 else m + 9) + 2) div 5 + (d - 1) + 60"
proof (cases "2 < m")
  case True
  with year_days_from_march [of y] month_days [OF m, of y] show ?thesis
    unfolding calendar_days_def Y_def by (simp only: if_True if_False not_le [symmetric] not_False_eq_True)
next
  case False
  obtain y' where y': "y = Suc y'" using assms(1) by (cases y) auto
  from False year_days_before_march [of y'] month_days [OF m, of y] show ?thesis
    by (simp only: calendar_days_def Y_def y' if_True if_False not_less diff_Suc_1)
      (simp only: if_False not_less [symmetric])
qed

text \<open>In the range of four-digit years nothing wraps.\<close>

lemma days_from_civil_unwrapped:
  fixes y m d :: nat
  assumes y: "1 \<le> y" "y \<le> 9999" and m: "1 \<le> m" "m \<le> 12" and d: "1 \<le> d" "d \<le> 31"
  defines "Y \<equiv> (if m \<le> 2 then y - 1 else y)"
  shows "days_from_civil (int y) (int m) (int d) =
    int (365 * Y + Y div 4 + Y div 400 + (153 * (if 2 < m then m - 3 else m + 9) + 2) div 5 + (d - 1))
      - int (Y div 100) - 719468"
proof -
  have Y: "Y \<le> 9999" using y by (auto simp: Y_def)
  have yy: "(if int m \<le> 2 then wrap_i64 (int y - 1) else int y) = int Y"
    using y by (simp add: Y_def num_simps of_nat_diff)
  define yoe where "yoe = Y mod 400"
  have yoe: "wrap_u64 (int Y - int (Y div 400) * 400) = int yoe"
  proof -
    have "int Y - int (Y div 400) * 400 = int (Y mod 400)"
      by (metis minus_div_mult_eq_mod of_nat_numeral zdiv_int zmod_int)
    moreover have "Y mod 400 < 400" by simp
    ultimately show ?thesis by (simp add: yoe_def num_simps)
  qed
  have m_u: "wrap_u64 (int m) = int m" "wrap_u64 (int d) = int d"
    using m d by (simp_all add: num_simps)
  define mp where "mp = (if 2 < m then m - 3 else m + 9)"
  have mp: "mp \<le> 11" "(if 2 < int m then int m - 3 else int m + 9) = int mp"
    using m by (auto simp: mp_def)
  define doy where "doy = (153 * mp + 2) div 5 + (d - 1)"
  have mpd: "(153 * mp + 2) div 5 \<le> 337"
    using div_le_mono [of "153 * mp + 2" "153 * 11 + 2" 5] mp(1) by simp
  have doy: "wrap_u64 (wrap_u64 (153 * int mp + 2) div 5 + int d - 1) = int doy"
  proof -
    have "wrap_u64 (153 * int mp + 2) = int (153 * mp + 2)"
      using mp(1) by (simp add: num_simps)
    moreover have "int (153 * mp + 2) div 5 = int ((153 * mp + 2) div 5)"
      by (simp add: zdiv_int)
    ultimately show ?thesis
      using d mpd by (simp add: num_simps doy_def of_nat_diff)
  qed
  define doe where "doe = yoe * 365 + yoe div 4 - yoe div 100 + doy"
  have yoe_le: "yoe \<le> 399" "yoe div 100 \<le> yoe div 4"
    by (simp_all add: yoe_def div_le_mono2 less_Suc_eq_le [symmetric])
  have doe: "wrap_u64 (int yoe * 365 + int yoe div 4 - int yoe div 100 + int doy) = int doe"
  proof -
    have "int doe = int yoe * 365 + int (yoe div 4) - int (yoe div 100) + int doy"
      using yoe_le by (simp add: doe_def of_nat_diff)
    moreover have "int doe < 2 ^ 64"
      using yoe_le mpd d div_le_dividend [of yoe 4] by (simp add: doe_def doy_def)
    ultimately show ?thesis
      by (simp add: num_simps zdiv_int)
  qed
  have small: "doe < 200000"
    using yoe_le mpd d div_le_dividend [of yoe 4] by (simp add: doe_def doy_def)
  define e where "e = Y div 400"
  have Ye: "Y = 400 * e + yoe" by (simp add: e_def yoe_def)
  have quarters: "Y div 4 = 100 * e + yoe div 4" "Y div 100 = 4 * e + yoe div 100"
    using div_mult_self4 [of 4 yoe "100 * e"] div_mult_self4 [of 100 yoe "4 * e"]
    by (simp_all add: Ye)
  have split: "365 * Y + Y div 4 + e + doy = e * 146097 + doe + Y div 100"
    using yoe_le(2) by (simp add: quarters doe_def) (simp add: Ye)
  have "days_from_civil (int y) (int m) (int d) = int (Y div 400) * 146097 + int doe - 719468"
  proof -
    have era: "tdiv (if 0 \<le> int Y then int Y else wrap_i64 (int Y - 399)) 400 = int (Y div 400)"
      by (simp add: tdiv_nonneg zdiv_int)
    have "Y div 400 \<le> 24" using div_le_mono [OF Y, of 400] by simp
    then show ?thesis
      using small
      by (simp only: days_from_civil_def Let_def yy m_u mp doy era yoe doe) (simp add: num_simps)
  qed
  also have "\<dots> = int (365 * Y + Y div 4 + e + doy) - int (Y div 100) - 719468"
    unfolding split by (simp add: e_def)
  finally show ?thesis by (simp only: e_def doy_def mp_def add.assoc)
qed

section \<open>Properties\<close>

text \<open>C27. Soundness of the response scan: there is one slot per request.  A response is only put in the slot of a request that is not later than the
  response (their timestamps are compared as text), and when both name a shop it is the same one; a side that names no shop agrees with every shop.  No response is used
  twice (the filled slots form a sub-multiset of the responses), and a request stays without an answer only when every response that could answer it was given to a
  request that is at least as late.\<close>

theorem pair_responses_sound:
  "length (pair_responses reqs resps) = length reqs \<and>
   used_responses (pair_responses reqs resps) \<subseteq># mset resps \<and>
   (\<forall>i < length reqs. \<forall>resp. pair_responses reqs resps ! i = Some resp \<longrightarrow>
      shop_buy_request.timestamp (reqs ! i) \<le> shop_flow_response.timestamp resp \<and>
      (\<forall>a b. shop_flow_response.shop_id resp = Some a \<longrightarrow> shop_buy_request.shop_id (reqs ! i) = Some b \<longrightarrow> a = b)) \<and>
   (\<forall>i < length reqs. \<forall>resp\<in>set resps. pair_responses reqs resps ! i = None \<longrightarrow>
      shop_buy_request.timestamp (reqs ! i) \<le> shop_flow_response.timestamp resp \<longrightarrow>
      shop_flow_response.shop_id resp = None \<or> shop_buy_request.shop_id (reqs ! i) = None \<or>
        shop_flow_response.shop_id resp = shop_buy_request.shop_id (reqs ! i) \<longrightarrow>
      (\<exists>j < length reqs. pair_responses reqs resps ! j = Some resp \<and>
         shop_buy_request.timestamp (reqs ! i) \<le> shop_buy_request.timestamp (reqs ! j)))"
proof (intro conjI allI impI ballI)
  fix i resp
  assume "i < length reqs" "pair_responses reqs resps ! i = Some resp"
  then have "can_answer resp (reqs ! i)" by (rule pair_responses_valid)
  then show "shop_buy_request.timestamp (reqs ! i) \<le> shop_flow_response.timestamp resp"
      "\<And>a b. shop_flow_response.shop_id resp = Some a \<Longrightarrow> shop_buy_request.shop_id (reqs ! i) = Some b \<Longrightarrow> a = b"
    by (simp_all add: can_answer_spelled)
next
  fix i resp
  assume i: "i < length reqs" "pair_responses reqs resps ! i = None" "resp \<in> set resps"
    and "shop_buy_request.timestamp (reqs ! i) \<le> shop_flow_response.timestamp resp"
      "shop_flow_response.shop_id resp = None \<or> shop_buy_request.shop_id (reqs ! i) = None \<or>
        shop_flow_response.shop_id resp = shop_buy_request.shop_id (reqs ! i)"
  then have "can_answer resp (reqs ! i)" by (auto simp: can_answer_spelled)
  with i show "\<exists>j < length reqs. pair_responses reqs resps ! j = Some resp \<and>
      shop_buy_request.timestamp (reqs ! i) \<le> shop_buy_request.timestamp (reqs ! j)" by (intro pair_responses_greedy)
qed (simp_all add: used_responses_le)

abbreviation (input) sample_request :: "string \<Rightarrow> string \<Rightarrow> string \<Rightarrow> shop_buy_request" where
  "sample_request t shop r \<equiv>
     \<lparr>shop_buy_request.timestamp = t, shop_buy_request.shop_id = Some shop, shop_buy_request.item_class = None,
      shop_buy_request.quantity = None, shop_buy_request.raw = r, price = None, shop_name = None\<rparr>"

abbreviation (input) sample_response :: "string \<Rightarrow> string \<Rightarrow> string \<Rightarrow> shop_flow_response" where
  "sample_response t shop r \<equiv>
     \<lparr>shop_flow_response.timestamp = t, shop_flow_response.shop_id = Some shop, success = Some True,
      shop_flow_response.raw = r\<rparr>"

theorem pair_responses_sound_witness:
  "pair_responses [sample_request ''1'' ''s'' ''A'', sample_request ''3'' ''s'' ''C''] [sample_response ''2'' ''s'' ''B''] =
     [Some (sample_response ''2'' ''s'' ''B''), None] \<and>
   shop_buy_request.timestamp (sample_request ''1'' ''s'' ''A'') \<le> shop_flow_response.timestamp (sample_response ''2'' ''s'' ''B'')"
proof -
  have pairs: "pair_responses [sample_request ''1'' ''s'' ''A'', sample_request ''3'' ''s'' ''C''] [sample_response ''2'' ''s'' ''B''] =
     [Some (sample_response ''2'' ''s'' ''B''), None]" by code_simp
  then have "pair_responses [sample_request ''1'' ''s'' ''A'', sample_request ''3'' ''s'' ''C''] [sample_response ''2'' ''s'' ''B''] ! 0 =
     Some (sample_response ''2'' ''s'' ''B'')" by simp
  then show ?thesis
    using pairs pair_responses_sound [of "[sample_request ''1'' ''s'' ''A'', sample_request ''3'' ''s'' ''C'']" "[sample_response ''2'' ''s'' ''B'']"]
    by (metis length_Cons nth_Cons_0 zero_less_Suc)
qed

text \<open>The scan is greedy-complete: a request is left without an answer only when every response that
  could answer it was given to a request that is at least as late.\<close>

theorem pair_responses_complete:
  assumes "i < length reqs" "pair_responses reqs resps ! i = None"
    and "resp \<in> set resps" "can_answer resp (reqs ! i)"
  shows "\<exists>j < length reqs. pair_responses reqs resps ! j = Some resp \<and>
    shop_buy_request.timestamp (reqs ! i) \<le> shop_buy_request.timestamp (reqs ! j)"
  using assms by (rule pair_responses_greedy)

theorem pair_responses_complete_witness:
  "\<exists>j < 2. pair_responses [sample_request ''1'' ''s'' ''A'', sample_request ''2'' ''s'' ''B'']
        [sample_response ''3'' ''s'' ''C''] ! j = Some (sample_response ''3'' ''s'' ''C'')"
proof -
  let ?reqs = "[sample_request ''1'' ''s'' ''A'', sample_request ''2'' ''s'' ''B'']"
    and ?resps = "[sample_response ''3'' ''s'' ''C'']"
  have free: "pair_responses ?reqs ?resps ! 0 = None" by code_simp
  have "can_answer (sample_response ''3'' ''s'' ''C'') (?reqs ! 0)" by code_simp
  from pair_responses_complete [of 0 ?reqs ?resps, OF _ free _ this] show ?thesis
    by (auto simp: numeral_2_eq_2)
qed

text \<open>Every purchase request of the log yields exactly one transaction row and nothing else does: the raw
  lines of the rows are, as a multiset, the raw lines of the request events, and the rows are sorted by their start.\<close>

theorem pair_transactions_conserves:
  "mset (map raw_request (pair_transactions events now window_secs)) = mset (List.map_filter request_raw events) \<and>
   sorted (map started_at (pair_transactions events now window_secs))"
proof -
  have rows: "mset (map f (sort_key k xs)) = mset (map f xs)" for f :: "transaction \<Rightarrow> string" and k :: "transaction \<Rightarrow> string" and xs
    by simp
  show ?thesis
    by (simp only: pair_transactions_def Let_def rows map_append map_raw_request_shop length_pair_responses)
      (simp add: request_raws_split map_raw_request_shop commodity_buy_transaction_def
        commodity_sell_transaction_def comp_def del: mset_map)
qed

text \<open>The shape of a row: a commodity row is always \<open>Submitted\<close> and never carries an answer; a shop row is
  confirmed or rejected exactly when it carries a response, and it is timed out only when the caller's clock is readable.\<close>

theorem pair_transactions_status:
  "\<forall>tx \<in> set (pair_transactions events now window_secs).
     (kind tx \<noteq> Shop \<longleftrightarrow> status tx = Submitted) \<and>
     (confirmed_at tx = None \<longleftrightarrow> raw_response tx = None) \<and>
     (status tx \<in> {Confirmed, Rejected} \<longleftrightarrow> raw_response tx \<noteq> None) \<and>
     (status tx = TimedOut \<longrightarrow> parse_iso_secs now \<noteq> None)"
proof
  fix tx
  assume "tx \<in> set (pair_transactions events now window_secs)"
  from pair_transactions_cases [OF this]
  show "(kind tx \<noteq> Shop \<longleftrightarrow> status tx = Submitted) \<and>
     (confirmed_at tx = None \<longleftrightarrow> raw_response tx = None) \<and>
     (status tx \<in> {Confirmed, Rejected} \<longleftrightarrow> raw_response tx \<noteq> None) \<and>
     (status tx = TimedOut \<longrightarrow> parse_iso_secs now \<noteq> None)"
    using shop_transaction_shape [of tx "parse_iso_secs now" window_secs]
    by (elim disjE exE) (fastforce, simp_all add: commodity_buy_transaction_def commodity_sell_transaction_def)
qed

theorem pair_transactions_status_witness:
  "map status (pair_transactions
      [ShopBuyRequest (sample_request ''2026-05-07T14:00:00Z'' ''s'' ''A'')] ''2026-05-07T14:02:00Z'' 30) = [TimedOut] \<and>
   parse_iso_secs ''2026-05-07T14:02:00Z'' \<noteq> None"
proof -
  let ?txs = "pair_transactions [ShopBuyRequest (sample_request ''2026-05-07T14:00:00Z'' ''s'' ''A'')]
      ''2026-05-07T14:02:00Z'' 30"
  have st: "map status ?txs = [TimedOut]" by code_simp
  then obtain tx where "tx \<in> set ?txs" "status tx = TimedOut" by auto
  with pair_transactions_status show ?thesis using st by blast
qed

text \<open>The hand-written clock counts days correctly: for every date of the years 1 to 9999 the function
  gives the number of days since 1970-01-01 (day 719528 of the proleptic Gregorian calendar), and no step wraps.\<close>

theorem days_from_civil_correct:
  fixes y m d :: nat
  assumes "1 \<le> y" "y \<le> 9999" "1 \<le> m" "m \<le> 12" "1 \<le> d" "d \<le> 31"
  shows "days_from_civil (int y) (int m) (int d) = int (calendar_days y m d) - 719528"
  using days_from_civil_unwrapped [OF assms] calendar_days_closed [OF assms(1,3,4), of d]
  by linarith

theorem days_from_civil_correct_witness:
  "days_from_civil 2026 5 7 = int (calendar_days 2026 5 7) - 719528 \<and> days_from_civil 1970 1 1 = 0"
proof
  show "days_from_civil 2026 5 7 = int (calendar_days 2026 5 7) - 719528"
    using days_from_civil_correct [of 2026 5 7] by (simp only: of_nat_numeral)
  show "days_from_civil 1970 1 1 = 0" by code_simp
qed

text \<open>The pairing depends on the order in which responses arrive: swapping two responses changes which
  request each of them confirms.  (The module comment says that the input need not be sorted because the scan sorts
  it internally; only the result is sorted.)\<close>

theorem pair_transactions_order_dependent:
  "let reqs = [ShopBuyRequest (sample_request ''1'' ''s'' ''A''), ShopBuyRequest (sample_request ''2'' ''s'' ''B'')];
       r3 = ShopFlowResponse (sample_response ''3'' ''s'' ''C'');
       r4 = ShopFlowResponse (sample_response ''4'' ''s'' ''D'')
   in map confirmed_at (pair_transactions (reqs @ [r3, r4]) [] 30) = [Some ''4'', Some ''3''] \<and>
      map confirmed_at (pair_transactions (reqs @ [r4, r3]) [] 30) = [Some ''3'', Some ''4'']"
  by code_simp

end
