(* ===== verification/Control.thy ===== *)
theory Control
  imports Prelude
begin

text \<open>
  Control flow of the modelled functions.  Rust code may panic (an index on a group that took no part, \<open>unwrap\<close>, a slice out of
  range or inside a character), leave a function early (\<open>?\<close> and \<open>return\<close>), or go on; \<open>flow\<close> has a constructor for each, and
  \<open>exec\<close> is the outcome of a call.
\<close>

datatype ('r, 'a) flow = Panic | Return 'r | Go 'a

datatype 'r exec = Panics | Done 'r

fun run_flow :: "('r, 'r) flow \<Rightarrow> 'r exec" where
  "run_flow Panic = Panics"
| "run_flow (Return r) = Done r"
| "run_flow (Go r) = Done r"

text \<open>The \<open>?\<close> operator on an option.\<close>

fun ask :: "'x option \<Rightarrow> ('x \<Rightarrow> ('b option, 'a) flow) \<Rightarrow> ('b option, 'a) flow" where
  "ask None k = Return None"
| "ask (Some x) k = k x"

fun no_panic :: "('r, 'a) flow \<Rightarrow> bool" where
  "no_panic Panic = False"
| "no_panic (Return r) = True"
| "no_panic (Go a) = True"

lemma run_no_panic: "run_flow f \<noteq> Panics \<longleftrightarrow> no_panic f"
  by (cases f) auto

lemma no_panic_ask: "no_panic (ask x k) \<longleftrightarrow> (\<forall>v. x = Some v \<longrightarrow> no_panic (k v))"
  by (cases x) auto

lemma ask_Go: "ask x k = Go v \<longleftrightarrow> (\<exists>y. x = Some y \<and> k y = Go v)"
  by (cases x) auto

text \<open>A slice \<open>&s[i..]\<close>: it panics beyond the end and inside a character.\<close>

definition is_char_boundary :: "string \<Rightarrow> nat \<Rightarrow> bool" where
  "is_char_boundary s i \<longleftrightarrow> i = length s \<or> i < length s \<and> \<not> is_continuation (s ! i)"

definition slice_from :: "string \<Rightarrow> nat \<Rightarrow> (string \<Rightarrow> ('r, 'a) flow) \<Rightarrow> ('r, 'a) flow" where
  "slice_from s i k = (if is_char_boundary s i then k (drop i s) else Panic)"

end
