(* ===== verification/Text_Ops.thy ===== *)
theory Text_Ops
  imports Control
begin

text \<open>
  Operations of Rust's \<open>str\<close> and of number parsing that the text-handling components share: \<open>find\<close>, \<open>split\<close> and
  \<open>match_indices\<close> on a substring, \<open>rsplit_once\<close> on a character, and \<open>parse\<close> for unsigned integers and for binary floats.
  A parsed float is its exact decimal value rounded once to the target format; the sign of a zero is not kept.

  The lemmas: splitting and joining on the same separator cancel, \<open>match_indices\<close> reports exact occurrences and
  leaves no occurrence untouched.
\<close>

section \<open>Substrings\<close>

text \<open>\<open>find\<close> of a substring, as the text before and after its first occurrence.\<close>

fun split_once :: "string \<Rightarrow> string \<Rightarrow> (string \<times> string) option" where
  "split_once n [] = (if n = [] then Some ([], []) else None)"
| "split_once n (c # cs) =
     (if prefix n (c # cs) then Some ([], drop (length n) (c # cs))
      else map_option (\<lambda>(a, b). (c # a, b)) (split_once n cs))"

lemma split_once_Some: "split_once n s = Some (a, b) \<Longrightarrow> s = a @ n @ b"
  by (induction n s arbitrary: a b rule: split_once.induct) (auto simp: prefix_def split: if_splits)

lemma split_once_leftmost: "split_once n (x @ n @ y) \<noteq> None \<and> (\<forall>a b. split_once n (x @ n @ y) = Some (a, b) \<longrightarrow> length a \<le> length x)"
proof (induction x)
  case Nil
  show ?case by (cases n; cases y) (auto simp: prefix_def)
qed (auto split: if_splits)

lemma split_once_skip: "c \<notin> set a \<Longrightarrow> split_once (c # n) (a @ s) = map_option (\<lambda>(x, y). (a @ x, y)) (split_once (c # n) s)"
  by (induction a) (auto simp: option.map_comp comp_def split_def option.map_ident)

lemma split_once_here: "n \<noteq> [] \<Longrightarrow> split_once n (n @ s) = Some ([], s)"
  by (cases n) (simp_all add: prefix_def)

lemma split_once_none: "c \<notin> set s \<Longrightarrow> split_once (c # n) s = None"
  by (induction s) (auto simp: prefix_def)

text \<open>\<open>split\<close> and \<open>match_indices\<close> on a non-empty pattern (the only use); \<open>match_indices\<close> takes the offset of its text.\<close>

function split_str :: "string \<Rightarrow> string \<Rightarrow> string list" where
  "split_str sep s =
     (if sep = [] then [s]
      else (case split_once sep s of None \<Rightarrow> [s] | Some (a, b) \<Rightarrow> a # split_str sep b))"
  by pat_completeness auto
termination
  by (relation "measure (\<lambda>(sep, s). length s)") (auto dest!: split_once_Some)

function match_indices :: "nat \<Rightarrow> string \<Rightarrow> string \<Rightarrow> nat list" where
  "match_indices ofs n s =
     (if n = [] then []
      else (case split_once n s of
              None \<Rightarrow> []
            | Some (a, b) \<Rightarrow> (ofs + length a) # match_indices (ofs + length a + length n) n b))"
  by pat_completeness auto
termination
  by (relation "measure (\<lambda>(ofs, n, s). length s)") (auto dest!: split_once_Some)

declare split_str.simps [simp del] match_indices.simps [simp del]

lemma split_str_ne [simp]: "split_str sep s \<noteq> []"
  by (subst split_str.simps) (auto split: option.splits)

lemma join_Cons: "ws \<noteq> [] \<Longrightarrow> join sep (w # ws) = w @ sep @ join sep ws"
  by (cases ws) auto

lemma join_split_str: "join sep (split_str sep s) = s"
proof (induction sep s rule: split_str.induct)
  case (1 sep s)
  show ?case
  proof (cases "sep = [] \<or> split_once sep s = None")
    case True
    then show ?thesis by (subst split_str.simps) auto
  next
    case False
    then obtain a b where ab: "split_once sep s = Some (a, b)" by auto
    with False have "split_str sep s = a # split_str sep b" by (subst split_str.simps) auto
    with "1.IH" [OF _ ab refl] False split_once_Some [OF ab] show ?thesis by (simp add: join_Cons)
  qed
qed

lemma join_member: "w \<in> set ws \<Longrightarrow> set w \<subseteq> set (join sep ws)"
  by (induction sep ws rule: join.induct) auto

lemma set_join: "set (join sep ws) \<subseteq> set sep \<union> (\<Union>w \<in> set ws. set w)"
  by (induction sep ws rule: join.induct) auto

lemma split_str_pieces: "w \<in> set (split_str sep s) \<Longrightarrow> set w \<subseteq> set s"
  using join_member [of w "split_str sep s" sep] by (simp add: join_split_str)

lemma split_on_join:
  "ws \<noteq> [] \<Longrightarrow> \<forall>w \<in> set ws. sep \<notin> set w \<Longrightarrow> split_on (\<lambda>c. c = sep) (join [sep] ws) = ws"
proof (induction "[sep]" ws rule: join.induct)
  case (2 w)
  then show ?case by (auto intro!: split_on_none)
next
  case (3 w v va)
  have "split_on (\<lambda>c. c = sep) (w @ sep # join [sep] (v # va)) = w # split_on (\<lambda>c. c = sep) (join [sep] (v # va))"
    using "3.prems" by (intro split_on_append) auto
  with 3 show ?case by simp
qed simp

lemma join_head: "join sep ((c # w) # ws) = c # join sep (w # ws)"
  by (cases ws) auto

lemma join_split_on: "join [sep] (split_on (\<lambda>c. c = sep) s) = s"
proof (induction s)
  case (Cons c s)
  then show ?case by (cases "split_on (\<lambda>c. c = sep) s") (auto simp: join_Cons join_head)
qed simp

lemma match_indices_sound:
  "i \<in> set (match_indices ofs n s) \<Longrightarrow> ofs \<le> i \<and> i + length n \<le> ofs + length s \<and> take (length n) (drop (i - ofs) s) = n"
proof (induction ofs n s rule: match_indices.induct)
  case (1 ofs n s)
  have "i \<in> set (if n = [] then []
      else (case split_once n s of
              None \<Rightarrow> []
            | Some (a, b) \<Rightarrow> (ofs + length a) # match_indices (ofs + length a + length n) n b))"
    using "1.prems" by (simp only: match_indices.simps [of ofs n s])
  then obtain a b where ab: "n \<noteq> []" "split_once n s = Some (a, b)"
    "i = ofs + length a \<or> i \<in> set (match_indices (ofs + length a + length n) n b)"
    by (cases "split_once n s") (auto split: if_splits)
  have s: "s = a @ n @ b" by (rule split_once_Some [OF ab(2)])
  from ab(3) show ?case
  proof
    assume "i \<in> set (match_indices (ofs + length a + length n) n b)"
    from "1.IH" [OF ab(1,2) refl this] show ?thesis by (auto simp: s)
  qed (simp add: s)
qed

lemma match_indices_complete:
  "n \<noteq> [] \<Longrightarrow> \<exists>i \<in> set (match_indices ofs n (x @ n @ y)). i \<le> ofs + length x \<and> ofs + length x < i + length n"
proof (induction "length x" arbitrary: ofs x y rule: less_induct)
  case less
  obtain a b where ab: "split_once n (x @ n @ y) = Some (a, b)" "length a \<le> length x"
    using split_once_leftmost [of n x y] by auto
  have idx: "match_indices ofs n (x @ n @ y) = (ofs + length a) # match_indices (ofs + length a + length n) n b"
    using less.prems ab(1) by (subst match_indices.simps) simp
  show ?case
  proof (cases "length x < length a + length n")
    case True
    with ab(2) show ?thesis by (auto simp: idx)
  next
    case False
    have split: "x @ n @ y = a @ n @ b" by (rule split_once_Some [OF ab(1)])
    define x' where "x' = drop (length a + length n) x"
    have "take (length a + length n) (x @ n @ y) = a @ n" by (simp add: split)
    with False have "take (length a + length n) x = a @ n" by simp
    then have "x = a @ n @ x'" unfolding x'_def by (metis append_assoc append_take_drop_id)
    with split have b: "b = x' @ n @ y" and len: "length x = length a + length n + length x'" by auto
    with less.hyps [of x' "ofs + length a + length n" y] less.prems show ?thesis
      by (auto simp: idx b add.assoc)
  qed
qed

section \<open>Characters\<close>

lemma split_on_pieces: "\<forall>w \<in> set (split_on p s). \<forall>c \<in> set w. \<not> p c"
  by (induction s) (auto split: list.splits)

text \<open>Unicode's character tables, which the standard library takes from the Unicode database: on one character, given by its bytes.\<close>

record unicode =
  alphanumeric :: "string \<Rightarrow> bool"
  lower :: "string \<Rightarrow> string"
  upper :: "string \<Rightarrow> string"

definition char_to_ascii_uppercase :: "char \<Rightarrow> char" where
  "char_to_ascii_uppercase c = (if is_ascii_lowercase c then char_of ((of_char c :: nat) - 32) else c)"

definition to_ascii_uppercase :: "string \<Rightarrow> string" where
  "to_ascii_uppercase s = map char_to_ascii_uppercase s"

text \<open>\<open>str::to_lowercase\<close>, character by character; the final form of the Greek sigma, which depends on its neighbours, is not told
  apart from the other one.\<close>

definition str_to_lowercase :: "unicode \<Rightarrow> string \<Rightarrow> string" where
  "str_to_lowercase u s = concat (map (lower u) (utf8_chars s))"

lemma lower_class: "is_ascii_alphanumeric c \<Longrightarrow> is_ascii_lowercase (char_to_ascii_lowercase c) \<or> is_ascii_digit (char_to_ascii_lowercase c)"
proof (cases "is_ascii_uppercase c")
  case True
  then have "(of_char c :: nat) \<le> 90" "65 \<le> (of_char c :: nat)" by (auto simp: is_ascii_uppercase_def less_eq_char_def)
  with True show ?thesis by (simp add: char_to_ascii_lowercase_def is_ascii_lowercase_def less_eq_char_def)
qed (auto simp: char_to_ascii_lowercase_def is_ascii_alphanumeric_def is_ascii_alphabetic_def)

definition rsplit_once :: "char \<Rightarrow> string \<Rightarrow> (string \<times> string) option" where
  "rsplit_once c s =
     (case dropWhile (\<lambda>x. x \<noteq> c) (rev s) of
        [] \<Rightarrow> None
      | _ # h \<Rightarrow> Some (rev h, rev (takeWhile (\<lambda>x. x \<noteq> c) (rev s))))"

definition trim_end_newlines :: "string \<Rightarrow> string" where
  "trim_end_newlines s = rev (dropWhile (\<lambda>c. c = CHR 0x0D \<or> c = CHR 0x0A) (rev s))"

section \<open>Searching\<close>

text \<open>\<open>find_map\<close> over a list.\<close>

fun find_map :: "('a \<Rightarrow> 'b option) \<Rightarrow> 'a list \<Rightarrow> 'b option" where
  "find_map f [] = None"
| "find_map f (x # xs) = (case f x of Some y \<Rightarrow> Some y | None \<Rightarrow> find_map f xs)"

lemma find_map_None: "find_map f xs = None \<longleftrightarrow> (\<forall>x \<in> set xs. f x = None)"
  by (induction xs) (auto split: option.splits)

lemma find_map_append: "find_map f (xs @ ys) = (case find_map f xs of Some y \<Rightarrow> Some y | None \<Rightarrow> find_map f ys)"
  by (induction xs) (auto split: option.splits)

section \<open>Numbers\<close>

text \<open>\<open>parse::<uN>\<close>: an optional plus sign, then decimal digits, the value below \<open>2 ^ N\<close>.\<close>

definition parse_unsigned :: "nat \<Rightarrow> string \<Rightarrow> int option" where
  "parse_unsigned w s =
     (case (case s of
              [] \<Rightarrow> None
            | c # cs \<Rightarrow> if c = CHR ''+'' then parse_digits cs else parse_digits s) of
        None \<Rightarrow> None
      | Some v \<Rightarrow> if v < 2 ^ w then Some v else None)"

text \<open>\<open>parse::<iN>\<close>: an optional sign, then decimal digits, the value between \<open>- 2 ^ (N - 1)\<close> and \<open>2 ^ (N - 1)\<close>.\<close>

definition parse_signed :: "nat \<Rightarrow> string \<Rightarrow> int option" where
  "parse_signed w s =
     (case (case s of
              [] \<Rightarrow> None
            | c # cs \<Rightarrow>
                if c = CHR ''+'' then parse_digits cs
                else if c = CHR ''-'' then map_option uminus (parse_digits cs)
                else parse_digits s) of
        None \<Rightarrow> None
      | Some v \<Rightarrow> if - (2 ^ (w - 1)) \<le> v \<and> v < 2 ^ (w - 1) then Some v else None)"

text \<open>The decimal numeral that \<open>{}\<close> prints.\<close>

fun show_nat :: "nat \<Rightarrow> string" where
  "show_nat k = (if k < 10 then [char_of (48 + k)] else show_nat (k div 10) @ [char_of (48 + k mod 10)])"

declare show_nat.simps [simp del]

definition pow10 :: "int \<Rightarrow> rat" where
  "pow10 k = (if 0 \<le> k then 10 ^ nat k else 1 / 10 ^ nat (- k))"

definition parse_exponent :: "string \<Rightarrow> int option" where
  "parse_exponent s =
     (case s of
        [] \<Rightarrow> Some 0
      | c # cs \<Rightarrow>
          if c = CHR ''e'' \<or> c = CHR ''E'' then
            (case cs of
               [] \<Rightarrow> None
             | d # ds \<Rightarrow>
                 if d = CHR ''+'' then parse_digits ds
                 else if d = CHR ''-'' then map_option uminus (parse_digits ds)
                 else parse_digits cs)
          else None)"

definition parse_decimal :: "string \<Rightarrow> rat option" where
  "parse_decimal s =
     (let ip = takeWhile is_ascii_digit s;
          rest = dropWhile is_ascii_digit s;
          (fp, rest') = (case rest of
                           [] \<Rightarrow> ([], [])
                         | c # cs \<Rightarrow> if c = CHR ''.'' then (takeWhile is_ascii_digit cs, dropWhile is_ascii_digit cs)
                                     else ([], rest))
      in if ip = [] \<and> fp = [] then None
         else map_option (\<lambda>e. of_nat (digits_value (ip @ fp)) * pow10 (e - int (length fp))) (parse_exponent rest'))"

text \<open>Rounding a non-negative value to a binary format of \<open>p\<close> significant bits with units from \<open>2 ^ emin\<close>, infinite
  from \<open>2 ^ emax\<close> on.\<close>

definition float_round :: "nat \<Rightarrow> int \<Rightarrow> int \<Rightarrow> rat \<Rightarrow> flt" where
  "float_round p emin emax x =
     (if x = 0 then Fin 0
      else
        let u = pow2 (max (rlog2 x - (int p - 1)) emin); y = of_int (round_half_even (x / u)) * u
        in if pow2 emax \<le> y then PInf else Fin y)"

fun flt_neg :: "flt \<Rightarrow> flt" where
  "flt_neg (Fin x) = Fin (- x)"
| "flt_neg PInf = NInf"
| "flt_neg NInf = PInf"
| "flt_neg NaN = NaN"

definition parse_float :: "nat \<Rightarrow> int \<Rightarrow> int \<Rightarrow> string \<Rightarrow> flt option" where
  "parse_float p emin emax s =
     (let negative = (s \<noteq> [] \<and> hd s = CHR ''-'');
          t = (if s \<noteq> [] \<and> (hd s = CHR ''-'' \<or> hd s = CHR ''+'') then tl s else s);
          v = (if eq_ignore_ascii_case t ''inf'' \<or> eq_ignore_ascii_case t ''infinity'' then Some PInf
               else if eq_ignore_ascii_case t ''nan'' then Some NaN
               else map_option (float_round p emin emax) (parse_decimal t))
      in map_option (\<lambda>x. if negative then flt_neg x else x) v)"

definition parse_f32 :: "string \<Rightarrow> flt option" where
  "parse_f32 = parse_float 24 (- 149) 128"

definition parse_f64 :: "string \<Rightarrow> flt option" where
  "parse_f64 = parse_float 53 (- 1074) 1024"

lemma digits_value_bound: "list_all is_ascii_digit s \<Longrightarrow> digits_value s < 10 ^ length s"
proof (induction s rule: rev_induct)
  case (snoc c s)
  then have "(of_char c :: nat) \<le> 57" by (auto simp: is_ascii_digit_def less_eq_char_def)
  moreover have "digits_value s + 1 \<le> 10 ^ length s" using snoc by simp
  ultimately show ?case by (simp add: digits_value_def)
qed (simp add: digits_value_def)

lemma digit_not_sign: "is_ascii_digit c \<Longrightarrow> c \<noteq> CHR ''+'' \<and> c \<noteq> CHR ''-''"
  by (auto simp: is_ascii_digit_def less_eq_char_def)

lemma parse_i64_digits:
  assumes "s \<noteq> []" "list_all is_ascii_digit s" "length s \<le> 18"
  shows "parse_i64 s = Some (int (digits_value s))"
proof -
  obtain c cs where c: "s = c # cs" "is_ascii_digit c" using assms(1,2) by (cases s) auto
  have "digits_value s < 10 ^ 18"
    using digits_value_bound [OF assms(2)] power_increasing [OF assms(3), of "10 :: nat"] by simp
  with assms c digit_not_sign [OF c(2)] show ?thesis by (simp add: parse_i64_def parse_digits_def)
qed

end
