(* ===== verification/Parser.thy ===== *)
theory Parser
  imports Events Text_Ops
begin

text \<open>
  The first pass of the log parser (\<open>crates/starstats-core/src/parser.rs\<close>): the structural shell of a line of the game log
  and of the launcher log, launcher categories, and the coverage counters.

  Matching is done by the regex crate, which is not part of the sources.  \<open>static_re\<close> names the patterns of the file
  (one constructor per \<open>static\<close>), and a parameter \<open>rx\<close> of type \<open>regex_engine\<close> stands for \<open>Regex::captures\<close>: given a
  pattern and a text it returns the groups that took part in the match.  Two facts of the crate are named:
  \<open>required_groups\<close>, that a match always binds the groups that stand outside every optional part of the pattern, and
  \<open>whole_is_suffix\<close>, that a match of the tag pattern, which ends in \<open>$\<close>, is a suffix of the text.
\<close>

section \<open>Regular expressions\<close>

datatype static_re =
    LAUNCHER_RE | SHELL_RE | TAG_TAIL_RE | PROCESS_INIT_RE | LEGACY_LOGIN_RE | JOIN_PU_RE | CHANGE_SERVER_RE
  | SEED_SS_RE | RESOLVE_SPAWN_RE | ACTOR_EJECTED_RE | ACTOR_DEATH_RE | VEHICLE_DESTRUCTION_RE | PLAYER_DEATH_RE
  | HUD_NOTIFICATION_RE | LOCATION_INVENTORY_RE | PLANET_TERRAIN_RE | QUANTUM_TARGET_RE | QUANTUM_ARRIVED_RE
  | CALCULATE_ROUTE_RE | MISSION_QT_BEACON_RE | VEHICLE_STOWED_RE | ATTACHMENT_RECEIVED_RE | EQUIP_ITEM_RE
  | STORE_ITEM_RE | MISSION_PHASE_RE | MISSION_OBJECTIVE_RE | MISSION_END_RE | SHOP_BUY_RE | SHOP_BUY_MODERN_RE
  | SHOP_RESPONSE_RE | COMMODITY_BUY_RE | COMMODITY_SELL_RE | OBJECTIVE_UPSERTED_RE | OBJECTIVE_LABEL_RE

record captures =
  named :: "string \<Rightarrow> string option"
  groups :: "nat \<Rightarrow> string option"

type_synonym regex_engine = "static_re \<Rightarrow> string \<Rightarrow> captures option"

text \<open>\<open>c["n"]\<close> panics when the group took no part in the match.\<close>

definition index :: "captures \<Rightarrow> string \<Rightarrow> (string \<Rightarrow> ('r, 'a) flow) \<Rightarrow> ('r, 'a) flow" where
  "index c n k = (case named c n of None \<Rightarrow> Panic | Some s \<Rightarrow> k s)"

text \<open>The groups of each pattern that stand outside every optional part.\<close>

fun required :: "static_re \<Rightarrow> string list" where
  "required LAUNCHER_RE = [''ts'', ''level'', ''msg'']"
| "required SHELL_RE = [''ts'', ''rest'']"
| "required PROCESS_INIT_RE = [''local'', ''env'', ''online'']"
| "required LEGACY_LOGIN_RE = [''handle'']"
| "required JOIN_PU_RE = [''address'', ''port'', ''shard'', ''loc'']"
| "required CHANGE_SERVER_RE = [''shard'', ''server'', ''mp'']"
| "required SEED_SS_RE = [''ss'', ''shard'']"
| "required RESOLVE_SPAWN_RE = [''geid'']"
| "required ACTOR_EJECTED_RE = [''actor'', ''from'', ''to'']"
| "required ACTOR_DEATH_RE = [''victim'', ''zone'', ''killer'', ''weapon'', ''dmg'']"
| "required VEHICLE_DESTRUCTION_RE = [''vclass'', ''level'', ''cause'']"
| "required PLAYER_DEATH_RE = [''body_class'', ''body_id'']"
| "required HUD_NOTIFICATION_RE = [''text'', ''id'']"
| "required LOCATION_INVENTORY_RE = [''player'', ''location'']"
| "required PLANET_TERRAIN_RE = [''planet'']"
| "required QUANTUM_TARGET_RE = [''vehicle'', ''vid'', ''vid2'', ''dest'']"
| "required QUANTUM_ARRIVED_RE = [''vehicle'', ''vid'', ''vid2'']"
| "required CALCULATE_ROUTE_RE = [''vehicle'', ''vid'', ''vid2'', ''start'', ''dest'']"
| "required MISSION_QT_BEACON_RE = [''beacon'']"
| "required VEHICLE_STOWED_RE = [''area'', ''area_id'', ''vehicle_id'', ''zone_host'']"
| "required ATTACHMENT_RECEIVED_RE = [''player'', ''class'', ''id'', ''status'', ''port'', ''elapsed'']"
| "required EQUIP_ITEM_RE = [''class'', ''port'']"
| "required STORE_ITEM_RE = [''class'', ''count'']"
| "required MISSION_PHASE_RE = [''id'']"
| "required MISSION_OBJECTIVE_RE = [''id'']"
| "required SHOP_BUY_MODERN_RE = [''shop'', ''shopname'', ''price'']"
| "required OBJECTIVE_UPSERTED_RE = [''mission'', ''obj'', ''state'']"
| "required OBJECTIVE_LABEL_RE = [''obj'', ''text'']"
| "required _ = []"

definition required_groups :: "regex_engine \<Rightarrow> bool" where
  "required_groups rx \<longleftrightarrow> (\<forall>re s c. rx re s = Some c \<longrightarrow> list_all (\<lambda>n. named c n \<noteq> None) (required re))"

definition whole_is_suffix :: "regex_engine \<Rightarrow> bool" where
  "whole_is_suffix rx \<longleftrightarrow> (\<forall>s c. rx TAG_TAIL_RE s = Some c \<longrightarrow> (\<exists>w. groups c 0 = Some w \<and> suffix w s))"

section \<open>The launcher log\<close>

record launcher_log_line =
  timestamp :: string
  level :: string
  message :: string

definition contains_any :: "string \<Rightarrow> string list \<Rightarrow> bool" where
  "contains_any s ns \<longleftrightarrow> list_ex (contains_str s) ns"

definition classify_launcher_message :: "string \<Rightarrow> string \<Rightarrow> launcher_category" where
  "classify_launcher_message lvl msg =
     (let lower = to_ascii_lowercase msg
      in if lvl \<in> {''error'', ''fatal''} \<or> contains_any lower [''error'', ''failed'', ''failure'', ''exception'', ''err_'']
         then Error
         else if contains_any lower
             [''log in'', ''logged in'', ''logging in'', ''log out'', ''logged out'', ''sign in'', ''signed in'',
              ''authenticat'', ''credential'', ''session refresh'', ''token refresh'', ''oauth'']
         then Auth
         else if contains_any lower [''patch'', ''delta'', ''applying update'', ''applying ''] then Patch
         else if contains_any lower
             [''install'', ''download'', ''verify'', ''verification'', ''integrity'', ''repair'', ''file check'']
         then Install
         else if contains_any lower [''launcher update'', ''self-update'', ''self update'', ''checking for updates'']
         then Update
         else Info)"

definition parse_launcher_line :: "regex_engine \<Rightarrow> string \<Rightarrow> launcher_log_line option" where
  "parse_launcher_line rx inp =
     (let line = trim_end_newlines inp
      in if line = [] then None
         else
           Option.bind (rx LAUNCHER_RE line) (\<lambda>caps.
             Option.bind (named caps ''ts'') (\<lambda>ts.
               Option.bind (named caps ''level'') (\<lambda>lvl.
                 Option.bind (named caps ''msg'') (\<lambda>msg.
                   if trim msg = [] then None
                   else Some \<lparr>launcher_log_line.timestamp = trim ts, level = lvl, message = trim msg\<rparr>)))))"

section \<open>The structural shell\<close>

record log_line =
  timestamp :: string
  level :: "string option"
  event_name :: "string option"
  body :: string
  tags :: "string list"

definition unwrap_or :: "'a \<Rightarrow> 'a option \<Rightarrow> 'a" where
  "unwrap_or d x = (case x of None \<Rightarrow> d | Some v \<Rightarrow> v)"

definition split_tags :: "string \<Rightarrow> string list" where
  "split_tags tag_run = filter (\<lambda>s. s \<noteq> []) (split_on (\<lambda>c. c = CHR ''['' \<or> c = CHR '']'') tag_run)"

definition structural_parse :: "regex_engine \<Rightarrow> string \<Rightarrow> log_line option exec" where
  "structural_parse rx inp =
     run_flow (let line = trim_end_newlines inp
          in ask (rx SHELL_RE line) (\<lambda>caps.
             ask (named caps ''ts'') (\<lambda>ts.
               let rest = unwrap_or [] (named caps ''rest'');
                   mk = (\<lambda>bd tgs. \<lparr>log_line.timestamp = ts, level = named caps ''level'', event_name = named caps ''event'',
                                   body = bd, tags = tgs\<rparr>)
               in case rx TAG_TAIL_RE rest of
                    None \<Rightarrow> Go (Some (mk (trim rest) []))
                  | Some tag_caps \<Rightarrow>
                      (case groups tag_caps 0 of
                         None \<Rightarrow> Panic
                       | Some whole \<Rightarrow>
                           if length rest < length whole then Panic
                           else Go (Some (mk (trim (take (length rest - length whole) rest))
                                             (split_tags (unwrap_or [] (groups tag_caps 1)))))))))"

section \<open>Coverage counters\<close>

record parse_stats =
  total :: u64
  recognised :: u64
  structural_only :: u64
  skipped :: u64

definition parse_stats_default :: parse_stats where
  "parse_stats_default = \<lparr>total = 0, recognised = 0, structural_only = 0, skipped = 0\<rparr>"

definition parse_stats_record :: "parse_stats \<Rightarrow> bool \<Rightarrow> bool \<Rightarrow> parse_stats" where
  "parse_stats_record st parsed structural =
     (let st' = st\<lparr>total := total st + 1\<rparr>
      in if parsed then st'\<lparr>recognised := recognised st' + 1\<rparr>
         else if structural then st'\<lparr>structural_only := structural_only st' + 1\<rparr>
         else st'\<lparr>skipped := skipped st' + 1\<rparr>)"

section \<open>Lemmas\<close>

lemma no_panic_index: "no_panic (index c n k) \<longleftrightarrow> (\<exists>v. named c n = Some v \<and> no_panic (k v))"
  by (auto simp: index_def split: option.splits)

lemma required_groupsD: "required_groups rx \<Longrightarrow> rx re s = Some c \<Longrightarrow> list_all (\<lambda>n. named c n \<noteq> None) (required re)"
  by (auto simp: required_groups_def)

lemma split_tags_ok:
  assumes "tg \<in> set (split_tags r)"
  shows "tg \<noteq> [] \<and> CHR ''['' \<notin> set tg \<and> CHR '']'' \<notin> set tg"
proof -
  let ?p = "\<lambda>c. c = CHR ''['' \<or> c = CHR '']''"
  have "tg \<noteq> []" "tg \<in> set (split_on ?p r)" using assms by (simp_all add: split_tags_def)
  moreover from this(2) have "\<forall>c \<in> set tg. \<not> ?p c" by (rule bspec [OF split_on_pieces])
  ultimately show ?thesis by blast
qed

text \<open>The coverage counters are a stream pass over the outcomes of lines: they always add up.\<close>

definition parse_stats_ok :: "parse_stats \<Rightarrow> bool" where
  "parse_stats_ok st \<longleftrightarrow> total st = recognised st + structural_only st + skipped st"

interpretation stats_fold: stream_fold "\<lambda>st (p, s). parse_stats_record st p s" parse_stats_ok
  by unfold_locales (auto simp: parse_stats_record_def parse_stats_ok_def Let_def split: prod.splits)

end
