(* ===== verification/Metadata.thy ===== *)
theory Metadata
  imports Events
begin

text \<open>
  The metadata stamped on every event (\<open>crates/starstats-core/src/metadata.rs\<close>): the primary entity of
  an event, its stable type key, the group key the timeline collapses on, and the metadata block of an
  observed event.  The lemmas show that a group key determines the event type, the entity kind and the
  entity id it was built from, and which type keys the published list \<open>all_event_type_keys\<close> holds.
\<close>

section \<open>Entities and sources\<close>

datatype entity_kind = Player | Vehicle | Item | Location | Shop | Mission | Session | System

primrec entity_kind_key :: "entity_kind \<Rightarrow> string" where
  "entity_kind_key Player = ''player''"
| "entity_kind_key Vehicle = ''vehicle''"
| "entity_kind_key Item = ''item''"
| "entity_kind_key Location = ''location''"
| "entity_kind_key Shop = ''shop''"
| "entity_kind_key Mission = ''mission''"
| "entity_kind_key Session = ''session''"
| "entity_kind_key System = ''system''"

record entity_ref =
  kind :: entity_kind
  id :: string
  display_name :: string

datatype event_source = Observed | Inferred | Synthesized

datatype field_provenance =
    FieldObserved
  | InferredFrom (source_event_ids: "string list") (prov_rule_id: string)

record event_metadata =
  primary_entity :: entity_ref
  source :: event_source
  confidence :: flt
  group_key :: string
  field_provenance :: "(string, field_provenance) btree"
  inference_inputs :: "string list"
  rule_id :: "string option"

definition observed :: "entity_ref \<Rightarrow> string \<Rightarrow> event_metadata" where
  "observed ent gk =
     \<lparr>primary_entity = ent, source = Observed, confidence = Fin 1, group_key = gk,
      field_provenance = [], inference_inputs = [], rule_id = None\<rparr>"

definition UNKNOWN_ID :: string where
  "UNKNOWN_ID = ''unknown''"

definition entity_with_fallback :: "entity_kind \<Rightarrow> string option \<Rightarrow> string option \<Rightarrow> entity_ref" where
  "entity_with_fallback k i dn =
     (let i' = (case i of Some x \<Rightarrow> x | None \<Rightarrow> UNKNOWN_ID)
      in \<lparr>kind = k, id = i', display_name = (case dn of Some x \<Rightarrow> x | None \<Rightarrow> i')\<rparr>)"

text \<open>An entity whose label is its identifier.\<close>

abbreviation (input) self_named :: "entity_kind \<Rightarrow> string \<Rightarrow> entity_ref" where
  "self_named k i \<equiv> \<lparr>kind = k, id = i, display_name = i\<rparr>"

primrec primary_entity_for :: "game_event \<Rightarrow> string option \<Rightarrow> entity_ref" where
  "primary_entity_for (ProcessInit e) h =
     self_named Session (process_init.local_session e)"
| "primary_entity_for (LegacyLogin e) h =
     self_named Player (legacy_login.handle e)"
| "primary_entity_for (JoinPu e) h =
     self_named Session (join_pu.shard e)"
| "primary_entity_for (ChangeServer e) h =
     self_named Session ''session''"
| "primary_entity_for (SeedSolarSystem e) h =
     self_named Location (seed_solar_system.solar_system e)"
| "primary_entity_for (ResolveSpawn e) h =
     self_named Player (resolve_spawn.player_geid e)"
| "primary_entity_for (ActorDeath e) h =
     self_named Player (actor_death.victim e)"
| "primary_entity_for (PlayerDeath e) h =
     self_named Player (case h of Some x \<Rightarrow> x | None \<Rightarrow> UNKNOWN_ID)"
| "primary_entity_for (PlayerIncapacitated e) h =
     self_named Player (case h of Some x \<Rightarrow> x | None \<Rightarrow> UNKNOWN_ID)"
| "primary_entity_for (VehicleDestruction e) h =
     \<lparr>kind = Vehicle, id = (case vehicle_destruction.vehicle_id e of Some x \<Rightarrow> x | None \<Rightarrow> UNKNOWN_ID), display_name = vehicle_destruction.vehicle_class e\<rparr>"
| "primary_entity_for (ActorEjected e) h =
     self_named Vehicle (actor_ejected.vehicle_class e)"
| "primary_entity_for (HudNotification e) h =
     \<lparr>kind = System, id = ''hud'', display_name = ''HUD''\<rparr>"
| "primary_entity_for (LocationInventoryRequested e) h =
     self_named Location (location_inventory_requested.location e)"
| "primary_entity_for (PlanetTerrainLoad e) h =
     self_named Location (planet_terrain_load.planet e)"
| "primary_entity_for (QuantumTargetSelected e) h =
     \<lparr>kind = Vehicle, id = quantum_target_selected.vehicle_id e, display_name = quantum_target_selected.vehicle_class e\<rparr>"
| "primary_entity_for (AttachmentReceived e) h =
     \<lparr>kind = Item, id = attachment_received.item_id e, display_name = attachment_received.item_class e\<rparr>"
| "primary_entity_for (VehicleStowed e) h =
     self_named Vehicle (vehicle_stowed.vehicle_id e)"
| "primary_entity_for (GameCrash e) h =
     self_named System ''crash''"
| "primary_entity_for (LauncherActivity e) h =
     self_named System ''launcher''"
| "primary_entity_for (MissionStart e) h =
     \<lparr>kind = Mission, id = mission_start.mission_id e, display_name = (case mission_start.mission_name e of Some x \<Rightarrow> x | None \<Rightarrow> mission_start.mission_id e)\<rparr>"
| "primary_entity_for (MissionEnd e) h =
     entity_with_fallback Mission (mission_end.mission_id e) None"
| "primary_entity_for (ShopBuyRequest e) h =
     entity_with_fallback Shop (shop_buy_request.shop_id e) (shop_buy_request.shop_name e)"
| "primary_entity_for (ShopFlowResponse e) h =
     entity_with_fallback Shop (shop_flow_response.shop_id e) None"
| "primary_entity_for (CommodityBuyRequest e) h =
     entity_with_fallback Shop (commodity_buy_request.commodity e) None"
| "primary_entity_for (CommoditySellRequest e) h =
     entity_with_fallback Shop (commodity_sell_request.commodity e) None"
| "primary_entity_for (SessionEnd e) h =
     self_named Session ''session''"
| "primary_entity_for (RemoteMatch e) h =
     self_named System (remote_match.event_name e)"
| "primary_entity_for (BurstSummary e) h =
     self_named System (burst_summary.rule_id e)"
| "primary_entity_for (LocationChanged e) h =
     self_named Location (location_changed.to e)"
| "primary_entity_for (ShopRequestTimedOut e) h =
     entity_with_fallback Shop (shop_request_timed_out.shop_id e) None"
| "primary_entity_for (MissionObjective e) h =
     \<lparr>kind = Mission, id = (case mission_objective.mission_id e of Some x \<Rightarrow> x | None \<Rightarrow> mission_objective.objective_id e), display_name = (case mission_objective.text e of Some x \<Rightarrow> x | None \<Rightarrow> (case mission_objective.mission_id e of Some x \<Rightarrow> x | None \<Rightarrow> mission_objective.objective_id e))\<rparr>"
| "primary_entity_for (QuantumRoute e) h =
     \<lparr>kind = Vehicle, id = quantum_route.vehicle_id e, display_name = quantum_route.vehicle_class e\<rparr>"
| "primary_entity_for (QuantumArrived e) h =
     \<lparr>kind = Vehicle, id = quantum_arrived.vehicle_id e, display_name = quantum_arrived.vehicle_class e\<rparr>"
| "primary_entity_for (ItemEquipChange e) h =
     self_named Item (item_equip_change.item_class e)"
| "primary_entity_for (MissionQuantumDestinationSelected e) h =
     self_named Mission (mission_quantum_destination_selected.beacon_id e)"
| "primary_entity_for (TravelToContractLocation e) h =
     self_named Mission (travel_to_contract_location.beacon_id e)"

section \<open>Type keys\<close>

primrec event_type_key :: "game_event \<Rightarrow> string" where
  "event_type_key (ProcessInit e) = ''process_init''"
| "event_type_key (LegacyLogin e) = ''legacy_login''"
| "event_type_key (JoinPu e) = ''join_pu''"
| "event_type_key (ChangeServer e) = ''change_server''"
| "event_type_key (SeedSolarSystem e) = ''seed_solar_system''"
| "event_type_key (ResolveSpawn e) = ''resolve_spawn''"
| "event_type_key (ActorDeath e) = ''actor_death''"
| "event_type_key (PlayerDeath e) = ''player_death''"
| "event_type_key (PlayerIncapacitated e) = ''player_incapacitated''"
| "event_type_key (VehicleDestruction e) = ''vehicle_destruction''"
| "event_type_key (ActorEjected e) = ''actor_ejected''"
| "event_type_key (HudNotification e) = ''hud_notification''"
| "event_type_key (LocationInventoryRequested e) = ''location_inventory_requested''"
| "event_type_key (PlanetTerrainLoad e) = ''planet_terrain_load''"
| "event_type_key (QuantumTargetSelected e) = ''quantum_target_selected''"
| "event_type_key (AttachmentReceived e) = ''attachment_received''"
| "event_type_key (VehicleStowed e) = ''vehicle_stowed''"
| "event_type_key (GameCrash e) = ''game_crash''"
| "event_type_key (LauncherActivity e) = ''launcher_activity''"
| "event_type_key (MissionStart e) = ''mission_start''"
| "event_type_key (MissionEnd e) = ''mission_end''"
| "event_type_key (ShopBuyRequest e) = ''shop_buy_request''"
| "event_type_key (ShopFlowResponse e) = ''shop_flow_response''"
| "event_type_key (CommodityBuyRequest e) = ''commodity_buy_request''"
| "event_type_key (CommoditySellRequest e) = ''commodity_sell_request''"
| "event_type_key (SessionEnd e) = ''session_end''"
| "event_type_key (RemoteMatch e) = ''remote_match''"
| "event_type_key (BurstSummary e) = ''burst_summary''"
| "event_type_key (LocationChanged e) = ''location_changed''"
| "event_type_key (ShopRequestTimedOut e) = ''shop_request_timed_out''"
| "event_type_key (MissionObjective e) = ''mission_objective''"
| "event_type_key (QuantumRoute e) = ''quantum_route''"
| "event_type_key (QuantumArrived e) = ''quantum_arrived''"
| "event_type_key (ItemEquipChange e) = ''item_equip_change''"
| "event_type_key (MissionQuantumDestinationSelected e) = ''mission_quantum_destination_selected''"
| "event_type_key (TravelToContractLocation e) = ''travel_to_contract_location''"

definition all_event_type_keys :: "string list" where
  "all_event_type_keys =
     [''process_init'',
      ''legacy_login'',
      ''join_pu'',
      ''change_server'',
      ''seed_solar_system'',
      ''resolve_spawn'',
      ''actor_death'',
      ''player_death'',
      ''player_incapacitated'',
      ''vehicle_destruction'',
      ''hud_notification'',
      ''location_inventory_requested'',
      ''planet_terrain_load'',
      ''quantum_target_selected'',
      ''attachment_received'',
      ''vehicle_stowed'',
      ''game_crash'',
      ''launcher_activity'',
      ''mission_start'',
      ''mission_end'',
      ''shop_buy_request'',
      ''shop_flow_response'',
      ''commodity_buy_request'',
      ''commodity_sell_request'',
      ''session_end'',
      ''remote_match'',
      ''burst_summary'',
      ''location_changed'',
      ''shop_request_timed_out'',
      ''mission_objective'',
      ''quantum_route'',
      ''item_equip_change'',
      ''mission_quantum_destination_selected'',
      ''travel_to_contract_location'']"

section \<open>Group keys and stamping\<close>

text \<open>The format string \<open>"{}:{}:{}"\<close> the code writes at three places.\<close>

definition group_key_format :: "string \<Rightarrow> entity_kind \<Rightarrow> string \<Rightarrow> string" where
  "group_key_format tk k i = tk @ '':'' @ entity_kind_key k @ '':'' @ i"

definition group_key_for :: "game_event \<Rightarrow> string option \<Rightarrow> string" where
  "group_key_for ev h =
     (let ent = primary_entity_for ev h
      in group_key_format (event_type_key ev) (entity_ref.kind ent) (entity_ref.id ent))"

definition provenance_for_inferred_field :: "string \<Rightarrow> string list \<Rightarrow> field_provenance" where
  "provenance_for_inferred_field fld ids =
     (if ids = [] then FieldObserved
      else InferredFrom ids (''inferred_'' @ fld @ ''_from_sources''))"

definition stamp :: "game_event \<Rightarrow> string option \<Rightarrow> event_metadata" where
  "stamp ev h =
     (let primary = primary_entity_for ev h
      in observed primary
           (group_key_format (event_type_key ev) (entity_ref.kind primary) (entity_ref.id primary)))"

section \<open>Lemmas\<close>

lemma entity_kind_key_inj [simp]: "entity_kind_key k = entity_kind_key k' \<longleftrightarrow> k = k'"
  by (cases k; cases k') simp_all

lemma colon_not_in_kind_key: "CHR '':'' \<notin> set (entity_kind_key k)"
  by (cases k) simp_all

lemma colon_not_in_type_key: "CHR '':'' \<notin> set (event_type_key ev)"
  by (cases ev) simp_all

lemma colon_append_inj:
  assumes "CHR '':'' \<notin> set a" and "CHR '':'' \<notin> set a'"
  shows "a @ '':'' @ b = a' @ '':'' @ b' \<longleftrightarrow> a = a' \<and> b = b'"
  using assms by (induction a arbitrary: a') (case_tac a'; auto)+

lemma group_key_format_inj:
  assumes "CHR '':'' \<notin> set tk" and "CHR '':'' \<notin> set tk'"
  shows "group_key_format tk k i = group_key_format tk' k' i' \<longleftrightarrow> tk = tk' \<and> k = k' \<and> i = i'"
  using assms
  by (simp only: group_key_format_def colon_append_inj colon_not_in_kind_key entity_kind_key_inj
      simp_thms)

lemmas event_type_key_rangeI =
  rangeI [of event_type_key "ProcessInit undefined", simplified]
  rangeI [of event_type_key "LegacyLogin undefined", simplified]
  rangeI [of event_type_key "JoinPu undefined", simplified]
  rangeI [of event_type_key "ChangeServer undefined", simplified]
  rangeI [of event_type_key "SeedSolarSystem undefined", simplified]
  rangeI [of event_type_key "ResolveSpawn undefined", simplified]
  rangeI [of event_type_key "ActorDeath undefined", simplified]
  rangeI [of event_type_key "PlayerDeath undefined", simplified]
  rangeI [of event_type_key "PlayerIncapacitated undefined", simplified]
  rangeI [of event_type_key "VehicleDestruction undefined", simplified]
  rangeI [of event_type_key "ActorEjected undefined", simplified]
  rangeI [of event_type_key "HudNotification undefined", simplified]
  rangeI [of event_type_key "LocationInventoryRequested undefined", simplified]
  rangeI [of event_type_key "PlanetTerrainLoad undefined", simplified]
  rangeI [of event_type_key "QuantumTargetSelected undefined", simplified]
  rangeI [of event_type_key "AttachmentReceived undefined", simplified]
  rangeI [of event_type_key "VehicleStowed undefined", simplified]
  rangeI [of event_type_key "GameCrash undefined", simplified]
  rangeI [of event_type_key "LauncherActivity undefined", simplified]
  rangeI [of event_type_key "MissionStart undefined", simplified]
  rangeI [of event_type_key "MissionEnd undefined", simplified]
  rangeI [of event_type_key "ShopBuyRequest undefined", simplified]
  rangeI [of event_type_key "ShopFlowResponse undefined", simplified]
  rangeI [of event_type_key "CommodityBuyRequest undefined", simplified]
  rangeI [of event_type_key "CommoditySellRequest undefined", simplified]
  rangeI [of event_type_key "SessionEnd undefined", simplified]
  rangeI [of event_type_key "RemoteMatch undefined", simplified]
  rangeI [of event_type_key "BurstSummary undefined", simplified]
  rangeI [of event_type_key "LocationChanged undefined", simplified]
  rangeI [of event_type_key "ShopRequestTimedOut undefined", simplified]
  rangeI [of event_type_key "MissionObjective undefined", simplified]
  rangeI [of event_type_key "QuantumRoute undefined", simplified]
  rangeI [of event_type_key "QuantumArrived undefined", simplified]
  rangeI [of event_type_key "ItemEquipChange undefined", simplified]
  rangeI [of event_type_key "MissionQuantumDestinationSelected undefined", simplified]
  rangeI [of event_type_key "TravelToContractLocation undefined", simplified]

lemma range_event_type_key:
  "range event_type_key = set all_event_type_keys \<union> {''actor_ejected'', ''quantum_arrived''}"
proof (rule subset_antisym)
  show "range event_type_key \<subseteq> set all_event_type_keys \<union> {''actor_ejected'', ''quantum_arrived''}"
  proof (rule image_subsetI)
    fix ev
    show "event_type_key ev \<in> set all_event_type_keys \<union> {''actor_ejected'', ''quantum_arrived''}"
      by (cases ev) (simp_all add: all_event_type_keys_def)
  qed
  show "set all_event_type_keys \<union> {''actor_ejected'', ''quantum_arrived''} \<subseteq> range event_type_key"
    by (simp add: all_event_type_keys_def event_type_key_rangeI)
qed

lemma stamp_group_key: "event_metadata.group_key (stamp ev h) = group_key_for ev h"
  by (simp add: stamp_def observed_def group_key_for_def Let_def)

section \<open>Properties\<close>

text \<open>A group key identifies its row: two events have the same group key exactly when they have the
  same type key and their primary entities have the same kind and the same id, although the id is
  free text that may itself contain the separator.\<close>

theorem group_key_for_inj:
  "group_key_for ev h = group_key_for ev' h' \<longleftrightarrow>
     event_type_key ev = event_type_key ev' \<and>
     entity_ref.kind (primary_entity_for ev h) = entity_ref.kind (primary_entity_for ev' h') \<and>
     entity_ref.id (primary_entity_for ev h) = entity_ref.id (primary_entity_for ev' h')"
  by (simp add: group_key_for_def Let_def group_key_format_inj colon_not_in_type_key)

text \<open>The published list of type keys names real event types only and names each once, but it is not
  complete: exactly \<open>actor_ejected\<close> and \<open>quantum_arrived\<close>, which events carry, are not in it.\<close>

theorem all_event_type_keys_missing:
  "distinct all_event_type_keys \<and>
   set all_event_type_keys = range event_type_key - {''actor_ejected'', ''quantum_arrived''} \<and>
   {''actor_ejected'', ''quantum_arrived''} \<subseteq> range event_type_key"
proof (intro conjI)
  show "distinct all_event_type_keys"
    by (simp add: all_event_type_keys_def)
  have "''actor_ejected'' \<notin> set all_event_type_keys" "''quantum_arrived'' \<notin> set all_event_type_keys"
    by (simp_all add: all_event_type_keys_def)
  then show "set all_event_type_keys = range event_type_key - {''actor_ejected'', ''quantum_arrived''}"
    unfolding range_event_type_key by blast
  show "{''actor_ejected'', ''quantum_arrived''} \<subseteq> range event_type_key"
    unfolding range_event_type_key by blast
qed

end
