(* ===== verification/Location_Taxonomy.thy ===== *)
theory Location_Taxonomy
  imports Text_Ops
begin

text \<open>
  The location taxonomy (\<open>crates/starstats-core/src/location_taxonomy.rs\<close>): the closed vocabulary of tiers, the parser of wiki
  categories, the slug of a page title; and the wire projection of a classification (\<open>location_classifier.rs\<close>).

  The tier's spelling meets the interface \<open>closed_vocabulary\<close>.  The lemmas show that each field of a parsed taxonomy is the first
  category that fits it, whatever else the page carries, what a slug looks like, and the one way the parser can panic.
\<close>

datatype location_tier =
    System | AstronomicalObject | LandingZone | SpaceStation | Landmark | Flotilla | NavalBase | AnonymousPoi

primrec location_tier_as_str :: "location_tier \<Rightarrow> string" where
  "location_tier_as_str System = ''system''"
| "location_tier_as_str AstronomicalObject = ''astronomical_object''"
| "location_tier_as_str LandingZone = ''landing_zone''"
| "location_tier_as_str SpaceStation = ''space_station''"
| "location_tier_as_str Landmark = ''landmark''"
| "location_tier_as_str Flotilla = ''flotilla''"
| "location_tier_as_str NavalBase = ''naval_base''"
| "location_tier_as_str AnonymousPoi = ''anonymous_poi''"

definition location_tier_parse :: "string \<Rightarrow> location_tier option" where
  "location_tier_parse s =
     (if s = ''system'' then Some System
      else if s = ''astronomical_object'' then Some AstronomicalObject
      else if s = ''landing_zone'' then Some LandingZone
      else if s = ''space_station'' then Some SpaceStation
      else if s = ''landmark'' then Some Landmark
      else if s = ''flotilla'' then Some Flotilla
      else if s = ''naval_base'' then Some NavalBase
      else if s = ''anonymous_poi'' then Some AnonymousPoi
      else None)"

datatype classification_source = Catalog | Fuzzy | Synthetic | Heuristic | Fallback

record resolved_location =
  display_name :: string
  slug :: "string option"
  system :: "string option"
  tier :: location_tier
  source :: classification_source

interpretation tier_vocab: closed_vocabulary location_tier_as_str location_tier_parse
  "[System, AstronomicalObject, LandingZone, SpaceStation, Landmark, Flotilla, NavalBase, AnonymousPoi]"
proof
  fix c :: location_tier and s :: string
  show "location_tier_parse (location_tier_as_str c) = Some c"
    by (cases c) (simp_all add: location_tier_parse_def)
  show "s = location_tier_as_str c" if "location_tier_parse s = Some c"
    using that by (auto simp: location_tier_parse_def split: if_splits)
  show "c \<in> set [System, AstronomicalObject, LandingZone, SpaceStation, Landmark, Flotilla,
      NavalBase, AnonymousPoi]"
    by (cases c) simp_all
qed simp

section \<open>Wiki categories\<close>

datatype placement =
    OnBody string
  | OrbitsBody string
  | LagrangePoint u8 string
  | SunwardFrom string
  | AngleFrom "16 word" string

record location_taxonomy =
  tier :: "location_tier option"
  subtype :: "string option"
  placement :: "placement option"
  operator :: "string option"
  faction :: "string option"
  additional_categories :: "string list"

definition location_taxonomy_default :: location_taxonomy where
  "location_taxonomy_default =
     \<lparr>location_taxonomy.tier = None, subtype = None, placement = None, operator = None, faction = None, additional_categories = []\<rparr>"

definition taxonomy_is_empty :: "location_taxonomy \<Rightarrow> bool" where
  "taxonomy_is_empty t \<longleftrightarrow>
     location_taxonomy.tier t = None \<and> subtype t = None \<and> placement t = None \<and> operator t = None \<and> faction t = None \<and>
     additional_categories t = []"

definition match_tier :: "string \<Rightarrow> location_tier option" where
  "match_tier c =
     map_of [(''Systems'', System), (''Astronomical objects'', AstronomicalObject), (''Landing zones'', LandingZone),
       (''Space stations'', SpaceStation), (''Landmarks'', Landmark), (''Flotillas'', Flotilla), (''Naval bases'', NavalBase)] c"

definition match_subtype :: "string \<Rightarrow> string option" where
  "match_subtype c =
     map_of
       [(''Stars'', ''star''), (''Planets'', ''planet''), (''Moons'', ''moon''), (''Planetary Moons'', ''moon''),
        (''Planetoids'', ''planetoid''), (''Nebulae'', ''nebula''), (''Asteroid belts'', ''asteroid_belt''), (''Cities'', ''city''),
        (''Rest Stops'', ''rest_stop''), (''Orbital stations'', ''orbital_station''), (''Asteroid bases'', ''asteroid_base''),
        (''Gateway stations'', ''gateway_station''), (''Orbital laser platforms'', ''orbital_laser_platform''),
        (''Sealed settlements'', ''sealed_settlement''), (''Settlements'', ''settlement''), (''Outposts'', ''outpost''),
        (''Spaceports'', ''spaceport''), (''Salvage yards'', ''salvage_yard''), (''Drug labs'', ''drug_lab''),
        (''Distribution Centers'', ''distribution_center''), (''Racetracks'', ''racetrack''),
        (''Convention centers'', ''convention_center''), (''Shelters'', ''shelter''),
        (''Forward operating bases'', ''forward_operating_base''), (''Hospitals'', ''hospital''), (''Markets'', ''market''),
        (''Bars'', ''bar''), (''Restaurants'', ''restaurant''), (''Museums'', ''museum''), (''Apartment Habs'', ''apartment_hab''),
        (''Lounges'', ''lounge''), (''Commercial buildings'', ''commercial_building''),
        (''Planetary alignment facilities'', ''planetary_alignment_facility''), (''Geomorphology'', ''geomorphology'')] c"

text \<open>The slice behind the sign is taken at the width of the degree sign, also when an asterisk was found.\<close>

definition DEGREE :: string where
  "DEGREE = [CHR 0xC2, CHR 0xB0]"

definition parse_angle_from :: "string \<Rightarrow> (placement option, placement option) flow" where
  "parse_angle_from c =
     ask (case split_once DEGREE c of Some (a, _) \<Rightarrow> Some (length a) | None \<Rightarrow> map_option (\<lambda>(a, _). length a) (split_once ''*'' c))
       (\<lambda>deg_pos.
         let lead = take deg_pos c
         in slice_from c (deg_pos + length DEGREE) (\<lambda>tail.
              ask (parse_signed 16 (trim lead)) (\<lambda>degrees.
                ask (strip_prefix '' from '' tail) (\<lambda>rest.
                  let bd = trim rest
                  in if bd = [] then Return None else Go (Some (AngleFrom (word_of_int degrees) bd))))))"

definition match_placement :: "string \<Rightarrow> placement option exec" where
  "match_placement c =
     (case strip_prefix ''On '' c of
        Some rest \<Rightarrow> Done (Some (OnBody (trim rest)))
      | None \<Rightarrow>
          (case strip_prefix ''Orbits '' c of
             Some rest \<Rightarrow> Done (Some (OrbitsBody (trim rest)))
           | None \<Rightarrow>
               (case strip_prefix ''Lagrange Point L'' c of
                  Some rest \<Rightarrow>
                    (let digits = takeWhile is_ascii_digit rest; tail = dropWhile is_ascii_digit rest
                     in if digits = [] then Done None
                        else
                          (case parse_unsigned 8 digits of
                             None \<Rightarrow> Done None
                           | Some l \<Rightarrow> if trim tail = [] then Done None else Done (Some (LagrangePoint (word_of_int l) (trim tail)))))
                | None \<Rightarrow>
                    (case strip_prefix ''Sunward from '' c of
                       Some rest \<Rightarrow> Done (Some (SunwardFrom (trim rest)))
                     | None \<Rightarrow> run_flow (parse_angle_from c)))))"

definition match_operator :: "string \<Rightarrow> string option" where
  "match_operator c =
     (if c \<in> {''Hurston Dynamics'', ''Crusader Industries'', ''ArcCorp'', ''Shubin Interstellar'', ''Greycat Industrial'',
              ''Aciedo'', ''Aegis Dynamics'', ''Anvil Aerospace'', ''Drake Interplanetary'', ''MISC'', ''Origin Jumpworks'',
              ''Roberts Space Industries''} then Some c else None)"

definition match_faction :: "string \<Rightarrow> string option" where
  "match_faction c =
     (if c \<in> {''Nine Tails'', ''XenoThreat'', ''Rough & Ready'', ''Citizens for Prosperity'', ''United Empire of Earth Navy'',
              ''Banu Flotilla'', ''Outlaw''} then Some c else None)"

text \<open>One round of the loop: a category fills the first empty field that it fits; otherwise it is kept aside, up to 32 of them.\<close>

definition taxonomy_rest :: "location_taxonomy \<Rightarrow> string \<Rightarrow> location_taxonomy" where
  "taxonomy_rest t c =
     (if operator t = None \<and> match_operator c \<noteq> None then t\<lparr>operator := match_operator c\<rparr>
      else if faction t = None \<and> match_faction c \<noteq> None then t\<lparr>faction := match_faction c\<rparr>
      else if length (additional_categories t) < 32 then t\<lparr>additional_categories := additional_categories t @ [c]\<rparr>
      else t)"

definition taxonomy_step :: "location_taxonomy \<Rightarrow> string \<Rightarrow> location_taxonomy exec" where
  "taxonomy_step t c =
     (if location_taxonomy.tier t = None \<and> match_tier c \<noteq> None then Done (t\<lparr>location_taxonomy.tier := match_tier c\<rparr>)
      else if subtype t = None \<and> match_subtype c \<noteq> None then Done (t\<lparr>subtype := match_subtype c\<rparr>)
      else if placement t = None then
        (case match_placement c of
           Panics \<Rightarrow> Panics
         | Done (Some p) \<Rightarrow> Done (t\<lparr>placement := Some p\<rparr>)
         | Done None \<Rightarrow> Done (taxonomy_rest t c))
      else Done (taxonomy_rest t c))"

fun taxonomy_loop :: "location_taxonomy \<Rightarrow> string list \<Rightarrow> location_taxonomy exec" where
  "taxonomy_loop t [] = Done t"
| "taxonomy_loop t (c # cs) = (case taxonomy_step t c of Panics \<Rightarrow> Panics | Done t' \<Rightarrow> taxonomy_loop t' cs)"

definition parse_categories_to_taxonomy :: "string list \<Rightarrow> location_taxonomy exec" where
  "parse_categories_to_taxonomy cs = taxonomy_loop location_taxonomy_default cs"

section \<open>Slugs\<close>

definition strip_trailing_parenthetical :: "string \<Rightarrow> string" where
  "strip_trailing_parenthetical s =
     (case rsplit_once (CHR ''('') s of
        None \<Rightarrow> s
      | Some (before, _) \<Rightarrow> if suffix '')'' (trim_end s) then trim_end before else s)"

text \<open>The loop over the characters; a character beyond ASCII counts as one separator, as each of its bytes would.\<close>

fun slug_step :: "string \<times> bool \<Rightarrow> char \<Rightarrow> string \<times> bool" where
  "slug_step (out, last_was_hyphen) c =
     (if is_ascii_alphanumeric c then (out @ [char_to_ascii_lowercase c], False)
      else if \<not> last_was_hyphen then (out @ ''-'', True)
      else (out, last_was_hyphen))"

definition slug_from_page_title :: "string \<Rightarrow> string" where
  "slug_from_page_title title =
     (let out = fst (foldl slug_step ([], True) (strip_trailing_parenthetical title))
      in if suffix ''-'' out then butlast out else out)"

section \<open>Each field is the first category that fits\<close>

definition or_else :: "'a option \<Rightarrow> 'a option \<Rightarrow> 'a option" where
  "or_else x y = (case x of Some v \<Rightarrow> Some v | None \<Rightarrow> y)"

lemma or_else_simps [simp]: "or_else None y = y" "or_else (Some v) y = Some v" "or_else x None = x"
  by (simp_all add: or_else_def split: option.split)

lemma find_map_Cons: "find_map f (x # xs) = or_else (f x) (find_map f xs)"
  by (simp add: or_else_def)

lemma or_else_assoc: "or_else (or_else x y) z = or_else x (or_else y z)"
  by (simp add: or_else_def split: option.split)

definition placement_of :: "string \<Rightarrow> placement option" where
  "placement_of c = (case match_placement c of Done p \<Rightarrow> p | Panics \<Rightarrow> None)"

text \<open>The vocabularies of the fields are disjoint, and no name in them reads as a placement.\<close>

definition tier_names :: "string list" where
  "tier_names = [''Systems'', ''Astronomical objects'', ''Landing zones'', ''Space stations'', ''Landmarks'', ''Flotillas'', ''Naval bases'']"

definition subtype_names :: "string list" where
  "subtype_names =
     [''Stars'', ''Planets'', ''Moons'', ''Planetary Moons'', ''Planetoids'', ''Nebulae'', ''Asteroid belts'', ''Cities'',
      ''Rest Stops'', ''Orbital stations'', ''Asteroid bases'', ''Gateway stations'', ''Orbital laser platforms'',
      ''Sealed settlements'', ''Settlements'', ''Outposts'', ''Spaceports'', ''Salvage yards'', ''Drug labs'',
      ''Distribution Centers'', ''Racetracks'', ''Convention centers'', ''Shelters'', ''Forward operating bases'', ''Hospitals'',
      ''Markets'', ''Bars'', ''Restaurants'', ''Museums'', ''Apartment Habs'', ''Lounges'', ''Commercial buildings'',
      ''Planetary alignment facilities'', ''Geomorphology'']"

lemma match_tier_names: "match_tier c \<noteq> None \<Longrightarrow> c \<in> set tier_names"
  by (simp add: match_tier_def tier_names_def split: if_splits)

lemma match_subtype_names: "match_subtype c \<noteq> None \<Longrightarrow> c \<in> set subtype_names"
  by (simp only: match_subtype_def map_of.simps fun_upd_apply fst_conv subtype_names_def list.set insert_iff split: if_splits) simp_all

definition others_none :: "string \<Rightarrow> bool" where
  "others_none c \<longleftrightarrow> match_placement c = Done None \<and> match_operator c = None \<and> match_faction c = None"

lemma tier_only: "match_tier c \<noteq> None \<Longrightarrow> match_subtype c = None \<and> others_none c"
proof -
  have "list_all (\<lambda>c. match_subtype c = None \<and> others_none c) tier_names" by code_simp
  then show "match_tier c \<noteq> None \<Longrightarrow> ?thesis" using match_tier_names by (simp add: list_all_iff)
qed

lemma subtype_only: "match_subtype c \<noteq> None \<Longrightarrow> others_none c"
proof -
  have "list_all others_none subtype_names" by code_simp
  then show "match_subtype c \<noteq> None \<Longrightarrow> ?thesis" using match_subtype_names by (simp add: list_all_iff)
qed

lemma operator_only: "match_operator c \<noteq> None \<Longrightarrow> match_placement c = Done None \<and> match_faction c = None"
proof -
  have "list_all (\<lambda>c. match_placement c = Done None \<and> match_faction c = None)
      [''Hurston Dynamics'', ''Crusader Industries'', ''ArcCorp'', ''Shubin Interstellar'', ''Greycat Industrial'', ''Aciedo'',
       ''Aegis Dynamics'', ''Anvil Aerospace'', ''Drake Interplanetary'', ''MISC'', ''Origin Jumpworks'', ''Roberts Space Industries'']"
    by code_simp
  then show "match_operator c \<noteq> None \<Longrightarrow> ?thesis" by (auto simp: match_operator_def split: if_splits)
qed

lemma faction_only: "match_faction c \<noteq> None \<Longrightarrow> match_placement c = Done None"
proof -
  have "list_all (\<lambda>c. match_placement c = Done None)
      [''Nine Tails'', ''XenoThreat'', ''Rough & Ready'', ''Citizens for Prosperity'', ''United Empire of Earth Navy'',
       ''Banu Flotilla'', ''Outlaw'']"
    by code_simp
  then show "match_faction c \<noteq> None \<Longrightarrow> ?thesis" by (auto simp: match_faction_def split: if_splits)
qed

lemma or_else_same: "(x = None \<Longrightarrow> y = None) \<Longrightarrow> or_else x y = x"
  by (cases x) auto

lemma taxonomy_rest_fields:
  "location_taxonomy.tier (taxonomy_rest t c) = location_taxonomy.tier t"
  "subtype (taxonomy_rest t c) = subtype t"
  "placement (taxonomy_rest t c) = placement t"
  "operator (taxonomy_rest t c) = or_else (operator t) (match_operator c)"
  "faction (taxonomy_rest t c) = or_else (faction t) (match_faction c)"
  "length (additional_categories t) \<le> 32 \<Longrightarrow> length (additional_categories (taxonomy_rest t c)) \<le> 32"
proof -
  show "operator (taxonomy_rest t c) = or_else (operator t) (match_operator c)"
    by (cases "operator t"; cases "match_operator c") (simp_all add: taxonomy_rest_def)
  show "faction (taxonomy_rest t c) = or_else (faction t) (match_faction c)"
    using operator_only [of c]
    by (cases "faction t"; cases "match_faction c"; cases "match_operator c") (simp_all add: taxonomy_rest_def)
qed (simp_all add: taxonomy_rest_def)

lemma taxonomy_step_cases:
  assumes "taxonomy_step t c = Done t'"
  obtains "location_taxonomy.tier t = None" "match_tier c \<noteq> None" "t' = t\<lparr>location_taxonomy.tier := match_tier c\<rparr>"
  | "location_taxonomy.tier t = None \<Longrightarrow> match_tier c = None" "subtype t = None" "match_subtype c \<noteq> None"
    "t' = t\<lparr>subtype := match_subtype c\<rparr>"
  | p where "location_taxonomy.tier t = None \<Longrightarrow> match_tier c = None" "subtype t = None \<Longrightarrow> match_subtype c = None"
    "placement t = None" "match_placement c = Done (Some p)" "t' = t\<lparr>placement := Some p\<rparr>"
  | "location_taxonomy.tier t = None \<Longrightarrow> match_tier c = None" "subtype t = None \<Longrightarrow> match_subtype c = None"
    "placement t = None \<Longrightarrow> match_placement c = Done None" "t' = taxonomy_rest t c"
proof (cases "location_taxonomy.tier t = None \<and> match_tier c \<noteq> None")
  case False
  show ?thesis
  proof (cases "subtype t = None \<and> match_subtype c \<noteq> None")
    case sub: False
    show ?thesis
    proof (cases "placement t = None")
      case True
      then show ?thesis
        using assms False sub that(3,4) by (auto simp: taxonomy_step_def split: exec.splits option.splits if_splits)
    next
      case placed: False
      then show ?thesis using assms False sub that(4) by (auto simp: taxonomy_step_def split: if_splits)
    qed
  qed (use assms False that(2) in \<open>auto simp: taxonomy_step_def\<close>)
qed (use assms that(1) in \<open>auto simp: taxonomy_step_def\<close>)

lemma taxonomy_step_fields:
  assumes "taxonomy_step t c = Done t'"
  shows "location_taxonomy.tier t' = or_else (location_taxonomy.tier t) (match_tier c) \<and>
    subtype t' = or_else (subtype t) (match_subtype c) \<and>
    placement t' = or_else (placement t) (placement_of c) \<and>
    operator t' = or_else (operator t) (match_operator c) \<and>
    faction t' = or_else (faction t) (match_faction c) \<and>
    (length (additional_categories t) \<le> 32 \<longrightarrow> length (additional_categories t') \<le> 32)"
  using assms
proof (cases rule: taxonomy_step_cases)
  case 1
  then show ?thesis using tier_only [of c] by (simp add: or_else_same placement_of_def others_none_def)
next
  case 2
  then show ?thesis using subtype_only [of c] by (simp add: or_else_same placement_of_def others_none_def)
next
  case (3 p)
  have "match_operator c = None" "match_faction c = None"
    using 3(4) operator_only [of c] faction_only [of c] by (cases "match_operator c"; cases "match_faction c"; simp)+
  then show ?thesis using 3 by (simp add: or_else_same placement_of_def)
next
  case 4
  then show ?thesis by (simp add: taxonomy_rest_fields or_else_same placement_of_def)
qed

lemma taxonomy_loop_fields:
  "taxonomy_loop t cs = Done t' \<Longrightarrow>
     location_taxonomy.tier t' = or_else (location_taxonomy.tier t) (find_map match_tier cs) \<and>
     subtype t' = or_else (subtype t) (find_map match_subtype cs) \<and>
     placement t' = or_else (placement t) (find_map placement_of cs) \<and>
     operator t' = or_else (operator t) (find_map match_operator cs) \<and>
     faction t' = or_else (faction t) (find_map match_faction cs) \<and>
     (length (additional_categories t) \<le> 32 \<longrightarrow> length (additional_categories t') \<le> 32)"
proof (induction cs arbitrary: t)
  case (Cons c cs)
  then obtain t1 where t1: "taxonomy_step t c = Done t1" "taxonomy_loop t1 cs = Done t'" by (auto split: exec.splits)
  from Cons.IH [OF t1(2)] taxonomy_step_fields [OF t1(1)] show ?case
    by (simp add: find_map_Cons or_else_assoc del: find_map.simps(2))
qed simp

section \<open>What a slug looks like\<close>

text \<open>Lower-case letters, digits and hyphens, no hyphen first and no two in a row.\<close>

fun slug_ok :: "string \<times> bool \<Rightarrow> bool" where
  "slug_ok (out, h) \<longleftrightarrow>
     list_all (\<lambda>c. is_ascii_lowercase c \<or> is_ascii_digit c \<or> c = CHR ''-'') out \<and>
     \<not> prefix ''-'' out \<and> \<not> sublist ''--'' out \<and> (h \<longleftrightarrow> out = [] \<or> suffix ''-'' out)"

lemma lower_not_hyphen: "is_ascii_lowercase c \<or> is_ascii_digit c \<Longrightarrow> c \<noteq> CHR ''-''"
  by (auto simp: is_ascii_lowercase_def is_ascii_digit_def less_eq_char_def)

lemma sublist_two_snoc: "sublist [a, b] (xs @ [c]) \<longleftrightarrow> sublist [a, b] xs \<or> b = c \<and> suffix [a] xs"
proof -
  have "sublist [a, b] (xs @ [c]) \<longleftrightarrow> suffix [a, b] (xs @ [c]) \<or> sublist [a, b] xs"
    by (simp add: sublist_snoc)
  also have "suffix [a, b] (xs @ [c]) \<longleftrightarrow> b = c \<and> suffix [a] xs"
    using snoc_suffix_snoc [of "[a]" b xs c] by auto
  finally show ?thesis by blast
qed

lemma slug_ok_snoc:
  "slug_ok (out @ [c], h) \<longleftrightarrow>
     slug_ok (out, out = [] \<or> suffix ''-'' out) \<and> (is_ascii_lowercase c \<or> is_ascii_digit c \<or> c = CHR ''-'') \<and>
     (c = CHR ''-'' \<longrightarrow> out \<noteq> [] \<and> \<not> suffix ''-'' out) \<and> (h \<longleftrightarrow> c = CHR ''-'')"
proof -
  have "prefix ''-'' (out @ [c]) \<longleftrightarrow> prefix ''-'' out \<or> out = [] \<and> c = CHR ''-''" by (cases out) auto
  moreover have "suffix ''-'' (out @ [c]) \<longleftrightarrow> c = CHR ''-''" by (auto simp: suffix_def)
  ultimately show ?thesis by (auto simp: sublist_two_snoc)
qed

lemma slug_step_ok: "slug_ok s \<Longrightarrow> slug_ok (slug_step s c)"
proof -
  assume ok: "slug_ok s"
  obtain out h where s: "s = (out, h)" by (cases s)
  have h: "h \<longleftrightarrow> out = [] \<or> suffix ''-'' out" using ok unfolding s by simp
  then have ok': "slug_ok (out, out = [] \<or> suffix ''-'' out)" using ok unfolding s by simp
  show ?thesis
  proof (cases "is_ascii_alphanumeric c")
    case True
    from lower_class [OF this] lower_not_hyphen have "char_to_ascii_lowercase c \<noteq> CHR ''-''" by blast
    with lower_class [OF True] ok' True show ?thesis unfolding s
      by (simp only: slug_step.simps slug_ok_snoc if_True) blast
  next
    case False
    with h ok' show ?thesis unfolding s
      by (cases h) (simp_all only: slug_step.simps slug_ok_snoc if_False if_True not_True_eq_False not_False_eq_True, auto)
  qed
qed

interpretation slug_fold: stream_fold slug_step slug_ok
  by unfold_locales (rule slug_step_ok)

lemma slug_from_page_title_ok:
  "slug_ok (slug_from_page_title title, False) \<or> slug_from_page_title title = []"
proof -
  obtain out h where run: "foldl slug_step ([], True) (strip_trailing_parenthetical title) = (out, h)" by fastforce
  have ok: "slug_ok (out, h)"
    using slug_fold.inv_run [of "([], True)" "strip_trailing_parenthetical title"] run by simp
  have slug: "slug_from_page_title title = (if suffix ''-'' out then butlast out else out)"
    using run by (simp add: slug_from_page_title_def Let_def)
  show ?thesis
  proof (cases "suffix ''-'' out")
    case True
    then obtain pre where out: "out = pre @ ''-''" by (auto simp: suffix_def)
    with ok have "pre \<noteq> []" "\<not> suffix ''-'' pre" "slug_ok (pre, False)" by (auto simp only: slug_ok_snoc) simp_all
    with True slug show ?thesis by (simp add: out)
  next
    case False
    then show ?thesis using ok slug by auto
  qed
qed

section \<open>When the parser panics\<close>

text \<open>Well-formed UTF-8 has no continuation byte behind a complete degree sign.\<close>

definition degree_complete :: "string \<Rightarrow> bool" where
  "degree_complete c \<longleftrightarrow> (\<forall>a b. c = a @ DEGREE @ b \<longrightarrow> b = [] \<or> \<not> is_continuation (hd b))"

lemma parse_angle_safe:
  assumes "CHR ''*'' \<notin> set c" "degree_complete c"
  shows "no_panic (parse_angle_from c)"
proof (cases "split_once DEGREE c")
  case None
  then show ?thesis using split_once_none [OF assms(1), of "[]"] by (simp add: parse_angle_from_def)
next
  case (Some ab)
  obtain a b where ab: "ab = (a, b)" by fastforce
  then have c: "c = a @ DEGREE @ b" using split_once_Some Some by blast
  with assms(2) have "b = [] \<or> \<not> is_continuation (hd b)" unfolding degree_complete_def by blast
  then have "is_char_boundary c (length a + length DEGREE)"
    by (cases b) (auto simp: is_char_boundary_def c nth_append)
  then show ?thesis
    by (auto simp: parse_angle_from_def Some ab slice_from_def no_panic_ask Let_def)
qed

lemma match_placement_safe: "CHR ''*'' \<notin> set c \<Longrightarrow> degree_complete c \<Longrightarrow> match_placement c \<noteq> Panics"
  using parse_angle_safe [of c] by (auto simp: match_placement_def Let_def run_no_panic split: option.split)

lemma taxonomy_loop_safe:
  "\<forall>c \<in> set cs. CHR ''*'' \<notin> set c \<and> degree_complete c \<Longrightarrow> \<exists>t'. taxonomy_loop t cs = Done t'"
proof (induction cs arbitrary: t)
  case (Cons c cs)
  then have "taxonomy_step t c \<noteq> Panics"
    using match_placement_safe [of c] by (auto simp: taxonomy_step_def split: exec.split option.split)
  then obtain t1 where "taxonomy_step t c = Done t1" by (cases "taxonomy_step t c") auto
  with Cons show ?case by simp
qed simp

section \<open>Properties\<close>

text \<open>What a page's categories become: when no category contains an asterisk, parsing returns, and every field is the first
  category that fits it, independently of the other fields and of everything else on the page; at most 32 leftovers are kept.\<close>

theorem parse_categories_fields:
  assumes "\<forall>c \<in> set cs. CHR ''*'' \<notin> set c \<and> degree_complete c"
  shows "\<exists>t. parse_categories_to_taxonomy cs = Done t \<and>
    location_taxonomy.tier t = find_map match_tier cs \<and> subtype t = find_map match_subtype cs \<and>
    placement t = find_map placement_of cs \<and> operator t = find_map match_operator cs \<and>
    faction t = find_map match_faction cs \<and> length (additional_categories t) \<le> 32"
proof -
  obtain t where t: "taxonomy_loop location_taxonomy_default cs = Done t" using taxonomy_loop_safe [OF assms] by blast
  from taxonomy_loop_fields [OF t] t show ?thesis
    by (auto simp: parse_categories_to_taxonomy_def location_taxonomy_default_def)
qed

lemma degree_complete_ascii: "CHR 0xC2 \<notin> set c \<Longrightarrow> degree_complete c"
  by (auto simp: degree_complete_def DEGREE_def)

theorem parse_categories_fields_witness:
  "\<exists>t. parse_categories_to_taxonomy [''Outposts'', ''On Daymar'', ''Landmarks''] = Done t \<and>
     location_taxonomy.tier t = Some Landmark \<and> subtype t = Some ''outpost''"
proof -
  have "\<forall>c \<in> set [''Outposts'', ''On Daymar'', ''Landmarks'']. CHR ''*'' \<notin> set c \<and> degree_complete c"
    by (simp add: degree_complete_ascii)
  from parse_categories_fields [OF this] show ?thesis by (auto simp: match_tier_def match_subtype_def)
qed

text \<open>A category that ends in an asterisk crashes the parser: the slice behind the sign is taken two bytes on, the width of the
  degree sign, although an asterisk is one byte.  \<open>Sagittarius A*\<close> is such a name.\<close>

theorem parse_categories_star_panics:
  assumes "CHR ''*'' \<notin> set c" "CHR 0xC2 \<notin> set c"
    and "match_tier (c @ ''*'') = None" "match_subtype (c @ ''*'') = None"
    and "\<not> prefix ''On '' c" "\<not> prefix ''Orbits '' c" "\<not> prefix ''Lagrange Point L'' c" "\<not> prefix ''Sunward from '' c"
  shows "parse_categories_to_taxonomy ((c @ ''*'') # cs) = Panics"
proof -
  have "split_once DEGREE (c @ ''*'') = None"
    using split_once_none [of "CHR 0xC2" "c @ ''*''" "[CHR 0xB0]"] assms(2) by (simp add: DEGREE_def)
  moreover have "split_once ''*'' (c @ ''*'') = Some (c, [])"
    using split_once_skip [OF assms(1), of "[]" "''*''"] by simp
  ultimately have "run_flow (parse_angle_from (c @ ''*'')) = Panics"
    by (simp add: parse_angle_from_def slice_from_def is_char_boundary_def DEGREE_def Let_def)
  moreover have "strip_prefix p (c @ ''*'') = None"
    if "p \<in> {''On '', ''Orbits '', ''Lagrange Point L'', ''Sunward from ''}" for p
    using that assms(5-8) by (auto simp: strip_prefix_def prefix_snoc)
  ultimately have "match_placement (c @ ''*'') = Panics" by (simp add: match_placement_def)
  with assms(3,4) show ?thesis
    by (simp add: parse_categories_to_taxonomy_def taxonomy_step_def location_taxonomy_default_def)
qed

theorem parse_categories_star_panics_witness: "parse_categories_to_taxonomy [''Sagittarius A*''] = Panics"
  using parse_categories_star_panics [of "''Sagittarius A''" "[]"] by (simp add: match_tier_def match_subtype_def)

text \<open>The shape of a slug: lower-case letters, digits and single hyphens, none of them first or last.\<close>

theorem slug_shape:
  "let s = slug_from_page_title title
   in list_all (\<lambda>c. is_ascii_lowercase c \<or> is_ascii_digit c \<or> c = CHR ''-'') s \<and>
      \<not> prefix ''-'' s \<and> \<not> suffix ''-'' s \<and> \<not> sublist ''--'' s"
  using slug_from_page_title_ok [of title] by (auto simp: Let_def)

end
