(* ===== verification/Wire.thy ===== *)
theory Wire
  imports Metadata Location_Taxonomy
begin

text \<open>
  The wire envelope of \<open>crates/starstats-core/src/wire.rs\<close> that every pass consumes, and the timestamp of
  an envelope (\<open>envelope_timestamp\<close> of \<open>inference.rs\<close>).  Time arithmetic goes through chrono, which is not
  part of the sources: \<open>chrono_rfc3339\<close> names the type of the parameter that stands for
  \<open>DateTime::parse_from_rfc3339\<close>, a partial map from strings to instants counted in nanoseconds since the
  epoch.  \<open>dt_timestamp\<close> and \<open>num_seconds\<close> are chrono's documented readings of an instant (whole seconds,
  rounded down) and of a difference of instants (whole seconds, truncated towards zero).
\<close>

datatype log_source = Live | Ptu | Eptu | Hotfix | Tech | Other

record event_envelope =
  idempotency_key :: string
  raw_line :: string
  event :: "game_event option"
  source :: log_source
  source_offset :: u64
  metadata :: "event_metadata option"
  resolved_location :: "resolved_location option"

type_synonym chrono_rfc3339 = "string \<Rightarrow> int option"

definition dt_timestamp :: "int \<Rightarrow> i64" where
  "dt_timestamp t = t div 1000000000"

definition num_seconds :: "int \<Rightarrow> i64" where
  "num_seconds d = tdiv d 1000000000"

definition envelope_timestamp :: "event_envelope \<Rightarrow> string option" where
  "envelope_timestamp env = map_option timestamp_of (event_envelope.event env)"

lemma num_seconds_pos_iff: "0 < num_seconds d \<longleftrightarrow> 1000000000 \<le> d"
proof (cases "0 \<le> d")
  case True
  then show ?thesis
    by (simp add: num_seconds_def tdiv_nonneg pos_imp_zdiv_pos_iff)
next
  case False
  then have "num_seconds d \<le> 0"
    by (simp add: num_seconds_def tdiv_def sgn_if)
  with False show ?thesis by simp
qed

lemma div_le_iff_less: "0 < b \<Longrightarrow> d div b \<le> n \<longleftrightarrow> d < (n + 1) * b" for d b n :: int
proof -
  assume b: "0 < b"
  have "d div b \<le> n \<longleftrightarrow> \<not> n + 1 \<le> d div b" by auto
  also have "\<dots> \<longleftrightarrow> \<not> (n + 1) * b \<le> d"
  proof -
    have "n + 1 \<le> d div b \<longleftrightarrow> (n + 1) * b \<le> d"
    proof
      assume "n + 1 \<le> d div b"
      then have "(n + 1) * b \<le> (d div b) * b" using b by (simp add: mult_right_mono)
      also have "\<dots> \<le> d" using b by (metis mult_div_mod_eq mult.commute pos_mod_sign le_add_same_cancel1)
      finally show "(n + 1) * b \<le> d" .
    next
      assume "(n + 1) * b \<le> d"
      then have "((n + 1) * b) div b \<le> d div b" using b by (rule zdiv_mono1)
      then show "n + 1 \<le> d div b" using b by simp
    qed
    then show ?thesis by simp
  qed
  finally show ?thesis by auto
qed

lemma num_seconds_le_iff: "0 \<le> n \<Longrightarrow> num_seconds d \<le> n \<longleftrightarrow> d < (n + 1) * 1000000000"
proof (cases "0 \<le> d")
  case True
  assume "0 \<le> n"
  from True have "num_seconds d = d div 1000000000"
    by (simp add: num_seconds_def tdiv_nonneg)
  then show ?thesis
    by (simp add: div_le_iff_less)
next
  case False
  assume "0 \<le> n"
  from False have "num_seconds d \<le> 0"
    by (simp add: num_seconds_def tdiv_def sgn_if)
  with False \<open>0 \<le> n\<close> show ?thesis by auto
qed

end
