(* ===== verification/Templates.thy ===== *)
theory Templates
  imports Parser Wire
begin

text \<open>
  Multi-line matching (\<open>crates/starstats-core/src/templates.rs\<close>): fixed sequences of steps with a slack budget
  (\<open>match_one_template\<close>), bursts of similar lines (\<open>detect_bursts_inner\<close>) and the categories of a loadout burst.
  The two nested loops of the burst scan are \<open>collect_members\<close> and \<open>scan_rule\<close>; they run on indices into the window
  and terminate because the index grows.  chrono's parser and Unicode lower-casing are the parameters \<open>rfc\<close> and \<open>to_lower\<close>.

  The lemmas show what a template hit and a burst hit mean line by line, that bursts never share a line, that a
  homogeneous rule leaves no matching line out, and that the loadout counts add up.
\<close>

section \<open>Fingerprints\<close>

datatype step_match =
    EventName (match_name: string)
  | BodyStartsWith (match_prefix: string)
  | BodyContains (match_needle: string)
  | Any

definition line_matches :: "log_line \<Rightarrow> step_match \<Rightarrow> string list \<Rightarrow> bool" where
  "line_matches line mat tgs =
     (let body_match = (case mat of
                          EventName n \<Rightarrow> log_line.event_name line = Some n
                        | BodyStartsWith p \<Rightarrow> starts_with (log_line.body line) p
                        | BodyContains n \<Rightarrow> contains_str (log_line.body line) n
                        | Any \<Rightarrow> True)
      in if \<not> body_match then False else list_all (\<lambda>t. t \<in> set (log_line.tags line)) tgs)"

section \<open>Templates\<close>

record template_step =
  step_match :: step_match
  tags :: "string list"
  optional :: bool
  label :: "string option"

record event_template =
  id :: string
  steps :: "template_step list"
  max_slack :: nat
  min_match_count :: nat

record template_hit =
  template_id :: string
  matched_count :: nat
  total_steps :: nat
  confidence :: rat
  captured_indices :: "nat option list"
  missing_steps :: "nat list"

text \<open>The inner loop: the first line from the current position that matches the step, while the budget lasts.\<close>

fun find_step :: "template_step \<Rightarrow> nat \<Rightarrow> nat \<Rightarrow> nat \<Rightarrow> log_line list \<Rightarrow> nat option" where
  "find_step st slack_used mx ofs [] = None"
| "find_step st slack_used mx ofs (line # rest) =
     (if line_matches line (template_step.step_match st) (template_step.tags st) then Some ofs
      else if mx \<le> slack_used + ofs then None
      else find_step st slack_used mx (ofs + 1) rest)"

text \<open>The outer loop over the steps; the result is what it pushes to \<open>captured\<close> and \<open>missing\<close>.\<close>

fun walk_steps ::
  "log_line list \<Rightarrow> nat \<Rightarrow> nat \<Rightarrow> nat \<Rightarrow> nat \<Rightarrow> template_step list \<Rightarrow> nat option list \<times> nat list" where
  "walk_steps win mx pos slack_used idx [] = ([], [])"
| "walk_steps win mx pos slack_used idx (st # sts) =
     (case find_step st slack_used mx 0 (drop pos win) of
        Some ofs \<Rightarrow>
          (let (cap, miss) = walk_steps win mx (pos + ofs + 1) (slack_used + ofs) (idx + 1) sts
           in (Some (pos + ofs) # cap, miss))
      | None \<Rightarrow>
          (let (cap, miss) = walk_steps win mx pos slack_used (idx + 1) sts
           in (None # cap, if optional st then miss else idx # miss)))"

definition match_one_template :: "log_line list \<Rightarrow> event_template \<Rightarrow> template_hit option" where
  "match_one_template win tpl =
     (if win = [] \<or> event_template.steps tpl = [] then None
      else
        let (captured, missing) = walk_steps win (max_slack tpl) 0 0 0 (event_template.steps tpl);
            required_total = length (filter (\<lambda>s. \<not> optional s) (event_template.steps tpl));
            required_matched = length (filter (\<lambda>(c, s). c \<noteq> None \<and> \<not> optional s)
                                 (zip captured (event_template.steps tpl)))
        in if required_matched < min_match_count tpl then None
           else
             Some \<lparr>template_id = event_template.id tpl,
                   matched_count = length (filter (\<lambda>c. c \<noteq> None) captured),
                   total_steps = length (event_template.steps tpl),
                   confidence = (if required_total = 0 then 1
                                 else f32_div (f32_of_nat (min required_matched required_total)) (f32_of_nat required_total)),
                   captured_indices = captured, missing_steps = missing\<rparr>)"

definition match_templates :: "log_line list \<Rightarrow> event_template list \<Rightarrow> template_hit list" where
  "match_templates win templates = List.map_filter (match_one_template win) templates"

section \<open>Bursts\<close>

record burst_rule =
  id :: string
  anchor :: step_match
  member :: step_match
  tags :: "string list"
  min_burst_size :: nat
  max_member_gap :: nat

record burst_hit =
  rule_id :: string
  start_index :: nat
  end_index :: nat
  size :: nat
  member_indices :: "nat list"

definition member_time_gap_exceeds :: "chrono_rfc3339 \<Rightarrow> string \<Rightarrow> string \<Rightarrow> i64 \<Rightarrow> bool" where
  "member_time_gap_exceeds rfc prev_ts cur_ts max_secs =
     (case (rfc prev_ts, rfc cur_ts) of
        (Some a, Some b) \<Rightarrow> max_secs < \<bar>num_seconds (b - a)\<bar>
      | _ \<Rightarrow> False)"

definition over_ceiling :: "chrono_rfc3339 \<Rightarrow> i64 option \<Rightarrow> log_line list \<Rightarrow> nat \<Rightarrow> nat \<Rightarrow> bool" where
  "over_ceiling rfc mx win prev j =
     (case mx of
        None \<Rightarrow> False
      | Some secs \<Rightarrow>
          member_time_gap_exceeds rfc (log_line.timestamp (win ! prev)) (log_line.timestamp (win ! j)) secs)"

function collect_members ::
  "chrono_rfc3339 \<Rightarrow> i64 option \<Rightarrow> log_line list \<Rightarrow> bool list \<Rightarrow> burst_rule \<Rightarrow> nat list \<Rightarrow> nat \<Rightarrow> nat
     \<Rightarrow> nat list \<times> nat" where
  "collect_members rfc mx win consumed rule members gap j =
     (if j < length win then
        if consumed ! j then
          if max_member_gap rule < gap + 1 then (members, j)
          else collect_members rfc mx win consumed rule members (gap + 1) (j + 1)
        else if line_matches (win ! j) (member rule) (burst_rule.tags rule) then
          if over_ceiling rfc mx win (last members) j then (members, j)
          else collect_members rfc mx win consumed rule (members @ [j]) 0 (j + 1)
        else
          if max_member_gap rule < gap + 1 then (members, j)
          else collect_members rfc mx win consumed rule members (gap + 1) (j + 1)
      else (members, j))"
  by pat_completeness auto
termination
  by (relation "measure (\<lambda>(rfc, mx, win, consumed, rule, members, gap, j). length win - j)") auto

declare collect_members.simps [simp del]

lemma collect_members_ge: "j \<le> snd (collect_members rfc mx win consumed rule members gap j)"
proof (induction rfc mx win consumed rule members gap j rule: collect_members.induct)
  case (1 rfc mx win consumed rule members gap j)
  then show ?case
    by (subst collect_members.simps) (auto dest: Suc_leD)
qed

definition burst_of :: "burst_rule \<Rightarrow> nat list \<Rightarrow> burst_hit" where
  "burst_of rule members =
     \<lparr>rule_id = burst_rule.id rule, start_index = hd members, end_index = last members, size = length members,
      member_indices = members\<rparr>"

definition consume :: "nat list \<Rightarrow> bool list \<Rightarrow> bool list" where
  "consume members consumed = foldl (\<lambda>c i. c[i := True]) consumed members"

function scan_rule ::
  "chrono_rfc3339 \<Rightarrow> i64 option \<Rightarrow> log_line list \<Rightarrow> burst_rule \<Rightarrow> bool list \<times> burst_hit list \<Rightarrow> nat
     \<Rightarrow> bool list \<times> burst_hit list" where
  "scan_rule rfc mx win rule st i =
     (if i < length win then
        if fst st ! i then scan_rule rfc mx win rule st (i + 1)
        else if \<not> line_matches (win ! i) (anchor rule) (burst_rule.tags rule) then
          scan_rule rfc mx win rule st (i + 1)
        else
          let (members, j) = collect_members rfc mx win (fst st) rule [i] 0 (i + 1)
          in if min_burst_size rule \<le> length members
             then scan_rule rfc mx win rule (consume members (fst st), snd st @ [burst_of rule members]) j
             else scan_rule rfc mx win rule st (i + 1)
      else st)"
  by pat_completeness auto
termination
proof (relation "measure (\<lambda>(rfc, mx, win, rule, st, i). length win - i)", goal_cases)
  case (4 rfc mx win rule st i x members j)
  then have "i + 1 \<le> j"
    using collect_members_ge [of "i + 1" rfc mx win "fst st" rule "[i]" 0] by (metis snd_conv)
  with 4 show ?case by simp
qed auto

declare scan_rule.simps [simp del]

definition detect_bursts_inner ::
  "chrono_rfc3339 \<Rightarrow> log_line list \<Rightarrow> burst_rule list \<Rightarrow> i64 option \<Rightarrow> burst_hit list" where
  "detect_bursts_inner rfc win rules mx =
     (if win = [] then []
      else
        let (consumed, hits) =
              foldl (\<lambda>st rule. scan_rule rfc mx win rule st 0) (replicate (length win) False, []) rules
        in sort_key start_index hits)"

definition detect_bursts :: "chrono_rfc3339 \<Rightarrow> log_line list \<Rightarrow> burst_rule list \<Rightarrow> burst_hit list" where
  "detect_bursts rfc win rules = detect_bursts_inner rfc win rules None"

definition detect_bursts_with_time_gap ::
  "chrono_rfc3339 \<Rightarrow> log_line list \<Rightarrow> burst_rule list \<Rightarrow> i64 \<Rightarrow> burst_hit list" where
  "detect_bursts_with_time_gap rfc win rules secs = detect_bursts_inner rfc win rules (Some secs)"

section \<open>Loadout categories\<close>

definition contains_any :: "string \<Rightarrow> string list \<Rightarrow> bool" where
  "contains_any s ns = list_ex (contains_str s) ns"

definition starts_any :: "string \<Rightarrow> string list \<Rightarrow> bool" where
  "starts_any s ps = list_ex (starts_with s) ps"

definition categorise_loadout_item :: "(string \<Rightarrow> string) \<Rightarrow> string \<Rightarrow> string" where
  "categorise_loadout_item to_lower item =
     (let s = to_lower item
      in if starts_any s [''weapon_'', ''wpn_'']
            \<or> contains_any s [''_rifle_'', ''_pistol_'', ''_ar_'', ''_lmg_'', ''_smg_'', ''_dmr_'', ''_sniper_'',
                 ''_shotgun_'', ''_ballistic_'', ''_energy_'']
            \<or> starts_any s [''ksar_'', ''gmni_''] \<or> contains_any s [''_p4ar'']
         then ''weapons''
         else if starts_any s [''armor_'', ''arm_'', ''helmet_'']
            \<or> contains_any s [''_helmet_'', ''_torso_'', ''_arms_'', ''_legs_'', ''_undersuit_'', ''_backpack_'',
                 ''_chest_'', ''heavy_armor_'', ''medium_armor_'', ''light_armor_'']
         then ''armor''
         else if starts_any s [''att_'']
            \<or> contains_any s [''_scope_'', ''_grip_'', ''_magazine_'', ''_sight_'', ''_barrel_'', ''_muzzle_'',
                 ''_suppressor_'', ''_compensator_'', ''_underbarrel_'']
         then ''attachments''
         else if starts_any s [''consum_'']
            \<or> contains_any s [''_medpen_'', ''_grenade_'', ''_hempen_'', ''_adrenpen_'', ''_detrapen_'', ''_oxypen_'',
                 ''_frag_'', ''_flashbang_'', ''_smoke_grenade_'', ''_emp_grenade_'']
         then ''consumables''
         else ''unknown'')"

definition bump_category :: "string \<Rightarrow> (string, u64) hmap \<Rightarrow> (string, u64) hmap" where
  "bump_category cat m = hmap_insert cat ((case map_of m cat of None \<Rightarrow> 0 | Some n \<Rightarrow> n) + 1) m"

definition build_loadout_categories :: "(string \<Rightarrow> string) \<Rightarrow> string list \<Rightarrow> (string, u64) hmap option" where
  "build_loadout_categories to_lower item_classes =
     (if item_classes = [] then None
      else Some (foldl (\<lambda>m ic. bump_category (categorise_loadout_item to_lower ic) m) [] item_classes))"

definition build_loadout_items :: "(string \<Rightarrow> string) \<Rightarrow> (string \<times> string) list \<Rightarrow> loadout_item list option" where
  "build_loadout_items to_lower pairs =
     (if pairs = [] then None
      else Some (map (\<lambda>(cls, prt). \<lparr>loadout_item.class = cls, port = prt,
             category = categorise_loadout_item to_lower cls\<rparr>) pairs))"

section \<open>What a template walk captures\<close>

abbreviation (input) step_fits :: "log_line list \<Rightarrow> nat \<Rightarrow> template_step \<Rightarrow> bool" where
  "step_fits win k st \<equiv> k < length win \<and> line_matches (win ! k) (template_step.step_match st) (template_step.tags st)"

definition present :: "'a option list \<Rightarrow> 'a list" where
  "present xs = List.map_filter (\<lambda>x. x) xs"

lemma present_simps [simp]: "present [] = []" "present (None # xs) = present xs" "present (Some x # xs) = x # present xs"
  by (simp_all add: present_def List.map_filter_simps)

lemma length_present: "length (present xs) = length (filter (\<lambda>c. c \<noteq> None) xs)"
  by (simp add: present_def List.map_filter_def)

lemma find_step_Some:
  "find_step st su mx ofs ls = Some k \<Longrightarrow>
     ofs \<le> k \<and> k - ofs < length ls \<and>
     line_matches (ls ! (k - ofs)) (template_step.step_match st) (template_step.tags st) \<and> (k = ofs \<or> su + k \<le> mx)"
proof (induction st su mx ofs ls rule: find_step.induct)
  case (2 st su mx ofs line rest)
  then show ?case by (auto simp: nth_Cons' split: if_splits)
qed simp

lemma find_step_drop:
  assumes "find_step st su mx 0 (drop pos win) = Some ofs"
  shows "step_fits win (pos + ofs) st" "su \<le> mx \<Longrightarrow> su + ofs \<le> mx"
  using find_step_Some [OF assms] by auto

text \<open>The shape of a walk: captured lines fit their steps, lie behind the start, ascend, and stay inside the budget.\<close>

lemma walk_steps_fit:
  "walk_steps win mx pos su idx sts = (cap, miss) \<Longrightarrow>
     list_all2 (\<lambda>c st. \<forall>k. c = Some k \<longrightarrow> step_fits win k st) cap sts"
proof (induction win mx pos su idx sts arbitrary: cap miss rule: walk_steps.induct)
  case (2 win mx pos su idx st sts)
  show ?case
  proof (cases "find_step st su mx 0 (drop pos win)")
    case None
    with "2.prems" "2.IH"(1) [OF None] show ?thesis by (auto split: prod.splits)
  next
    case (Some ofs)
    with "2.prems" "2.IH"(2) [OF Some] find_step_drop(1) [OF Some] show ?thesis by (auto split: prod.splits)
  qed
qed simp

lemma walk_steps_ascend:
  "walk_steps win mx pos su idx sts = (cap, miss) \<Longrightarrow> su \<le> mx \<Longrightarrow>
     sorted_wrt (<) (present cap) \<and> (\<forall>k \<in> set (present cap). pos \<le> k \<and> k < pos + length (present cap) + (mx - su))"
proof (induction win mx pos su idx sts arbitrary: cap miss rule: walk_steps.induct)
  case (2 win mx pos su idx st sts)
  show ?case
  proof (cases "find_step st su mx 0 (drop pos win)")
    case None
    with "2.prems" "2.IH"(1) [OF None] show ?thesis by (auto split: prod.splits)
  next
    case (Some ofs)
    obtain cap' miss' where w: "walk_steps win mx (pos + ofs + 1) (su + ofs) (idx + 1) sts = (cap', miss')"
      by fastforce
    have le: "su + ofs \<le> mx" using find_step_drop(2) [OF Some "2.prems"(2)] .
    have cap: "cap = Some (pos + ofs) # cap'" using "2.prems"(1) Some w by simp
    from "2.IH"(2) [OF Some w le] have IH: "sorted_wrt (<) (present cap')"
      "\<And>k. k \<in> set (present cap') \<Longrightarrow> pos + ofs + 1 \<le> k \<and> k < pos + ofs + 1 + length (present cap') + (mx - (su + ofs))"
      by auto
    have "k < pos + length (present cap) + (mx - su)" if "k \<in> set (present cap')" for k
      using IH(2) [OF that] le by (simp add: cap add.assoc)
    moreover have "pos + ofs < pos + length (present cap) + (mx - su)" using le by (simp add: cap)
    ultimately show ?thesis using IH by (fastforce simp: cap)
  qed
qed simp

lemma Collect_less_Suc:
  "{f i | i. i < Suc n \<and> P i} = (if P 0 then {f 0} else {}) \<union> {f (Suc i) | i. i < n \<and> P (Suc i)}"
  by (auto simp: less_Suc_eq_0_disj)

lemma walk_steps_missing:
  "walk_steps win mx pos su idx sts = (cap, miss) \<Longrightarrow>
     set miss = {idx + i | i. i < length sts \<and> cap ! i = None \<and> \<not> optional (sts ! i)}"
proof (induction win mx pos su idx sts arbitrary: cap miss rule: walk_steps.induct)
  case (2 win mx pos su idx st sts)
  have shift: "{idx + i | i. i < length (st # sts) \<and> (c # cap') ! i = None \<and> \<not> optional ((st # sts) ! i)} =
      (if c = None \<and> \<not> optional st then {idx} else {}) \<union>
      {idx + 1 + i | i. i < length sts \<and> cap' ! i = None \<and> \<not> optional (sts ! i)}" for c cap'
    using Collect_less_Suc [of "\<lambda>i. idx + i" "length sts" "\<lambda>i. (c # cap') ! i = None \<and> \<not> optional ((st # sts) ! i)"]
    by simp
  show ?case
  proof (cases "find_step st su mx 0 (drop pos win)")
    case None
    obtain cap' miss' where w: "walk_steps win mx pos su (idx + 1) sts = (cap', miss')" by fastforce
    with "2.prems" None have "cap = None # cap'" "miss = (if optional st then miss' else idx # miss')" by auto
    with "2.IH"(1) [OF None w] shift [of None cap'] show ?thesis by simp
  next
    case (Some ofs)
    obtain cap' miss' where w: "walk_steps win mx (pos + ofs + 1) (su + ofs) (idx + 1) sts = (cap', miss')" by fastforce
    with "2.prems" Some have "cap = Some (pos + ofs) # cap'" "miss = miss'" by auto
    with "2.IH"(2) [OF Some w] shift [of "Some (pos + ofs)" cap'] show ?thesis by simp
  qed
qed simp

section \<open>What a burst scan collects\<close>

text \<open>Two neighbouring members: in order, at most \<open>max_member_gap\<close> other lines apart, and not over the time ceiling.\<close>

definition linked :: "chrono_rfc3339 \<Rightarrow> i64 option \<Rightarrow> log_line list \<Rightarrow> burst_rule \<Rightarrow> nat \<Rightarrow> nat \<Rightarrow> bool" where
  "linked rfc mx win rule a b \<longleftrightarrow> a < b \<and> b \<le> a + max_member_gap rule + 1 \<and> \<not> over_ceiling rfc mx win a b"

definition is_member :: "log_line list \<Rightarrow> bool list \<Rightarrow> burst_rule \<Rightarrow> nat \<Rightarrow> bool" where
  "is_member win consumed rule k \<longleftrightarrow>
     \<not> consumed ! k \<and> line_matches (win ! k) (member rule) (burst_rule.tags rule)"

lemma successively_snoc:
  "xs \<noteq> [] \<Longrightarrow> successively P (xs @ [x]) \<longleftrightarrow> successively P xs \<and> P (last xs) x"
  by (simp add: successively_append_iff)

lemma collect_members_spec:
  assumes "collect_members rfc mx win consumed rule ms gap j = (ms', j')"
    and "ms \<noteq> []" "successively (linked rfc mx win rule) ms" "j = last ms + gap + 1" "gap \<le> max_member_gap rule"
    and "j \<le> length win"
  shows "j \<le> j' \<and> j' \<le> length win \<and> successively (linked rfc mx win rule) ms' \<and>
    (\<exists>ext. ms' = ms @ ext \<and> set ext = {k. j \<le> k \<and> k < j' \<and> is_member win consumed rule k})"
  using assms
proof (induction "length win - j" arbitrary: ms gap j rule: less_induct)
  case less
  let ?R = "linked rfc mx win rule" and ?M = "is_member win consumed rule"
  have range: "{k. j \<le> k \<and> k < j' \<and> ?M k} = (if ?M j then {j} else {}) \<union> {k. j + 1 \<le> k \<and> k < j' \<and> ?M k}"
    if "j + 1 \<le> j'" using that by (auto simp: le_eq_less_or_eq)
  consider (stop) "(ms', j') = (ms, j)"
    | (skip) "j < length win" "\<not> ?M j" "gap + 1 \<le> max_member_gap rule"
        "collect_members rfc mx win consumed rule ms (gap + 1) (j + 1) = (ms', j')"
    | (grow) "j < length win" "?M j" "\<not> over_ceiling rfc mx win (last ms) j"
        "collect_members rfc mx win consumed rule (ms @ [j]) 0 (j + 1) = (ms', j')"
    using less.prems(1) by (subst (asm) collect_members.simps) (auto simp: is_member_def split: if_splits)
  then show ?case
  proof cases
    case stop
    with less.prems show ?thesis by simp
  next
    case skip
    have "j + 1 \<le> j' \<and> j' \<le> length win \<and> successively ?R ms' \<and>
        (\<exists>ext. ms' = ms @ ext \<and> set ext = {k. j + 1 \<le> k \<and> k < j' \<and> ?M k})"
      by (rule less.hyps [OF _ skip(4)]) (use skip less.prems in auto)
    with skip range show ?thesis by auto
  next
    case grow
    have "?R (last ms) j" using grow less.prems by (simp add: linked_def)
    then have chain: "successively ?R (ms @ [j])" using less.prems by (simp add: successively_snoc)
    have "j + 1 \<le> j' \<and> j' \<le> length win \<and> successively ?R ms' \<and>
        (\<exists>ext. ms' = (ms @ [j]) @ ext \<and> set ext = {k. j + 1 \<le> k \<and> k < j' \<and> ?M k})"
      by (rule less.hyps [OF _ grow(4) _ chain]) (use grow less.prems in auto)
    then obtain ext where "j + 1 \<le> j'" "j' \<le> length win" "successively ?R ms'" "ms' = ms @ (j # ext)"
      "set ext = {k. j + 1 \<le> k \<and> k < j' \<and> ?M k}" by auto
    with grow(2) range show ?thesis by (intro conjI exI [of _ "j # ext"]) auto
  qed
qed

text \<open>What a burst hit means.\<close>

definition burst_ok :: "chrono_rfc3339 \<Rightarrow> i64 option \<Rightarrow> log_line list \<Rightarrow> burst_rule list \<Rightarrow> burst_hit \<Rightarrow> bool" where
  "burst_ok rfc mx win rules h \<longleftrightarrow>
     (\<exists>rule \<in> set rules.
        rule_id h = burst_rule.id rule \<and> member_indices h \<noteq> [] \<and>
        start_index h = hd (member_indices h) \<and> end_index h = last (member_indices h) \<and>
        burst_hit.size h = length (member_indices h) \<and> min_burst_size rule \<le> burst_hit.size h \<and>
        (\<forall>k \<in> set (member_indices h). k < length win) \<and>
        line_matches (win ! hd (member_indices h)) (anchor rule) (burst_rule.tags rule) \<and>
        (\<forall>k \<in> set (tl (member_indices h)). line_matches (win ! k) (member rule) (burst_rule.tags rule)) \<and>
        successively (linked rfc mx win rule) (member_indices h))"

definition claimed :: "burst_hit list \<Rightarrow> nat list" where
  "claimed hits = concat (map member_indices hits)"

definition scan_inv :: "chrono_rfc3339 \<Rightarrow> i64 option \<Rightarrow> log_line list \<Rightarrow> burst_rule list \<Rightarrow> bool list \<times> burst_hit list \<Rightarrow> bool" where
  "scan_inv rfc mx win rules st \<longleftrightarrow>
     length (fst st) = length win \<and>
     (\<forall>k < length win. fst st ! k \<longleftrightarrow> k \<in> set (claimed (snd st))) \<and>
     distinct (claimed (snd st)) \<and> (\<forall>h \<in> set (snd st). burst_ok rfc mx win rules h)"

lemma consume_nth: "length (consume ms c) = length c \<and> (\<forall>k < length c. consume ms c ! k \<longleftrightarrow> c ! k \<or> k \<in> set ms)"
proof (induction ms arbitrary: c)
  case (Cons m ms)
  have "consume (m # ms) c = consume ms (c[m := True])" by (simp add: consume_def)
  moreover have "c[m := True] ! k \<longleftrightarrow> c ! k \<or> k = m" if "k < length c" for k
    using that by (cases "m = k") simp_all
  ultimately show ?case using Cons.IH [of "c[m := True]"] by auto
qed (simp add: consume_def)

lemma linked_distinct: "successively (linked rfc mx win rule) ms \<Longrightarrow> distinct ms"
proof -
  assume "successively (linked rfc mx win rule) ms"
  then have "successively (<) ms" by (rule successively_mono) (auto simp: linked_def)
  then have "sorted_wrt (<) ms" by (subst (asm) successively_conv_sorted_wrt) (auto intro: transpI)
  then show ?thesis by (simp add: strict_sorted_iff)
qed

text \<open>One collected burst.\<close>

lemma collect_anchor:
  assumes "collect_members rfc mx win consumed rule [i] 0 (i + 1) = (ms, j)" "i < length win"
  obtains ext where "ms = i # ext" "i + 1 \<le> j" "j \<le> length win" "successively (linked rfc mx win rule) ms"
    "set ext = {k. i + 1 \<le> k \<and> k < j \<and> is_member win consumed rule k}"
  using collect_members_spec [OF assms(1)] assms(2) by auto

lemma scan_inv_burst:
  assumes inv: "scan_inv rfc mx win rules st" and rule: "rule \<in> set rules"
    and i: "i < length win" "\<not> fst st ! i" "line_matches (win ! i) (anchor rule) (burst_rule.tags rule)"
    and col: "collect_members rfc mx win (fst st) rule [i] 0 (i + 1) = (ms, j)" "min_burst_size rule \<le> length ms"
  shows "scan_inv rfc mx win rules (consume ms (fst st), snd st @ [burst_of rule ms])"
proof -
  from col(1) i(1) obtain ext where ext: "ms = i # ext" "j \<le> length win" "successively (linked rfc mx win rule) ms"
    "set ext = {k. i + 1 \<le> k \<and> k < j \<and> is_member win (fst st) rule k}"
    by (rule collect_anchor) blast
  have mem: "is_member win (fst st) rule k" "k < length win" if "k \<in> set ext" for k
    using that ext(2,4) by auto
  have fresh: "k < length win \<and> \<not> fst st ! k" if "k \<in> set ms" for k
    using that mem [of k] i(1,2) by (auto simp: ext(1) is_member_def)
  have "burst_ok rfc mx win rules (burst_of rule ms)"
    unfolding burst_ok_def using rule i(3) col(2) ext(1,3) fresh mem
    by (intro bexI [of _ rule]) (simp_all add: burst_of_def is_member_def)
  moreover have "distinct ms" using ext(3) by (rule linked_distinct)
  moreover have "set (claimed (snd st)) \<inter> set ms = {}"
    using fresh inv by (auto simp: scan_inv_def)
  ultimately show ?thesis
    using inv consume_nth [of ms "fst st"] by (auto simp: scan_inv_def claimed_def burst_of_def)
qed

lemma scan_rule_inv: "scan_inv rfc mx win rules st \<Longrightarrow> rule \<in> set rules \<Longrightarrow> scan_inv rfc mx win rules (scan_rule rfc mx win rule st i)"
proof (induction rfc mx win rule st i rule: scan_rule.induct)
  case (1 rfc mx win rule st i)
  then show ?case
    by (subst scan_rule.simps) (auto simp: Let_def scan_inv_burst split: prod.split)
qed

lemma scan_rules_inv:
  "set rs \<subseteq> set rules \<Longrightarrow> scan_inv rfc mx win rules st \<Longrightarrow>
     scan_inv rfc mx win rules (foldl (\<lambda>st rule. scan_rule rfc mx win rule st 0) st rs)"
  by (induction rs arbitrary: st) (auto simp: scan_rule_inv)

lemma scan_inv_start: "scan_inv rfc mx win rules (replicate (length win) False, [])"
  by (simp add: scan_inv_def claimed_def)

lemma claimed_sort: "mset (claimed (sort_key f hits)) = mset (claimed hits)"
proof -
  have "mset (claimed hs) = sum_mset (image_mset (\<lambda>h. mset (member_indices h)) (mset hs))" for hs
    by (induction hs) (simp_all add: claimed_def)
  then show ?thesis by simp
qed

lemma detect_bursts_hits:
  "\<exists>st. scan_inv rfc mx win rules st \<and> detect_bursts_inner rfc win rules mx = sort_key start_index (snd st)"
proof (cases "win = []")
  case True
  then show ?thesis
    using scan_inv_start [of rfc mx win rules] by (intro exI [of _ "([], [])"]) (simp add: detect_bursts_inner_def)
next
  case False
  let ?st = "foldl (\<lambda>st rule. scan_rule rfc mx win rule st 0) (replicate (length win) False, []) rules"
  have "scan_inv rfc mx win rules ?st" by (rule scan_rules_inv [OF subset_refl scan_inv_start])
  moreover have "detect_bursts_inner rfc win rules mx = sort_key start_index (snd ?st)"
    using False by (simp add: detect_bursts_inner_def split_beta)
  ultimately show ?thesis by blast
qed

section \<open>Homogeneous rules\<close>

text \<open>A rule that fires on a single line and whose anchor is its member.\<close>

definition homogeneous :: "burst_rule \<Rightarrow> bool" where
  "homogeneous rule \<longleftrightarrow> anchor rule = member rule \<and> min_burst_size rule \<le> 1"

abbreviation (input) rule_fits :: "log_line list \<Rightarrow> burst_rule \<Rightarrow> nat \<Rightarrow> bool" where
  "rule_fits win rule k \<equiv> line_matches (win ! k) (member rule) (burst_rule.tags rule)"

lemma consumed_claimed:
  "scan_inv rfc mx win rules st \<Longrightarrow> k < length win \<Longrightarrow> fst st ! k \<Longrightarrow> k \<in> set (claimed (snd st))"
  by (simp add: scan_inv_def)

lemma claimed_snoc: "set (claimed (hs @ [h])) = set (claimed hs) \<union> set (member_indices h)"
  by (auto simp: claimed_def)

lemma scan_rule_keeps: "set (claimed (snd st)) \<subseteq> set (claimed (snd (scan_rule rfc mx win rule st i)))"
proof (induction rfc mx win rule st i rule: scan_rule.induct)
  case (1 rfc mx win rule st i)
  obtain ms j where col: "collect_members rfc mx win (fst st) rule [i] 0 (i + 1) = (ms, j)" by fastforce
  note IH = "1.IH"(1,2) "1.IH"(3,4) [OF _ _ _ col [symmetric] refl]
  show ?case
    using IH by (subst scan_rule.simps) (auto simp: col [simplified] claimed_snoc)
qed

lemma scan_rules_keep:
  "set (claimed (snd st)) \<subseteq> set (claimed (snd (foldl (\<lambda>st rule. scan_rule rfc mx win rule st 0) st rs)))"
proof (induction rs arbitrary: st)
  case (Cons r rs)
  from scan_rule_keeps [of st rfc mx win r 0] Cons.IH [of "scan_rule rfc mx win r st 0"] show ?case by auto
qed simp

lemma scan_rule_claims:
  assumes "scan_inv rfc mx win rules st" "rule \<in> set rules" "homogeneous rule"
    and "k < length win" "rule_fits win rule k" "i \<le> k"
  shows "k \<in> set (claimed (snd (scan_rule rfc mx win rule st i)))"
  using assms
proof (induction rfc mx win rule st i rule: scan_rule.induct)
  case (1 rfc mx win rule st i)
  show ?case
  proof (cases "fst st ! i \<or> \<not> line_matches (win ! i) (anchor rule) (burst_rule.tags rule)")
    case True
    then have next_i: "scan_rule rfc mx win rule st i = scan_rule rfc mx win rule st (i + 1)"
      using "1.prems" by (subst scan_rule.simps) auto
    show ?thesis
    proof (cases "k = i")
      case True
      with \<open>fst st ! i \<or> _\<close> "1.prems" have "fst st ! k" by (auto simp: homogeneous_def)
      with consumed_claimed [OF "1.prems"(1)] "1.prems"(4) scan_rule_keeps show ?thesis by blast
    next
      case False
      with True "1.prems" "1.IH"(1,2) show ?thesis unfolding next_i by (cases "fst st ! i") auto
    qed
  next
    case False
    obtain ms j where col: "collect_members rfc mx win (fst st) rule [i] 0 (i + 1) = (ms, j)" by fastforce
    have i: "i < length win" using "1.prems" by simp
    from col i obtain ext where ext: "ms = i # ext" "i + 1 \<le> j"
      "set ext = {k. i + 1 \<le> k \<and> k < j \<and> is_member win (fst st) rule k}"
      by (rule collect_anchor) blast
    have size: "min_burst_size rule \<le> length ms" using "1.prems"(3) ext(1) by (simp add: homogeneous_def)
    let ?st = "(consume ms (fst st), snd st @ [burst_of rule ms])"
    have inv: "scan_inv rfc mx win rules ?st"
      using scan_inv_burst [OF "1.prems"(1,2) i _ _ col size] False by blast
    have step: "scan_rule rfc mx win rule st i = scan_rule rfc mx win rule ?st j"
      using False i col size by (subst scan_rule.simps) simp
    show ?thesis
    proof (cases "j \<le> k")
      case True
      with "1.IH"(3) [of "(ms, j)" ms j] False i col size inv "1.prems" show ?thesis unfolding step by auto
    next
      case False
      with "1.prems" ext have "k \<in> set ms \<or> fst st ! k" by (cases "k = i") (auto simp: is_member_def)
      with consumed_claimed [OF "1.prems"(1,4)] have "k \<in> set (claimed (snd ?st))"
        by (auto simp: claimed_def burst_of_def)
      with scan_rule_keeps [of ?st] show ?thesis unfolding step by blast
    qed
  qed
qed

lemma scan_rules_claim:
  assumes "set rs \<subseteq> set rules" "\<forall>rule \<in> set rs. homogeneous rule" "scan_inv rfc mx win rules st"
    and "rule \<in> set rs" "k < length win" "rule_fits win rule k"
  shows "k \<in> set (claimed (snd (foldl (\<lambda>st rule. scan_rule rfc mx win rule st 0) st rs)))"
  using assms
proof (induction rs arbitrary: st)
  case (Cons r rs)
  let ?st = "scan_rule rfc mx win r st 0"
  have inv: "scan_inv rfc mx win rules ?st" using Cons.prems by (simp add: scan_rule_inv)
  show ?case
  proof (cases "rule = r")
    case True
    with Cons.prems scan_rule_claims [of rfc mx win rules st r k 0] scan_rules_keep [of ?st rfc mx win rs] show ?thesis by auto
  next
    case False
    with Cons inv show ?thesis by simp
  qed
qed simp

section \<open>Loadout counts\<close>

definition loadout_buckets :: "string list" where
  "loadout_buckets = [''weapons'', ''armor'', ''attachments'', ''consumables'', ''unknown'']"

lemma categorise_in_buckets: "categorise_loadout_item to_lower item \<in> set loadout_buckets"
  by (simp add: categorise_loadout_item_def loadout_buckets_def Let_def)

lemma bump_lookup:
  "hmap_ok m \<Longrightarrow> map_of (bump_category cat m) c = (if c = cat then Some ((case map_of m cat of None \<Rightarrow> 0 | Some n \<Rightarrow> n) + 1)
     else map_of m c)"
  by (simp add: bump_category_def hm.lookup_insert)

text \<open>The count of a bucket is the number of items in it (as \<open>u64\<close>); a bucket without items has no entry.\<close>

lemma bump_all:
  assumes "m = foldl (\<lambda>m ic. bump_category (f ic) m) [] ics"
  shows "hmap_ok m \<and> map_of m c =
    (let n = length (filter (\<lambda>ic. f ic = c) ics) in if n = 0 then None else Some (of_nat n))"
  using assms
proof (induction ics arbitrary: m rule: rev_induct)
  case Nil
  then show ?case by (simp add: hmap_ok_def)
next
  case (snoc ic ics)
  define m0 where "m0 = foldl (\<lambda>m ic. bump_category (f ic) m) [] ics"
  note IH = snoc.IH [OF m0_def]
  have "m = bump_category (f ic) m0" by (simp add: snoc.prems m0_def)
  with IH show ?case
    by (auto simp: bump_lookup Let_def bump_category_def hm.invar_insert hm.lookup_insert split: option.splits if_splits)
qed

section \<open>Properties\<close>

text \<open>What a template hit means: one slot per step; a captured line is in the window and fits its step; captured lines
  are in strictly ascending order and no further out than the matched lines plus the slack budget; the missing list holds
  exactly the required steps without a line; at least \<open>min_match_count\<close> required steps matched.\<close>

theorem match_one_template_sound:
  assumes "match_one_template win tpl = Some hit"
  shows "list_all2 (\<lambda>c st. \<forall>k. c = Some k \<longrightarrow> k < length win \<and>
        line_matches (win ! k) (template_step.step_match st) (template_step.tags st))
      (captured_indices hit) (event_template.steps tpl) \<and>
    sorted_wrt (<) (present (captured_indices hit)) \<and>
    (\<forall>k \<in> set (present (captured_indices hit)). k < matched_count hit + max_slack tpl) \<and>
    set (missing_steps hit) =
      {i. i < total_steps hit \<and> captured_indices hit ! i = None \<and> \<not> optional (event_template.steps tpl ! i)} \<and>
    min_match_count tpl \<le> length (filter (\<lambda>(c, st). c \<noteq> None \<and> \<not> optional st)
      (zip (captured_indices hit) (event_template.steps tpl)))"
proof -
  obtain cap miss where w: "walk_steps win (max_slack tpl) 0 0 0 (event_template.steps tpl) = (cap, miss)" by fastforce
  with assms have hit: "captured_indices hit = cap" "missing_steps hit = miss" "matched_count hit = length (present cap)"
    "total_steps hit = length (event_template.steps tpl)"
    "min_match_count tpl \<le> length (filter (\<lambda>(c, st). c \<noteq> None \<and> \<not> optional st) (zip cap (event_template.steps tpl)))"
    by (auto simp: match_one_template_def Let_def length_present split: if_splits)
  from walk_steps_fit [OF w] walk_steps_ascend [OF w] walk_steps_missing [OF w] show ?thesis
    unfolding hit(1-4) using hit(5) by simp
qed

abbreviation (input) named_line :: "string \<Rightarrow> log_line" where
  "named_line n \<equiv> \<lparr>log_line.timestamp = [], level = None, event_name = Some n, body = [], tags = []\<rparr>"

abbreviation (input) sample_template :: event_template where
  "sample_template \<equiv>
     \<lparr>event_template.id = ''t'', steps = [\<lparr>step_match = EventName ''a'', tags = [], optional = False, label = None\<rparr>,
        \<lparr>step_match = EventName ''b'', tags = [], optional = False, label = None\<rparr>], max_slack = 1, min_match_count = 2\<rparr>"

theorem match_one_template_sound_witness:
  "\<exists>hit. match_one_template [named_line ''a'', named_line ''x'', named_line ''b''] sample_template = Some hit \<and>
     captured_indices hit = [Some 0, Some 2] \<and> sorted_wrt (<) (present (captured_indices hit))"
proof -
  obtain hit where hit: "match_one_template [named_line ''a'', named_line ''x'', named_line ''b''] sample_template = Some hit"
    "captured_indices hit = [Some 0, Some 2]"
    by (simp add: match_one_template_def line_matches_def)
  with match_one_template_sound [OF hit(1)] show ?thesis by blast
qed

text \<open>C29. What a burst hit means, and disjointness: every reported burst starts with a line its rule's anchor matches, goes on
  with lines its member matches, neighbours are at most \<open>max_member_gap\<close> other lines apart and (with a ceiling) not too far
  apart in time, it has at least \<open>min_burst_size\<close> lines; no line belongs to two bursts; bursts are sorted by start.\<close>

theorem detect_bursts_sound:
  "list_all (burst_ok rfc mx win rules) (detect_bursts_inner rfc win rules mx) \<and>
   distinct (claimed (detect_bursts_inner rfc win rules mx)) \<and>
   sorted (map start_index (detect_bursts_inner rfc win rules mx))"
proof -
  obtain st where st: "scan_inv rfc mx win rules st" "detect_bursts_inner rfc win rules mx = sort_key start_index (snd st)"
    using detect_bursts_hits by blast
  from st(1) have "list_all (burst_ok rfc mx win rules) (sort_key start_index (snd st))"
    "distinct (claimed (snd st))" by (simp_all add: scan_inv_def list_all_iff)
  with mset_eq_imp_distinct_iff [OF claimed_sort, of start_index "snd st"] st(2) show ?thesis by simp
qed

text \<open>Completeness for homogeneous rules: when every rule fires on a single line and has its member as anchor, the lines
  claimed by bursts are exactly the lines some rule matches.\<close>

theorem detect_bursts_complete:
  assumes "\<forall>rule \<in> set rules. anchor rule = member rule \<and> min_burst_size rule \<le> 1"
  shows "set (claimed (detect_bursts_inner rfc win rules mx)) =
    {k. k < length win \<and> (\<exists>rule \<in> set rules. line_matches (win ! k) (member rule) (burst_rule.tags rule))}"
proof (cases "win = []")
  case True
  then show ?thesis by (simp add: detect_bursts_inner_def claimed_def)
next
  case False
  let ?st = "foldl (\<lambda>st rule. scan_rule rfc mx win rule st 0) (replicate (length win) False, []) rules"
  have inv: "scan_inv rfc mx win rules ?st" by (rule scan_rules_inv [OF subset_refl scan_inv_start])
  have same: "set (claimed (detect_bursts_inner rfc win rules mx)) = set (claimed (snd ?st))"
    using False mset_eq_setD [OF claimed_sort, of start_index "snd ?st"]
    by (simp add: detect_bursts_inner_def split_beta)
  have "k < length win \<and> (\<exists>rule \<in> set rules. rule_fits win rule k)" if claimed: "k \<in> set (claimed (snd ?st))" for k
  proof -
    from claimed obtain h where h: "h \<in> set (snd ?st)" "k \<in> set (member_indices h)" by (auto simp: claimed_def)
    with inv obtain rule where r: "rule \<in> set rules" "k < length win"
      "line_matches (win ! hd (member_indices h)) (anchor rule) (burst_rule.tags rule)"
      "\<forall>k \<in> set (tl (member_indices h)). rule_fits win rule k"
      unfolding scan_inv_def burst_ok_def by blast
    moreover have "k = hd (member_indices h) \<or> k \<in> set (tl (member_indices h))"
      using h(2) by (cases "member_indices h") auto
    ultimately show ?thesis using assms by auto
  qed
  moreover have "k \<in> set (claimed (snd ?st))" if "k < length win" "rule \<in> set rules" "rule_fits win rule k" for k rule
    using scan_rules_claim [OF subset_refl _ scan_inv_start that(2,1,3)] assms by (simp add: homogeneous_def)
  ultimately show ?thesis unfolding same by blast
qed

abbreviation (input) sample_rule :: "string \<Rightarrow> string \<Rightarrow> nat \<Rightarrow> burst_rule" where
  "sample_rule a m n \<equiv> \<lparr>burst_rule.id = ''r'', anchor = EventName a, member = EventName m, tags = [], min_burst_size = n,
     max_member_gap = 1\<rparr>"

theorem detect_bursts_complete_witness:
  "set (claimed (detect_bursts_inner (\<lambda>_. None) [named_line ''m'', named_line ''x''] [sample_rule ''m'' ''m'' 1] None)) = {0}"
proof -
  have "{k. k < length [named_line ''m'', named_line ''x''] \<and>
      line_matches ([named_line ''m'', named_line ''x''] ! k) (EventName ''m'') []} = {0}"
    by (auto simp: less_Suc_eq line_matches_def)
  with detect_bursts_complete [of "[sample_rule ''m'' ''m'' 1]" "\<lambda>_. None" "[named_line ''m'', named_line ''x'']" None]
  show ?thesis by simp
qed

text \<open>When anchor and member differ, a burst can be lost: the scan resumes behind the lines that ended the previous burst,
  so an anchor among them is never tried.  Lines 2, 4 and 5 form a burst of their own (the second part finds it when the
  scan starts there), but the first burst's trailing gap hides its anchor.\<close>

theorem detect_bursts_skips_anchor:
  "let ls = map named_line [''a'', ''m'', ''a'', ''x'', ''m'', ''m'']
   in map member_indices (detect_bursts (\<lambda>_. None) ls [sample_rule ''a'' ''m'' 2]) = [[0, 1]] \<and>
      map member_indices (detect_bursts (\<lambda>_. None) (drop 2 ls) [sample_rule ''a'' ''m'' 2]) = [[0, 2, 3]]"
  by code_simp

text \<open>The categories of a loadout burst count its items: each bucket's entry is the number of items in that bucket (as
  \<open>u64\<close>), every key is one of the five buckets the widget renders, and only an empty burst has no categories.\<close>

theorem build_loadout_categories_counts:
  "case build_loadout_categories to_lower its of
     None \<Rightarrow> its = []
   | Some m \<Rightarrow> its \<noteq> [] \<and> hmap_ok m \<and> set (map fst m) \<subseteq> set loadout_buckets \<and>
       (\<forall>c. map_of m c = (let n = length (filter (\<lambda>ic. categorise_loadout_item to_lower ic = c) its)
                          in if n = 0 then None else Some (of_nat n)))"
proof (cases "its = []")
  case False
  define m where "m = foldl (\<lambda>m ic. bump_category (categorise_loadout_item to_lower ic) m) [] its"
  note counts = bump_all [OF m_def]
  have "c \<in> set loadout_buckets" if "c \<in> set (map fst m)" for c
  proof -
    from that have "map_of m c \<noteq> None" by (simp add: map_of_eq_None_iff)
    with counts [of c] have "filter (\<lambda>ic. categorise_loadout_item to_lower ic = c) its \<noteq> []" by (auto simp: Let_def)
    then show ?thesis using categorise_in_buckets by (auto simp: filter_empty_conv)
  qed
  with False counts show ?thesis by (auto simp: build_loadout_categories_def m_def [symmetric])
qed (simp add: build_loadout_categories_def)

end
