(* ===== verification/Character_Life.thy ===== *)
theory Character_Life
  imports Wire
begin

text \<open>
  The character-life pass of \<open>crates/starstats-core/src/character_life.rs\<close>: one walk over a handle's events cuts
  the stream into lives, closed by a death, a crash, a session gap or the end.  The loop body is \<open>life_step\<close>, in
  the order of the code: session boundary, session start, clock, activity, event.  \<open>u32\<close> counters wrap; the
  \<open>i64\<close> differences of chrono timestamps cannot (chrono's instants span less than \<open>2^44\<close> seconds), the
  sum of durations can and is wrapped.

  The lemmas show that the counts of the summary are the counts of the events in the log, that the session count is one
  more than the number of gaps, that downs are conserved, and that every life is well-formed.
\<close>

section \<open>Lives\<close>

record life_config =
  session_gap_secs :: i64

definition default_life_config :: life_config where
  "default_life_config = \<lparr>session_gap_secs = 1800\<rparr>"

definition is_passive :: "game_event \<Rightarrow> bool" where
  "is_passive ev =
     (case ev of
        PlanetTerrainLoad _ \<Rightarrow> True
      | AttachmentReceived _ \<Rightarrow> True
      | SeedSolarSystem _ \<Rightarrow> True
      | BurstSummary _ \<Rightarrow> True
      | HudNotification _ \<Rightarrow> True
      | _ \<Rightarrow> False)"

datatype life_end = Death | Crash | SessionGap | StillAlive

record life =
  start_ts :: "string option"
  end_ts :: "string option"
  duration_secs :: "i64 option"
  ended_by :: life_end
  incap_count :: nat
  death_zone :: "string option"
  death_inferred :: bool

record open_life =
  start_ts :: "string option"
  first_active :: "i64 option"
  last_active :: "i64 option"
  incap_count :: nat
  death_zone :: "string option"
  death_inferred :: bool

definition open_life_new :: "string option \<Rightarrow> open_life" where
  "open_life_new start =
     \<lparr>open_life.start_ts = start, first_active = None, last_active = None, incap_count = 0,
      death_zone = None, death_inferred = False\<rparr>"

definition mark_active :: "open_life \<Rightarrow> i64 \<Rightarrow> open_life" where
  "mark_active lf ts =
     (let lf' = (if first_active lf = None then lf\<lparr>first_active := Some ts\<rparr> else lf)
      in lf'\<lparr>last_active := Some ts\<rparr>)"

definition close_life :: "open_life \<Rightarrow> life_end \<Rightarrow> string option \<Rightarrow> life option" where
  "close_life lf by_end e_ts =
     (let ends_a_real_life = (by_end = Death \<or> by_end = Crash)
      in if first_active lf = None \<and> \<not> ends_a_real_life then None
         else
           let dur = (case (first_active lf, last_active lf) of
                        (Some a, Some b) \<Rightarrow> if a \<le> b then Some (b - a) else None
                      | _ \<Rightarrow> None)
           in Some \<lparr>life.start_ts = open_life.start_ts lf, end_ts = e_ts, duration_secs = dur,
                     ended_by = by_end, incap_count = open_life.incap_count lf,
                     death_zone = open_life.death_zone lf, death_inferred = open_life.death_inferred lf\<rparr>)"

record life_summary =
  lives :: "life list"
  total_lives :: nat
  deaths :: nat
  deaths_inferred :: nat
  mean_life_secs :: "i64 option"
  longest_life_secs :: "i64 option"
  sessions :: nat
  deaths_per_session :: "rat option"
  lives_ended_by_crash :: nat

section \<open>The walk\<close>

record life_state =
  closed_lives :: "life list"
  open_lf :: "open_life option"
  last_ts :: "i64 option"
  sess :: nat
  in_session :: bool

definition life_init :: life_state where
  "life_init = \<lparr>closed_lives = [], open_lf = None, last_ts = None, sess = 0, in_session = False\<rparr>"

definition push_life :: "life option \<Rightarrow> life list \<Rightarrow> life list" where
  "push_life l ls = (case l of None \<Rightarrow> ls | Some l \<Rightarrow> ls @ [l])"

definition session_boundary :: "life_config \<Rightarrow> i64 option \<Rightarrow> life_state \<Rightarrow> life_state" where
  "session_boundary cfg ts st =
     (case (ts, last_ts st) of
        (Some cur, Some prev) \<Rightarrow>
          if session_gap_secs cfg < cur - prev
          then st\<lparr>closed_lives := (case open_lf st of
                              None \<Rightarrow> closed_lives st
                            | Some lf \<Rightarrow> push_life (close_life lf SessionGap None) (closed_lives st)),
                  open_lf := None, in_session := False\<rparr>
          else st
      | _ \<Rightarrow> st)"

definition session_start :: "string option \<Rightarrow> life_state \<Rightarrow> life_state" where
  "session_start ts_str st =
     (if in_session st then st
      else st\<lparr>sess := as_u32 (sess st + 1), in_session := True, open_lf := Some (open_life_new ts_str)\<rparr>)"

definition clock_tick :: "i64 option \<Rightarrow> life_state \<Rightarrow> life_state" where
  "clock_tick ts st = (case ts of None \<Rightarrow> st | Some t \<Rightarrow> st\<lparr>last_ts := Some t\<rparr>)"

definition activity :: "game_event \<Rightarrow> i64 option \<Rightarrow> life_state \<Rightarrow> life_state" where
  "activity ev ts st =
     (if is_passive ev then st
      else (case (open_lf st, ts) of
              (Some lf, Some t) \<Rightarrow> st\<lparr>open_lf := Some (mark_active lf t)\<rparr>
            | _ \<Rightarrow> st))"

definition life_event :: "game_event \<Rightarrow> string option \<Rightarrow> life_state \<Rightarrow> life_state" where
  "life_event ev ts_str st =
     (case ev of
        PlayerIncapacitated _ \<Rightarrow>
          (case open_lf st of
             None \<Rightarrow> st
           | Some lf \<Rightarrow> st\<lparr>open_lf := Some (lf\<lparr>open_life.incap_count := as_u32 (open_life.incap_count lf + 1)\<rparr>)\<rparr>)
      | PlayerDeath d \<Rightarrow>
          let lf = (case open_lf st of None \<Rightarrow> open_life_new None | Some lf \<Rightarrow> lf);
              lf = lf\<lparr>open_life.death_zone := player_death.zone d,
                      open_life.death_inferred := (body_class d = ''inferred'')\<rparr>
          in st\<lparr>closed_lives := push_life (close_life lf Death ts_str) (closed_lives st),
                open_lf := Some (open_life_new ts_str)\<rparr>
      | GameCrash _ \<Rightarrow>
          let lf = (case open_lf st of None \<Rightarrow> open_life_new None | Some lf \<Rightarrow> lf)
          in st\<lparr>closed_lives := push_life (close_life lf Crash ts_str) (closed_lives st),
                open_lf := Some (open_life_new ts_str)\<rparr>
      | _ \<Rightarrow> st)"

definition life_step :: "chrono_rfc3339 \<Rightarrow> life_config \<Rightarrow> life_state \<Rightarrow> event_envelope \<Rightarrow> life_state" where
  "life_step rfc cfg st env =
     (case event_envelope.event env of
        None \<Rightarrow> st
      | Some ev \<Rightarrow>
          let ts_str = envelope_timestamp env;
              ts = map_option dt_timestamp (Option.bind ts_str rfc)
          in life_event ev ts_str
               (activity ev ts (clock_tick ts (session_start ts_str (session_boundary cfg ts st)))))"

definition life_finish :: "life_state \<Rightarrow> life list" where
  "life_finish st =
     (case open_lf st of
        None \<Rightarrow> closed_lives st
      | Some lf \<Rightarrow> push_life (close_life lf StillAlive None) (closed_lives st))"

definition summarise_lives :: "life list \<Rightarrow> nat \<Rightarrow> life_summary" where
  "summarise_lives ls n =
     (let ds = as_u32 (length (filter (\<lambda>l. ended_by l = Death) ls));
          durs = List.map_filter duration_secs ls
      in \<lparr>lives = ls, total_lives = as_u32 (length ls), deaths = ds,
          deaths_inferred = as_u32 (length (filter (\<lambda>l. ended_by l = Death \<and> life.death_inferred l) ls)),
          mean_life_secs = (if durs = [] then None else Some (tdiv (wrap_i64 (sum_list durs)) (int (length durs)))),
          longest_life_secs = (if durs = [] then None else Some (foldl max (hd durs) (tl durs))),
          sessions = n,
          deaths_per_session = (if 0 < n then Some (f32_div (f32_of_nat ds) (f32_of_nat n)) else None),
          lives_ended_by_crash = as_u32 (length (filter (\<lambda>l. ended_by l = Crash) ls))\<rparr>)"

definition derive_lives :: "chrono_rfc3339 \<Rightarrow> event_envelope list \<Rightarrow> life_config \<Rightarrow> life_summary" where
  "derive_lives rfc events cfg =
     (let st = foldl (life_step rfc cfg) life_init events
      in summarise_lives (life_finish st) (sess st))"

section \<open>Parts of a step\<close>

lemmas life_step_defs =
  session_boundary_def session_start_def clock_tick_def activity_def life_event_def push_life_def

text \<open>Only a death or a crash adds a life that ends so, and it always adds one.\<close>

lemma close_life_ended_by: "close_life lf e t = Some l \<Longrightarrow> ended_by l = e"
  by (auto simp: close_life_def Let_def split: if_splits)

lemma close_life_Death [simp]: "close_life lf Death t \<noteq> None" "close_life lf Crash t \<noteq> None"
  by (simp_all add: close_life_def Let_def)

definition count_lives :: "(life \<Rightarrow> bool) \<Rightarrow> life list \<Rightarrow> nat" where
  "count_lives P ls = length (filter P ls)"

lemma count_push: "count_lives P (push_life l ls) = count_lives P ls + (case l of Some x \<Rightarrow> if P x then 1 else 0 | None \<Rightarrow> 0)"
  by (auto simp: count_lives_def push_life_def split: option.splits)

lemma closed_lives_simps [simp]:
  "closed_lives (session_start t st) = closed_lives st"
  "closed_lives (clock_tick ts st) = closed_lives st"
  "closed_lives (activity ev ts st) = closed_lives st"
  by (simp_all add: life_step_defs split: option.splits prod.splits)

lemma closed_lives_event:
  "(\<And>d. ev \<noteq> PlayerDeath d) \<Longrightarrow> (\<And>c. ev \<noteq> GameCrash c) \<Longrightarrow> closed_lives (life_event ev t st) = closed_lives st"
  by (cases ev) (auto simp: life_event_def split: option.splits)

lemma count_boundary:
  assumes "\<And>l. ended_by l = SessionGap \<Longrightarrow> \<not> P l"
  shows "count_lives P (closed_lives (session_boundary cfg ts st)) = count_lives P (closed_lives st)"
  using assms close_life_ended_by
  by (auto simp: session_boundary_def count_push split: option.splits)

lemma count_finish:
  assumes "\<And>l. ended_by l = StillAlive \<Longrightarrow> \<not> P l"
  shows "count_lives P (life_finish st) = count_lives P (closed_lives st)"
  using assms close_life_ended_by
  by (auto simp: life_finish_def count_push split: option.splits)

definition is_event :: "(game_event \<Rightarrow> bool) \<Rightarrow> event_envelope \<Rightarrow> bool" where
  "is_event P env = (case event_envelope.event env of None \<Rightarrow> False | Some ev \<Rightarrow> P ev)"

text \<open>A class of closed lives that is filled by a class of events: what the three counters of the summary share.\<close>

locale life_tally =
  fixes P :: "life \<Rightarrow> bool" and Q :: "game_event \<Rightarrow> bool"
  assumes ends: "P l \<Longrightarrow> ended_by l = Death \<or> ended_by l = Crash"
    and on_death: "close_life (lf\<lparr>open_life.death_zone := player_death.zone d,
        open_life.death_inferred := (body_class d = ''inferred'')\<rparr>) Death t = Some l \<Longrightarrow> P l = Q (PlayerDeath d)"
    and on_crash: "close_life lf Crash t = Some l \<Longrightarrow> P l = Q (GameCrash c)"
    and events: "Q ev \<Longrightarrow> (\<exists>d. ev = PlayerDeath d) \<or> (\<exists>c. ev = GameCrash c)"
begin

lemma count_event:
  "count_lives P (closed_lives (life_event ev t st)) = count_lives P (closed_lives st) + (if Q ev then 1 else 0)"
proof -
  consider (death) d where "ev = PlayerDeath d" | (crash) c where "ev = GameCrash c"
    | (other) "closed_lives (life_event ev t st) = closed_lives st" "\<not> Q ev"
    using events [of ev] closed_lives_event [of ev t st] by blast
  then show ?thesis
  proof cases
    case death
    define lf where "lf = (case open_lf st of None \<Rightarrow> open_life_new None | Some lf \<Rightarrow> lf)"
    obtain l where l: "close_life (lf\<lparr>open_life.death_zone := player_death.zone d,
        open_life.death_inferred := (body_class d = ''inferred'')\<rparr>) Death t = Some l" by fastforce
    with on_death [OF l] death show ?thesis by (simp add: life_event_def lf_def Let_def count_push)
  next
    case crash
    define lf where "lf = (case open_lf st of None \<Rightarrow> open_life_new None | Some lf \<Rightarrow> lf)"
    obtain l where l: "close_life lf Crash t = Some l" by fastforce
    with on_crash [OF l, of c] crash show ?thesis by (simp add: life_event_def lf_def Let_def count_push)
  qed simp
qed

lemma count_step:
  "count_lives P (closed_lives (life_step rfc cfg st env)) = count_lives P (closed_lives st) + (if is_event Q env then 1 else 0)"
proof -
  have "count_lives P (closed_lives (session_boundary cfg ts st)) = count_lives P (closed_lives st)" for ts
    using ends by (intro count_boundary) fastforce
  then show ?thesis
    by (simp add: life_step_def is_event_def Let_def count_event split: option.splits)
qed

end

sublocale life_tally \<subseteq> tally: counting_fold "life_step rfc cfg" "\<lambda>_. True"
    "\<lambda>st. count_lives P (closed_lives st)" "\<lambda>env. if is_event Q env then 1 else 0" for rfc cfg
  by unfold_locales (simp_all add: count_step)

context life_tally
begin

lemma count_derived:
  "length (filter P (lives (derive_lives rfc events cfg))) = length (filter (is_event Q) events)"
proof -
  have "count_lives P (life_finish st) = count_lives P (closed_lives st)" for st
    using ends by (intro count_finish) fastforce
  then show ?thesis
    using tally.tally_run [of rfc cfg life_init events]
    by (simp add: derive_lives_def summarise_lives_def Let_def sum_list_indicator life_init_def count_lives_def)
qed

end

definition is_player_death :: "game_event \<Rightarrow> bool" where
  "is_player_death ev = (case ev of PlayerDeath _ \<Rightarrow> True | _ \<Rightarrow> False)"

definition is_inferred_death :: "game_event \<Rightarrow> bool" where
  "is_inferred_death ev = (case ev of PlayerDeath d \<Rightarrow> body_class d = ''inferred'' | _ \<Rightarrow> False)"

definition is_game_crash :: "game_event \<Rightarrow> bool" where
  "is_game_crash ev = (case ev of GameCrash _ \<Rightarrow> True | _ \<Rightarrow> False)"

interpretation death_tally: life_tally "\<lambda>l. ended_by l = Death" is_player_death
  by unfold_locales
    (auto simp: is_player_death_def dest: close_life_ended_by split: game_event.splits)

interpretation inferred_tally: life_tally "\<lambda>l. ended_by l = Death \<and> life.death_inferred l" is_inferred_death
  by unfold_locales
    (auto simp: is_inferred_death_def close_life_def Let_def split: game_event.splits)

interpretation crash_tally: life_tally "\<lambda>l. ended_by l = Crash" is_game_crash
  by unfold_locales
    (auto simp: is_game_crash_def dest: close_life_ended_by split: game_event.splits)

lemma summary_counts:
  "deaths (derive_lives rfc events cfg) = as_u32 (length (filter (is_event is_player_death) events))"
  "deaths_inferred (derive_lives rfc events cfg) = as_u32 (length (filter (is_event is_inferred_death) events))"
  "lives_ended_by_crash (derive_lives rfc events cfg) = as_u32 (length (filter (is_event is_game_crash) events))"
  using death_tally.count_derived [of rfc events cfg] inferred_tally.count_derived [of rfc events cfg]
    crash_tally.count_derived [of rfc events cfg]
  by (simp_all add: derive_lives_def summarise_lives_def Let_def)

section \<open>Sessions\<close>

text \<open>The readable times of the classified events, in stream order, and the gaps between neighbours.\<close>

definition event_second :: "chrono_rfc3339 \<Rightarrow> event_envelope \<Rightarrow> i64 option" where
  "event_second rfc env = map_option dt_timestamp (Option.bind (envelope_timestamp env) rfc)"

definition seconds_of :: "chrono_rfc3339 \<Rightarrow> event_envelope list \<Rightarrow> i64 list" where
  "seconds_of rfc events = List.map_filter (event_second rfc) events"

fun gap_count :: "i64 \<Rightarrow> i64 list \<Rightarrow> nat" where
  "gap_count g (a # b # ts) = (if g < b - a then 1 else 0) + gap_count g (b # ts)"
| "gap_count g _ = 0"

lemma gap_count_snoc:
  "gap_count g (ts @ [t]) = gap_count g ts + (if ts \<noteq> [] \<and> g < t - last ts then 1 else 0)"
  by (induction g ts rule: gap_count.induct) auto

definition session_count :: "life_config \<Rightarrow> chrono_rfc3339 \<Rightarrow> event_envelope list \<Rightarrow> nat" where
  "session_count cfg rfc events =
     (if filter (is_event (\<lambda>_. True)) events = [] then 0
      else Suc (gap_count (session_gap_secs cfg) (seconds_of rfc events)))"

lemma event_keeps_session:
  "sess (life_event ev t st) = sess st \<and> in_session (life_event ev t st) = in_session st \<and>
   last_ts (life_event ev t st) = last_ts st"
  by (cases ev) (simp_all add: life_event_def Let_def split: option.split)

lemma activity_keeps_session:
  "sess (activity ev ts st) = sess st \<and> in_session (activity ev ts st) = in_session st \<and>
   last_ts (activity ev ts st) = last_ts st"
  by (simp add: activity_def split: option.split)

lemma life_step_None [simp]: "event_envelope.event env = None \<Longrightarrow> life_step rfc cfg st env = st"
  by (simp add: life_step_def)

definition gap_before :: "life_config \<Rightarrow> i64 option \<Rightarrow> i64 option \<Rightarrow> bool" where
  "gap_before cfg ts prev \<longleftrightarrow> (\<exists>c p. ts = Some c \<and> prev = Some p \<and> session_gap_secs cfg < c - p)"

lemma life_step_session:
  assumes "event_envelope.event env = Some ev"
  shows "sess (life_step rfc cfg st env) =
      (if in_session st \<and> \<not> gap_before cfg (event_second rfc env) (last_ts st) then sess st else as_u32 (sess st + 1))"
    "in_session (life_step rfc cfg st env)"
    "last_ts (life_step rfc cfg st env) = (case event_second rfc env of None \<Rightarrow> last_ts st | Some t \<Rightarrow> Some t)"
  using assms
  by (simp_all add: life_step_def Let_def event_keeps_session activity_keeps_session clock_tick_def
      session_start_def session_boundary_def gap_before_def event_second_def split: option.split)

lemma seconds_of_snoc:
  "seconds_of rfc (es @ [env]) = seconds_of rfc es @ (case event_second rfc env of None \<Rightarrow> [] | Some t \<Rightarrow> [t])"
  by (simp add: seconds_of_def List.map_filter_def split: option.splits)

lemma event_second_None: "event_envelope.event env = None \<Longrightarrow> event_second rfc env = None"
  by (simp add: event_second_def envelope_timestamp_def)

lemma no_event_no_seconds: "filter (is_event (\<lambda>_. True)) es = [] \<Longrightarrow> seconds_of rfc es = []"
  by (induction es)
    (auto simp: seconds_of_def List.map_filter_simps is_event_def event_second_None split: option.splits if_splits)

definition last_opt :: "'a list \<Rightarrow> 'a option" where
  "last_opt xs = (if xs = [] then None else Some (last xs))"

lemma session_state:
  assumes "st = foldl (life_step rfc cfg) life_init events"
  shows "sess st = as_u32 (session_count cfg rfc events) \<and>
      (in_session st \<longleftrightarrow> filter (is_event (\<lambda>_. True)) events \<noteq> []) \<and>
      last_ts st = last_opt (seconds_of rfc events)"
  using assms
proof (induction events arbitrary: st rule: rev_induct)
  case Nil
  then show ?case
    by (simp add: session_count_def life_init_def seconds_of_def List.map_filter_def last_opt_def)
next
  case (snoc env events)
  define s where "s = foldl (life_step rfc cfg) life_init events"
  note IH = snoc.IH [OF s_def]
  have st: "st = life_step rfc cfg s env" by (simp add: snoc.prems s_def)
  have wrap: "as_u32 (Suc (as_u32 n)) = as_u32 (Suc n)" for n
    by (simp add: as_u32_def mod_Suc_eq)
  show ?case
  proof (cases "event_envelope.event env")
    case None
    with IH show ?thesis
      by (simp add: st session_count_def is_event_def seconds_of_snoc event_second_None)
  next
    case (Some ev)
    then have now: "filter (is_event (\<lambda>_. True)) (events @ [env]) \<noteq> []" by (simp add: is_event_def)
    show ?thesis
    proof (cases "filter (is_event (\<lambda>_. True)) events = []")
      case True
      with IH no_event_no_seconds [OF True, of rfc] now show ?thesis
        by (simp add: st life_step_session [OF Some] session_count_def seconds_of_snoc last_opt_def wrap
            split: option.split)
    next
      case False
      with IH now show ?thesis
        by (simp add: st life_step_session [OF Some] session_count_def seconds_of_snoc gap_count_snoc gap_before_def
            last_opt_def wrap split: option.split)
    qed
  qed
qed

section \<open>Well-formed lives\<close>

definition life_wf :: "life \<Rightarrow> bool" where
  "life_wf l \<longleftrightarrow>
     life.start_ts l \<noteq> None \<and>
     (end_ts l = None \<longleftrightarrow> ended_by l \<in> {SessionGap, StillAlive}) \<and>
     (case duration_secs l of None \<Rightarrow> True | Some d \<Rightarrow> 0 \<le> d) \<and>
     (ended_by l = Death \<or> life.death_zone l = None \<and> \<not> life.death_inferred l)"

definition open_wf :: "open_life \<Rightarrow> bool" where
  "open_wf lf \<longleftrightarrow> open_life.start_ts lf \<noteq> None \<and> open_life.death_zone lf = None \<and> \<not> open_life.death_inferred lf \<and>
     (first_active lf = None \<longleftrightarrow> last_active lf = None)"

definition life_inv :: "life_state \<Rightarrow> bool" where
  "life_inv st \<longleftrightarrow>
     (\<forall>l \<in> set (closed_lives st). life_wf l \<and> ended_by l \<noteq> StillAlive) \<and>
     (case open_lf st of None \<Rightarrow> True | Some lf \<Rightarrow> open_wf lf) \<and>
     (in_session st \<longleftrightarrow> open_lf st \<noteq> None)"

lemma open_wf_new [simp]: "open_wf (open_life_new (Some t))"
  by (simp add: open_wf_def open_life_new_def)

lemma open_wf_mark [simp]: "open_wf lf \<Longrightarrow> open_wf (mark_active lf t)"
  by (auto simp: open_wf_def mark_active_def Let_def)

lemma open_wf_incap [simp]: "open_wf (lf\<lparr>open_life.incap_count := n\<rparr>) = open_wf lf"
  by (simp add: open_wf_def)

lemma close_life_wf:
  "close_life lf e t = Some l \<Longrightarrow> open_life.start_ts lf \<noteq> None \<Longrightarrow> (t = None \<longleftrightarrow> e \<in> {SessionGap, StillAlive}) \<Longrightarrow>
     e = Death \<or> open_wf lf \<Longrightarrow> life_wf l"
  by (auto simp: close_life_def Let_def life_wf_def open_wf_def split: if_splits option.splits)

lemma set_push_life: "l \<in> set (push_life x ls) \<longleftrightarrow> l \<in> set ls \<or> x = Some l"
  by (auto simp: push_life_def split: option.splits)

lemma life_inv_boundary: "life_inv st \<Longrightarrow> life_inv (session_boundary cfg ts st)"
proof -
  assume inv: "life_inv st"
  have "life_wf l \<and> ended_by l \<noteq> StillAlive" if "open_lf st = Some lf" "close_life lf SessionGap None = Some l" for lf l
    using inv that close_life_wf [OF that(2)] close_life_ended_by [OF that(2)]
    by (simp add: life_inv_def open_wf_def)
  with inv show ?thesis
    by (auto simp: life_inv_def session_boundary_def set_push_life split: option.splits)
qed

lemma life_inv_middle:
  "life_inv st \<Longrightarrow> life_inv (activity ev ts (clock_tick ts (session_start (Some t) st))) \<and>
     open_lf (activity ev ts (clock_tick ts (session_start (Some t) st))) \<noteq> None"
  by (auto simp: life_inv_def session_start_def clock_tick_def activity_def split: option.splits)

lemma life_inv_event:
  assumes inv: "life_inv st" and op: "open_lf st = Some lf"
  shows "life_inv (life_event ev (Some t) st)"
proof -
  have sess: "in_session st" and wf: "open_wf lf" using inv op by (simp_all add: life_inv_def)
  have start: "open_life.start_ts lf \<noteq> None" using wf by (simp add: open_wf_def)
  consider (incap) i where "ev = PlayerIncapacitated i" | (death) d where "ev = PlayerDeath d"
    | (crash) c where "ev = GameCrash c" | (other) "life_event ev (Some t) st = st"
    by (cases ev) (simp_all add: life_event_def)
  then show ?thesis
  proof cases
    case incap
    with inv op show ?thesis by (simp add: life_event_def life_inv_def)
  next
    case death
    let ?lf = "lf\<lparr>open_life.death_zone := player_death.zone d, open_life.death_inferred := (body_class d = ''inferred'')\<rparr>"
    have "life_wf l \<and> ended_by l \<noteq> StillAlive" if "close_life ?lf Death (Some t) = Some l" for l
      using close_life_wf [OF that] close_life_ended_by [OF that] start by simp
    with death inv op sess show ?thesis by (auto simp: life_event_def life_inv_def set_push_life)
  next
    case crash
    have "life_wf l \<and> ended_by l \<noteq> StillAlive" if "close_life lf Crash (Some t) = Some l" for l
      using close_life_wf [OF that] close_life_ended_by [OF that] start wf by simp
    with crash inv op sess show ?thesis by (auto simp: life_event_def life_inv_def set_push_life)
  qed (use inv in simp)
qed

lemma life_inv_step: "life_inv st \<Longrightarrow> life_inv (life_step rfc cfg st env)"
proof (cases "event_envelope.event env")
  case (Some ev)
  assume "life_inv st"
  from life_inv_middle [OF life_inv_boundary [OF this]] Some show ?thesis
    using life_inv_event by (fastforce simp: life_step_def Let_def envelope_timestamp_def)
qed simp

interpretation life_walk: stream_fold "life_step rfc cfg" life_inv for rfc cfg
  by unfold_locales (rule life_inv_step)

lemma life_inv_init: "life_inv life_init"
  by (simp add: life_inv_def life_init_def)

lemma life_finish_wf:
  assumes "life_inv st" "l \<in> set (life_finish st)"
  shows "life_wf l"
  using assms close_life_wf
  by (fastforce simp: life_finish_def life_inv_def open_wf_def set_push_life split: option.splits)

section \<open>Downs\<close>

definition is_incap :: "game_event \<Rightarrow> bool" where
  "is_incap ev = (case ev of PlayerIncapacitated _ \<Rightarrow> True | _ \<Rightarrow> False)"

definition incap_total :: "life_state \<Rightarrow> nat" where
  "incap_total st =
     sum_list (map life.incap_count (closed_lives st)) +
     (case open_lf st of None \<Rightarrow> 0 | Some lf \<Rightarrow> open_life.incap_count lf)"

text \<open>An open life in which nothing active happened has no downs to lose.\<close>

definition incap_inv :: "life_state \<Rightarrow> bool" where
  "incap_inv st \<longleftrightarrow>
     (\<forall>lf. open_lf st = Some lf \<longrightarrow> first_active lf = None \<longrightarrow> open_life.incap_count lf = 0)"

lemma incap_push:
  assumes "first_active lf = None \<longrightarrow> open_life.incap_count lf = 0"
  shows "sum_list (map life.incap_count (push_life (close_life lf e t) ls)) =
    sum_list (map life.incap_count ls) + open_life.incap_count lf"
  using assms by (simp add: push_life_def close_life_def Let_def)

lemma incap_boundary:
  "incap_inv st \<Longrightarrow> incap_inv (session_boundary cfg ts st) \<and> incap_total (session_boundary cfg ts st) = incap_total st"
  by (auto simp: incap_inv_def incap_total_def session_boundary_def incap_push split: option.splits)

lemma incap_middle:
  "life_inv st \<Longrightarrow> incap_inv st \<Longrightarrow>
     incap_inv (activity ev ts (clock_tick ts (session_start t st))) \<and>
     incap_total (activity ev ts (clock_tick ts (session_start t st))) = incap_total st"
  by (auto simp: life_inv_def incap_inv_def incap_total_def session_start_def clock_tick_def activity_def
      open_life_new_def mark_active_def Let_def split: option.splits)

lemma incap_event:
  assumes op: "open_lf st = Some lf" and inv: "incap_inv st" and act: "is_incap ev \<Longrightarrow> first_active lf \<noteq> None"
  shows "incap_inv (life_event ev t st) \<and>
    as_u32 (incap_total (life_event ev t st)) = as_u32 (incap_total st + (if is_incap ev then 1 else 0))"
proof -
  have bump: "as_u32 (a + as_u32 (b + 1)) = as_u32 (a + b + 1)" for a b
    by (simp add: as_u32_def mod_simps)
  consider (incap) i where "ev = PlayerIncapacitated i" | (death) d where "ev = PlayerDeath d"
    | (crash) c where "ev = GameCrash c" | (other) "life_event ev t st = st" "\<not> is_incap ev"
    by (cases ev) (simp_all add: life_event_def is_incap_def)
  then show ?thesis
  proof cases
    case incap
    with op act bump show ?thesis
      by (auto simp: life_event_def is_incap_def incap_inv_def incap_total_def)
  next
    case death
    with op inv show ?thesis
      by (simp add: life_event_def is_incap_def incap_inv_def incap_total_def incap_push open_life_new_def)
  next
    case crash
    with op inv show ?thesis
      by (simp add: life_event_def is_incap_def incap_inv_def incap_total_def incap_push open_life_new_def)
  qed (use inv in simp)
qed

lemma activity_marks:
  "open_lf st \<noteq> None \<Longrightarrow> \<not> is_passive ev \<Longrightarrow> open_lf (activity ev (Some t) st) = Some lf \<Longrightarrow> first_active lf \<noteq> None"
  by (auto simp: activity_def mark_active_def Let_def split: option.splits)

lemma life_step_Some:
  "event_envelope.event env = Some ev \<Longrightarrow> envelope_timestamp env = Some s \<Longrightarrow>
     life_step rfc cfg st env = life_event ev (Some s)
       (activity ev (event_second rfc env) (clock_tick (event_second rfc env)
          (session_start (Some s) (session_boundary cfg (event_second rfc env) st))))"
  by (simp add: life_step_def Let_def event_second_def)

lemma incap_step:
  assumes inv: "life_inv st" "incap_inv st" and readable: "event_second rfc env \<noteq> None \<or> event_envelope.event env = None"
  shows "incap_inv (life_step rfc cfg st env) \<and>
    as_u32 (incap_total (life_step rfc cfg st env)) = as_u32 (incap_total st + (if is_event is_incap env then 1 else 0))"
proof (cases "event_envelope.event env")
  case None
  with inv show ?thesis by (simp add: is_event_def)
next
  case (Some ev)
  then obtain s t where ts: "envelope_timestamp env = Some s" "event_second rfc env = Some t"
    using readable by (auto simp: envelope_timestamp_def)
  let ?a = "session_start (Some s) (session_boundary cfg (Some t) st)"
  let ?b = "activity ev (Some t) (clock_tick (Some t) ?a)"
  note bd = life_inv_boundary [OF inv(1), of cfg "Some t"] incap_boundary [OF inv(2), of cfg "Some t"]
  have mid: "incap_inv ?b" "incap_total ?b = incap_total st" "open_lf ?b \<noteq> None"
    using incap_middle [of "session_boundary cfg (Some t) st" ev "Some t" "Some s"]
      life_inv_middle [OF bd(1), of ev "Some t" s] bd by auto
  then obtain lf where lf: "open_lf ?b = Some lf" by blast
  have "open_lf (clock_tick (Some t) ?a) \<noteq> None"
    using bd(1) by (auto simp: session_start_def clock_tick_def life_inv_def)
  then have act: "first_active lf \<noteq> None" if "is_incap ev"
    using activity_marks [OF _ _ lf] that by (auto simp: is_incap_def is_passive_def split: game_event.splits)
  have "life_step rfc cfg st env = life_event ev (Some s) ?b"
    by (simp only: life_step_Some [OF Some ts(1)] ts(2))
  with incap_event [where ev = ev and t = "Some s", OF lf mid(1) act] mid(2) Some show ?thesis
    by (simp add: is_event_def)
qed

lemma incap_run:
  assumes "\<forall>env \<in> set events. event_second rfc env \<noteq> None \<or> event_envelope.event env = None"
  shows "incap_inv (foldl (life_step rfc cfg) life_init events) \<and>
    as_u32 (incap_total (foldl (life_step rfc cfg) life_init events)) = as_u32 (length (filter (is_event is_incap) events))"
  using assms
proof (induction events rule: rev_induct)
  case Nil
  then show ?case by (simp add: incap_inv_def incap_total_def life_init_def)
next
  case (snoc env events)
  let ?st = "foldl (life_step rfc cfg) life_init events"
  have inv: "life_inv ?st" using life_inv_init by (rule life_walk.inv_run)
  have shift: "as_u32 (a + w) = as_u32 (b + w)" if "as_u32 a = as_u32 b" for a b w
    using that by (metis as_u32_def mod_add_left_eq)
  have IH: "incap_inv ?st" "as_u32 (incap_total ?st) = as_u32 (length (filter (is_event is_incap) events))"
    using snoc by auto
  have "event_second rfc env \<noteq> None \<or> event_envelope.event env = None" using snoc.prems by simp
  note incap_step [OF inv IH(1) this, of cfg, unfolded shift [OF IH(2)]]
  then show ?case by simp
qed

section \<open>Durations\<close>

lemma foldl_max: "foldl max x xs = Max (set (x # xs))" for x :: int
proof (induction xs arbitrary: x)
  case (Cons y ys)
  then show ?case by (cases "ys = []") (simp_all add: max.commute max.left_commute)
qed simp

lemma durations_nonneg:
  "d \<in> set (List.map_filter duration_secs (lives (derive_lives rfc events cfg))) \<Longrightarrow> 0 \<le> d"
proof -
  assume "d \<in> set (List.map_filter duration_secs (lives (derive_lives rfc events cfg)))"
  then obtain l where l: "l \<in> set (lives (derive_lives rfc events cfg))" "duration_secs l = Some d"
    by (auto simp: List.map_filter_def)
  have "life_inv (foldl (life_step rfc cfg) life_init events)" using life_inv_init by (rule life_walk.inv_run)
  with l(1) have "life_wf l"
    by (auto simp: derive_lives_def summarise_lives_def Let_def intro: life_finish_wf)
  with l(2) show ?thesis by (simp add: life_wf_def)
qed

lemma sum_list_le_Max:
  fixes ds :: "int list"
  assumes "\<forall>d \<in> set ds. d \<le> m"
  shows "sum_list ds \<le> int (length ds) * m"
  using assms by (induction ds) (auto simp: algebra_simps)

section \<open>Properties\<close>

text \<open>C30. No death is lost or invented: the summary's deaths, inferred deaths and crashes are the numbers of death,
  inferred-death and crash events in the stream (as \<open>u32\<close>), whether or not timestamps can be read.\<close>

theorem derive_lives_counts:
  "deaths (derive_lives rfc events cfg) = as_u32 (length (filter (is_event is_player_death) events)) \<and>
   deaths_inferred (derive_lives rfc events cfg) = as_u32 (length (filter (is_event is_inferred_death) events)) \<and>
   lives_ended_by_crash (derive_lives rfc events cfg) = as_u32 (length (filter (is_event is_game_crash) events))"
  by (simp add: summary_counts)

text \<open>The session count is one more than the number of gaps longer than the threshold between neighbouring readable
  timestamps (zero without any classified event).\<close>

theorem derive_lives_sessions:
  "sessions (derive_lives rfc events cfg) = as_u32 (session_count cfg rfc events)"
  using session_state [OF refl, of rfc cfg events] by (simp add: derive_lives_def summarise_lives_def Let_def)

text \<open>Every reported life is well-formed: it has a start, an end time exactly when an event closed it, a
  non-negative duration when it has one, and death details only when a death closed it; only the last life can be
  still open.\<close>

theorem derive_lives_wf:
  "list_all life_wf (lives (derive_lives rfc events cfg)) \<and>
   list_all (\<lambda>l. ended_by l \<noteq> StillAlive) (butlast (lives (derive_lives rfc events cfg)))"
proof -
  have inv: "life_inv (foldl (life_step rfc cfg) life_init events)" using life_inv_init by (rule life_walk.inv_run)
  then have "list_all life_wf (life_finish (foldl (life_step rfc cfg) life_init events))"
    using life_finish_wf by (auto simp: list_all_iff)
  moreover have "list_all (\<lambda>l. ended_by l \<noteq> StillAlive) (butlast (life_finish (foldl (life_step rfc cfg) life_init events)))"
    using inv by (auto simp: life_finish_def life_inv_def push_life_def list_all_iff split: option.splits
        dest: in_set_butlastD)
  ultimately show ?thesis by (simp add: derive_lives_def summarise_lives_def Let_def)
qed

text \<open>Downs are conserved: when the times of all classified events can be read, the downs of the reported lives add
  up to the number of incapacitation events (as \<open>u32\<close>); no dropped life carried one.\<close>

theorem derive_lives_incaps:
  assumes "\<forall>env \<in> set events. event_second rfc env \<noteq> None \<or> event_envelope.event env = None"
  shows "as_u32 (sum_list (map life.incap_count (lives (derive_lives rfc events cfg)))) =
    as_u32 (length (filter (is_event is_incap) events))"
proof -
  let ?st = "foldl (life_step rfc cfg) life_init events"
  have "incap_inv ?st" using incap_run [OF assms] by blast
  then have "sum_list (map life.incap_count (life_finish ?st)) = incap_total ?st"
    by (simp add: life_finish_def incap_total_def incap_inv_def incap_push split: option.split)
  with incap_run [OF assms, of cfg] show ?thesis
    by (simp add: derive_lives_def summarise_lives_def Let_def)
qed

theorem derive_lives_incaps_witness:
  "as_u32 (sum_list (map life.incap_count (lives (derive_lives (\<lambda>s. Some (int (length s)))
      [\<lparr>event_envelope.idempotency_key = [], raw_line = [], event = Some (PlayerIncapacitated
          \<lparr>player_incapacitated.timestamp = ''t'', queue_id = 1, player_incapacitated.zone = None\<rparr>), source = Live,
        source_offset = 0, metadata = None, resolved_location = None\<rparr>] default_life_config)))) = 1"
  by (subst derive_lives_incaps)
    (simp_all add: event_second_def envelope_timestamp_def is_event_def is_incap_def)

text \<open>The survival streak is the greatest duration of the lives, the mean lies between zero and it as long as the
  sum of the durations fits \<open>i64\<close>, and both are absent together.\<close>

theorem derive_lives_durations:
  assumes "sum_list (List.map_filter duration_secs (lives (derive_lives rfc events cfg))) < 2 ^ 63"
  shows "(case longest_life_secs (derive_lives rfc events cfg) of
      None \<Rightarrow> mean_life_secs (derive_lives rfc events cfg) = None \<and>
              (\<forall>l \<in> set (lives (derive_lives rfc events cfg)). duration_secs l = None)
    | Some m \<Rightarrow> m = Max (set (List.map_filter duration_secs (lives (derive_lives rfc events cfg)))) \<and>
                (\<exists>a. mean_life_secs (derive_lives rfc events cfg) = Some a \<and> 0 \<le> a \<and> a \<le> m))"
proof -
  let ?ls = "lives (derive_lives rfc events cfg)"
  let ?ds = "List.map_filter duration_secs ?ls"
  have nonneg: "\<forall>d \<in> set ?ds. 0 \<le> d" using durations_nonneg by blast
  have len: "mean_life_secs (derive_lives rfc events cfg) =
      (if ?ds = [] then None else Some (tdiv (wrap_i64 (sum_list ?ds)) (int (length ?ds))))"
    "longest_life_secs (derive_lives rfc events cfg) =
      (if ?ds = [] then None else Some (foldl max (hd ?ds) (tl ?ds)))"
    by (simp_all add: derive_lives_def summarise_lives_def Let_def)
  show ?thesis
  proof (cases "?ds = []")
    case True
    then show ?thesis by (simp add: len List.map_filter_def filter_empty_conv)
  next
    case False
    then have m: "foldl max (hd ?ds) (tl ?ds) = Max (set ?ds)" by (simp add: foldl_max)
    have sum: "0 \<le> sum_list ?ds" "sum_list ?ds \<le> int (length ?ds) * Max (set ?ds)"
      using nonneg by (auto intro: sum_list_nonneg sum_list_le_Max)
    then have "tdiv (wrap_i64 (sum_list ?ds)) (int (length ?ds)) = sum_list ?ds div int (length ?ds)"
      using assms False by (simp add: num_simps)
    moreover have "sum_list ?ds div int (length ?ds) \<le> Max (set ?ds)"
    proof -
      have "sum_list ?ds div int (length ?ds) \<le> (int (length ?ds) * Max (set ?ds)) div int (length ?ds)"
        using sum(2) False by (intro zdiv_mono1) auto
      then show ?thesis using False by simp
    qed
    ultimately show ?thesis
      using False m sum(1) by (simp add: len pos_imp_zdiv_nonneg_iff)
  qed
qed

abbreviation (input) sample_spawn :: "string \<Rightarrow> event_envelope" where
  "sample_spawn t \<equiv>
     \<lparr>event_envelope.idempotency_key = [], raw_line = [], event = Some (ResolveSpawn
          \<lparr>resolve_spawn.timestamp = t, player_geid = [], fallback = False\<rparr>), source = Live,
      source_offset = 0, metadata = None, resolved_location = None\<rparr>"

theorem derive_lives_durations_witness:
  "\<exists>m. longest_life_secs (derive_lives (\<lambda>s. Some (int (length s) * 1000000000))
      [sample_spawn ''x'', sample_spawn ''xxx''] default_life_config) = Some m \<and>
      m = Max (set (List.map_filter duration_secs (lives (derive_lives (\<lambda>s. Some (int (length s) * 1000000000))
      [sample_spawn ''x'', sample_spawn ''xxx''] default_life_config))))"
proof -
  let ?sum = "derive_lives (\<lambda>s. Some (int (length s) * 1000000000)) [sample_spawn ''x'', sample_spawn ''xxx''] default_life_config"
  have ls: "List.map_filter duration_secs (lives ?sum) = [2]"
    by (simp add: derive_lives_def summarise_lives_def life_init_def life_step_def envelope_timestamp_def
        dt_timestamp_def session_boundary_def session_start_def clock_tick_def activity_def is_passive_def
        life_event_def open_life_new_def mark_active_def life_finish_def close_life_def push_life_def
        default_life_config_def Let_def List.map_filter_simps)
  then have *: "longest_life_secs ?sum = Some 2"
    by (simp add: derive_lives_def summarise_lives_def Let_def)
  from derive_lives_durations [of "\<lambda>s. Some (int (length s) * 1000000000)"
      "[sample_spawn ''x'', sample_spawn ''xxx'']" default_life_config] * ls
  show ?thesis by simp
qed

end
