(* ===== verification/Contract_Life.thy ===== *)
theory Contract_Life
  imports Wire
begin

text \<open>
  The contract-run fold of \<open>crates/starstats-core/src/contract_life.rs\<close>: HUD banners open, advance and close one run
  per accepted contract; session ends, crashes, gaps and shard changes abandon what is open.

  The open runs live in a \<open>HashMap\<close>, drained in an order the program does not control.  That order is the
  parameter \<open>it\<close>: the \<open>n\<close>-th finished run determines the order of the next drain, so that each drain may use an
  order of its own; the only assumption is that a drain yields exactly the entries of the map.  Constructors that
  several enums of the source share carry the enum's name (\<open>ByNone\<close> is \<open>ClosedBy::None\<close>).  \<open>u32\<close> counts are
  written with \<open>as_u32\<close>.

  The lemmas show that the result does not depend on that order, that there is one run per accepted banner, that a mission
  has at most one unresolved run, and that every run is well-formed.
\<close>

section \<open>Runs\<close>

datatype contract_state = InProgress | Completed | Failed | Withdrawn | Abandoned | Unknown | Superseded

datatype closed_by =
    HudComplete | HudFailed | HudWithdrawn | BySessionEnd | ByGameCrash | BySessionGap | ShardChange
  | BySuperseded | ByNone

datatype step_state = StepInProgress | StepComplete | StepWithdrawn | StepFailed

record contract_step =
  objective_id :: "string option"
  order :: nat
  "text" :: "string option"
  state :: step_state
  started_at :: "string option"
  completed_at :: "string option"

record contract_run =
  mission_id :: string
  name :: string
  state :: contract_state
  closed_by :: closed_by
  accepted :: bool
  in_progress :: bool
  step_count :: nat
  steps_complete :: nat
  steps_remaining :: nat
  partial_history :: bool
  connected_server :: "string option"
  accepted_at :: "string option"
  closed_at :: "string option"
  last_event_at :: "string option"
  steps :: "contract_step list"

record contract_config =
  session_gap_secs :: i64

definition default_contract_config :: contract_config where
  "default_contract_config = \<lparr>session_gap_secs = 1800\<rparr>"

section \<open>Banners\<close>

datatype contract_verb_kind = VerbAccepted | VerbComplete | VerbFailed | VerbWithdrawn

definition banner_name :: "string \<Rightarrow> string" where
  "banner_name rest = trim (trim_end_matches CHR '':'' (trim rest))"

text \<open>The loop over a prefix table: the first prefix that fits wins.\<close>

fun first_prefix :: "(string \<times> 'v) list \<Rightarrow> string \<Rightarrow> ('v \<times> string) option" where
  "first_prefix [] s = None"
| "first_prefix ((p, v) # ps) s =
     (case strip_prefix p s of Some rest \<Rightarrow> Some (v, banner_name rest) | None \<Rightarrow> first_prefix ps s)"

definition contract_verb :: "string \<Rightarrow> (contract_verb_kind \<times> string) option" where
  "contract_verb s = first_prefix
     [(''Contract Accepted:'', VerbAccepted), (''Contract Complete:'', VerbComplete),
      (''Contract Failed:'', VerbFailed), (''Contract Withdrawn:'', VerbWithdrawn)] s"

primrec terminal_outcome :: "contract_verb_kind \<Rightarrow> (contract_state \<times> closed_by) option" where
  "terminal_outcome VerbComplete = Some (Completed, HudComplete)"
| "terminal_outcome VerbFailed = Some (Failed, HudFailed)"
| "terminal_outcome VerbWithdrawn = Some (Withdrawn, HudWithdrawn)"
| "terminal_outcome VerbAccepted = None"

datatype step_verb_kind = StepVerbNew | StepVerbComplete | StepVerbWithdrawn

definition step_verb :: "string \<Rightarrow> (step_verb_kind \<times> string) option" where
  "step_verb s = first_prefix
     [(''New Objective:'', StepVerbNew), (''Objective Complete:'', StepVerbComplete),
      (''Objective Withdrawn:'', StepVerbWithdrawn)] s"

definition ZERO_GUID :: string where
  "ZERO_GUID = ''00000000-0000-0000-0000-000000000000''"

section \<open>Operations on a run\<close>

definition close_run :: "contract_run \<Rightarrow> contract_state \<Rightarrow> closed_by \<Rightarrow> string option \<Rightarrow> contract_run" where
  "close_run run st by_c at_c =
     (let run = run\<lparr>contract_run.state := st, closed_by := by_c, in_progress := (st = InProgress)\<rparr>;
          run = (case at_c of None \<Rightarrow> run | Some ts \<Rightarrow> run\<lparr>closed_at := Some ts, last_event_at := Some ts\<rparr>);
          n = as_u32 (length (steps run));
          c = as_u32 (length (filter (\<lambda>s. contract_step.state s = StepComplete) (steps run)))
      in run\<lparr>step_count := n, steps_complete := c, steps_remaining := n - c\<rparr>)"

text \<open>\<open>iter_mut().find(..)\<close> followed by an update of the step found.\<close>

fun update_first :: "('a \<Rightarrow> bool) \<Rightarrow> ('a \<Rightarrow> 'a) \<Rightarrow> 'a list \<Rightarrow> 'a list option" where
  "update_first P f [] = None"
| "update_first P f (x # xs) =
     (if P x then Some (f x # xs) else map_option ((#) x) (update_first P f xs))"

definition upsert_step :: "contract_run \<Rightarrow> string \<Rightarrow> string \<Rightarrow> string option \<Rightarrow> contract_run" where
  "upsert_step run oid words started =
     (case update_first (\<lambda>s. contract_step.objective_id s = Some oid)
             (\<lambda>s. s\<lparr>contract_step.text := Some words\<rparr>) (steps run) of
        Some ss \<Rightarrow> run\<lparr>steps := ss\<rparr>
      | None \<Rightarrow>
          run\<lparr>steps := steps run @
            [\<lparr>contract_step.objective_id = Some oid, order = as_u32 (length (steps run)), text = Some words,
              state = StepInProgress, started_at = started, completed_at = None\<rparr>]\<rparr>)"

definition complete_step :: "contract_run \<Rightarrow> string \<Rightarrow> string \<Rightarrow> string option \<Rightarrow> contract_run" where
  "complete_step run oid words completed =
     (case update_first (\<lambda>s. contract_step.objective_id s = Some oid)
             (\<lambda>s. s\<lparr>contract_step.state := StepComplete, completed_at := completed\<rparr>) (steps run) of
        Some ss \<Rightarrow> run\<lparr>steps := ss\<rparr>
      | None \<Rightarrow>
          run\<lparr>steps := steps run @
            [\<lparr>contract_step.objective_id = Some oid, order = as_u32 (length (steps run)), text = Some words,
              state = StepComplete, started_at = None, completed_at = completed\<rparr>],
            partial_history := True\<rparr>)"

definition withdraw_step :: "contract_run \<Rightarrow> string \<Rightarrow> string \<Rightarrow> string option \<Rightarrow> contract_run" where
  "withdraw_step run oid words resolved =
     (case update_first (\<lambda>s. contract_step.objective_id s = Some oid)
             (\<lambda>s. s\<lparr>contract_step.state := StepWithdrawn, completed_at := resolved\<rparr>) (steps run) of
        Some ss \<Rightarrow> run\<lparr>steps := ss\<rparr>
      | None \<Rightarrow>
          run\<lparr>steps := steps run @
            [\<lparr>contract_step.objective_id = Some oid, order = as_u32 (length (steps run)), text = Some words,
              state = StepWithdrawn, started_at = None, completed_at = resolved\<rparr>],
            partial_history := True\<rparr>)"

section \<open>The fold\<close>

record contract_fold =
  runs :: "contract_run list"
  open_runs :: "(string, contract_run) hmap"
  last_ts :: "i64 option"
  last_ts_str :: "string option"
  current_shard :: "string option"

type_synonym drain_order = "nat \<Rightarrow> (string, contract_run) hmap \<Rightarrow> (string \<times> contract_run) list"

definition fold_init :: contract_fold where
  "fold_init = \<lparr>runs = [], open_runs = [], last_ts = None, last_ts_str = None, current_shard = None\<rparr>"

definition close_all ::
  "drain_order \<Rightarrow> contract_fold \<Rightarrow> contract_state \<Rightarrow> closed_by \<Rightarrow> string option \<Rightarrow> contract_fold" where
  "close_all it st cs by_c at_c =
     st\<lparr>runs := runs st @ map (\<lambda>(_, run). close_run run cs by_c at_c) (it (length (runs st)) (open_runs st)),
        open_runs := []\<rparr>"

definition new_run :: "string \<Rightarrow> string \<Rightarrow> string option \<Rightarrow> string option \<Rightarrow> contract_run" where
  "new_run mid nm server ts =
     \<lparr>mission_id = mid, name = nm, state = InProgress, closed_by = ByNone, accepted = True, in_progress = True,
      step_count = 0, steps_complete = 0, steps_remaining = 0, partial_history = False,
      connected_server = server, accepted_at = ts, closed_at = None, last_event_at = ts, steps = []\<rparr>"

text \<open>\<open>open.remove(mission_id)\<close>, and when a run was there, close it and push it.\<close>

definition close_mission ::
  "contract_fold \<Rightarrow> string \<Rightarrow> contract_state \<Rightarrow> closed_by \<Rightarrow> string option \<Rightarrow> contract_fold" where
  "close_mission st mid cs by_c at_c =
     (case map_of (open_runs st) mid of
        None \<Rightarrow> st
      | Some run \<Rightarrow> st\<lparr>runs := runs st @ [close_run run cs by_c at_c], open_runs := hmap_remove mid (open_runs st)\<rparr>)"

definition handle_hud :: "hud_notification \<Rightarrow> string option \<Rightarrow> contract_fold \<Rightarrow> contract_fold" where
  "handle_hud hud ts st =
     (case hud_notification.mission_id hud of
        None \<Rightarrow> st
      | Some mid \<Rightarrow>
          if mid = ZERO_GUID then st
          else
            (case contract_verb (hud_notification.text hud) of
               Some (verb, nm) \<Rightarrow>
                 if verb = VerbAccepted then
                   let st = close_mission st mid Superseded BySuperseded ts
                   in st\<lparr>open_runs := hmap_insert mid (new_run mid nm (current_shard st) ts) (open_runs st)\<rparr>
                 else
                   (case terminal_outcome verb of
                      Some (cs, by_c) \<Rightarrow> close_mission st mid cs by_c ts
                    | None \<Rightarrow> st)
             | None \<Rightarrow>
                 (case step_verb (hud_notification.text hud) of
                    None \<Rightarrow> st
                  | Some (verb, words) \<Rightarrow>
                      (case hud_notification.objective_id hud of
                         None \<Rightarrow> st
                       | Some oid \<Rightarrow>
                           (case map_of (open_runs st) mid of
                              None \<Rightarrow> st
                            | Some run \<Rightarrow>
                                let run' = (case verb of
                                              StepVerbNew \<Rightarrow> upsert_step run oid words ts
                                            | StepVerbComplete \<Rightarrow> complete_step run oid words ts
                                            | StepVerbWithdrawn \<Rightarrow> withdraw_step run oid words ts)
                                in st\<lparr>open_runs := hmap_insert mid (run'\<lparr>last_event_at := ts\<rparr>) (open_runs st)\<rparr>)))))"

definition gap_step :: "drain_order \<Rightarrow> contract_config \<Rightarrow> i64 option \<Rightarrow> contract_fold \<Rightarrow> contract_fold" where
  "gap_step it cfg ts st =
     (case (ts, last_ts st) of
        (Some cur, Some prev) \<Rightarrow>
          if session_gap_secs cfg < cur - prev then close_all it st Abandoned BySessionGap (last_ts_str st) else st
      | _ \<Rightarrow> st)"

definition event_step :: "drain_order \<Rightarrow> game_event \<Rightarrow> string option \<Rightarrow> contract_fold \<Rightarrow> contract_fold" where
  "event_step it ev ts_str st =
     (case ev of
        JoinPu joined \<Rightarrow>
          let st = (case current_shard st of
                      Some prev \<Rightarrow>
                        if prev \<noteq> join_pu.shard joined then close_all it st Abandoned ShardChange ts_str else st
                    | None \<Rightarrow> st)
          in st\<lparr>current_shard := Some (join_pu.shard joined)\<rparr>
      | SessionEnd _ \<Rightarrow> close_all it st Abandoned BySessionEnd ts_str
      | GameCrash _ \<Rightarrow> close_all it st Abandoned ByGameCrash ts_str
      | HudNotification hud \<Rightarrow> handle_hud hud ts_str st
      | _ \<Rightarrow> st)"

definition clock_step :: "i64 option \<Rightarrow> string option \<Rightarrow> contract_fold \<Rightarrow> contract_fold" where
  "clock_step ts ts_str st =
     (let st = (case ts of None \<Rightarrow> st | Some t \<Rightarrow> st\<lparr>last_ts := Some t\<rparr>)
      in case ts_str of None \<Rightarrow> st | Some s \<Rightarrow> st\<lparr>last_ts_str := Some s\<rparr>)"

definition contract_fold_step ::
  "chrono_rfc3339 \<Rightarrow> drain_order \<Rightarrow> contract_config \<Rightarrow> contract_fold \<Rightarrow> event_envelope \<Rightarrow> contract_fold" where
  "contract_fold_step rfc it cfg st env =
     (case event_envelope.event env of
        None \<Rightarrow> st
      | Some ev \<Rightarrow>
          let ts_str = envelope_timestamp env;
              ts = map_option dt_timestamp (Option.bind ts_str rfc)
          in clock_step ts ts_str (event_step it ev ts_str (gap_step it cfg ts st)))"

definition close_at_end :: "chrono_rfc3339 \<Rightarrow> contract_config \<Rightarrow> i64 option \<Rightarrow> contract_run \<Rightarrow> contract_run" where
  "close_at_end rfc cfg final run =
     (let stays_in_progress = (case (Option.bind (last_event_at run) rfc, final) of
                                 (Some run_dt, Some final_ts) \<Rightarrow> final_ts - dt_timestamp run_dt \<le> session_gap_secs cfg
                               | _ \<Rightarrow> False)
      in close_run run (if stays_in_progress then InProgress else Unknown) ByNone None)"

definition run_key :: "contract_run \<Rightarrow> string option \<times> string" where
  "run_key run = (accepted_at run, mission_id run)"

definition finish_runs :: "chrono_rfc3339 \<Rightarrow> drain_order \<Rightarrow> contract_config \<Rightarrow> contract_fold \<Rightarrow> contract_run list" where
  "finish_runs rfc it cfg st =
     sort_key run_key
       (runs st @ map (\<lambda>(_, run). close_at_end rfc cfg (last_ts st) run) (it (length (runs st)) (open_runs st)))"

definition derive_contract_runs ::
  "chrono_rfc3339 \<Rightarrow> drain_order \<Rightarrow> event_envelope list \<Rightarrow> contract_config \<Rightarrow> contract_run list" where
  "derive_contract_runs rfc it events cfg =
     finish_runs rfc it cfg (foldl (contract_fold_step rfc it cfg) fold_init events)"

section \<open>Steps of a run\<close>

lemma update_first_None: "update_first P f xs = None \<longleftrightarrow> (\<forall>x \<in> set xs. \<not> P x)"
  by (induction xs) auto

lemma update_first_map:
  "update_first P f xs = Some ys \<Longrightarrow> (\<And>x. g (f x) = g x) \<Longrightarrow> map g ys = map g xs"
  by (induction xs arbitrary: ys) (auto split: if_splits)

lemma update_first_set:
  "update_first P f xs = Some ys \<Longrightarrow> y \<in> set ys \<Longrightarrow> y \<in> set xs \<or> (\<exists>x \<in> set xs. y = f x)"
  by (induction xs arbitrary: ys) (auto split: if_splits)

text \<open>The step list of a run: one step per objective, numbered in order of appearance, resolved exactly when it has a
  resolution time; the run is marked partial exactly when some step was never announced.\<close>

definition steps_ok :: "contract_step list \<Rightarrow> bool \<Rightarrow> bool" where
  "steps_ok ss partial \<longleftrightarrow>
     distinct (map contract_step.objective_id ss) \<and>
     map contract_step.order ss = map as_u32 [0..<length ss] \<and>
     (\<forall>s \<in> set ss. contract_step.objective_id s \<noteq> None \<and>
        (completed_at s = None \<longleftrightarrow> contract_step.state s = StepInProgress)) \<and>
     (partial \<longleftrightarrow> None \<in> set (map contract_step.started_at ss))"

lemma steps_ok_Nil [simp]: "steps_ok [] False"
  by (simp add: steps_ok_def)

lemma steps_ok_update:
  assumes ok: "steps_ok ss partial" and upd: "update_first P f ss = Some ss'"
    and keeps: "\<And>s. contract_step.objective_id (f s) = contract_step.objective_id s"
      "\<And>s. contract_step.order (f s) = contract_step.order s"
      "\<And>s. contract_step.started_at (f s) = contract_step.started_at s"
    and resolved: "\<And>s. (completed_at s = None \<longleftrightarrow> contract_step.state s = StepInProgress) \<Longrightarrow>
      (completed_at (f s) = None \<longleftrightarrow> contract_step.state (f s) = StepInProgress)"
  shows "steps_ok ss' partial"
proof -
  note maps = update_first_map [OF upd, of contract_step.objective_id, OF keeps(1)]
    update_first_map [OF upd, of contract_step.order, OF keeps(2)]
    update_first_map [OF upd, of contract_step.started_at, OF keeps(3)]
  moreover have "length ss' = length ss" using maps(1) by (metis length_map)
  moreover have "contract_step.objective_id s \<noteq> None \<and>
      (completed_at s = None \<longleftrightarrow> contract_step.state s = StepInProgress)" if "s \<in> set ss'" for s
    using update_first_set [OF upd that] ok keeps(1) resolved unfolding steps_ok_def by metis
  ultimately show ?thesis using ok unfolding steps_ok_def by simp
qed

lemma steps_ok_snoc:
  "steps_ok ss partial \<Longrightarrow> \<forall>s \<in> set ss. contract_step.objective_id s \<noteq> Some oid \<Longrightarrow>
     contract_step.objective_id s' = Some oid \<Longrightarrow> contract_step.order s' = as_u32 (length ss) \<Longrightarrow>
     (completed_at s' = None \<longleftrightarrow> contract_step.state s' = StepInProgress) \<Longrightarrow>
     (partial' \<longleftrightarrow> partial \<or> contract_step.started_at s' = None) \<Longrightarrow> steps_ok (ss @ [s']) partial'"
  by (auto simp: steps_ok_def)

definition run_steps_ok :: "contract_run \<Rightarrow> bool" where
  "run_steps_ok run \<longleftrightarrow> steps_ok (steps run) (partial_history run)"

lemma run_steps_ok_ops:
  assumes "run_steps_ok run"
  shows "run_steps_ok (upsert_step run oid words (Some ts))"
    "run_steps_ok (complete_step run oid words (Some ts))"
    "run_steps_ok (withdraw_step run oid words (Some ts))"
proof -
  let ?P = "\<lambda>s. contract_step.objective_id s = Some oid"
  note ok = assms [unfolded run_steps_ok_def]
  note intros = steps_ok_update [OF ok, of ?P] steps_ok_snoc [OF ok, of oid]
  show "run_steps_ok (upsert_step run oid words (Some ts))"
    by (auto simp: run_steps_ok_def upsert_step_def update_first_None intro: intros split: option.split)
  show "run_steps_ok (complete_step run oid words (Some ts))"
    by (auto simp: run_steps_ok_def complete_step_def update_first_None intro: intros split: option.split)
  show "run_steps_ok (withdraw_step run oid words (Some ts))"
    by (auto simp: run_steps_ok_def withdraw_step_def update_first_None intro: intros split: option.split)
qed

section \<open>Invariants\<close>

definition outcome_ok :: "contract_state \<Rightarrow> closed_by \<Rightarrow> bool" where
  "outcome_ok cs by_c \<longleftrightarrow>
     (case by_c of
        HudComplete \<Rightarrow> cs = Completed
      | HudFailed \<Rightarrow> cs = Failed
      | HudWithdrawn \<Rightarrow> cs = Withdrawn
      | BySuperseded \<Rightarrow> cs = Superseded
      | ByNone \<Rightarrow> cs \<in> {InProgress, Unknown}
      | _ \<Rightarrow> cs = Abandoned)"

definition run_base :: "contract_run \<Rightarrow> bool" where
  "run_base run \<longleftrightarrow> run_steps_ok run \<and> mission_id run \<noteq> ZERO_GUID \<and> accepted run \<and> accepted_at run \<noteq> None"

definition open_ok :: "contract_run \<Rightarrow> bool" where
  "open_ok run \<longleftrightarrow> run_base run \<and> closed_at run = None \<and> closed_by run = ByNone"

text \<open>A finished run.\<close>

definition run_wf :: "contract_run \<Rightarrow> bool" where
  "run_wf run \<longleftrightarrow>
     run_base run \<and>
     outcome_ok (contract_run.state run) (closed_by run) \<and>
     (closed_at run = None \<longleftrightarrow> closed_by run = ByNone) \<and>
     (in_progress run \<longleftrightarrow> contract_run.state run = InProgress) \<and>
     step_count run = as_u32 (length (steps run)) \<and>
     steps_complete run = as_u32 (length (filter (\<lambda>s. contract_step.state s = StepComplete) (steps run))) \<and>
     steps_remaining run = step_count run - steps_complete run"

definition fold_inv :: "contract_fold \<Rightarrow> bool" where
  "fold_inv st \<longleftrightarrow>
     hmap_ok (open_runs st) \<and>
     (\<forall>(k, run) \<in> set (open_runs st). mission_id run = k \<and> open_ok run) \<and>
     (\<forall>run \<in> set (runs st). run_wf run \<and> closed_by run \<noteq> ByNone) \<and>
     (last_ts st \<noteq> None \<longrightarrow> last_ts_str st \<noteq> None)"

lemma close_run_simps [simp]:
  "mission_id (close_run run cs by_c at_c) = mission_id run"
  "accepted_at (close_run run cs by_c at_c) = accepted_at run"
  "closed_by (close_run run cs by_c at_c) = by_c"
  "steps (close_run run cs by_c at_c) = steps run"
  by (simp_all add: close_run_def Let_def split: option.split)

lemma run_key_close [simp]: "run_key (close_run run cs by_c at_c) = run_key run"
  by (simp add: run_key_def)

lemma close_run_wf:
  "open_ok run \<Longrightarrow> outcome_ok cs by_c \<Longrightarrow> (at_c = None \<longleftrightarrow> by_c = ByNone) \<Longrightarrow> run_wf (close_run run cs by_c at_c)"
  by (auto simp: run_wf_def run_base_def open_ok_def close_run_def Let_def run_steps_ok_def split: option.split)

lemma step_ops_simps [simp]:
  "mission_id (upsert_step run oid words ts) = mission_id run" "mission_id (complete_step run oid words ts) = mission_id run"
  "mission_id (withdraw_step run oid words ts) = mission_id run"
  "accepted (upsert_step run oid words ts) = accepted run" "accepted (complete_step run oid words ts) = accepted run"
  "accepted (withdraw_step run oid words ts) = accepted run"
  "accepted_at (upsert_step run oid words ts) = accepted_at run"
  "accepted_at (complete_step run oid words ts) = accepted_at run"
  "accepted_at (withdraw_step run oid words ts) = accepted_at run"
  "closed_at (upsert_step run oid words ts) = closed_at run" "closed_at (complete_step run oid words ts) = closed_at run"
  "closed_at (withdraw_step run oid words ts) = closed_at run"
  "closed_by (upsert_step run oid words ts) = closed_by run" "closed_by (complete_step run oid words ts) = closed_by run"
  "closed_by (withdraw_step run oid words ts) = closed_by run"
  by (simp_all add: upsert_step_def complete_step_def withdraw_step_def split: option.split)

lemma open_ok_ops:
  assumes "open_ok run"
  shows "open_ok (upsert_step run oid words (Some ts))" "open_ok (complete_step run oid words (Some ts))"
    "open_ok (withdraw_step run oid words (Some ts))"
  using assms run_steps_ok_ops [of run] by (simp_all add: open_ok_def run_base_def)

lemma open_ok_touch [simp]: "open_ok (run\<lparr>last_event_at := ts\<rparr>) = open_ok run"
  by (simp add: open_ok_def run_base_def run_steps_ok_def)

lemma open_ok_new: "mid \<noteq> ZERO_GUID \<Longrightarrow> open_ok (new_run mid nm srv (Some ts))"
  by (simp add: open_ok_def run_base_def run_steps_ok_def new_run_def)

lemma fold_inv_insert:
  "fold_inv st \<Longrightarrow> mission_id run = mid \<Longrightarrow> open_ok run \<Longrightarrow>
     fold_inv (st\<lparr>open_runs := hmap_insert mid run (open_runs st)\<rparr>)"
  using hm.invar_insert [of "open_runs st" mid run]
  by (auto simp: fold_inv_def hmap_insert_def hmap_remove_def)

lemma fold_inv_close_mission:
  assumes inv: "fold_inv st" and out: "outcome_ok cs by_c" "by_c \<noteq> ByNone"
  shows "fold_inv (close_mission st mid cs by_c (Some ts))"
proof (cases "map_of (open_runs st) mid")
  case (Some run)
  then have "open_ok run" using inv by (auto simp: fold_inv_def dest!: map_of_SomeD)
  with close_run_wf [of run cs by_c "Some ts"] out inv Some hm.invar_remove [of "open_runs st" mid] show ?thesis
    by (auto simp: close_mission_def fold_inv_def hmap_remove_def)
qed (simp add: close_mission_def inv)

lemma terminal_outcome_ok: "terminal_outcome v = Some (cs, by_c) \<Longrightarrow> outcome_ok cs by_c \<and> by_c \<noteq> ByNone"
  by (cases v) (auto simp: outcome_ok_def)

lemma fold_inv_hud:
  assumes inv: "fold_inv st"
  shows "fold_inv (handle_hud hud (Some ts) st)"
proof -
  have open_run: "open_ok run \<and> mission_id run = mid" if "map_of (open_runs st) mid = Some run" for mid run
    using inv map_of_SomeD [OF that] by (auto simp: fold_inv_def)
  have closed: "fold_inv (close_mission st mid Superseded BySuperseded (Some ts))" for mid
    by (rule fold_inv_close_mission [OF inv]) (simp_all add: outcome_ok_def)
  have terminal: "fold_inv (close_mission st mid cs by_c (Some ts))" if "terminal_outcome v = Some (cs, by_c)" for mid v cs by_c
    using terminal_outcome_ok [OF that] by (blast intro: fold_inv_close_mission [OF inv])
  have accept: "fold_inv (s\<lparr>open_runs := hmap_insert mid (new_run mid nm (current_shard s) (Some ts)) (open_runs s)\<rparr>)"
    if "mid \<noteq> ZERO_GUID" "s = close_mission st mid Superseded BySuperseded (Some ts)" for s mid nm
    using that closed by (intro fold_inv_insert open_ok_new) (simp_all add: new_run_def)
  have step: "fold_inv (st\<lparr>open_runs := hmap_insert mid ((case verb of
        StepVerbNew \<Rightarrow> upsert_step run oid words (Some ts) | StepVerbComplete \<Rightarrow> complete_step run oid words (Some ts)
      | StepVerbWithdrawn \<Rightarrow> withdraw_step run oid words (Some ts))\<lparr>last_event_at := Some ts\<rparr>) (open_runs st)\<rparr>)"
    if "map_of (open_runs st) mid = Some run" for mid verb oid words run
    using open_run [OF that] by (intro fold_inv_insert [OF inv]) (auto simp: open_ok_ops split: step_verb_kind.split)
  show ?thesis
    by (auto simp: handle_hud_def Let_def intro: inv terminal accept step split: option.split)
qed

section \<open>Draining the map\<close>

definition is_accept :: "event_envelope \<Rightarrow> bool" where
  "is_accept env =
     (case event_envelope.event env of
        Some (HudNotification hud) \<Rightarrow>
          (case hud_notification.mission_id hud of
             Some mid \<Rightarrow> mid \<noteq> ZERO_GUID \<and> map_option fst (contract_verb (hud_notification.text hud)) = Some VerbAccepted
           | None \<Rightarrow> False)
      | _ \<Rightarrow> False)"

definition run_total :: "contract_fold \<Rightarrow> nat" where
  "run_total st = length (runs st) + length (open_runs st)"

lemma hmap_remove_None: "map_of m k = None \<Longrightarrow> hmap_remove k m = m"
  by (induction m) (auto simp: hmap_remove_def split: if_splits)

lemma hmap_remove_length: "hmap_ok m \<Longrightarrow> map_of m k = Some v \<Longrightarrow> length m = Suc (length (hmap_remove k m))"
proof (induction m)
  case (Cons p m)
  then show ?case
    using hmap_remove_None [of m "fst p"]
    by (cases p) (auto simp: hmap_ok_def hmap_remove_def map_of_eq_None_iff split: if_splits)
qed simp

lemma run_total_insert_same:
  "hmap_ok (open_runs st) \<Longrightarrow> map_of (open_runs st) mid = Some run \<Longrightarrow>
     run_total (st\<lparr>open_runs := hmap_insert mid run' (open_runs st)\<rparr>) = run_total st"
  by (simp add: run_total_def hmap_insert_def hmap_remove_length)

lemma run_total_close_mission:
  "hmap_ok (open_runs st) \<Longrightarrow> run_total (close_mission st mid cs by_c at_c) = run_total st"
  by (simp add: run_total_def close_mission_def hmap_remove_length split: option.split)

lemma close_mission_gone: "hmap_ok (open_runs st) \<Longrightarrow> map_of (open_runs (close_mission st mid cs by_c at_c)) mid = None"
  by (simp add: close_mission_def hm.lookup_remove split: option.split)

lemma run_total_hud:
  assumes "fold_inv st"
  shows "run_total (handle_hud hud (Some ts) st) =
    run_total st + (case hud_notification.mission_id hud of
       Some mid \<Rightarrow> if mid \<noteq> ZERO_GUID \<and> map_option fst (contract_verb (hud_notification.text hud)) = Some VerbAccepted
                   then 1 else 0
     | None \<Rightarrow> 0)"
proof -
  have ok: "hmap_ok (open_runs st)" using assms by (simp add: fold_inv_def)
  have accept: "run_total (s\<lparr>open_runs := hmap_insert mid run (open_runs s)\<rparr>) = Suc (run_total st)"
    if "s = close_mission st mid Superseded BySuperseded (Some ts)" for s mid run
    using run_total_close_mission [OF ok, of mid Superseded BySuperseded "Some ts"]
      hmap_remove_None [OF close_mission_gone [OF ok]] that
    by (simp add: run_total_def hmap_insert_def)
  show ?thesis
    using run_total_insert_same [OF ok] run_total_close_mission [OF ok] accept
    by (auto simp: handle_hud_def Let_def split: option.split)
qed

locale hash_order =
  fixes it :: drain_order
  assumes drain: "mset (it n m) = mset m"
begin

lemma set_drain: "set (it n m) = set m"
  using drain by (rule mset_eq_setD)

lemma length_drain: "length (it n m) = length m"
  using drain by (rule mset_eq_length)

lemma inv_close_all:
  assumes inv: "fold_inv st" and out: "outcome_ok cs by_c" "by_c \<noteq> ByNone" "at_c \<noteq> None"
  shows "fold_inv (close_all it st cs by_c at_c)"
proof -
  have "run_wf (close_run run cs by_c at_c)" if "(k, run) \<in> set (open_runs st)" for k run
    using inv that out by (intro close_run_wf) (auto simp: fold_inv_def)
  with inv out show ?thesis by (auto simp: fold_inv_def close_all_def hmap_ok_def set_drain)
qed

lemma total_close_all: "run_total (close_all it st cs by_c at_c) = run_total st"
  by (simp add: run_total_def close_all_def length_drain)

lemma inv_gap: "fold_inv st \<Longrightarrow> fold_inv (gap_step it cfg ts st)"
  by (auto simp: gap_step_def outcome_ok_def intro!: inv_close_all split: option.split)
    (simp add: fold_inv_def)

lemma total_gap: "run_total (gap_step it cfg ts st) = run_total st"
  by (simp add: gap_step_def total_close_all split: option.split)

lemma inv_event: "fold_inv st \<Longrightarrow> fold_inv (event_step it ev (Some s) st)"
proof -
  assume inv: "fold_inv st"
  have shard: "fold_inv (st'\<lparr>current_shard := x\<rparr>) = fold_inv st'" for st' x by (simp add: fold_inv_def)
  have "fold_inv (close_all it st Abandoned by_c (Some s))" if "by_c \<in> {ShardChange, BySessionEnd, ByGameCrash}" for by_c
    using that by (intro inv_close_all [OF inv]) (auto simp: outcome_ok_def)
  then show ?thesis
    using inv fold_inv_hud [OF inv]
    by (cases ev) (auto simp: event_step_def Let_def shard split: option.split)
qed

lemma inv_clock: "fold_inv st \<Longrightarrow> fold_inv (clock_step ts (Some s) st)"
  by (auto simp: clock_step_def fold_inv_def Let_def split: option.split)

lemma inv_step: "fold_inv st \<Longrightarrow> fold_inv (contract_fold_step rfc it cfg st env)"
  by (auto simp: contract_fold_step_def Let_def envelope_timestamp_def inv_clock inv_event inv_gap split: option.split)

lemma total_step:
  assumes "fold_inv st"
  shows "run_total (contract_fold_step rfc it cfg st env) = run_total st + (if is_accept env then 1 else 0)"
proof (cases "event_envelope.event env")
  case None
  then show ?thesis by (simp add: contract_fold_step_def is_accept_def)
next
  case (Some ev)
  have clock: "run_total (clock_step ts ts_str st') = run_total st'" for ts ts_str st'
    by (simp add: clock_step_def run_total_def Let_def split: option.split)
  have shard: "run_total (st'\<lparr>current_shard := x\<rparr>) = run_total st'" for st' x by (simp add: run_total_def)
  have "run_total (event_step it ev (Some s) (gap_step it cfg ts st)) = run_total st + (if is_accept env then 1 else 0)" for s ts
    using Some run_total_hud [OF inv_gap [OF assms, of cfg ts]]
    by (cases ev) (simp_all add: event_step_def is_accept_def Let_def shard total_gap total_close_all split: option.split)
  with Some show ?thesis by (simp add: contract_fold_step_def Let_def envelope_timestamp_def clock)
qed

end

sublocale hash_order \<subseteq> walk: counting_fold "contract_fold_step rfc it cfg" fold_inv run_total
    "\<lambda>env. if is_accept env then 1 else 0" for rfc cfg
  by unfold_locales (simp_all add: inv_step total_step)

interpretation insertion_order: hash_order "\<lambda>_ m. m"
  by unfold_locales simp

interpretation reverse_order: hash_order "\<lambda>_ m. rev m"
  by unfold_locales simp


section \<open>Two orders\<close>

lemma mset_eq_filterI:
  assumes "\<And>k. filter (\<lambda>x. f x = k) xs = filter (\<lambda>x. f x = k) ys"
  shows "mset xs = mset ys"
proof (rule multiset_eqI)
  fix x
  have "count (mset zs) x = count (mset (filter (\<lambda>y. f y = f x) zs)) x" for zs by simp
  then show "count (mset xs) x = count (mset ys) x" using assms by metis
qed

lemma mset_filter_short:
  assumes "mset xs = mset ys" "length (filter P xs) \<le> 1"
  shows "filter P xs = filter P ys"
proof -
  have m: "mset (filter P xs) = mset (filter P ys)" using assms(1) by simp
  show ?thesis
  proof (cases "filter P xs")
    case Nil
    with m show ?thesis by simp
  next
    case (Cons x zs)
    with assms(2) have "filter P xs = [x]" by simp
    with m show ?thesis by (metis mset_single_iff_right)
  qed
qed

text \<open>Runs of different missions have different sort keys.\<close>

lemma keys_unique: "distinct (map mission_id rs) \<Longrightarrow> length (filter (\<lambda>r. run_key r = k) rs) \<le> 1"
proof (induction rs)
  case (Cons r rs)
  have "filter (\<lambda>r. run_key r = k) rs = []" if "run_key r = k"
    using Cons.prems that by (auto simp: run_key_def filter_empty_conv image_iff)
  with Cons show ?case by auto
qed simp

definition same_fold :: "contract_fold \<Rightarrow> contract_fold \<Rightarrow> bool" where
  "same_fold s t \<longleftrightarrow>
     mset (open_runs s) = mset (open_runs t) \<and>
     (\<forall>k. filter (\<lambda>r. run_key r = k) (runs s) = filter (\<lambda>r. run_key r = k) (runs t)) \<and>
     last_ts s = last_ts t \<and> last_ts_str s = last_ts_str t \<and> current_shard s = current_shard t"

lemma same_foldD:
  assumes "same_fold s t"
  shows "mset (open_runs s) = mset (open_runs t)"
    "filter (\<lambda>r. run_key r = k) (runs s) = filter (\<lambda>r. run_key r = k) (runs t)"
    "last_ts s = last_ts t" "last_ts_str s = last_ts_str t" "current_shard s = current_shard t"
  using assms unfolding same_fold_def by blast+

lemma same_foldI:
  "mset (open_runs s) = mset (open_runs t) \<Longrightarrow>
   (\<And>k. filter (\<lambda>r. run_key r = k) (runs s) = filter (\<lambda>r. run_key r = k) (runs t)) \<Longrightarrow>
   last_ts s = last_ts t \<Longrightarrow> last_ts_str s = last_ts_str t \<Longrightarrow> current_shard s = current_shard t \<Longrightarrow> same_fold s t"
  unfolding same_fold_def by blast

lemma same_fold_refl: "same_fold s s"
  by (rule same_foldI) (rule refl)+

lemma fold_inv_init: "fold_inv fold_init"
  by (simp add: fold_inv_def fold_init_def hmap_ok_def)

lemma fold_inv_ids: "fold_inv s \<Longrightarrow> p \<in> set (open_runs s) \<Longrightarrow> mission_id (snd p) = fst p"
proof -
  assume "fold_inv s" "p \<in> set (open_runs s)"
  then have "case p of (k, r) \<Rightarrow> mission_id r = k \<and> open_ok r" unfolding fold_inv_def by blast
  then show ?thesis by (cases p) simp
qed

lemma drained_keys:
  assumes inv: "fold_inv s" and same: "mset (open_runs s) = mset (open_runs t)"
    and orders: "hash_order it" "hash_order it'"
    and keeps: "\<And>r. run_key (f r) = run_key r"
  shows "filter (\<lambda>r. run_key r = k) (map (\<lambda>(_, r). f r) (it n (open_runs s))) =
    filter (\<lambda>r. run_key r = k) (map (\<lambda>(_, r). f r) (it' n' (open_runs t)))"
proof (rule mset_filter_short)
  have m: "mset (it n (open_runs s)) = mset (open_runs s)" "mset (it' n' (open_runs t)) = mset (open_runs t)"
    using orders by (simp_all add: hash_order.drain)
  then show "mset (map (\<lambda>(_, r). f r) (it n (open_runs s))) = mset (map (\<lambda>(_, r). f r) (it' n' (open_runs t)))"
    using same by (simp only: mset_map)
  have mid: "mission_id (f r) = mission_id r" for r
    using keeps [of r] by (simp add: run_key_def)
  have ids: "map mission_id (map (\<lambda>(_, r). f r) (it n (open_runs s))) = map fst (it n (open_runs s))"
    unfolding map_map comp_def
  proof (rule map_cong [OF refl])
    fix p
    assume "p \<in> set (it n (open_runs s))"
    then have "mission_id (snd p) = fst p" using fold_inv_ids [OF inv] mset_eq_setD [OF m(1)] by blast
    then show "mission_id (case p of (_, r) \<Rightarrow> f r) = fst p" by (cases p) (simp add: mid)
  qed
  have "mset (map fst (it n (open_runs s))) = mset (map fst (open_runs s))" using m(1) by (simp only: mset_map)
  from mset_eq_imp_distinct_iff [OF this] have dist: "distinct (map fst (it n (open_runs s)))"
    using inv unfolding fold_inv_def hmap_ok_def by blast
  show "length (filter (\<lambda>r. run_key r = k) (map (\<lambda>(_, r). f r) (it n (open_runs s)))) \<le> 1"
    by (rule keys_unique) (unfold ids, rule dist)
qed

lemma same_map_of:
  assumes "hmap_ok m" "mset m = mset m'"
  shows "map_of m = map_of m'"
proof -
  have "mset (map fst m) = mset (map fst m')" using assms(2) by (simp only: mset_map)
  from mset_eq_imp_distinct_iff [OF this] have "distinct (map fst m')" using assms(1) by (simp add: hmap_ok_def)
  then show ?thesis
    using assms mset_eq_setD [OF assms(2)] by (simp add: hmap_ok_def map_of_inject_set)
qed

lemma same_lookup: "fold_inv s \<Longrightarrow> same_fold s t \<Longrightarrow> map_of (open_runs s) = map_of (open_runs t)"
  by (rule same_map_of) (unfold fold_inv_def, blast, erule same_foldD(1))

lemma mset_hmap_remove: "mset (hmap_remove k m) = filter_mset (\<lambda>(k', v). k' \<noteq> k) (mset m)"
  by (simp only: hmap_remove_def mset_filter)

lemma mset_hmap_insert: "mset (hmap_insert k v m) = add_mset (k, v) (filter_mset (\<lambda>(k', v). k' \<noteq> k) (mset m))"
  by (simp only: hmap_insert_def mset.simps mset_hmap_remove)

lemma open_runs_update: "open_runs (st\<lparr>open_runs := m\<rparr>) = m"
  by simp

lemma runs_close_all:
  "runs (close_all it st cs by_c at_c) =
     runs st @ map (\<lambda>(_, run). close_run run cs by_c at_c) (it (length (runs st)) (open_runs st))"
  by (simp add: close_all_def)

context hash_order
begin

lemma same_close_all:
  assumes "fold_inv s" "same_fold s t" "hash_order it'"
  shows "same_fold (close_all it s cs by_c at_c) (close_all it' t cs by_c at_c)"
proof (rule same_foldI)
  fix k
  have "filter (\<lambda>r. run_key r = k) (map (\<lambda>(_, r). close_run r cs by_c at_c) (it (length (runs s)) (open_runs s))) =
      filter (\<lambda>r. run_key r = k) (map (\<lambda>(_, r). close_run r cs by_c at_c) (it' (length (runs t)) (open_runs t)))"
    by (rule drained_keys [OF assms(1) same_foldD(1) [OF assms(2)] hash_order_axioms assms(3)]) simp
  then show "filter (\<lambda>r. run_key r = k) (runs (close_all it s cs by_c at_c)) =
      filter (\<lambda>r. run_key r = k) (runs (close_all it' t cs by_c at_c))"
    using same_foldD(2) [OF assms(2), of k] by (simp only: runs_close_all filter_append)
qed (simp_all add: close_all_def same_foldD [OF assms(2)])

end

lemma same_close_mission:
  assumes "fold_inv s" "same_fold s t"
  shows "same_fold (close_mission s mid cs by_c at_c) (close_mission t mid cs by_c at_c)"
proof (cases "map_of (open_runs s) mid")
  case None
  with assms(2) same_lookup [OF assms] show ?thesis by (simp add: close_mission_def)
next
  case (Some run)
  let ?close = "\<lambda>u. u\<lparr>runs := runs u @ [close_run run cs by_c at_c], open_runs := hmap_remove mid (open_runs u)\<rparr>"
  have "close_mission s mid cs by_c at_c = ?close s" "close_mission t mid cs by_c at_c = ?close t"
    using Some same_lookup [OF assms] by (simp_all add: close_mission_def)
  moreover have "same_fold (?close s) (?close t)"
  proof (rule same_foldI)
    show "mset (open_runs (?close s)) = mset (open_runs (?close t))"
      by (simp only: open_runs_update mset_hmap_remove same_foldD(1) [OF assms(2)])
  qed (simp_all add: same_foldD(2-5) [OF assms(2)])
  ultimately show ?thesis by simp
qed

lemma same_insert:
  assumes "same_fold s t"
  shows "same_fold (s\<lparr>open_runs := hmap_insert mid r (open_runs s)\<rparr>) (t\<lparr>open_runs := hmap_insert mid r (open_runs t)\<rparr>)"
proof (rule same_foldI)
  show "mset (open_runs (s\<lparr>open_runs := hmap_insert mid r (open_runs s)\<rparr>)) =
      mset (open_runs (t\<lparr>open_runs := hmap_insert mid r (open_runs t)\<rparr>))"
    by (simp only: open_runs_update mset_hmap_insert same_foldD(1) [OF assms])
qed (simp_all add: same_foldD(2-5) [OF assms])

lemma same_hud:
  assumes inv: "fold_inv s" and same: "same_fold s t"
  shows "same_fold (handle_hud hud ts s) (handle_hud hud ts t)"
proof -
  note look = same_lookup [OF assms, symmetric]
  have accept: "same_fold (s'\<lparr>open_runs := hmap_insert mid (new_run mid nm (current_shard s') ts) (open_runs s')\<rparr>)
      (t'\<lparr>open_runs := hmap_insert mid (new_run mid nm (current_shard t') ts) (open_runs t')\<rparr>)"
    if "s' = close_mission s mid Superseded BySuperseded ts" "t' = close_mission t mid Superseded BySuperseded ts"
    for s' t' mid nm
  proof -
    have same': "same_fold s' t'" unfolding that by (rule same_close_mission [OF assms])
    show ?thesis using same_insert [OF same'] unfolding same_foldD(5) [OF same'] .
  qed
  show ?thesis
    by (auto simp: handle_hud_def Let_def look intro: same same_close_mission [OF assms] accept same_insert [OF same]
        split: option.split)
qed

context hash_order
begin

lemma same_gap:
  assumes "fold_inv s" "same_fold s t" "hash_order it'"
  shows "same_fold (gap_step it cfg ts s) (gap_step it' cfg ts t)"
  using assms(2) same_close_all [OF assms]
  by (simp add: gap_step_def same_foldD(3,4) [OF assms(2)] split: option.split)

lemma same_event:
  assumes "fold_inv s" "same_fold s t" "hash_order it'"
  shows "same_fold (event_step it ev ts s) (event_step it' ev ts t)"
proof -
  have shard: "same_fold a b \<Longrightarrow> same_fold (a\<lparr>current_shard := x\<rparr>) (b\<lparr>current_shard := x\<rparr>)" for a b x
    by (rule same_foldI) (simp_all add: same_foldD)
  show ?thesis
    using assms(2) same_close_all [OF assms] same_hud [OF assms(1,2)]
    by (cases ev) (simp_all add: event_step_def Let_def shard same_foldD(5) [OF assms(2)] split: option.split)
qed

lemma same_clock: "same_fold s t \<Longrightarrow> same_fold (clock_step ts ts_str s) (clock_step ts ts_str t)"
  by (rule same_foldI) (simp_all add: clock_step_def same_foldD Let_def split: option.split)

lemma same_step:
  assumes "fold_inv s" "same_fold s t" "hash_order it'"
  shows "same_fold (contract_fold_step rfc it cfg s env) (contract_fold_step rfc it' cfg t env)"
  using assms(2) same_clock [OF same_event [OF inv_gap [OF assms(1)] same_gap [OF assms] assms(3)]]
  by (simp add: contract_fold_step_def Let_def split: option.split)

lemma same_run:
  assumes "hash_order it'"
  shows "same_fold (foldl (contract_fold_step rfc it cfg) fold_init es) (foldl (contract_fold_step rfc it' cfg) fold_init es)
    \<and> fold_inv (foldl (contract_fold_step rfc it cfg) fold_init es)"
proof (induction es rule: rev_induct)
  case Nil
  show ?case by (simp add: fold_inv_init same_fold_refl)
next
  case (snoc e es)
  let ?s = "foldl (contract_fold_step rfc it cfg) fold_init es"
  from snoc.IH have "same_fold (contract_fold_step rfc it cfg ?s e)
      (contract_fold_step rfc it' cfg (foldl (contract_fold_step rfc it' cfg) fold_init es) e)"
    "fold_inv (contract_fold_step rfc it cfg ?s e)"
    by (blast intro: same_step [OF _ _ assms] inv_step)+
  then show ?case by (simp only: foldl_append foldl.simps)
qed

lemma order_irrelevant:
  assumes "hash_order it'"
  shows "derive_contract_runs rfc it events cfg = derive_contract_runs rfc it' events cfg"
proof -
  let ?s = "foldl (contract_fold_step rfc it cfg) fold_init events"
    and ?t = "foldl (contract_fold_step rfc it' cfg) fold_init events"
  have same: "same_fold ?s ?t" and inv: "fold_inv ?s" using same_run [OF assms, of rfc cfg events] by auto
  have keys: "filter (\<lambda>r. run_key r = k) (map (\<lambda>(_, r). close_at_end rfc cfg (last_ts ?t) r)
        (it (length (runs ?s)) (open_runs ?s))) =
      filter (\<lambda>r. run_key r = k) (map (\<lambda>(_, r). close_at_end rfc cfg (last_ts ?t) r)
        (it' (length (runs ?t)) (open_runs ?t)))" for k
    by (rule drained_keys [OF inv same_foldD(1) [OF same] hash_order_axioms assms])
      (simp add: close_at_end_def Let_def)
  show ?thesis
    unfolding derive_contract_runs_def finish_runs_def same_foldD(3) [OF same]
    by (intro sort_key_eqI mset_eq_filterI [where f = run_key]) (simp_all only: filter_append same_foldD(2) [OF same] keys)
qed

end

section \<open>The finished list\<close>

lemma close_at_end_wf: "open_ok run \<Longrightarrow> run_wf (close_at_end rfc cfg final run)"
  by (simp add: close_at_end_def Let_def close_run_wf outcome_ok_def)

lemma close_at_end_simps [simp]:
  "mission_id (close_at_end rfc cfg final run) = mission_id run"
  "closed_by (close_at_end rfc cfg final run) = ByNone"
  by (simp_all add: close_at_end_def Let_def)

context hash_order
begin

lemma final_inv: "fold_inv (foldl (contract_fold_step rfc it cfg) fold_init events)"
  using fold_inv_init by (rule walk.inv_run)

lemma total_runs: "run_total (foldl (contract_fold_step rfc it cfg) fold_init events) = length (filter is_accept events)"
  using walk.tally_run [OF fold_inv_init] by (simp add: sum_list_indicator run_total_def fold_init_def)

lemma finished_wf: "fold_inv st \<Longrightarrow> run \<in> set (finish_runs rfc it cfg st) \<Longrightarrow> run_wf run"
  by (auto simp: finish_runs_def fold_inv_def set_drain close_at_end_wf)

lemma unresolved_unique:
  assumes inv: "fold_inv st"
  shows "distinct (map mission_id (filter (\<lambda>r. closed_by r = ByNone) (finish_runs rfc it cfg st)))"
proof -
  let ?left = "map (\<lambda>(_, run). close_at_end rfc cfg (last_ts st) run) (it (length (runs st)) (open_runs st))"
  have "mset (map mission_id (filter (\<lambda>r. closed_by r = ByNone) (finish_runs rfc it cfg st))) =
      mset (map mission_id (filter (\<lambda>r. closed_by r = ByNone) (runs st @ ?left)))"
    by (simp add: finish_runs_def)
  moreover have "filter (\<lambda>r. closed_by r = ByNone) (runs st @ ?left) = ?left"
  proof -
    have "filter (\<lambda>r. closed_by r = ByNone) (runs st) = []"
      using inv by (auto simp: fold_inv_def filter_empty_conv)
    moreover have "filter (\<lambda>r. closed_by r = ByNone) ?left = ?left" by (rule filter_True) auto
    ultimately show ?thesis by simp
  qed
  moreover have "map mission_id ?left = map fst (it (length (runs st)) (open_runs st))"
    unfolding map_map comp_def
  proof (rule map_cong [OF refl])
    fix p
    assume "p \<in> set (it (length (runs st)) (open_runs st))"
    then have "mission_id (snd p) = fst p" using fold_inv_ids [OF inv] by (simp add: set_drain)
    then show "mission_id (case p of (_, run) \<Rightarrow> close_at_end rfc cfg (last_ts st) run) = fst p" by (cases p) simp
  qed
  moreover have "mset (map fst (it (length (runs st)) (open_runs st))) = mset (map fst (open_runs st))"
    by (simp add: drain)
  ultimately have "mset (map mission_id (filter (\<lambda>r. closed_by r = ByNone) (finish_runs rfc it cfg st))) =
      mset (map fst (open_runs st))"
    by (simp only:)
  from mset_eq_imp_distinct_iff [OF this] inv show ?thesis by (simp add: fold_inv_def hmap_ok_def)
qed

end

section \<open>Properties\<close>

abbreviation (input) sample_banner :: "string \<Rightarrow> string \<Rightarrow> event_envelope" where
  "sample_banner mid banner \<equiv>
     \<lparr>event_envelope.idempotency_key = [], raw_line = [],
      event = Some (HudNotification \<lparr>hud_notification.timestamp = ''t'', hud_notification.text = banner,
        notification_id = 1, hud_notification.mission_id = Some mid, hud_notification.objective_id = None\<rparr>),
      source = Live, source_offset = 0, metadata = None, resolved_location = None\<rparr>"

text \<open>The result does not depend on the iteration order of the \<open>HashMap\<close>: whatever orders two executions drain
  their maps in, as long as each drain yields the entries of the map, they return the same list of runs.\<close>

theorem derive_contract_runs_deterministic:
  assumes "\<And>n m. mset (it n m) = mset m" "\<And>n m. mset (it' n m) = mset m"
  shows "derive_contract_runs rfc it events cfg = derive_contract_runs rfc it' events cfg"
  using assms by (intro hash_order.order_irrelevant hash_order.intro)

theorem derive_contract_runs_deterministic_witness:
  "derive_contract_runs (\<lambda>s. None) (\<lambda>_ m. m)
     [sample_banner ''a'' ''Contract Accepted:  X: '', sample_banner ''b'' ''Contract Accepted:  Y: ''] default_contract_config =
   derive_contract_runs (\<lambda>s. None) (\<lambda>_ m. rev m)
     [sample_banner ''a'' ''Contract Accepted:  X: '', sample_banner ''b'' ''Contract Accepted:  Y: ''] default_contract_config"
  by (rule derive_contract_runs_deterministic) simp_all

text \<open>C7. Conservation: there is exactly one run for every accept banner with a mission id other than the zero GUID; offers,
  objective updates and terminal banners never create or lose one.\<close>

theorem derive_contract_runs_count:
  assumes "\<And>n m. mset (it n m) = mset m"
  shows "length (derive_contract_runs rfc it events cfg) = length (filter is_accept events)"
proof -
  have ho: "hash_order it" using assms by (rule hash_order.intro)
  show ?thesis
    using hash_order.total_runs [OF ho, of rfc cfg events] hash_order.length_drain [OF ho]
    by (simp add: derive_contract_runs_def finish_runs_def run_total_def)
qed

theorem derive_contract_runs_count_witness:
  "length (derive_contract_runs (\<lambda>s. None) (\<lambda>_ m. m)
     [sample_banner ''a'' ''Contract Accepted:  X: '', sample_banner ''a'' ''Contract Available:  Y: '']
     default_contract_config) = 1"
  by (subst derive_contract_runs_count) (simp, code_simp)

text \<open>C6. Every reported run is well-formed (\<open>run_wf\<close>): its state agrees with what closed it, a closing time is
  present exactly when something closed it, the step counts are those of the step list, objectives are distinct and
  numbered, and history is marked partial exactly when a step was never announced.  Runs are sorted by acceptance and
  mission, and a mission has at most one unresolved run.\<close>

theorem derive_contract_runs_wf:
  assumes "\<And>n m. mset (it n m) = mset m"
  shows "(\<forall>run \<in> set (derive_contract_runs rfc it events cfg). run_wf run) \<and>
    sorted (map run_key (derive_contract_runs rfc it events cfg)) \<and>
    distinct (map mission_id (filter (\<lambda>r. closed_by r = ByNone) (derive_contract_runs rfc it events cfg)))"
proof -
  have ho: "hash_order it" using assms by (rule hash_order.intro)
  note inv = hash_order.final_inv [OF ho, of rfc cfg events]
  show ?thesis
    using hash_order.finished_wf [OF ho inv] hash_order.unresolved_unique [OF ho inv]
    by (simp add: derive_contract_runs_def) (simp add: finish_runs_def)
qed

theorem derive_contract_runs_wf_witness:
  "sorted (map run_key (derive_contract_runs (\<lambda>s. None) (\<lambda>_ m. rev m)
     [sample_banner ''a'' ''Contract Accepted:  X: '', sample_banner ''b'' ''Contract Complete:  Y: '']
     default_contract_config))"
proof -
  have "mset ((\<lambda>_ m. rev m) n m) = mset m" for n :: nat and m :: "(string, contract_run) hmap" by simp
  from derive_contract_runs_wf [of "\<lambda>_ m. rev m", OF this] show ?thesis by blast
qed

end
