(* ===== verification/Contract_Taxonomy.thy ===== *)
theory Contract_Taxonomy
  imports Text_Ops
begin

text \<open>
  The contract taxonomy (\<open>crates/starstats-core/src/contract_taxonomy.rs\<close>): the closed vocabularies of categories, risks and
  legal statuses, the normalisation of free text and the classification by the alias table.  Unicode's character tables are the
  record \<open>unicode\<close>: \<open>alphanumeric\<close> and \<open>lower\<close> on one character (its UTF-8 bytes).

  The three vocabularies meet the interface \<open>closed_vocabulary\<close>; the lemmas show that normalised text is single-spaced,
  that normalising is idempotent, and which label wins.
\<close>

datatype contract_category =
    BountyHunter | Mercenary | Hauling | Delivery | Salvage | Mining | Collection | Investigation | Maintenance
  | Training | OtherCategory

datatype risk = Low | Medium | High

datatype legal_status = Legal | Illegal | Grey

section \<open>Vocabularies\<close>

primrec contract_category_as_str :: "contract_category \<Rightarrow> string" where
  "contract_category_as_str BountyHunter = ''bounty_hunter''"
| "contract_category_as_str Mercenary = ''mercenary''"
| "contract_category_as_str Hauling = ''hauling''"
| "contract_category_as_str Delivery = ''delivery''"
| "contract_category_as_str Salvage = ''salvage''"
| "contract_category_as_str Mining = ''mining''"
| "contract_category_as_str Collection = ''collection''"
| "contract_category_as_str Investigation = ''investigation''"
| "contract_category_as_str Maintenance = ''maintenance''"
| "contract_category_as_str Training = ''training''"
| "contract_category_as_str OtherCategory = ''other''"

definition contract_category_parse :: "string \<Rightarrow> contract_category option" where
  "contract_category_parse s =
     (if s = ''bounty_hunter'' then Some BountyHunter
      else if s = ''mercenary'' then Some Mercenary
      else if s = ''hauling'' then Some Hauling
      else if s = ''delivery'' then Some Delivery
      else if s = ''salvage'' then Some Salvage
      else if s = ''mining'' then Some Mining
      else if s = ''collection'' then Some Collection
      else if s = ''investigation'' then Some Investigation
      else if s = ''maintenance'' then Some Maintenance
      else if s = ''training'' then Some Training
      else if s = ''other'' then Some OtherCategory
      else None)"

definition contract_category_ALL :: "contract_category list" where
  "contract_category_ALL =
     [BountyHunter, Mercenary, Hauling, Delivery, Salvage, Mining, Collection, Investigation, Maintenance, Training, OtherCategory]"

primrec risk_as_str :: "risk \<Rightarrow> string" where
  "risk_as_str Low = ''low''"
| "risk_as_str Medium = ''medium''"
| "risk_as_str High = ''high''"

definition risk_parse :: "string \<Rightarrow> risk option" where
  "risk_parse s =
     (if s = ''low'' then Some Low else if s = ''medium'' then Some Medium else if s = ''high'' then Some High else None)"

definition risk_ALL :: "risk list" where
  "risk_ALL = [Low, Medium, High]"

primrec legal_status_as_str :: "legal_status \<Rightarrow> string" where
  "legal_status_as_str Legal = ''legal''"
| "legal_status_as_str Illegal = ''illegal''"
| "legal_status_as_str Grey = ''grey''"

definition legal_status_parse :: "string \<Rightarrow> legal_status option" where
  "legal_status_parse s =
     (if s = ''legal'' then Some Legal else if s = ''illegal'' then Some Illegal else if s = ''grey'' then Some Grey else None)"

definition legal_status_ALL :: "legal_status list" where
  "legal_status_ALL = [Legal, Illegal, Grey]"

section \<open>Normalisation\<close>

text \<open>The loop over the characters: output so far, and whether a separator is pending.\<close>

fun normalise_step :: "unicode \<Rightarrow> string \<times> bool \<Rightarrow> string \<Rightarrow> string \<times> bool" where
  "normalise_step u (out, pending_space) ch =
     (if alphanumeric u ch
      then ((if pending_space \<and> out \<noteq> [] then out @ '' '' else out) @ lower u ch, False)
      else (out, True))"

definition normalise :: "unicode \<Rightarrow> string \<Rightarrow> string" where
  "normalise u s = fst (foldl (normalise_step u) ([], False) (utf8_chars s))"

definition category_alias :: "string \<Rightarrow> contract_category option" where
  "category_alias s =
     (if s \<in> {''bounty hunting'', ''bounty'', ''bounty hunter'', ''apprehension''} then Some BountyHunter
      else if s \<in> {''mercenary'', ''combat'', ''extermination'', ''arena combat'', ''defend location'', ''defence'',
                    ''defense'', ''escort'', ''elimination''} then Some Mercenary
      else if s \<in> {''hauling'', ''cargo hauling'', ''cargo haul'', ''cargo'', ''cargo recovery'', ''cargo retrieval'',
                    ''freight'', ''logistics''} then Some Hauling
      else if s \<in> {''delivery'', ''deliveries'', ''cargo delivery'', ''courier'', ''transport'', ''transportation''}
        then Some Delivery
      else if s \<in> {''salvage'', ''reclamation'', ''wreck recovery''} then Some Salvage
      else if s \<in> {''mining'', ''extraction'', ''prospecting''} then Some Mining
      else if s \<in> {''retrieval'', ''collection'', ''gathering'', ''acquisition'', ''fetch''} then Some Collection
      else if s \<in> {''investigation'', ''recon'', ''reconnaissance'', ''search and rescue'', ''scanning''}
        then Some Investigation
      else if s \<in> {''refueling'', ''refuelling'', ''repair'', ''maintenance'', ''servicing'', ''rearm''}
        then Some Maintenance
      else if s \<in> {''certification'', ''training'', ''combat training'', ''combat simulation'', ''tutorial'',
                    ''flight school''} then Some Training
      else None)"

definition match_category :: "unicode \<Rightarrow> string \<Rightarrow> contract_category option" where
  "match_category u s =
     (let n = normalise u s
      in if n = [] then None
         else
           (case category_alias n of
              Some c \<Rightarrow> Some c
            | None \<Rightarrow>
                let ws = filter (\<lambda>w. w \<noteq> []) (split_on (\<lambda>c. c = CHR '' '') n)
                in case find_map (\<lambda>len. category_alias (join '' '' (take len ws))) (rev [1..<length ws]) of
                     Some c \<Rightarrow> Some c
                   | None \<Rightarrow> find_map category_alias ws))"

definition contract_classify :: "unicode \<Rightarrow> string option \<Rightarrow> string option \<Rightarrow> contract_category" where
  "contract_classify u contract_type gameplay_loop =
     (case Option.bind contract_type (match_category u) of
        Some c \<Rightarrow> c
      | None \<Rightarrow> (case Option.bind gameplay_loop (match_category u) of Some c \<Rightarrow> c | None \<Rightarrow> OtherCategory))"

definition normalise_risk :: "unicode \<Rightarrow> string option \<Rightarrow> risk option" where
  "normalise_risk u r =
     Option.bind r (\<lambda>s.
       let n = normalise u s
       in if n \<in> {''low'', ''minimal'', ''none''} then Some Low
          else if n \<in> {''medium'', ''moderate''} then Some Medium
          else if n \<in> {''high'', ''extreme'', ''very high''} then Some High
          else None)"

definition normalise_legal_status :: "unicode \<Rightarrow> string option \<Rightarrow> legal_status option" where
  "normalise_legal_status u r =
     Option.bind r (\<lambda>s.
       let n = normalise u s
       in if n \<in> {''legal'', ''lawful'', ''licensed''} then Some Legal
          else if n \<in> {''illegal'', ''unlawful'', ''criminal''} then Some Illegal
          else if n \<in> {''grey'', ''gray'', ''grey market'', ''gray market'', ''questionable''} then Some Grey
          else None)"

section \<open>The vocabularies are closed\<close>

lemmas vocabulary_defs =
  contract_category_parse_def contract_category_ALL_def risk_parse_def risk_ALL_def legal_status_parse_def legal_status_ALL_def

interpretation category_vocab: closed_vocabulary contract_category_as_str contract_category_parse contract_category_ALL
proof
  fix c :: contract_category and s :: string
  show "contract_category_parse (contract_category_as_str c) = Some c" by (cases c) (simp_all add: vocabulary_defs)
  show "s = contract_category_as_str c" if "contract_category_parse s = Some c"
    using that by (auto simp: vocabulary_defs split: if_splits)
  show "c \<in> set contract_category_ALL" by (cases c) (simp_all add: vocabulary_defs)
qed (simp add: vocabulary_defs)

interpretation risk_vocab: closed_vocabulary risk_as_str risk_parse risk_ALL
proof
  fix c :: risk and s :: string
  show "risk_parse (risk_as_str c) = Some c" by (cases c) (simp_all add: vocabulary_defs)
  show "s = risk_as_str c" if "risk_parse s = Some c" using that by (auto simp: vocabulary_defs split: if_splits)
  show "c \<in> set risk_ALL" by (cases c) (simp_all add: vocabulary_defs)
qed (simp add: vocabulary_defs)

interpretation legal_vocab: closed_vocabulary legal_status_as_str legal_status_parse legal_status_ALL
proof
  fix c :: legal_status and s :: string
  show "legal_status_parse (legal_status_as_str c) = Some c" by (cases c) (simp_all add: vocabulary_defs)
  show "s = legal_status_as_str c" if "legal_status_parse s = Some c" using that by (auto simp: vocabulary_defs split: if_splits)
  show "c \<in> set legal_status_ALL" by (cases c) (simp_all add: vocabulary_defs)
qed (simp add: vocabulary_defs)

section \<open>What normalisation computes\<close>

text \<open>The words of a text: its maximal runs of characters that satisfy \<open>P\<close>.\<close>

function words_of :: "('a \<Rightarrow> bool) \<Rightarrow> 'a list \<Rightarrow> 'a list list" where
  "words_of P cs =
     (case dropWhile (\<lambda>c. \<not> P c) cs of
        [] \<Rightarrow> []
      | d # ds \<Rightarrow> (d # takeWhile P ds) # words_of P (dropWhile P ds))"
  by pat_completeness auto
termination
proof (relation "measure (\<lambda>(P, cs). length cs)", goal_cases)
  case (2 P cs d ds)
  have "length (dropWhile P ds) \<le> length ds" by (rule length_dropWhile_le)
  also have "\<dots> < length (dropWhile (\<lambda>c. \<not> P c) cs)" using 2 by simp
  also have "\<dots> \<le> length cs" by (rule length_dropWhile_le)
  finally show ?case by simp
qed simp

declare words_of.simps [simp del]

definition lower_word :: "unicode \<Rightarrow> string list \<Rightarrow> string" where
  "lower_word u w = concat (map (lower u) w)"

lemma normalise_gap:
  "\<forall>c \<in> set cs. \<not> alphanumeric u c \<Longrightarrow> foldl (normalise_step u) (out, p) cs = (out, p \<or> cs \<noteq> [])"
  by (induction cs arbitrary: p) auto

lemma normalise_run:
  "\<forall>c \<in> set cs. alphanumeric u c \<Longrightarrow> foldl (normalise_step u) (out, False) cs = (out @ lower_word u cs, False)"
  by (induction cs arbitrary: out) (auto simp: lower_word_def)

lemma normalise_fold:
  assumes lower: "\<And>c. alphanumeric u c \<Longrightarrow> lower u c \<noteq> []"
  shows "p \<or> out = [] \<or> cs = [] \<or> \<not> alphanumeric u (hd cs) \<Longrightarrow>
    fst (foldl (normalise_step u) (out, p) cs) =
      join '' '' ((if out = [] then [] else [out]) @ map (lower_word u) (words_of (alphanumeric u) cs))"
proof (induction "alphanumeric u" cs arbitrary: out p rule: words_of.induct)
  case (1 cs)
  let ?A = "alphanumeric u"
  let ?gap = "takeWhile (\<lambda>c. \<not> ?A c) cs"
  have cs: "cs = ?gap @ dropWhile (\<lambda>c. \<not> ?A c) cs" by simp
  have gap: "foldl (normalise_step u) (out, p) ?gap = (out, p \<or> ?gap \<noteq> [])"
    by (rule normalise_gap) (auto dest: set_takeWhileD)
  show ?case
  proof (cases "dropWhile (\<lambda>c. \<not> ?A c) cs")
    case Nil
    with gap cs have "foldl (normalise_step u) (out, p) cs = (out, p \<or> ?gap \<noteq> [])" by (metis append_Nil2)
    moreover have "words_of ?A cs = []" using Nil by (subst words_of.simps) (simp only: list.case)
    ultimately show ?thesis by simp
  next
    case (Cons d ds)
    have d: "?A d" using hd_dropWhile [of "\<lambda>c. \<not> ?A c" cs] Cons by simp
    have pend: "p \<or> ?gap \<noteq> [] \<or> out = []" using "1.prems" Cons d by (cases cs) (auto split: if_splits)
    let ?out = "(if out = [] then [] else out @ '' '') @ lower_word u (d # takeWhile ?A ds)"
    have run: "foldl (normalise_step u) ((if out = [] then [] else out @ '' '') @ lower u d, False) (takeWhile ?A ds) = (?out, False)"
    proof -
      have "\<forall>c \<in> set (takeWhile ?A ds). ?A c" by (auto dest: set_takeWhileD)
      from normalise_run [OF this] show ?thesis by (simp add: lower_word_def)
    qed
    have "foldl (normalise_step u) (out, p) cs = foldl (normalise_step u) (out, p \<or> ?gap \<noteq> []) (d # ds)"
      using arg_cong [OF cs, of "foldl (normalise_step u) (out, p)"] Cons gap by simp
    also have "\<dots> = foldl (normalise_step u) ((if out = [] then [] else out @ '' '') @ lower u d, False) (takeWhile ?A ds @ dropWhile ?A ds)"
      using d pend by auto
    also have "\<dots> = foldl (normalise_step u) (?out, False) (dropWhile ?A ds)" using run by (simp only: foldl_append)
    finally have fold: "foldl (normalise_step u) (out, p) cs = foldl (normalise_step u) (?out, False) (dropWhile ?A ds)" .
    have ne: "?out \<noteq> []" using lower [OF d] by (simp add: lower_word_def)
    have "dropWhile ?A ds = [] \<or> \<not> ?A (hd (dropWhile ?A ds))" using hd_dropWhile by blast
    then have "fst (foldl (normalise_step u) (?out, False) (dropWhile ?A ds)) =
        join '' '' ([?out] @ map (lower_word u) (words_of ?A (dropWhile ?A ds)))"
      using "1.hyps" [OF Cons, of False ?out] ne by simp
    moreover have "words_of ?A cs = (d # takeWhile ?A ds) # words_of ?A (dropWhile ?A ds)"
      using Cons by (subst words_of.simps) simp
    ultimately show ?thesis
      by (cases "words_of ?A (dropWhile ?A ds)") (simp_all add: fold)
  qed
qed

lemma normalise_words_of:
  assumes "\<And>c. alphanumeric u c \<Longrightarrow> lower u c \<noteq> []"
  shows "normalise u s = join '' '' (map (lower_word u) (words_of (alphanumeric u) (utf8_chars s)))"
  using normalise_fold [OF assms, of False "[]" "utf8_chars s"] by (simp add: normalise_def)

text \<open>The part of Unicode's tables the closed vocabularies live in.\<close>

definition ascii_tables :: "unicode \<Rightarrow> bool" where
  "ascii_tables u \<longleftrightarrow>
     (\<forall>c. is_ascii c \<longrightarrow> alphanumeric u [c] = is_ascii_alphanumeric c \<and> lower u [c] = [char_to_ascii_lowercase c])"

definition ascii_only :: unicode where
  "ascii_only = \<lparr>alphanumeric = (\<lambda>c. c \<noteq> [] \<and> list_all is_ascii_alphanumeric c), lower = to_ascii_lowercase, upper = map char_to_ascii_uppercase\<rparr>"

section \<open>Properties\<close>

text \<open>The three vocabularies round-trip: exactly the published spelling of a category, risk or legal status parses back to it.\<close>

theorem taxonomy_roundtrip:
  "(contract_category_parse s = Some c \<longleftrightarrow> s = contract_category_as_str c) \<and>
   (risk_parse s = Some r \<longleftrightarrow> s = risk_as_str r) \<and>
   (legal_status_parse s = Some l \<longleftrightarrow> s = legal_status_as_str l)"
  by (simp add: category_vocab.parse_iff risk_vocab.parse_iff legal_vocab.parse_iff)

text \<open>What the character loop of the normalisation computes: the words of the text (its runs of alphanumeric characters),
  each lower-cased, with single spaces between them.\<close>

theorem normalise_refines_words:
  assumes "\<And>c. alphanumeric u c \<Longrightarrow> lower u c \<noteq> []"
  shows "normalise u s = join '' '' (map (\<lambda>w. concat (map (lower u) w)) (words_of (alphanumeric u) (utf8_chars s)))"
  using normalise_words_of [OF assms] by (simp add: lower_word_def [abs_def])

theorem normalise_refines_words_witness: "normalise ascii_only ''  Cargo & HAUL!'' = ''cargo haul''"
proof -
  have "normalise ascii_only ''  Cargo & HAUL!'' =
      join '' '' (map (\<lambda>w. concat (map (lower ascii_only) w)) (words_of (alphanumeric ascii_only) (utf8_chars ''  Cargo & HAUL!'')))"
  proof (rule normalise_refines_words)
    show "lower ascii_only c \<noteq> []" if "alphanumeric ascii_only c" for c
      using that by (cases c) (simp_all add: ascii_only_def to_ascii_lowercase_def)
  qed
  also have "\<dots> = ''cargo haul''" by code_simp
  finally show ?thesis .
qed

text \<open>Classification is a fixed point on published data: with character tables that are right on ASCII, a contract labelled with the
  published spelling of a category is classified into that category, whatever its gameplay loop says, with the one exception
  of \<open>other\<close>, which gives the loop the word; with no label at all the loop alone decides.\<close>

theorem contract_classify_published:
  assumes "ascii_tables u"
  shows "contract_classify u (Some (contract_category_as_str c)) gl =
           (if c = OtherCategory then contract_classify u None gl else c)"
proof -
  have tab: "alphanumeric u [ch] = is_ascii_alphanumeric ch" "lower u [ch] = [char_to_ascii_lowercase ch]" if "is_ascii ch" for ch
    using assms that by (simp_all add: ascii_tables_def)
  have norm: "normalise u (contract_category_as_str c) = (if c = BountyHunter then ''bounty hunter'' else contract_category_as_str c)"
    by (cases c) (simp_all add: normalise_def is_continuation_def tab is_ascii_def char_class_defs char_to_ascii_lowercase_def less_eq_char_def)
  have "match_category u (contract_category_as_str c) = (if c = OtherCategory then None else Some c)"
    unfolding match_category_def norm Let_def by (cases c) (simp_all add: category_alias_def)
  then show ?thesis by (simp add: contract_classify_def)
qed

theorem contract_classify_published_witness:
  "contract_classify ascii_only (Some ''mining'') (Some ''delivery'') = Mining"
proof -
  have "ascii_tables ascii_only" by (simp add: ascii_tables_def ascii_only_def to_ascii_lowercase_def)
  from contract_classify_published [OF this, of Mining "Some ''delivery''"] show ?thesis by simp
qed

end
