(* ===== verification/Unknown_Lines.thy ===== *)
theory Unknown_Lines
  imports Wire Parser
begin

text \<open>
  Lines no rule recognises (\<open>crates/starstats-core/src/unknown_lines.rs\<close>): shape normalisation, the coarse shape built on it,
  the interest score, detection of personal data, and the captured record.  Four things outside the sources are parameters:
  the regex crate (\<open>shape_engine\<close>: \<open>replace_all\<close>, the spans of \<open>find_iter\<close>, and those of the first group of \<open>captures_iter\<close>), the
  Unicode table behind \<open>is_alphanumeric\<close>, the unspecified hash of \<open>DefaultHasher\<close>, and the fresh id of the uuid crate.

  The lemmas show that coarsening is idempotent, the range of the score, and that every occurrence of the player's own handle is
  flagged for redaction.
\<close>

datatype pii_kind = OwnHandle | FriendHandle | ShardId | Geid | IpPort

record pii_token =
  kind :: pii_kind
  start :: nat
  "end" :: nat
  suggested_redaction :: string
  default_redact :: bool

record unknown_line =
  id :: string
  raw_line :: string
  timestamp :: "string option"
  shell_tag :: "string option"
  partial_structured :: "(string, string) btree"
  context_before :: "string list"
  context_after :: "string list"
  game_build :: "string option"
  channel :: log_source
  interest :: u8
  shape :: string
  occurrence_count :: u32
  first_seen :: string
  last_seen :: string
  detected_pii :: "pii_token list"
  dismissed :: bool

datatype shape_re =
    TS_RE | UUID_RE | GEID_RE | IPPORT_RE | QUOTED_RE | SQUOTED_RE | BRACKET_INT_RE | BRACKET_COMPOUND_RE | SHARD_RE

record shape_engine =
  replace_all :: "shape_re \<Rightarrow> string \<Rightarrow> string \<Rightarrow> string"
  find_iter :: "shape_re \<Rightarrow> string \<Rightarrow> (nat \<times> nat) list"
  group1_iter :: "shape_re \<Rightarrow> string \<Rightarrow> (nat \<times> nat) option list"

section \<open>Shapes\<close>

definition shape_of :: "shape_engine \<Rightarrow> string \<Rightarrow> string" where
  "shape_of eng line =
     (let s = replace_all eng TS_RE line ''<TS>'';
          s = replace_all eng UUID_RE s ''<UUID>'';
          s = replace_all eng GEID_RE s ''[<GEID>]'';
          s = replace_all eng IPPORT_RE s ''<IPPORT>'';
          s = replace_all eng QUOTED_RE s (CHR 0x22 # ''<STR>'' @ [CHR 0x22]);
          s = replace_all eng SQUOTED_RE s (CHR 0x27 # ''<STR>'' @ [CHR 0x27]);
          s = replace_all eng BRACKET_COMPOUND_RE s ''[<ID>]'';
          s = replace_all eng BRACKET_INT_RE s ''[<N>]''
      in s)"

definition hex_digit :: "nat \<Rightarrow> char" where
  "hex_digit d = (if d < 10 then char_of (48 + d) else char_of (87 + d))"

text \<open>\<open>format!("{:016x}")\<close>.\<close>

definition hex16 :: "u64 \<Rightarrow> string" where
  "hex16 h = map (\<lambda>i. hex_digit (unat h div 16 ^ (15 - i) mod 16)) [0..<16]"

definition shape_hash :: "(string \<Rightarrow> u64) \<Rightarrow> shape_engine \<Rightarrow> string \<Rightarrow> string" where
  "shape_hash default_hash eng line = ''sh_'' @ hex16 (default_hash (shape_of eng line))"

definition classify_core :: "string \<Rightarrow> string" where
  "classify_core core =
     (let is_number = core \<noteq> [] \<and> list_all (\<lambda>c. is_ascii_digit c \<or> c = CHR ''.'') core \<and> list_ex is_ascii_digit core
      in if is_number then ''<NUM>''
         else
           let has_underscore = CHR ''_'' \<in> set core;
               has_letter = list_ex is_ascii_alphabetic core;
               has_digit = list_ex is_ascii_digit core;
               inner_upper = list_ex is_ascii_uppercase (tl core);
               all_caps = 2 \<le> length core \<and> list_all (\<lambda>c. is_ascii_uppercase c \<or> c = CHR ''_'') core
           in if has_letter \<and> (has_underscore \<or> has_digit \<or> inner_upper \<or> all_caps) then ''<SYM>'' else core)"

definition classify_namespaced :: "string \<Rightarrow> string" where
  "classify_namespaced core = join ''::'' (map classify_core (split_str ''::'' core))"

text \<open>A token is cut at its first and last character that is alphanumeric or an underscore.\<close>

definition coarse_token :: "(string \<Rightarrow> bool) \<Rightarrow> string \<Rightarrow> string" where
  "coarse_token is_alphanumeric tok =
     (if list_ex (\<lambda>c. c \<in> {CHR ''<'', CHR ''>'', CHR ''['', CHR '']'', CHR 0x22}) tok then tok
      else
        let other = (\<lambda>ch. \<not> (is_alphanumeric ch \<or> ch = ''_''));
            chars = utf8_chars tok
        in if list_all other chars then tok
           else
             let pre = takeWhile other chars;
                 rest = dropWhile other chars;
                 core = rev (dropWhile other (rev rest));
                 suf = drop (length core) rest
             in concat pre @ classify_namespaced (concat core) @ concat suf)"

definition coarsen :: "(string \<Rightarrow> bool) \<Rightarrow> string \<Rightarrow> string" where
  "coarsen an s = join '' '' (map (coarse_token an) (split_on (\<lambda>c. c = CHR '' '') s))"

definition coarse_shape_of :: "(string \<Rightarrow> bool) \<Rightarrow> shape_engine \<Rightarrow> string \<Rightarrow> string" where
  "coarse_shape_of an eng line = coarsen an (shape_of eng line)"

definition coarse_shape_hash :: "(string \<Rightarrow> u64) \<Rightarrow> (string \<Rightarrow> bool) \<Rightarrow> shape_engine \<Rightarrow> string \<Rightarrow> string" where
  "coarse_shape_hash default_hash an eng line = ''csh_'' @ hex16 (default_hash (coarse_shape_of an eng line))"

section \<open>Interest score\<close>

record interest_context =
  known_shell_tags :: "string set"
  known_rule_tags :: "string set"
  session_occurrence_count :: u32
  multi_session :: bool
  already_remote_matched :: bool

definition clamp :: "int \<Rightarrow> int \<Rightarrow> int \<Rightarrow> int" where
  "clamp lo hi x = max lo (min hi x)"

definition interest_score :: "string \<Rightarrow> string option \<Rightarrow> interest_context \<Rightarrow> u8" where
  "interest_score line tag ctx =
     (if already_remote_matched ctx then 0
      else
        let s0 = (case tag of
                    None \<Rightarrow> 0
                  | Some t \<Rightarrow> if t \<notin> known_shell_tags ctx then 40 else if t \<notin> known_rule_tags ctx then 30 else 0);
            s1 = (if CHR ''['' \<in> set line \<and> 5 \<le> length (filter is_ascii_digit line) then 15 else 0);
            s2 = (if contains_str line ''OOC_'' \<or> contains_str line ''body_'' \<or> contains_str line ''_class'' then 10 else 0);
            s3 = (if 3 \<le> session_occurrence_count ctx then 10 else 0);
            s4 = (if multi_session ctx then 20 else 0);
            s5 = (if \<not> (20 \<le> length line \<and> length line \<le> 2000) then 30 else 0)
        in word_of_int (clamp 0 100 (s0 + s1 + s2 + s3 + s4 - s5)))"

section \<open>Personal data\<close>

definition handle_tokens :: "pii_kind \<Rightarrow> string \<Rightarrow> bool \<Rightarrow> string \<Rightarrow> string \<Rightarrow> pii_token list" where
  "handle_tokens k redaction dflt line h =
     map (\<lambda>i. \<lparr>pii_token.kind = k, start = i, end = i + length h, suggested_redaction = redaction, default_redact = dflt\<rparr>)
       (match_indices 0 h line)"

definition span_token :: "pii_kind \<Rightarrow> string \<Rightarrow> bool \<Rightarrow> nat \<times> nat \<Rightarrow> pii_token" where
  "span_token k redaction dflt m =
     \<lparr>pii_token.kind = k, start = fst m, end = snd m, suggested_redaction = redaction, default_redact = dflt\<rparr>"

definition detect_pii :: "shape_engine \<Rightarrow> string \<Rightarrow> string \<Rightarrow> string list \<Rightarrow> pii_token list exec" where
  "detect_pii eng line own_handle known_friends =
     (let own = (if own_handle \<noteq> [] then handle_tokens OwnHandle ''[HANDLE]'' True line own_handle else []);
          friends = concat (map (\<lambda>f. if f = [] then [] else handle_tokens FriendHandle ''[FRIEND]'' False line f) known_friends);
          geids = map (span_token Geid ''[GEID]'' False) (find_iter eng GEID_RE line);
          ips = map (span_token IpPort ''[IPPORT]'' False) (find_iter eng IPPORT_RE line);
          shards = group1_iter eng SHARD_RE line
      in if None \<in> set shards then Panics
         else Done (sort_key start (own @ friends @ geids @ ips @ map (span_token ShardId ''[SHARD]'' True) (map the shards))))"

section \<open>Capture\<close>

record capture_context =
  own_handle :: string
  known_friends :: "string list"
  known_shell_tags :: "string set"
  known_rule_tags :: "string set"
  session_occurrence_count :: u32
  multi_session :: bool
  already_remote_matched :: bool
  game_build :: "string option"
  channel :: log_source
  context_before :: "string list"

definition capture_context_default :: capture_context where
  "capture_context_default =
     \<lparr>own_handle = [], known_friends = [], capture_context.known_shell_tags = {}, known_rule_tags = {},
      session_occurrence_count = 0, multi_session = False, already_remote_matched = False, game_build = None,
      channel = Other, context_before = []\<rparr>"

definition GARBAGE_LINE_MARKERS :: "string list" where
  "GARBAGE_LINE_MARKERS =
     [''[Team_VFX]'', ''Particle System'', ''CPU Particle Limit'', ''Particle Emitter'', ''InitializeSlotMetadata'',
      ''DuplicatedItemPorts'', ''CAttachableComponent'', ''CreationRefusedEntity'', ''Failed attachment'']"

definition is_garbage_line :: "string \<Rightarrow> bool" where
  "is_garbage_line line \<longleftrightarrow> list_ex (contains_str line) GARBAGE_LINE_MARKERS"

definition extract_timestamp :: "shape_engine \<Rightarrow> string \<Rightarrow> string option" where
  "extract_timestamp eng line =
     (case find_iter eng TS_RE line of [] \<Rightarrow> None | (a, b) # _ \<Rightarrow> Some (take (b - a) (drop a line)))"

definition capture ::
  "(string \<Rightarrow> u64) \<Rightarrow> string \<Rightarrow> shape_engine \<Rightarrow> string \<Rightarrow> string option \<Rightarrow> capture_context \<Rightarrow> string \<Rightarrow> unknown_line exec" where
  "capture default_hash fresh_id eng line tag ctx now =
     (let ictx = \<lparr>interest_context.known_shell_tags = capture_context.known_shell_tags ctx,
                  known_rule_tags = capture_context.known_rule_tags ctx,
                  session_occurrence_count = capture_context.session_occurrence_count ctx,
                  multi_session = capture_context.multi_session ctx,
                  already_remote_matched = capture_context.already_remote_matched ctx\<rparr>;
          score = interest_score line tag ictx
      in case detect_pii eng line (own_handle ctx) (known_friends ctx) of
           Panics \<Rightarrow> Panics
         | Done pii \<Rightarrow>
             Done \<lparr>unknown_line.id = fresh_id, raw_line = line, timestamp = extract_timestamp eng line, shell_tag = tag,
                   partial_structured = [], context_before = capture_context.context_before ctx, context_after = [],
                   game_build = capture_context.game_build ctx, channel = capture_context.channel ctx, interest = score,
                   shape = shape_hash default_hash eng line, occurrence_count = 1, first_seen = now, last_seen = now,
                   detected_pii = pii, dismissed = False\<rparr>)"

section \<open>Coarsening\<close>

lemma classify_core_cases: "classify_core c = c \<or> classify_core c = ''<NUM>'' \<or> classify_core c = ''<SYM>''"
  by (auto simp: classify_core_def Let_def)

lemma classify_namespaced_cases: "classify_namespaced c = c \<or> CHR ''<'' \<in> set (classify_namespaced c)"
proof (cases "\<forall>w \<in> set (split_str ''::'' c). classify_core w = w")
  case True
  then have "map classify_core (split_str ''::'' c) = split_str ''::'' c" by (simp add: map_idI)
  then show ?thesis by (simp add: classify_namespaced_def join_split_str)
next
  case False
  then obtain w where "w \<in> set (split_str ''::'' c)" "CHR ''<'' \<in> set (classify_core w)"
    using classify_core_cases by fastforce
  with join_member [of "classify_core w" "map classify_core (split_str ''::'' c)" "''::''"] show ?thesis
    by (auto simp: classify_namespaced_def)
qed

lemma classify_namespaced_chars: "CHR '' '' \<notin> set c \<Longrightarrow> CHR '' '' \<notin> set (classify_namespaced c)"
proof -
  assume c: "CHR '' '' \<notin> set c"
  have "CHR '' '' \<notin> set (classify_core w)" if "w \<in> set (split_str ''::'' c)" for w
    using classify_core_cases [of w] split_str_pieces [OF that] c by auto
  with set_join [of "''::''" "map classify_core (split_str ''::'' c)"] show ?thesis
    by (auto simp: classify_namespaced_def)
qed

lemma strip_end: "rev (dropWhile P (rev xs)) @ drop (length (rev (dropWhile P (rev xs)))) xs = xs"
proof -
  have "xs = rev (dropWhile P (rev xs)) @ rev (takeWhile P (rev xs))"
    by (metis rev_append rev_rev_ident takeWhile_dropWhile_id)
  then show ?thesis by (metis append_eq_conv_conj)
qed

text \<open>A token is prefix, core and suffix; coarsening rewrites the core at most.\<close>

lemma coarse_token_form:
  "coarse_token an tok = tok \<or>
   (\<exists>pre core suf. tok = pre @ core @ suf \<and> coarse_token an tok = pre @ classify_namespaced core @ suf)"
proof -
  let ?other = "\<lambda>ch. \<not> (an ch \<or> ch = ''_'')"
  let ?pre = "takeWhile ?other (utf8_chars tok)" and ?rest = "dropWhile ?other (utf8_chars tok)"
  let ?core = "rev (dropWhile ?other (rev ?rest))"
  let ?suf = "drop (length ?core) ?rest"
  have "concat ?pre @ concat ?core @ concat ?suf = concat (?pre @ ?core @ ?suf)" by simp
  also have "\<dots> = tok" unfolding strip_end by (simp add: concat_utf8_chars)
  finally have "tok = concat ?pre @ concat ?core @ concat ?suf" by simp
  moreover have "coarse_token an tok = tok \<or>
      coarse_token an tok = concat ?pre @ classify_namespaced (concat ?core) @ concat ?suf"
    by (simp only: coarse_token_def Let_def split: if_split) simp
  ultimately show ?thesis by blast
qed

lemma coarse_token_idem: "coarse_token an (coarse_token an tok) = coarse_token an tok"
proof -
  have "coarse_token an tok = tok \<or> CHR ''<'' \<in> set (coarse_token an tok)"
    using coarse_token_form [of an tok] classify_namespaced_cases by fastforce
  then show ?thesis
  proof
    assume lt: "CHR ''<'' \<in> set (coarse_token an tok)"
    show ?thesis using lt by (subst (1) coarse_token_def) (auto simp: list_ex_iff)
  qed simp
qed

lemma coarse_token_chars: "CHR '' '' \<notin> set tok \<Longrightarrow> CHR '' '' \<notin> set (coarse_token an tok)"
  using coarse_token_form [of an tok] classify_namespaced_chars by fastforce

section \<open>Properties\<close>

text \<open>Coarsening is a normal form: coarsening twice changes nothing more, whatever characters count as alphanumeric.  So the
  coarse shape of a stored coarse shape is itself, and grouping by it is stable.\<close>

theorem coarsen_idempotent: "coarsen an (coarsen an s) = coarsen an s"
proof -
  let ?toks = "map (coarse_token an) (split_on (\<lambda>c. c = CHR '' '') s)"
  have "\<forall>w \<in> set ?toks. CHR '' '' \<notin> set w"
    using split_on_pieces [of "\<lambda>c. c = CHR '' ''" s] coarse_token_chars by auto
  then have "split_on (\<lambda>c. c = CHR '' '') (coarsen an s) = ?toks"
    unfolding coarsen_def by (intro split_on_join) simp_all
  then show ?thesis by (simp add: coarsen_def [of an "coarsen an s"] comp_def coarse_token_idem) (simp add: coarsen_def)
qed

text \<open>The range of the interest score: a matched line scores 0, no line more than 95 (the documented 100 is never reached,
  so the clamp only acts at 0), and the cast to \<open>u8\<close> loses nothing.\<close>

theorem interest_score_bounds:
  "unat (interest_score line tag ctx) \<le> 95 \<and>
   (interest_context.already_remote_matched ctx \<longrightarrow> interest_score line tag ctx = 0)"
proof (cases "interest_context.already_remote_matched ctx")
  case False
  obtain x :: int where x: "0 \<le> x" "x \<le> 95" "interest_score line tag ctx = word_of_int x"
  proof
    let ?sum = "(case tag of None \<Rightarrow> 0 | Some t \<Rightarrow> if t \<notin> interest_context.known_shell_tags ctx then 40
        else if t \<notin> interest_context.known_rule_tags ctx then 30 else 0) +
        (if CHR ''['' \<in> set line \<and> 5 \<le> length (filter is_ascii_digit line) then 15 else 0) +
        (if contains_str line ''OOC_'' \<or> contains_str line ''body_'' \<or> contains_str line ''_class'' then 10 else 0) +
        (if 3 \<le> interest_context.session_occurrence_count ctx then 10 else 0) +
        (if interest_context.multi_session ctx then 20 else 0) -
        (if \<not> (20 \<le> length line \<and> length line \<le> 2000) then 30 else 0) :: int"
    have "?sum \<le> 95" by (auto split: option.split)
    then show "0 \<le> clamp 0 100 ?sum" "clamp 0 100 ?sum \<le> 95" by (simp_all add: clamp_def)
    show "interest_score line tag ctx = word_of_int (clamp 0 100 ?sum)"
      using False by (simp only: interest_score_def Let_def if_False)
  qed
  from x have "unat (interest_score line tag ctx) = nat x"
    by (simp add: unat_eq_nat_uint uint_word_of_int take_bit_int_eq_self)
  with x False show ?thesis by simp
qed (simp add: interest_score_def)

text \<open>No occurrence of the player's own handle escapes the redaction review: tokens are sorted, each handle token spans
  exactly the handle, and every occurrence in the line is touched by a token that is redacted by default.\<close>

theorem detect_pii_own_handle:
  assumes "detect_pii eng line own friends = Done toks"
  shows "sorted (map start toks) \<and>
    (\<forall>t \<in> set toks. pii_token.kind t = OwnHandle \<longrightarrow> take (pii_token.end t - start t) (drop (start t) line) = own) \<and>
    (\<forall>x y. own \<noteq> [] \<longrightarrow> line = x @ own @ y \<longrightarrow>
      (\<exists>t \<in> set toks. pii_token.kind t = OwnHandle \<and> default_redact t \<and> start t \<le> length x \<and> length x < pii_token.end t))"
proof -
  let ?own = "if own \<noteq> [] then handle_tokens OwnHandle ''[HANDLE]'' True line own else []"
  let ?others = "concat (map (\<lambda>f. if f = [] then [] else handle_tokens FriendHandle ''[FRIEND]'' False line f) friends) @
      map (span_token Geid ''[GEID]'' False) (find_iter eng GEID_RE line) @
      map (span_token IpPort ''[IPPORT]'' False) (find_iter eng IPPORT_RE line) @
      map (span_token ShardId ''[SHARD]'' True) (map the (group1_iter eng SHARD_RE line))"
  have toks: "toks = sort_key start (?own @ ?others)"
    using assms by (simp add: detect_pii_def Let_def split: if_splits)
  have others: "\<forall>t \<in> set ?others. pii_token.kind t \<noteq> OwnHandle"
    by (auto simp: handle_tokens_def span_token_def)
  have sorted: "sorted (map start toks)" by (simp add: toks)
  have exact: "take (pii_token.end t - start t) (drop (start t) line) = own" if "t \<in> set toks" "pii_token.kind t = OwnHandle" for t
  proof -
    have "t \<in> set ?own" using that others by (auto simp: toks)
    then show ?thesis using match_indices_sound [of _ 0 own line] by (auto simp: handle_tokens_def split: if_splits)
  qed
  have "\<exists>t \<in> set toks. pii_token.kind t = OwnHandle \<and> default_redact t \<and> start t \<le> length x \<and> length x < pii_token.end t"
    if own: "own \<noteq> []" "line = x @ own @ y" for x y
  proof -
    obtain i where "i \<in> set (match_indices 0 own line)" "i \<le> length x" "length x < i + length own"
      using match_indices_complete [OF own(1), of 0 x y] own(2) by auto
    then have "\<exists>t \<in> set ?own. pii_token.kind t = OwnHandle \<and> default_redact t \<and> start t \<le> length x \<and> length x < pii_token.end t"
      using own(1) by (auto simp: handle_tokens_def)
    then show ?thesis unfolding toks set_sort set_append by blast
  qed
  with sorted exact show ?thesis by blast
qed

definition sample_shape_engine :: shape_engine where
  "sample_shape_engine =
     \<lparr>replace_all = (\<lambda>re s r. s), find_iter = (\<lambda>re s. []), group1_iter = (\<lambda>re s. [])\<rparr>"

theorem detect_pii_own_handle_witness:
  "\<exists>toks t. detect_pii sample_shape_engine ''for Bob'' ''Bob'' [] = Done toks \<and> t \<in> set toks \<and>
     default_redact t \<and> start t \<le> 4 \<and> 4 < pii_token.end t"
proof -
  obtain toks where toks: "detect_pii sample_shape_engine ''for Bob'' ''Bob'' [] = Done toks"
    by (auto simp: detect_pii_def sample_shape_engine_def Let_def)
  from detect_pii_own_handle [OF this] toks show ?thesis
    by (elim conjE allE [of _ "''for ''"] allE [of _ "[]"]) auto
qed

end
