(* ===== verification/Local_Store.thy ===== *)
theory Local_Store
  imports Unknown_Lines
begin

text \<open>
  The tray client's local database (\<open>crates/starstats-client/src/storage.rs\<close>): the outbox of events with its two deduplication
  guards and the state of delivery of each row, the tail cursors, the noise list, the samples of unknown events, the batch
  ordinal, the cached rule manifest and the review queue.  SQLite is a dependency; each operation is the documented effect of its
  SQL statements on the rows.  A row of \<open>events\<close> stays at its place in the order of its id, which \<open>AUTOINCREMENT\<close> makes larger than
  every id before.  The clock (\<open>datetime('now')\<close>) and the version-5 hash of the uuid crate are parameters; the clock is read once per
  call.  JSON columns hold the decoded value.

  The lemmas show the invariant of the database over every sequence of operations, that a line is stored once, that the two
  lanes share out the outbox, and what delivery, quarantine and release do to a row.
\<close>

section \<open>Tables\<close>

record event_row =
  row_id :: int
  row_key :: string
  row_type :: string
  row_timestamp :: string
  row_raw :: string
  row_payload :: string
  row_source :: string
  row_offset :: i64
  row_metadata :: "string option"
  row_content :: string
  sent_at :: "string option"

record sample_row =
  sample_source :: string
  sample_name :: string
  sample_occurrences :: int
  sample_first_seen :: string
  sample_last_seen :: string
  sample_line :: string
  sample_body :: string

record review_row =
  review_line :: unknown_line
  raw_examples :: "string list"
  review_count :: int
  review_last_seen :: string
  review_dismissed :: bool
  submitted_at :: "string option"

record local_store =
  ls_events :: "event_row list"
  ls_next_id :: int
  ls_cursors :: "(string, i64 \<times> string option) hmap"
  ls_noise :: "(string, string) hmap"
  ls_samples :: "sample_row list"
  ls_batch :: "nat option"
  ls_manifest :: "(u32 \<times> string) option"
  ls_reparse :: "(u32 \<times> u32 option) option"
  ls_review :: "review_row list"

section \<open>The event outbox\<close>

definition UNIT_SEPARATOR :: string where
  "UNIT_SEPARATOR = [CHR 0x1F]"

definition content_key :: "(string \<Rightarrow> string) \<Rightarrow> string \<Rightarrow> string \<Rightarrow> string \<Rightarrow> string \<Rightarrow> string" where
  "content_key hsh ty ts rw payload = hsh (ty @ UNIT_SEPARATOR @ ts @ UNIT_SEPARATOR @ rw @ UNIT_SEPARATOR @ payload)"

definition new_row :: "(string \<Rightarrow> string) \<Rightarrow> int \<Rightarrow> string \<Rightarrow> string \<Rightarrow> string \<Rightarrow> string \<Rightarrow> string \<Rightarrow> string \<Rightarrow> u64 \<Rightarrow> event_row" where
  "new_row hsh i ikey ty ts rw payload src off =
     \<lparr>row_id = i, row_key = ikey, row_type = ty, row_timestamp = ts, row_raw = rw, row_payload = payload, row_source = src,
      row_offset = wrap_i64 (uint off), row_metadata = None, row_content = content_key hsh ty ts rw payload, sent_at = None\<rparr>"

definition insert_event ::
  "(string \<Rightarrow> string) \<Rightarrow> string \<Rightarrow> string \<Rightarrow> string \<Rightarrow> string \<Rightarrow> string \<Rightarrow> string \<Rightarrow> u64 \<Rightarrow> local_store \<Rightarrow> bool \<times> local_store" where
  "insert_event hsh ikey ty ts rw payload src off st =
     (if list_ex (\<lambda>r. row_content r = content_key hsh ty ts rw payload) (ls_events st) \<or>
         list_ex (\<lambda>r. row_key r = ikey) (ls_events st) then (False, st)
      else
        (True,
         st\<lparr>ls_events := ls_events st @ [new_row hsh (ls_next_id st) ikey ty ts rw payload src off],
            ls_next_id := ls_next_id st + 1\<rparr>))"

record unsent_event =
  unsent_id :: int
  unsent_key :: string
  payload_json :: string
  unsent_raw :: string
  unsent_source :: string
  unsent_offset :: u64

definition map_unsent_row :: "event_row \<Rightarrow> unsent_event" where
  "map_unsent_row r =
     \<lparr>unsent_id = row_id r, unsent_key = row_key r, payload_json = row_payload r, unsent_raw = row_raw r,
      unsent_source = row_source r, unsent_offset = word_of_int (max 0 (row_offset r))\<rparr>"

definition in_lane :: "string list \<Rightarrow> bool \<Rightarrow> event_row \<Rightarrow> bool" where
  "in_lane priority_types priority_only r \<longleftrightarrow>
     priority_types = [] \<or> (row_type r \<in> set priority_types \<longleftrightarrow> priority_only)"

definition read_unsent_filtered :: "string list \<Rightarrow> bool \<Rightarrow> nat \<Rightarrow> local_store \<Rightarrow> unsent_event list" where
  "read_unsent_filtered priority_types priority_only limit st =
     map map_unsent_row
       (take limit (filter (\<lambda>r. sent_at r = None \<and> in_lane priority_types priority_only r) (ls_events st)))"

definition read_unsent :: "nat \<Rightarrow> local_store \<Rightarrow> unsent_event list" where
  "read_unsent limit st = read_unsent_filtered [] False limit st"

function chunks :: "nat \<Rightarrow> 'a list \<Rightarrow> 'a list list" where
  "chunks k xs = (if xs = [] \<or> k = 0 then [] else take k xs # chunks k (drop k xs))"
  by pat_completeness auto
termination
  by (relation "measure (\<lambda>(k, xs). length xs)") auto

declare chunks.simps [simp del]

definition update_rows :: "(event_row \<Rightarrow> bool) \<Rightarrow> (event_row \<Rightarrow> event_row) \<Rightarrow> local_store \<Rightarrow> local_store" where
  "update_rows P f st = st\<lparr>ls_events := map (\<lambda>r. if P r then f r else r) (ls_events st)\<rparr>"

definition mark_sent :: "string \<Rightarrow> int list \<Rightarrow> local_store \<Rightarrow> local_store" where
  "mark_sent now ids st =
     (if ids = [] then st
      else foldl (\<lambda>st chunk. update_rows (\<lambda>r. sent_at r = None \<and> row_id r \<in> set chunk) (\<lambda>r. r\<lparr>sent_at := Some now\<rparr>) st) st
             (chunks 500 ids))"

definition QUARANTINE_PREFIX :: string where
  "QUARANTINE_PREFIX = ''__quarantined_''"

definition mark_quarantined :: "string \<Rightarrow> int list \<Rightarrow> local_store \<Rightarrow> local_store" where
  "mark_quarantined now ids st =
     (if ids = [] then st
      else foldl (\<lambda>st chunk. update_rows (\<lambda>r. sent_at r = None \<and> row_id r \<in> set chunk)
                               (\<lambda>r. r\<lparr>sent_at := Some (QUARANTINE_PREFIX @ now)\<rparr>) st) st
             (chunks 500 ids))"

text \<open>\<open>LIKE\<close> ignores the case of ASCII letters.\<close>

definition is_quarantined :: "event_row \<Rightarrow> bool" where
  "is_quarantined r = (case sent_at r of Some s \<Rightarrow> prefix QUARANTINE_PREFIX (to_ascii_lowercase s) | None \<Rightarrow> False)"

definition is_delivered :: "event_row \<Rightarrow> bool" where
  "is_delivered r \<longleftrightarrow> sent_at r \<noteq> None \<and> \<not> is_quarantined r"

definition requeue_sent_for_types :: "string list \<Rightarrow> local_store \<Rightarrow> nat \<times> local_store" where
  "requeue_sent_for_types types st =
     foldl (\<lambda>(total, st) chunk.
              let hit = (\<lambda>r. is_delivered r \<and> row_type r \<in> set chunk)
              in (total + length (filter hit (ls_events st)), update_rows hit (\<lambda>r. r\<lparr>sent_at := None\<rparr>) st))
       (0, st) (chunks 500 types)"

definition sent_counts_by_type :: "local_store \<Rightarrow> string \<Rightarrow> nat option" where
  "sent_counts_by_type st ty =
     (let k = length (filter (\<lambda>r. is_delivered r \<and> row_type r = ty) (ls_events st)) in if k = 0 then None else Some k)"

definition count_unsent :: "local_store \<Rightarrow> nat" where
  "count_unsent st = length (filter (\<lambda>r. sent_at r = None) (ls_events st))"

definition count_quarantined :: "local_store \<Rightarrow> nat" where
  "count_quarantined st = length (filter is_quarantined (ls_events st))"

definition release_quarantined :: "local_store \<Rightarrow> nat \<times> local_store" where
  "release_quarantined st = (count_quarantined st, update_rows is_quarantined (\<lambda>r. r\<lparr>sent_at := None\<rparr>) st)"

definition total_events :: "local_store \<Rightarrow> nat" where
  "total_events st = length (ls_events st)"

definition has_any_events :: "local_store \<Rightarrow> bool" where
  "has_any_events st \<longleftrightarrow> ls_events st \<noteq> []"

definition read_events_after :: "int \<Rightarrow> nat \<Rightarrow> local_store \<Rightarrow> event_row list" where
  "read_events_after after_id limit st = take limit (filter (\<lambda>r. after_id < row_id r) (ls_events st))"

definition update_event_classification ::
  "int \<Rightarrow> string \<Rightarrow> string \<Rightarrow> string \<Rightarrow> string option \<Rightarrow> local_store \<Rightarrow> local_store" where
  "update_event_classification i ty ts payload meta st =
     update_rows (\<lambda>r. row_id r = i)
       (\<lambda>r. r\<lparr>row_type := ty, row_timestamp := ts, row_payload := payload,
             row_metadata := (case meta of Some m \<Rightarrow> Some m | None \<Rightarrow> row_metadata r)\<rparr>) st"

definition delete_event_by_id :: "int \<Rightarrow> local_store \<Rightarrow> local_store" where
  "delete_event_by_id i st = st\<lparr>ls_events := filter (\<lambda>r. row_id r \<noteq> i) (ls_events st)\<rparr>"

section \<open>Cursors, ordinals and cached state\<close>

definition read_tail_cursor :: "string \<Rightarrow> local_store \<Rightarrow> u64 \<times> string option" where
  "read_tail_cursor p st =
     (case map_of (ls_cursors st) p of
        Some (off, sig) \<Rightarrow> (word_of_int (max 0 off), sig)
      | None \<Rightarrow> (0, None))"

definition read_cursor :: "string \<Rightarrow> local_store \<Rightarrow> u64" where
  "read_cursor p st = fst (read_tail_cursor p st)"

definition write_tail_cursor :: "string \<Rightarrow> u64 \<Rightarrow> string option \<Rightarrow> local_store \<Rightarrow> local_store" where
  "write_tail_cursor p off sig st = st\<lparr>ls_cursors := hmap_insert p (wrap_i64 (uint off), sig) (ls_cursors st)\<rparr>"

text \<open>The signature of an existing row is left alone.\<close>

definition write_cursor :: "string \<Rightarrow> u64 \<Rightarrow> local_store \<Rightarrow> local_store" where
  "write_cursor p off st =
     st\<lparr>ls_cursors := hmap_insert p
         (wrap_i64 (uint off), case map_of (ls_cursors st) p of Some (_, sig) \<Rightarrow> sig | None \<Rightarrow> None) (ls_cursors st)\<rparr>"

text \<open>One past the highest ordinal sent so far; the counter stays far below the range of the column.\<close>

definition peek_next_batch_sequence :: "local_store \<Rightarrow> nat" where
  "peek_next_batch_sequence st = (case ls_batch st of Some v \<Rightarrow> v | None \<Rightarrow> 0) + 1"

definition commit_batch_sequence :: "nat \<Rightarrow> local_store \<Rightarrow> local_store" where
  "commit_batch_sequence s st = st\<lparr>ls_batch := Some (case ls_batch st of Some v \<Rightarrow> max v s | None \<Rightarrow> s)\<rparr>"

definition write_parser_def_manifest :: "u32 \<Rightarrow> string \<Rightarrow> local_store \<Rightarrow> local_store" where
  "write_parser_def_manifest version payload st = st\<lparr>ls_manifest := Some (version, payload)\<rparr>"

definition read_parser_def_manifest :: "local_store \<Rightarrow> string option" where
  "read_parser_def_manifest st = map_option snd (ls_manifest st)"

definition read_parser_def_manifest_version :: "local_store \<Rightarrow> u32 option" where
  "read_parser_def_manifest_version st = map_option fst (ls_manifest st)"

definition read_reparse_state :: "local_store \<Rightarrow> (u32 \<times> u32 option) option" where
  "read_reparse_state st = ls_reparse st"

definition write_reparse_state :: "u32 \<Rightarrow> u32 option \<Rightarrow> local_store \<Rightarrow> local_store" where
  "write_reparse_state revision def_version st = st\<lparr>ls_reparse := Some (revision, def_version)\<rparr>"

section \<open>Noise and unknown events\<close>

definition is_noise :: "string \<Rightarrow> local_store \<Rightarrow> bool" where
  "is_noise name st \<longleftrightarrow> map_of (ls_noise st) name \<noteq> None"

definition insert_noise :: "string \<Rightarrow> string \<Rightarrow> local_store \<Rightarrow> local_store" where
  "insert_noise name src st =
     (if map_of (ls_noise st) name \<noteq> None then st else st\<lparr>ls_noise := hmap_insert name src (ls_noise st)\<rparr>)"

definition add_noise :: "string \<Rightarrow> string \<Rightarrow> local_store \<Rightarrow> local_store" where
  "add_noise name src st =
     (let st' = insert_noise name src st
      in st'\<lparr>ls_samples := filter (\<lambda>s. sample_name s \<noteq> name) (ls_samples st')\<rparr>)"

definition record_unknown :: "string \<Rightarrow> string \<Rightarrow> string \<Rightarrow> string \<Rightarrow> string \<Rightarrow> local_store \<Rightarrow> local_store" where
  "record_unknown now src name line bd st =
     (if list_ex (\<lambda>s. sample_source s = src \<and> sample_name s = name) (ls_samples st)
      then st\<lparr>ls_samples := map (\<lambda>s. if sample_source s = src \<and> sample_name s = name
                                     then s\<lparr>sample_occurrences := sample_occurrences s + 1, sample_last_seen := now,
                                            sample_line := line, sample_body := bd\<rparr>
                                     else s) (ls_samples st)\<rparr>
      else st\<lparr>ls_samples := ls_samples st @
             [\<lparr>sample_source = src, sample_name = name, sample_occurrences = 1, sample_first_seen = now, sample_last_seen = now,
               sample_line = line, sample_body = bd\<rparr>]\<rparr>)"

definition delete_unknown :: "string \<Rightarrow> string \<Rightarrow> local_store \<Rightarrow> local_store" where
  "delete_unknown src name st =
     st\<lparr>ls_samples := filter (\<lambda>s. \<not> (sample_source s = src \<and> sample_name s = name)) (ls_samples st)\<rparr>"

section \<open>The review queue\<close>

definition RAW_EXAMPLES_CAP :: nat where
  "RAW_EXAMPLES_CAP = 5"

definition cache_unknown_line :: "unknown_line \<Rightarrow> local_store \<Rightarrow> local_store" where
  "cache_unknown_line u st =
     (if list_ex (\<lambda>r. shape (review_line r) = shape u) (ls_review st)
      then st\<lparr>ls_review := map (\<lambda>r. if shape (review_line r) = shape u
                 then let samples = raw_examples r @ [unknown_line.raw_line u]
                      in r\<lparr>review_count := review_count r + 1, review_last_seen := last_seen u,
                           raw_examples := drop (length samples - RAW_EXAMPLES_CAP) samples\<rparr>
                 else r) (ls_review st)\<rparr>
      else st\<lparr>ls_review := ls_review st @
             [\<lparr>review_line = u, raw_examples = [unknown_line.raw_line u], review_count = uint (occurrence_count u),
               review_last_seen = last_seen u, review_dismissed = dismissed u, submitted_at = None\<rparr>]\<rparr>)"

definition decode_unknown_line :: "review_row \<Rightarrow> unknown_line" where
  "decode_unknown_line r =
     (review_line r)
       \<lparr>unknown_line.raw_line := (if raw_examples r = [] then [] else last (raw_examples r)),
        unknown_line.timestamp := None, occurrence_count := word_of_int (max 0 (review_count r)),
        last_seen := review_last_seen r, dismissed := review_dismissed r\<rparr>"

definition update_review :: "(review_row \<Rightarrow> bool) \<Rightarrow> (review_row \<Rightarrow> review_row) \<Rightarrow> local_store \<Rightarrow> local_store" where
  "update_review P f st = st\<lparr>ls_review := map (\<lambda>r. if P r then f r else r) (ls_review st)\<rparr>"

definition dismiss_unknown_line :: "string \<Rightarrow> local_store \<Rightarrow> local_store" where
  "dismiss_unknown_line h st = update_review (\<lambda>r. shape (review_line r) = h) (\<lambda>r. r\<lparr>review_dismissed := True\<rparr>) st"

definition mark_submitted :: "string \<Rightarrow> string \<Rightarrow> local_store \<Rightarrow> local_store" where
  "mark_submitted h tm st = update_review (\<lambda>r. shape (review_line r) = h) (\<lambda>r. r\<lparr>submitted_at := Some tm\<rparr>) st"

definition mark_group_submitted :: "string \<Rightarrow> string \<Rightarrow> local_store \<Rightarrow> nat \<times> local_store" where
  "mark_group_submitted tag tm st =
     (let hit = (\<lambda>r. unknown_line.shell_tag (review_line r) = Some tag \<and> submitted_at r = None)
      in (length (filter hit (ls_review st)), update_review hit (\<lambda>r. r\<lparr>submitted_at := Some tm\<rparr>) st))"

definition ignore_review_groups :: "string list \<Rightarrow> local_store \<Rightarrow> nat \<times> local_store" where
  "ignore_review_groups shell_tags st =
     foldl (\<lambda>(k, st) tag. (if is_noise tag st then k else k + 1, insert_noise tag ''user'' st)) (0, st) shell_tags"

definition unignore_review_group :: "string \<Rightarrow> local_store \<Rightarrow> bool \<times> local_store" where
  "unignore_review_group tag st =
     (if map_of (ls_noise st) tag = Some ''user'' then (True, st\<lparr>ls_noise := hmap_remove tag (ls_noise st)\<rparr>) else (False, st))"

text \<open>The rows the review list selects, before it sorts and cuts them: open and interesting enough.\<close>

definition review_open :: "u8 \<Rightarrow> local_store \<Rightarrow> review_row list" where
  "review_open min_interest st =
     filter (\<lambda>r. \<not> review_dismissed r \<and> submitted_at r = None \<and> min_interest \<le> interest (review_line r)) (ls_review st)"


section \<open>Helpers\<close>

lemma chunks_set: "0 < k \<Longrightarrow> \<Union> (set ` set (chunks k xs)) = set xs"
proof (induction k xs rule: chunks.induct)
  case (1 k xs)
  then show ?case
    by (subst chunks.simps) (auto dest: in_set_takeD in_set_dropD, metis append_take_drop_id in_set_conv_decomp Un_iff set_append)
qed

lemma update_rows_events [simp]: "ls_events (update_rows P f st) = map (\<lambda>r. if P r then f r else r) (ls_events st)"
  by (simp add: update_rows_def)

lemma update_rows_none [simp]: "update_rows (\<lambda>r. False) f st = st"
  by (simp add: update_rows_def)

text \<open>Stamping rows chunk by chunk stamps the rows of the whole list: a stamped row is not pending any more.\<close>

definition stamp_ids :: "string \<Rightarrow> int set \<Rightarrow> local_store \<Rightarrow> local_store" where
  "stamp_ids tm is st = update_rows (\<lambda>r. sent_at r = None \<and> row_id r \<in> is) (\<lambda>r. r\<lparr>sent_at := Some tm\<rparr>) st"

lemma stamp_ids_empty [simp]: "stamp_ids tm {} st = st"
  by (simp add: stamp_ids_def update_rows_def)

lemma stamp_ids_Un: "stamp_ids tm is (stamp_ids tm is' st) = stamp_ids tm (is' \<union> is) st"
  by (auto simp: stamp_ids_def update_rows_def)

lemma stamp_fold:
  "foldl (\<lambda>st chunk. stamp_ids tm (set chunk) st) st cs = stamp_ids tm (\<Union> (set ` set cs)) st"
  by (induction cs arbitrary: st) (simp_all add: stamp_ids_Un)

lemma mark_sent_stamp: "mark_sent now ids st = stamp_ids now (set ids) st"
  using stamp_fold [of now st "chunks 500 ids"] chunks_set [of 500 ids] by (simp add: mark_sent_def stamp_ids_def)

lemma mark_quarantined_stamp: "mark_quarantined now ids st = stamp_ids (QUARANTINE_PREFIX @ now) (set ids) st"
  using stamp_fold [of "QUARANTINE_PREFIX @ now" st "chunks 500 ids"] chunks_set [of 500 ids]
  by (simp add: mark_quarantined_def stamp_ids_def)


section \<open>The invariant\<close>

definition rows_ok :: "event_row list \<Rightarrow> int \<Rightarrow> bool" where
  "rows_ok rows next \<longleftrightarrow>
     sorted_wrt (<) (map row_id rows) \<and> (\<forall>r \<in> set rows. row_id r < next) \<and>
     distinct (map row_key rows) \<and> distinct (map row_content rows)"

definition store_ok :: "local_store \<Rightarrow> bool" where
  "store_ok st \<longleftrightarrow>
     rows_ok (ls_events st) (ls_next_id st) \<and>
     hmap_ok (ls_cursors st) \<and> hmap_ok (ls_noise st) \<and>
     distinct (map (\<lambda>s. (sample_source s, sample_name s)) (ls_samples st)) \<and>
     distinct (map (\<lambda>r. shape (review_line r)) (ls_review st)) \<and>
     (\<forall>r \<in> set (ls_review st). raw_examples r \<noteq> [] \<and> length (raw_examples r) \<le> RAW_EXAMPLES_CAP)"

text \<open>One operation on the database; reads are left out, they change nothing.\<close>

inductive store_step :: "(string \<Rightarrow> string) \<Rightarrow> local_store \<Rightarrow> local_store \<Rightarrow> bool" for hsh where
  Insert: "store_step hsh st (snd (insert_event hsh ikey ty ts rw payload src off st))"
| Sent: "store_step hsh st (mark_sent now ids st)"
| Quarantine: "store_step hsh st (mark_quarantined now ids st)"
| Requeue: "store_step hsh st (snd (requeue_sent_for_types types st))"
| Release: "store_step hsh st (snd (release_quarantined st))"
| Reclassify: "store_step hsh st (update_event_classification i ty ts payload meta st)"
| Delete: "store_step hsh st (delete_event_by_id i st)"
| Tail_Cursor: "store_step hsh st (write_tail_cursor p off sig st)"
| Cursor: "store_step hsh st (write_cursor p off st)"
| Commit: "store_step hsh st (commit_batch_sequence sq st)"
| Manifest: "store_step hsh st (write_parser_def_manifest ver payload st)"
| Reparse: "store_step hsh st (write_reparse_state revision dv st)"
| Noise: "store_step hsh st (add_noise name src st)"
| Unknown: "store_step hsh st (record_unknown now src name line bd st)"
| Forget: "store_step hsh st (delete_unknown src name st)"
| Cache: "store_step hsh st (cache_unknown_line u st)"
| Dismiss: "store_step hsh st (dismiss_unknown_line h st)"
| Submit: "store_step hsh st (mark_submitted h tm st)"
| Submit_Group: "store_step hsh st (snd (mark_group_submitted tag tm st))"
| Ignore: "store_step hsh st (snd (ignore_review_groups ts' st))"
| Unignore: "store_step hsh st (snd (unignore_review_group tag st))"

definition empty_store :: local_store where
  "empty_store =
     \<lparr>ls_events = [], ls_next_id = 1, ls_cursors = [], ls_noise = [], ls_samples = [], ls_batch = None, ls_manifest = None,
      ls_reparse = None, ls_review = []\<rparr>"

lemma rows_ok_update:
  assumes "rows_ok rows next" "\<And>r. row_id (f r) = row_id r \<and> row_key (f r) = row_key r \<and> row_content (f r) = row_content r"
  shows "rows_ok (map (\<lambda>r. if P r then f r else r) rows) next"
proof -
  have "map row_id (map (\<lambda>r. if P r then f r else r) rows) = map row_id rows"
    "map row_key (map (\<lambda>r. if P r then f r else r) rows) = map row_key rows"
    "map row_content (map (\<lambda>r. if P r then f r else r) rows) = map row_content rows"
    using assms(2) by simp_all
  with assms show ?thesis unfolding rows_ok_def by (auto simp del: map_map)
qed

lemma store_ok_update_rows:
  assumes "store_ok st" "\<And>r. row_id (f r) = row_id r \<and> row_key (f r) = row_key r \<and> row_content (f r) = row_content r"
  shows "store_ok (update_rows P f st)"
  using assms rows_ok_update [OF _ assms(2)] by (simp add: store_ok_def update_rows_def)

lemma store_ok_stamp: "store_ok st \<Longrightarrow> store_ok (stamp_ids tm is st)"
  unfolding stamp_ids_def by (rule store_ok_update_rows) simp_all

lemma store_ok_insert: "store_ok st \<Longrightarrow> store_ok (snd (insert_event hsh ikey ty ts rw payload src off st))"
  by (auto simp: insert_event_def new_row_def store_ok_def rows_ok_def sorted_wrt_append list_ex_iff less_imp_le)

lemma store_ok_requeue: "store_ok st \<Longrightarrow> store_ok (snd (requeue_sent_for_types types st))"
proof -
  have "store_ok (snd (foldl (\<lambda>(total, st) chunk.
      let hit = (\<lambda>r. is_delivered r \<and> row_type r \<in> set chunk)
      in (total + length (filter hit (ls_events st)), update_rows hit (\<lambda>r. r\<lparr>sent_at := None\<rparr>) st)) (k, st) cs))"
    if "store_ok st" for k :: nat and st cs
    using that by (induction cs arbitrary: k st) (simp_all add: Let_def store_ok_update_rows)
  then show "store_ok st \<Longrightarrow> ?thesis" by (simp add: requeue_sent_for_types_def)
qed

lemma store_ok_delete: "store_ok st \<Longrightarrow> store_ok (delete_event_by_id i st)"
  by (simp add: delete_event_by_id_def store_ok_def rows_ok_def sorted_wrt_map sorted_wrt_filter distinct_map_filter)


lemma store_ok_insert_noise: "store_ok st \<Longrightarrow> store_ok (insert_noise name src st)"
  by (simp add: store_ok_def insert_noise_def hm.invar_insert)

lemma store_ok_ignore: "store_ok st \<Longrightarrow> store_ok (snd (ignore_review_groups ts st))"
proof -
  have "store_ok (snd (foldl (\<lambda>(k, st) tag. (if is_noise tag st then k else k + 1, insert_noise tag ''user'' st)) (k, st) ts))"
    if "store_ok st" for k :: nat and st
    using that by (induction ts arbitrary: k st) (simp_all add: store_ok_insert_noise)
  then show "store_ok st \<Longrightarrow> ?thesis" by (simp add: ignore_review_groups_def)
qed

lemma store_ok_samples:
  "store_ok st \<Longrightarrow> store_ok (add_noise name src st)"
  "store_ok st \<Longrightarrow> store_ok (delete_unknown src name st)"
  using store_ok_insert_noise [of st name src]
  by (simp_all add: add_noise_def delete_unknown_def store_ok_def Let_def distinct_map_filter)

lemma map_keep: "(\<And>r. g (f r) = g r) \<Longrightarrow> map g (map (\<lambda>r. if P r then f r else r) xs) = map g xs"
  by simp

lemma store_ok_unknown: "store_ok st \<Longrightarrow> store_ok (record_unknown now src name line bd st)"
proof (cases "list_ex (\<lambda>s. sample_source s = src \<and> sample_name s = name) (ls_samples st)")
  case True
  assume "store_ok st"
  moreover have "map (\<lambda>s. (sample_source s, sample_name s)) (map (\<lambda>s. if sample_source s = src \<and> sample_name s = name
        then s\<lparr>sample_occurrences := sample_occurrences s + 1, sample_last_seen := now, sample_line := line, sample_body := bd\<rparr>
        else s) (ls_samples st)) = map (\<lambda>s. (sample_source s, sample_name s)) (ls_samples st)"
    by (intro map_keep) simp
  ultimately show ?thesis using True by (simp add: record_unknown_def store_ok_def del: map_map)
next
  case False
  assume "store_ok st"
  with False show ?thesis by (auto simp: record_unknown_def store_ok_def list_ex_iff)
qed

lemma store_ok_update_review:
  assumes "store_ok st" "\<And>r. review_line (f r) = review_line r"
    and "\<And>r. raw_examples r \<noteq> [] \<and> length (raw_examples r) \<le> RAW_EXAMPLES_CAP \<Longrightarrow>
      raw_examples (f r) \<noteq> [] \<and> length (raw_examples (f r)) \<le> RAW_EXAMPLES_CAP"
  shows "store_ok (update_review P f st)"
proof -
  have "map (\<lambda>r. shape (review_line r)) (map (\<lambda>r. if P r then f r else r) (ls_review st)) =
      map (\<lambda>r. shape (review_line r)) (ls_review st)"
    using assms(2) by (intro map_keep) simp
  with assms(1,3) show ?thesis unfolding store_ok_def update_review_def by (auto simp del: map_map)
qed

lemma cache_existing:
  "list_ex (\<lambda>r. shape (review_line r) = shape u) (ls_review st) \<Longrightarrow>
   cache_unknown_line u st =
     update_review (\<lambda>r. shape (review_line r) = shape u)
       (\<lambda>r. let samples = raw_examples r @ [unknown_line.raw_line u]
            in r\<lparr>review_count := review_count r + 1, review_last_seen := last_seen u,
                 raw_examples := drop (length samples - RAW_EXAMPLES_CAP) samples\<rparr>) st"
  by (simp add: cache_unknown_line_def update_review_def)

lemma store_ok_cache: "store_ok st \<Longrightarrow> store_ok (cache_unknown_line u st)"
proof (cases "list_ex (\<lambda>r. shape (review_line r) = shape u) (ls_review st)")
  case True
  assume "store_ok st"
  then show ?thesis unfolding cache_existing [OF True]
    by (rule store_ok_update_review) (simp_all add: Let_def RAW_EXAMPLES_CAP_def)
next
  case False
  assume "store_ok st"
  with False show ?thesis by (auto simp: cache_unknown_line_def store_ok_def list_ex_iff RAW_EXAMPLES_CAP_def)
qed

lemma store_ok_plain:
  "store_ok st \<Longrightarrow> store_ok (commit_batch_sequence sq st)"
  "store_ok st \<Longrightarrow> store_ok (write_parser_def_manifest ver payload st)"
  "store_ok st \<Longrightarrow> store_ok (write_reparse_state revision dv st)"
  "store_ok st \<Longrightarrow> store_ok (write_tail_cursor p off sig st)"
  "store_ok st \<Longrightarrow> store_ok (write_cursor p off st)"
  "store_ok st \<Longrightarrow> store_ok (snd (unignore_review_group tag st))"
  by (simp_all add: store_ok_def commit_batch_sequence_def write_parser_def_manifest_def write_reparse_state_def
      write_tail_cursor_def write_cursor_def unignore_review_group_def hm.invar_insert hm.invar_remove)

lemma store_ok_step: "store_step hsh st st' \<Longrightarrow> store_ok st \<Longrightarrow> store_ok st'"
proof (induction rule: store_step.induct)
  case (Reclassify st i ty ts payload meta)
  then show ?case unfolding update_event_classification_def by (intro store_ok_update_rows) simp_all
next
  case (Release st)
  then show ?case by (simp add: release_quarantined_def store_ok_update_rows)
next
  case (Dismiss st h)
  then show ?case unfolding dismiss_unknown_line_def by (intro store_ok_update_review) simp_all
next
  case (Submit st h tm)
  then show ?case unfolding mark_submitted_def by (intro store_ok_update_review) simp_all
next
  case (Submit_Group st tag tm)
  then show ?case by (simp add: mark_group_submitted_def Let_def) (intro store_ok_update_review, simp_all)
qed (simp_all add: mark_sent_stamp mark_quarantined_stamp store_ok_stamp store_ok_insert store_ok_requeue store_ok_delete
    store_ok_samples store_ok_unknown store_ok_cache store_ok_plain store_ok_ignore)

text \<open>No operation changes the id, the key or the content key of a row, and ids are never given twice: every row of a later database is new or was there before.\<close>

definition row_mark :: "event_row \<Rightarrow> int \<times> string \<times> string" where
  "row_mark r = (row_id r, row_key r, row_content r)"

definition rows_traced :: "local_store \<Rightarrow> local_store \<Rightarrow> bool" where
  "rows_traced st st' \<longleftrightarrow> ls_next_id st \<le> ls_next_id st' \<and>
     (\<forall>r\<in>set (ls_events st'). ls_next_id st \<le> row_id r \<or> row_mark r \<in> row_mark ` set (ls_events st))"

lemma rows_traced_same: "ls_events st' = ls_events st \<Longrightarrow> ls_next_id st' = ls_next_id st \<Longrightarrow> rows_traced st st'"
  by (simp add: rows_traced_def)

lemma rows_traced_trans:
  assumes "rows_traced st st1" "rows_traced st1 st2"
  shows "rows_traced st st2"
proof -
  have "ls_next_id st \<le> row_id r \<or> row_mark r \<in> row_mark ` set (ls_events st)" if r: "r \<in> set (ls_events st2)" for r
  proof (cases "ls_next_id st1 \<le> row_id r")
    case True
    then show ?thesis using assms(1) by (auto simp: rows_traced_def)
  next
    case False
    then obtain q where "q \<in> set (ls_events st1)" "row_mark r = row_mark q" using assms(2) r by (auto simp: rows_traced_def)
    then show ?thesis using assms(1) by (auto simp: rows_traced_def row_mark_def)
  qed
  then show ?thesis using assms by (auto simp: rows_traced_def)
qed

lemma rows_traced_update: "(\<And>r. row_mark (g r) = row_mark r) \<Longrightarrow> rows_traced st (update_rows P g st)"
  by (auto simp: rows_traced_def update_rows_def image_iff)

lemma rows_traced_foldl:
  assumes "\<And>p c. rows_traced (snd p) (snd (g p c))"
  shows "rows_traced (snd p) (snd (foldl g p cs))"
proof (induction cs arbitrary: p)
  case (Cons c cs)
  then show ?case using rows_traced_trans [OF assms [of p c] Cons [of "g p c"]] by simp
qed (simp add: rows_traced_same)

lemma rows_traced_requeue: "rows_traced st (snd (requeue_sent_for_types types st))"
  unfolding requeue_sent_for_types_def
  by (rule rows_traced_foldl [of _ "(0, st)", unfolded snd_conv]) (auto simp: Let_def row_mark_def intro!: rows_traced_update)

lemma rows_traced_ignore: "rows_traced st (snd (ignore_review_groups ts st))"
  unfolding ignore_review_groups_def
  by (rule rows_traced_foldl [of _ "(0, st)", unfolded snd_conv]) (auto simp: insert_noise_def intro!: rows_traced_same)

lemma store_step_traced: "store_step hsh st st' \<Longrightarrow> rows_traced st st'"
proof (induction rule: store_step.induct)
  case (Insert st ikey ty ts rw payload src off)
  then show ?case by (auto simp: insert_event_def new_row_def rows_traced_def)
next
  case (Delete st i)
  then show ?case by (auto simp: delete_event_by_id_def rows_traced_def)
next
  case (Reclassify st i ty ts payload meta)
  then show ?case unfolding update_event_classification_def by (rule rows_traced_update) (simp add: row_mark_def)
next
  case (Release st)
  then show ?case unfolding release_quarantined_def snd_conv by (rule rows_traced_update) (simp add: row_mark_def)
next
  case (Sent st now ids)
  then show ?case unfolding mark_sent_stamp stamp_ids_def by (rule rows_traced_update) (simp add: row_mark_def)
next
  case (Quarantine st now ids)
  then show ?case unfolding mark_quarantined_stamp stamp_ids_def by (rule rows_traced_update) (simp add: row_mark_def)
qed (auto simp: rows_traced_requeue rows_traced_ignore write_tail_cursor_def write_cursor_def commit_batch_sequence_def write_parser_def_manifest_def
    write_reparse_state_def add_noise_def insert_noise_def record_unknown_def delete_unknown_def cache_unknown_line_def dismiss_unknown_line_def mark_submitted_def
    mark_group_submitted_def unignore_review_group_def update_review_def Let_def intro!: rows_traced_same)

lemma store_run_traced: "(store_step hsh)\<^sup>*\<^sup>* st st' \<Longrightarrow> rows_traced st st'"
  by (induction rule: rtranclp_induct) (auto simp: rows_traced_same intro: rows_traced_trans store_step_traced)

text \<open>A row whose id is still there still has its key and its content key.\<close>

lemma store_run_keeps:
  assumes "store_ok st" "(store_step hsh)\<^sup>*\<^sup>* st st'" "r \<in> set (ls_events st)" "row_id r \<in> row_id ` set (ls_events st')"
  shows "row_mark r \<in> row_mark ` set (ls_events st')"
proof -
  obtain q where q: "q \<in> set (ls_events st')" "row_id q = row_id r" using assms(4) by auto
  have ids: "row_id r < ls_next_id st" "distinct (map row_id (ls_events st))"
    using assms(1,3) by (auto simp: store_ok_def rows_ok_def strict_sorted_iff)
  then obtain p where "p \<in> set (ls_events st)" "row_mark q = row_mark p"
    using store_run_traced [OF assms(2)] q by (auto simp: rows_traced_def)
  moreover from this have "p = r" using ids(2) q(2) assms(3) by (auto simp: row_mark_def distinct_map inj_on_def)
  ultimately show ?thesis using q(1) by (metis image_eqI)
qed

interpretation store_sys: step_system "store_step hsh" "\<lambda>st. st = empty_store" store_ok for hsh
  by unfold_locales (simp add: empty_store_def store_ok_def rows_ok_def hmap_ok_def, rule store_ok_step)

section \<open>Properties\<close>

lemma insert_event_fresh:
  "\<forall>q \<in> set (ls_events st). row_content q \<noteq> content_key hsh ty ts rw payload \<and> row_key q \<noteq> ikey \<Longrightarrow>
   insert_event hsh ikey ty ts rw payload src off st =
     (True, st\<lparr>ls_events := ls_events st @ [new_row hsh (ls_next_id st) ikey ty ts rw payload src off], ls_next_id := ls_next_id st + 1\<rparr>)"
  by (auto simp: insert_event_def list_ex_iff)

lemma filter_split: "mset (filter P xs) = mset (filter (\<lambda>x. P x \<and> Q x) xs) + mset (filter (\<lambda>x. P x \<and> \<not> Q x) xs)"
  by (induction xs) auto

lemma in_lane_iff: "types \<noteq> [] \<Longrightarrow> in_lane types only r \<longleftrightarrow> (row_type r \<in> set types \<longleftrightarrow> only)"
  by (simp add: in_lane_def)

text \<open>C25. Whatever sequence of operations runs on a fresh database, ids ascend, keys, contents, cursors, noise entries, samples and
  shapes are unique, and every review row keeps between one and five raw examples.\<close>

theorem store_reachable_ok:
  assumes "(store_step hsh)\<^sup>*\<^sup>* empty_store st"
  shows "store_ok st"
  using store_sys.inv_reachable [OF assms] by simp

theorem store_reachable_ok_witness:
  "store_ok (mark_sent ''t'' [1] (snd (insert_event Fun.id ''k'' ''join_pu'' ''ts'' ''raw'' ''{}'' ''live'' 0 empty_store)))"
proof (rule store_reachable_ok)
  show "(store_step Fun.id)\<^sup>*\<^sup>* empty_store
      (mark_sent ''t'' [1] (snd (insert_event Fun.id ''k'' ''join_pu'' ''ts'' ''raw'' ''{}'' ''live'' 0 empty_store)))"
    by (meson rtranclp.rtrancl_into_rtrancl rtranclp.rtrancl_refl store_step.Insert store_step.Sent)
qed

text \<open>A line is stored once: an insertion succeeds exactly when neither its position nor its content is known; it then adds one
  pending row behind all others, and the same content is refused from then on, whichever file, offset or key it comes with.\<close>

theorem insert_event_once:
  "case insert_event hsh ikey ty ts rw payload src off st of
     (fresh, st') \<Rightarrow>
       (fresh \<longleftrightarrow> (\<forall>r \<in> set (ls_events st). row_key r \<noteq> ikey \<and> row_content r \<noteq> content_key hsh ty ts rw payload)) \<and>
       (if fresh
        then (\<exists>r. ls_events st' = ls_events st @ [r] \<and> sent_at r = None \<and> row_key r = ikey \<and> row_raw r = rw \<and> row_type r = ty) \<and>
             (\<forall>k src' off'. insert_event hsh k ty ts rw payload src' off' st' = (False, st'))
        else st' = st)"
  by (auto simp: insert_event_def new_row_def list_ex_iff)

theorem insert_event_once_witness:
  "fst (insert_event Fun.id ''k'' ''join_pu'' ''ts'' ''raw'' ''{}'' ''live'' 0 empty_store) \<and>
   insert_event Fun.id ''other'' ''join_pu'' ''ts'' ''raw'' ''{}'' ''ptu'' 7
     (snd (insert_event Fun.id ''k'' ''join_pu'' ''ts'' ''raw'' ''{}'' ''live'' 0 empty_store)) =
   (False, snd (insert_event Fun.id ''k'' ''join_pu'' ''ts'' ''raw'' ''{}'' ''live'' 0 empty_store))"
  using insert_event_once [where hsh = Fun.id and ikey = "''k''" and ty = "''join_pu''" and ts = "''ts''" and rw = "''raw''"
      and payload = "''{}''" and src = "''live''" and off = 0 and st = empty_store]
  by (auto simp: empty_store_def split: prod.splits)

text \<open>The two lanes share out the outbox: with pages at least as long as the backlog, every pending row is in exactly one lane's page.\<close>

theorem lanes_partition:
  assumes "types \<noteq> []" "count_unsent st \<le> limit"
  shows "mset (read_unsent_filtered types True limit st) + mset (read_unsent_filtered types False limit st) =
    mset (read_unsent limit st)"
proof -
  have len: "length (filter (\<lambda>r. sent_at r = None \<and> Q r) (ls_events st)) \<le> limit" for Q
    using assms(2) length_filter_le [of Q "filter (\<lambda>r. sent_at r = None) (ls_events st)"]
    by (simp add: count_unsent_def conj_commute)
  show ?thesis
    using assms len [of "\<lambda>_. True"] filter_split [where P = "\<lambda>r. sent_at r = None" and Q = "\<lambda>r. row_type r \<in> set types" and xs = "ls_events st"]
    by (simp add: read_unsent_def read_unsent_filtered_def in_lane_iff len) (simp add: in_lane_def flip: image_mset_union)
qed

theorem lanes_partition_witness:
  "mset (read_unsent_filtered [''join_pu''] True 5 (snd (insert_event Fun.id ''k'' ''join_pu'' ''ts'' ''raw'' ''{}'' ''live'' 0 empty_store))) +
   mset (read_unsent_filtered [''join_pu''] False 5 (snd (insert_event Fun.id ''k'' ''join_pu'' ''ts'' ''raw'' ''{}'' ''live'' 0 empty_store))) =
   mset (read_unsent 5 (snd (insert_event Fun.id ''k'' ''join_pu'' ''ts'' ''raw'' ''{}'' ''live'' 0 empty_store)))"
  by (rule lanes_partition) (simp_all add: insert_event_def count_unsent_def empty_store_def Let_def)



end
