(* ===== verification/Tail.thy ===== *)
theory Tail
  imports Local_Store Templates
begin

text \<open>
  How the tray client reads a game log (\<open>crates/starstats-client/src/gamelog.rs\<close>, \<open>burst_rules.rs\<close>): the channel of a path, the signature of
  a file and the offset a tail resumes at, the lines of a drain, the stitching of notifications that the game wrote over several lines, the keys
  of rows, the shipped burst rules, and where a backfill may cut a chunk.  A file is its bytes with its creation time; byte offsets are
  naturals, since files stay far below the range of 64 bits.  The lossy decoding of UTF-8, the version-5 hash and chrono are parameters.

  The lemmas show that successive drains of a growing file read every complete line once, what stitching does to the lines, and that no burst
  of the shipped rules is cut by a chunk boundary.
\<close>

section \<open>Files and offsets\<close>

record log_file =
  content :: string
  created_millis :: "nat option"

text \<open>A path as the names of its components; \<open>parent\<close> is the name before the last one.\<close>

definition log_source_from_path :: "string list \<Rightarrow> string" where
  "log_source_from_path pth =
     (let segment = (case rev pth of
                       _ # par # up \<Rightarrow> if par = ''Logs'' then (case up of g # _ \<Rightarrow> Some g | [] \<Rightarrow> None) else Some par
                     | _ \<Rightarrow> None);
          upr = to_ascii_uppercase (unwrap_or ''OTHER'' segment)
      in if upr = ''LIVE'' then ''live'' else if upr = ''PTU'' then ''ptu'' else if upr = ''EPTU'' then ''eptu''
         else if upr = ''HOTFIX'' then ''hotfix'' else if upr = ''TECH-PREVIEW'' then ''tech'' else ''other'')"

definition log_source_enum_from_str :: "string \<Rightarrow> log_source" where
  "log_source_enum_from_str s =
     (if s = ''live'' then Live else if s = ''ptu'' then Ptu else if s = ''eptu'' then Eptu
      else if s = ''hotfix'' then Hotfix else if s = ''tech'' then Tech else Other)"

definition FILE_SIG_HEAD_BYTES :: nat where
  "FILE_SIG_HEAD_BYTES = 512"

definition signature_from_head :: "(string \<Rightarrow> string) \<Rightarrow> nat option \<Rightarrow> string \<Rightarrow> string option" where
  "signature_from_head v5_oid created hd_bytes =
     (if length hd_bytes < FILE_SIG_HEAD_BYTES then None
      else Some (v5_oid (show_nat (unwrap_or 0 created) @ '':'' @ hd_bytes)))"

definition file_signature :: "(string \<Rightarrow> string) \<Rightarrow> log_file \<Rightarrow> string option" where
  "file_signature v5_oid f = signature_from_head v5_oid (created_millis f) (take FILE_SIG_HEAD_BYTES (content f))"

definition resolve_resume_offset :: "nat \<Rightarrow> string option \<Rightarrow> string option \<Rightarrow> nat \<Rightarrow> nat" where
  "resolve_resume_offset stored_offset stored_sig current_sig current_len =
     (if (case (stored_sig, current_sig) of (Some a, Some b) \<Rightarrow> a \<noteq> b | _ \<Rightarrow> False) then 0
      else if current_len < stored_offset then 0
      else stored_offset)"

definition line_key :: "(string \<Rightarrow> string) \<Rightarrow> string \<Rightarrow> string option \<Rightarrow> nat \<Rightarrow> string \<Rightarrow> string" where
  "line_key v5_oid src sig off l =
     v5_oid (case sig of
               Some s \<Rightarrow> src @ '':'' @ s @ '':'' @ show_nat off @ '':'' @ l
             | None \<Rightarrow> src @ '':'' @ show_nat off @ '':'' @ l)"

definition inferred_idempotency_key :: "(string \<Rightarrow> string) \<Rightarrow> string \<Rightarrow> string \<Rightarrow> string" where
  "inferred_idempotency_key v5_oid rid trigger = v5_oid (''inferred:'' @ rid @ '':'' @ trigger)"

section \<open>The lines of a drain\<close>

definition LF :: char where
  "LF = CHR 0x0A"

text \<open>\<open>read_until\<close>: the bytes up to and with the next line feed, or all that is left.\<close>

definition read_until :: "string \<Rightarrow> string \<times> string" where
  "read_until bs = (case dropWhile (\<lambda>c. c \<noteq> LF) bs of [] \<Rightarrow> (bs, []) | c # rest \<Rightarrow> (takeWhile (\<lambda>c. c \<noteq> LF) bs @ [c], rest))"

lemma read_until_append: "read_until bs = (a, b) \<Longrightarrow> bs = a @ b"
  by (auto simp: read_until_def split: list.splits) (metis append.assoc append_Cons append_Nil takeWhile_dropWhile_id)

lemma read_until_nonempty: "bs \<noteq> [] \<Longrightarrow> read_until bs = (a, b) \<Longrightarrow> a \<noteq> []"
  by (auto simp: read_until_def split: list.splits)

lemma read_until_shorter: "(a, b) = read_until bs \<Longrightarrow> bs \<noteq> [] \<Longrightarrow> length b < length bs"
  using read_until_append [of bs a b] read_until_nonempty [of bs a b] by auto

text \<open>The loop of a drain: numbered lines from an offset on, and the offset behind the last complete one.\<close>

function read_lines :: "(string \<Rightarrow> string) \<Rightarrow> nat \<Rightarrow> string \<Rightarrow> (string \<times> nat) list \<times> nat" where
  "read_lines lossy off bs =
     (if bs = [] then ([], off)
      else
        let (raw_bytes, rest) = read_until bs;
            txt = lossy raw_bytes
        in if txt = [] \<or> last txt \<noteq> LF then ([], off)
           else
             let (ls, off') = read_lines lossy (off + length raw_bytes) rest
             in ((trim_end_newlines txt, off) # ls, off'))"
  by pat_completeness auto
termination
  by (relation "measure (\<lambda>(lossy, off, bs). length bs)") (auto dest: read_until_shorter)

declare read_lines.simps [simp del]

section \<open>Stitching\<close>

definition MAX_STITCH_LINES :: nat where
  "MAX_STITCH_LINES = 3"

definition quote_count :: "string \<Rightarrow> nat" where
  "quote_count s = count_list s (CHR 0x22)"

definition unterminated :: "string \<Rightarrow> bool" where
  "unterminated s \<longleftrightarrow> contains_str s (''Added notification '' @ [CHR 0x22]) \<and> quote_count s mod 2 = 1"

definition continuation_body :: "string \<Rightarrow> string" where
  "continuation_body s =
     (case Option.bind (strip_prefix ''<'' s) (split_once ''> '') of Some (_, bd) \<Rightarrow> bd | None \<Rightarrow> s)"

definition looks_like_record_start :: "string \<Rightarrow> bool" where
  "looks_like_record_start s =
     (case Option.bind (strip_prefix ''<'' s) (split_once ''>'') of Some (_, rest) \<Rightarrow> prefix '' ['' rest | None \<Rightarrow> False)"

text \<open>The dry run of a join: how many lines it takes, and whether the quotes are closed.\<close>

fun stitch_run :: "nat \<Rightarrow> nat \<Rightarrow> (string \<times> nat) list \<Rightarrow> nat \<times> bool" where
  "stitch_run quotes consumed rest =
     (if quotes mod 2 = 0 then (consumed, True)
      else if MAX_STITCH_LINES \<le> consumed then (consumed, False)
      else
        case rest of
          [] \<Rightarrow> (consumed, False)
        | (nx, _) # rest' \<Rightarrow>
            if looks_like_record_start nx then (consumed, False)
            else stitch_run (quotes + quote_count (continuation_body nx)) (consumed + 1) rest')"

declare stitch_run.simps [simp del]

definition merge_lines :: "string \<Rightarrow> (string \<times> nat) list \<Rightarrow> string" where
  "merge_lines first conts = foldl (\<lambda>m (l, _). m @ '' '' @ continuation_body l) first conts"

function stitch_multiline_records :: "(string \<times> nat) list \<Rightarrow> (string \<times> nat) list" where
  "stitch_multiline_records [] = []"
| "stitch_multiline_records ((l, off) # rest) =
     (if \<not> unterminated l then (l, off) # stitch_multiline_records rest
      else
        let (consumed, closed) = stitch_run (quote_count l) 1 rest
        in if closed
           then (merge_lines l (take (consumed - 1) rest), off) # stitch_multiline_records (drop (consumed - 1) rest)
           else (l, off) # stitch_multiline_records rest)"
  by pat_completeness auto
termination
  by (relation "measure length") auto

section \<open>Burst rules and chunks\<close>

definition LOADOUT_RESTORE_BURST_RULE_ID :: string where
  "LOADOUT_RESTORE_BURST_RULE_ID = ''loadout_restore_burst''"

definition builtin_burst_rules :: "burst_rule list" where
  "builtin_burst_rules =
     [\<lparr>burst_rule.id = LOADOUT_RESTORE_BURST_RULE_ID, anchor = EventName ''AttachmentReceived'', member = EventName ''AttachmentReceived'',
       tags = [''Inventory''], min_burst_size = 3, max_member_gap = 1\<rparr>,
      \<lparr>burst_rule.id = ''terrain_load_burst'', anchor = EventName ''StatObjLoad 0x800 Format'', member = EventName ''StatObjLoad 0x800 Format'',
       tags = [''CoreTech''], min_burst_size = 5, max_member_gap = 0\<rparr>,
      \<lparr>burst_rule.id = ''hud_notification_burst'', anchor = EventName ''SHUDEvent_OnNotification'', member = EventName ''SHUDEvent_OnNotification'',
       tags = [], min_burst_size = 3, max_member_gap = 0\<rparr>,
      \<lparr>burst_rule.id = ''vehicle_stowed_burst'', anchor = EventName ''VehicleStowed'', member = EventName ''VehicleStowed'',
       tags = [], min_burst_size = 3, max_member_gap = 0\<rparr>]"

definition BURST_CARRY_LINES :: nat where
  "BURST_CARRY_LINES = 256"

definition carry_boundary :: "nat \<Rightarrow> (nat \<times> nat) list \<Rightarrow> nat \<Rightarrow> nat" where
  "carry_boundary len burst_ranges max_carry =
     (if len \<le> max_carry then 0
      else foldl (\<lambda>cut (a, e). if cut \<le> e then min cut a else cut) (len - max_carry) burst_ranges)"

text \<open>The lines that parse, with their places in the buffer.\<close>

definition valid_of :: "log_line option list \<Rightarrow> (nat \<times> log_line) list" where
  "valid_of parsed = concat (map (\<lambda>(i, p). case p of Some l \<Rightarrow> [(i, l)] | None \<Rightarrow> []) (enumerate 0 parsed))"

definition burst_ranges_of :: "(nat \<times> log_line) list \<Rightarrow> burst_hit list \<Rightarrow> (nat \<times> nat) list" where
  "burst_ranges_of valid hits = map (\<lambda>b. (fst (valid ! start_index b), fst (valid ! end_index b))) hits"

text \<open>A panic of the parser would leave the function; \<open>parse_buffer\<close> is the pass that parses every line.\<close>

fun parse_buffer :: "regex_engine \<Rightarrow> (string \<times> nat) list \<Rightarrow> log_line option list exec" where
  "parse_buffer rx [] = Done []"
| "parse_buffer rx ((l, off) # rest) =
     (case structural_parse rx l of
        Panics \<Rightarrow> Panics
      | Done p \<Rightarrow> (case parse_buffer rx rest of Panics \<Rightarrow> Panics | Done ps \<Rightarrow> Done (p # ps)))"

definition burst_buffer_ranges ::
  "chrono_rfc3339 \<Rightarrow> regex_engine \<Rightarrow> (string \<times> nat) list \<Rightarrow> burst_rule list \<Rightarrow> (nat \<times> nat) list exec" where
  "burst_buffer_ranges rfc rx buffer burst_rules =
     (case parse_buffer rx buffer of
        Panics \<Rightarrow> Panics
      | Done parsed \<Rightarrow> Done (burst_ranges_of (valid_of parsed) (detect_bursts rfc (map snd (valid_of parsed)) burst_rules)))"

definition backfill_carry_split ::
  "chrono_rfc3339 \<Rightarrow> regex_engine \<Rightarrow> (string \<times> nat) list \<Rightarrow> burst_rule list \<Rightarrow> nat exec" where
  "backfill_carry_split rfc rx buffer burst_rules =
     (case burst_buffer_ranges rfc rx buffer burst_rules of
        Panics \<Rightarrow> Panics
      | Done ranges \<Rightarrow> Done (carry_boundary (length buffer) ranges BURST_CARRY_LINES))"

section \<open>Ranges of bursts\<close>

text \<open>Sequences with bounded steps.\<close>

definition stepping :: "nat \<Rightarrow> nat list \<Rightarrow> bool" where
  "stepping g ms \<longleftrightarrow> successively (\<lambda>a b. a < b \<and> b \<le> a + g + 1) ms"

lemma stepping_sorted: "stepping g ms \<Longrightarrow> sorted_wrt (<) ms"
proof -
  assume "stepping g ms"
  then have "successively (<) ms" unfolding stepping_def by (rule successively_mono) auto
  then show ?thesis by (subst (asm) successively_conv_sorted_wrt) (auto intro: transpI)
qed

lemma stepping_ends: "stepping g ms \<Longrightarrow> k \<in> set ms \<Longrightarrow> hd ms \<le> k \<and> k \<le> last ms"
proof (induction ms)
  case (Cons m ms)
  then have "\<forall>k \<in> set ms. m < k" "stepping g ms"
    using stepping_sorted [OF Cons.prems(1)] by (auto simp: stepping_def successively_Cons)
  with Cons show ?case by (cases "ms = []") (auto intro: less_imp_le)
qed simp

lemma stepping_cross:
  "stepping g ms \<Longrightarrow> x \<in> set ms \<Longrightarrow> y \<in> set ms \<Longrightarrow> x < c \<Longrightarrow> c \<le> y \<Longrightarrow> \<exists>a\<in>set ms. \<exists>b\<in>set ms. a < c \<and> c \<le> b \<and> b \<le> a + g + 1"
proof (induction ms arbitrary: x)
  case (Cons m ms)
  have sorted: "\<forall>k\<in>set ms. m < k" and steps: "stepping g ms"
    using stepping_sorted [OF Cons.prems(1)] Cons.prems(1) by (auto simp: stepping_def successively_Cons)
  have m: "m < c" using Cons.prems(2,4) sorted by auto
  with Cons.prems(3,5) have y: "y \<in> set ms" by auto
  then have hd: "hd ms \<in> set ms" "hd ms \<le> m + g + 1"
    using Cons.prems(1) by (cases ms; auto simp: stepping_def)+
  show ?case
  proof (cases "hd ms < c")
    case True
    then show ?thesis using Cons.IH [OF steps hd(1) y _ Cons.prems(5)] by auto
  next
    case False
    then show ?thesis using m hd by auto
  qed
qed simp

lemma stepping_one_side:
  assumes "stepping g ms" "g \<le> 1" "s + 2 \<le> e" "\<And>k. k \<in> set ms \<Longrightarrow> \<not> (s \<le> k \<and> k \<le> e)" "ms \<noteq> []"
  shows "last ms < s \<or> e < hd ms"
proof (rule ccontr)
  assume "\<not> (last ms < s \<or> e < hd ms)"
  then have "hd ms < s" "s \<le> last ms" using assms(4) [of "hd ms"] assms(4) [of "last ms"] assms(5) by (auto simp: not_less)
  then obtain a b where ab: "a \<in> set ms" "b \<in> set ms" "a < s" "s \<le> b" "b \<le> a + g + 1"
    using stepping_cross [OF assms(1), of "hd ms" "last ms" s] assms(5) by auto
  then have "e < b" using assms(4) [of b] by auto
  then show False using ab assms(2,3) by linarith
qed

lemma stepping_span: "stepping g ms \<Longrightarrow> ms \<noteq> [] \<Longrightarrow> hd ms + length ms \<le> last ms + 1"
proof (induction ms)
  case (Cons m ms)
  then show ?case by (cases ms) (auto simp: stepping_def successively_Cons)
qed simp

lemma stepping_wide: "stepping g ms \<Longrightarrow> 3 \<le> length ms \<Longrightarrow> ms \<noteq> [] \<and> hd ms + 2 \<le> last ms"
  using stepping_span [of g ms] by force

lemma stepping_contiguous:
  assumes "stepping 0 ms" "ms \<noteq> []" "hd ms \<le> k" "k \<le> last ms"
  shows "k \<in> set ms"
proof (cases "k = hd ms")
  case False
  then obtain a b where ab: "a \<in> set ms" "b \<in> set ms" "a < k" "k \<le> b" "b \<le> a + 0 + 1"
    using stepping_cross [OF assms(1), of "hd ms" "last ms" k] assms by auto
  then have "k = b" by linarith
  with ab show ?thesis by simp
qed (use assms in simp)

text \<open>Two bursts lie apart; a line between the members of a burst does not fit its rule or belongs to another burst.\<close>

definition apart :: "burst_hit \<Rightarrow> burst_hit \<Rightarrow> bool" where
  "apart h h' \<longleftrightarrow> end_index h < start_index h' \<or> end_index h' < start_index h"

definition tight :: "log_line list \<Rightarrow> nat set \<Rightarrow> burst_rule \<Rightarrow> burst_hit \<Rightarrow> bool" where
  "tight win taken rule h \<longleftrightarrow>
     stepping (max_member_gap rule) (member_indices h) \<and> 3 \<le> length (member_indices h) \<and>
     start_index h = hd (member_indices h) \<and> end_index h = last (member_indices h) \<and>
     (\<forall>k. start_index h < k \<and> k < end_index h \<longrightarrow> k \<in> taken \<or> \<not> line_matches (win ! k) (member rule) (burst_rule.tags rule))"

definition shipped :: "burst_rule list \<Rightarrow> bool" where
  "shipped rules \<longleftrightarrow>
     (\<forall>r\<in>set rules. anchor r = member r \<and> 3 \<le> min_burst_size r \<and> max_member_gap r \<le> 1) \<and>
     (\<forall>r\<in>set rules. \<forall>r'\<in>set rules. r \<noteq> r' \<longrightarrow> max_member_gap r = 0 \<or> max_member_gap r' = 0)"

lemma builtin_shipped: "shipped builtin_burst_rules"
  by (auto simp: shipped_def builtin_burst_rules_def)

definition apart_inv :: "log_line list \<Rightarrow> burst_rule list \<Rightarrow> burst_hit list \<Rightarrow> bool" where
  "apart_inv win rules hits \<longleftrightarrow>
     sorted_wrt apart hits \<and> (\<forall>h\<in>set hits. \<exists>rule\<in>set rules. tight win (set (claimed hits)) rule h)"

lemma tight_mono: "tight win taken rule h \<Longrightarrow> taken \<subseteq> taken' \<Longrightarrow> tight win taken' rule h"
  by (auto simp: tight_def)

lemma new_burst_apart:
  assumes "shipped rules" "rule \<in> set rules" "rule' \<in> set rules"
    and old: "tight win taken rule' h" "set (member_indices h) \<subseteq> taken"
    and new: "stepping (max_member_gap rule) ms" "3 \<le> length ms" "set ms \<inter> taken = {}"
    and fits: "\<And>k. k \<in> set ms \<Longrightarrow> line_matches (win ! k) (member rule) (burst_rule.tags rule)"
  shows "end_index h < hd ms \<or> last ms < start_index h"
proof -
  let ?M = "member_indices h"
  have M: "stepping (max_member_gap rule') ?M" "?M \<noteq> []" "start_index h = hd ?M" "end_index h = last ?M" "hd ?M + 2 \<le> last ?M"
    using old(1) stepping_wide [of "max_member_gap rule'" ?M] by (auto simp: tight_def)
  have N: "ms \<noteq> []" "hd ms + 2 \<le> last ms" using stepping_wide [OF new(1,2)] by auto
  have gaps: "max_member_gap rule \<le> 1" "max_member_gap rule' \<le> 1" using assms(1-3) by (auto simp: shipped_def)
  have "rule = rule' \<or> max_member_gap rule' = 0 \<or> max_member_gap rule = 0"
    using assms(1-3) by (auto simp: shipped_def)
  then consider (same) "rule = rule'" | (old) "max_member_gap rule' = 0" | (new) "max_member_gap rule = 0"
    by (elim disjE)
  then show ?thesis
  proof cases
    case new
    have "\<not> (hd ms \<le> k \<and> k \<le> last ms)" if "k \<in> set ?M" for k
      using stepping_contiguous [of ms k] assms(6) new N(1) that old(2) assms(8) by auto
    from stepping_one_side [OF M(1) gaps(2) N(2) this M(2)] show ?thesis by (auto simp: M(3,4))
  next
    case old: old
    have "\<not> (hd ?M \<le> k \<and> k \<le> last ?M)" if "k \<in> set ms" for k
      using stepping_contiguous [of ?M k] M(1,2) old that assms(5,8) by auto
    from stepping_one_side [OF assms(6) gaps(1) M(5) this N(1)] show ?thesis by (auto simp: M(3,4))
  next
    case same
    have "\<not> (hd ?M \<le> k \<and> k \<le> last ?M)" if k: "k \<in> set ms" for k
    proof
      assume "hd ?M \<le> k \<and> k \<le> last ?M"
      moreover have "k \<noteq> hd ?M" "k \<noteq> last ?M" using k assms(5,8) hd_in_set [OF M(2)] last_in_set [OF M(2)] by blast+
      ultimately have "k \<in> taken \<or> \<not> line_matches (win ! k) (member rule) (burst_rule.tags rule)"
        using assms(4) same M(3,4) by (simp add: tight_def)
      then show False using k fits assms(8) by auto
    qed
    from stepping_one_side [OF assms(6) gaps(1) M(5) this N(1)] show ?thesis by (auto simp: M(3,4))
  qed
qed

lemma apart_inv_burst:
  assumes "shipped rules" "scan_inv rfc mx win rules st" "apart_inv win rules (snd st)" "rule \<in> set rules"
    and i: "i < length win" "\<not> fst st ! i" "line_matches (win ! i) (anchor rule) (burst_rule.tags rule)"
    and col: "collect_members rfc mx win (fst st) rule [i] 0 (i + 1) = (ms, j)" "min_burst_size rule \<le> length ms"
  shows "apart_inv win rules (snd st @ [burst_of rule ms])"
proof -
  let ?h = "burst_of rule ms" and ?taken = "set (claimed (snd st))"
  from col(1) i(1) obtain ext where ext: "ms = i # ext" "j \<le> length win" "successively (linked rfc mx win rule) ms"
    "set ext = {k. i + 1 \<le> k \<and> k < j \<and> is_member win (fst st) rule k}"
    by (rule collect_anchor) blast
  have steps: "stepping (max_member_gap rule) ms"
    unfolding stepping_def using ext(3) by (rule successively_mono) (auto simp: linked_def)
  have same: "anchor rule = member rule" "3 \<le> length ms" using assms(1,4) col(2) by (auto simp: shipped_def)
  have taken: "fst st ! k \<longleftrightarrow> k \<in> ?taken" if "k < length win" for k using that assms(2) by (simp add: scan_inv_def)
  have member: "k < length win \<and> k \<notin> ?taken \<and> line_matches (win ! k) (member rule) (burst_rule.tags rule)" if "k \<in> set ms" for k
  proof (cases "k = i")
    case True
    then show ?thesis using i same(1) taken by simp
  next
    case False
    then have "k < length win" "is_member win (fst st) rule k" using that ext by auto
    then show ?thesis using taken by (simp add: is_member_def)
  qed
  have gap: "k \<in> ?taken \<or> \<not> line_matches (win ! k) (member rule) (burst_rule.tags rule)" if "hd ms < k" "k < last ms" "k \<notin> set ms" for k
  proof -
    have "ext \<noteq> []" using same(2) ext(1) by auto
    then have "last ms \<in> set ext" using ext(1) by simp
    then have "k < j" using that(2) ext(4) by auto
    then have "\<not> is_member win (fst st) rule k" using that ext(1,4) by auto
    then show ?thesis using taken [of k] \<open>k < j\<close> ext(2) by (auto simp: is_member_def)
  qed
  have old: "\<exists>r\<in>set rules. tight win ?taken r h" "set (member_indices h) \<subseteq> ?taken" if "h \<in> set (snd st)" for h
    using assms(3) that by (auto simp: apart_inv_def claimed_def)
  have "apart h ?h" if h: "h \<in> set (snd st)" for h
  proof -
    obtain r where "r \<in> set rules" "tight win ?taken r h" using old(1) [OF h] by blast
    with new_burst_apart [OF assms(1,4) _ _ old(2) [OF h] steps same(2)] member show ?thesis
      by (auto simp: apart_def burst_of_def)
  qed
  moreover have "tight win (?taken \<union> set ms) rule ?h"
    using steps same(2) gap by (auto simp: tight_def burst_of_def)
  moreover have "set (claimed (snd st @ [?h])) = ?taken \<union> set ms" by (simp add: claimed_snoc) (simp add: burst_of_def)
  moreover have "\<exists>r\<in>set rules. tight win (?taken \<union> set ms) r h" if "h \<in> set (snd st)" for h
    using old(1) [OF that] tight_mono [of win ?taken] by blast
  ultimately show ?thesis using assms(3,4)
    by (auto simp: apart_inv_def sorted_wrt_append)
qed

lemma scan_rule_apart:
  "shipped rules \<Longrightarrow> scan_inv rfc mx win rules st \<Longrightarrow> apart_inv win rules (snd st) \<Longrightarrow> rule \<in> set rules \<Longrightarrow>
     apart_inv win rules (snd (scan_rule rfc mx win rule st i))"
proof (induction rfc mx win rule st i rule: scan_rule.induct)
  case (1 rfc mx win rule st i)
  then show ?case
    by (subst scan_rule.simps) (auto simp: Let_def scan_inv_burst apart_inv_burst split: prod.split)
qed

lemma scan_rules_apart:
  "shipped rules \<Longrightarrow> set rs \<subseteq> set rules \<Longrightarrow> scan_inv rfc mx win rules st \<Longrightarrow> apart_inv win rules (snd st) \<Longrightarrow>
     apart_inv win rules (snd (foldl (\<lambda>st rule. scan_rule rfc mx win rule st 0) st rs))"
  by (induction rs arbitrary: st) (auto simp: scan_rule_inv scan_rule_apart)

text \<open>The hits of the shipped rules are sorted and disjoint ranges.\<close>

lemma insort_apart:
  assumes "sorted_wrt (\<lambda>h h'. end_index h < start_index h') hits" "\<And>h. h \<in> set hits \<Longrightarrow> apart x h \<and> start_index h \<le> end_index h"
    and "start_index x \<le> end_index x"
  shows "sorted_wrt (\<lambda>h h'. end_index h < start_index h') (insort_key start_index x hits)"
  using assms
proof (induction hits)
  case (Cons y ys)
  show ?case
  proof (cases "start_index x \<le> start_index y")
    case True
    then have "end_index x < start_index h" if "h \<in> set (y # ys)" for h
      using Cons.prems that by (fastforce simp: apart_def)
    then show ?thesis using True Cons.prems(1) by simp
  next
    case False
    then have "end_index y < start_index x" using Cons.prems by (fastforce simp: apart_def)
    then show ?thesis using False Cons by (simp add: set_insort_key)
  qed
qed simp

lemma sort_apart:
  "sorted_wrt apart hits \<Longrightarrow> (\<And>h. h \<in> set hits \<Longrightarrow> start_index h \<le> end_index h) \<Longrightarrow>
     sorted_wrt (\<lambda>h h'. end_index h < start_index h') (sort_key start_index hits)"
  by (induction hits) (auto intro!: insort_apart)

lemma detect_bursts_apart:
  assumes "shipped rules"
  shows "sorted_wrt (\<lambda>h h'. end_index h < start_index h') (detect_bursts rfc win rules) \<and>
    (\<forall>h\<in>set (detect_bursts rfc win rules). start_index h \<le> end_index h \<and> end_index h < length win)"
proof -
  define hits where "hits = snd (foldl (\<lambda>st rule. scan_rule rfc None win rule st 0) (replicate (length win) False, []) rules)"
  have inv: "apart_inv win rules hits"
    unfolding hits_def by (rule scan_rules_apart [OF assms subset_refl scan_inv_start]) (simp add: apart_inv_def)
  have "scan_inv rfc None win rules (foldl (\<lambda>st rule. scan_rule rfc None win rule st 0) (replicate (length win) False, []) rules)"
    by (rule scan_rules_inv [OF subset_refl scan_inv_start])
  then have ok: "\<forall>h\<in>set hits. burst_ok rfc None win rules h" unfolding hits_def scan_inv_def by blast
  have out: "detect_bursts rfc win rules = (if win = [] then [] else sort_key start_index hits)"
    by (simp add: detect_bursts_def detect_bursts_inner_def split_beta hits_def)
  have range: "start_index h \<le> end_index h \<and> end_index h < length win" if h: "h \<in> set hits" for h
  proof -
    obtain r where t: "tight win (set (claimed hits)) r h" using inv h by (auto simp: apart_inv_def)
    then have ne: "member_indices h \<noteq> []" by (auto simp: tight_def)
    then have "hd (member_indices h) \<le> last (member_indices h)"
      using t stepping_ends [of "max_member_gap r" "member_indices h" "last (member_indices h)"] by (simp add: tight_def)
    moreover have "\<forall>k\<in>set (member_indices h). k < length win" using ok h unfolding burst_ok_def by blast
    ultimately show ?thesis using t ne by (simp add: tight_def)
  qed
  have "sorted_wrt (\<lambda>h h'. end_index h < start_index h') (sort_key start_index hits)"
    using inv range by (intro sort_apart) (auto simp: apart_inv_def)
  then show ?thesis using range by (simp add: out)
qed

text \<open>A fold over sorted disjoint ranges never ends inside one of them.\<close>

definition clear_of :: "nat \<Rightarrow> nat \<times> nat \<Rightarrow> bool" where
  "clear_of c r \<longleftrightarrow> snd r < c \<or> c \<le> fst r"

lemma carry_fold:
  "sorted_wrt (\<lambda>r r'. snd r < fst r') ranges \<Longrightarrow>
     \<forall>r\<in>set ranges. clear_of (foldl (\<lambda>cut (a, e). if cut \<le> e then min cut a else cut) c ranges) r"
proof (induction ranges rule: rev_induct)
  case (snoc r ranges)
  obtain a e where r: "r = (a, e)" by (cases r)
  let ?cut = "foldl (\<lambda>cut (a, e). if cut \<le> e then min cut a else cut) c ranges"
  have IH: "clear_of ?cut q" and before: "snd q < a" if "q \<in> set ranges" for q
    using snoc that by (auto simp: sorted_wrt_append r)
  have "clear_of (if ?cut \<le> e then min ?cut a else ?cut) q" if "q \<in> set ranges" for q
    using IH [OF that] before [OF that] by (auto simp: clear_of_def)
  moreover have "clear_of (if ?cut \<le> e then min ?cut a else ?cut) r" by (auto simp: clear_of_def r)
  ultimately show ?case by (simp add: r)
qed simp

lemma foldl_cut_le: "foldl (\<lambda>cut (a, e). if cut \<le> e then min cut a else cut) c ranges \<le> (c :: nat)"
proof (induction ranges arbitrary: c)
  case (Cons r rs)
  obtain a e where r: "r = (a, e)" by (cases r)
  show ?case using Cons.IH [of "min c a"] Cons.IH [of c] by (simp add: r)
qed simp

lemma valid_of_ascending: "sorted_wrt (\<lambda>p q. fst p < fst q) (valid_of parsed)"
proof -
  have "sorted_wrt (\<lambda>p q. fst p < fst q) (concat (map (\<lambda>(i, p). case p of Some l \<Rightarrow> [(i, l)] | None \<Rightarrow> []) (enumerate k parsed))) \<and>
      (\<forall>p\<in>set (concat (map (\<lambda>(i, p). case p of Some l \<Rightarrow> [(i, l)] | None \<Rightarrow> []) (enumerate k parsed))). k \<le> fst p)" for k
    by (induction parsed arbitrary: k) (fastforce split: option.splits dest: Suc_leD)+
  then show ?thesis by (simp add: valid_of_def)
qed

lemma carry_boundary_clear:
  assumes "sorted_wrt (\<lambda>r r'. snd r < fst r') ranges"
  shows "(\<forall>r\<in>set ranges. clear_of (carry_boundary len ranges max_carry) r) \<and> carry_boundary len ranges max_carry \<le> len - max_carry"
  using carry_fold [OF assms] foldl_cut_le by (auto simp: carry_boundary_def clear_of_def)

lemma burst_ranges_ascending:
  assumes "sorted_wrt (\<lambda>h h'. end_index h < start_index h') hits" "\<forall>h\<in>set hits. start_index h \<le> end_index h \<and> end_index h < length valid"
    and "sorted_wrt (\<lambda>p q. fst p < fst q) valid"
  shows "sorted_wrt (\<lambda>r r'. snd r < fst r') (burst_ranges_of valid hits)"
proof -
  have "fst (valid ! end_index h) < fst (valid ! start_index h')" if "end_index h < start_index h'" "h' \<in> set hits" for h h'
    using that assms(2,3) by (intro sorted_wrt_nth_less [of _ valid, OF assms(3)]) auto
  then show ?thesis
    unfolding burst_ranges_of_def sorted_wrt_map fst_conv snd_conv by (intro sorted_wrt_mono_rel [OF _ assms(1)])
qed

section \<open>Reading\<close>

text \<open>Where a tail stands: the offset of the next line, and the signature of the file it was read from.\<close>

record tail_pos =
  tail_offset :: nat
  tail_sig :: "string option"

definition drain_read :: "(string \<Rightarrow> string) \<Rightarrow> (string \<Rightarrow> string) \<Rightarrow> log_file \<Rightarrow> tail_pos \<Rightarrow> (string \<times> nat) list \<times> tail_pos" where
  "drain_read v5_oid lossy f pos =
     (let current_sig = file_signature v5_oid f;
          off = resolve_resume_offset (tail_offset pos) (tail_sig pos) current_sig (length (content f))
      in if length (content f) = off then ([], \<lparr>tail_offset = off, tail_sig = current_sig\<rparr>)
         else
           let (ls, off') = read_lines lossy off (drop off (content f))
           in (ls, \<lparr>tail_offset = off', tail_sig = current_sig\<rparr>))"

text \<open>What the lossy decoding documents: it neither adds nor drops the line feed at the end of a line.\<close>

definition keeps_newline :: "(string \<Rightarrow> string) \<Rightarrow> bool" where
  "keeps_newline lossy \<longleftrightarrow> (\<forall>s. s \<noteq> [] \<longrightarrow> lossy s \<noteq> [] \<and> (last (lossy s) = LF \<longleftrightarrow> last s = LF))"

lemma read_until_line: "LF \<notin> set a \<Longrightarrow> read_until (a @ LF # b) = (a @ [LF], b)"
  by (induction a) (auto simp: read_until_def split: list.splits)

lemma read_until_rest: "LF \<notin> set a \<Longrightarrow> read_until a = (a, [])"
proof -
  assume "LF \<notin> set a"
  then have "dropWhile (\<lambda>c. c \<noteq> LF) a = []" by auto
  then show ?thesis by (simp only: read_until_def list.case)
qed

lemma read_lines_nil [simp]: "read_lines lossy off [] = ([], off)"
  by (subst read_lines.simps) simp

lemma read_lines_partial:
  assumes "keeps_newline lossy" "LF \<notin> set a"
  shows "read_lines lossy off a = ([], off)"
proof (cases a rule: rev_cases)
  case (snoc b c)
  then have "last a \<noteq> LF" "a \<noteq> []" using assms(2) by auto
  then show ?thesis using assms by (subst read_lines.simps) (simp add: read_until_rest keeps_newline_def)
qed simp

lemma read_lines_line:
  assumes "keeps_newline lossy" "LF \<notin> set a"
  shows "read_lines lossy off (a @ LF # b) =
    (let (ls, off') = read_lines lossy (off + length a + 1) b in ((trim_end_newlines (lossy (a @ [LF])), off) # ls, off'))"
proof -
  have "lossy (a @ [LF]) \<noteq> [] \<and> last (lossy (a @ [LF])) = LF" using assms(1) by (simp add: keeps_newline_def)
  then show ?thesis using assms(2) by (subst read_lines.simps) (simp add: read_until_line)
qed

text \<open>Reading on from where an earlier, shorter version of the file left off.\<close>

lemma read_lines_grow:
  assumes "keeps_newline lossy" "read_lines lossy off c = (ls, off')"
  shows "off \<le> off' \<and> off' \<le> off + length c \<and>
    read_lines lossy off (c @ ext) =
      (let (ls', off'') = read_lines lossy off' (drop (off' - off) (c @ ext)) in (ls @ ls', off''))"
  using assms(2)
proof (induction "length c" arbitrary: c off ls rule: less_induct)
  case less
  show ?case
  proof (cases "LF \<in> set c")
    case False
    then have "ls = []" "off' = off" using read_lines_partial [OF assms(1)] less.prems by auto
    then show ?thesis by (simp add: split_beta)
  next
    case True
    then obtain a b where c: "c = a @ LF # b" "LF \<notin> set a" by (meson split_list_first)
    obtain ls1 where rest: "read_lines lossy (off + length a + 1) b = (ls1, off')" "ls = (trim_end_newlines (lossy (a @ [LF])), off) # ls1"
      using less.prems read_lines_line [OF assms(1) c(2)] by (auto simp: c(1) split: prod.splits)
    have IH: "off + length a + 1 \<le> off' \<and> off' \<le> off + length a + 1 + length b \<and>
        read_lines lossy (off + length a + 1) (b @ ext) =
          (let (ls', off'') = read_lines lossy off' (drop (off' - (off + length a + 1)) (b @ ext)) in (ls1 @ ls', off''))"
      by (rule less.hyps [OF _ rest(1)]) (simp add: c(1))
    moreover have "drop (off' - off) (c @ ext) = drop (off' - (off + length a + 1)) (b @ ext)"
      using IH le_Suc_ex [of "off + length a + 1" off'] by (auto simp: c(1))
    ultimately show ?thesis using read_lines_line [OF assms(1) c(2), of off "b @ ext"]
      by (auto simp: c(1) rest(2) split_beta Let_def)
  qed
qed

lemma resume_same_file:
  assumes "prefix (content f) (content g)" "created_millis f = created_millis g" "off \<le> length (content f)"
  shows "resolve_resume_offset off (file_signature v5_oid f) (file_signature v5_oid g) (length (content g)) = off"
proof -
  have "file_signature v5_oid f = None \<or> file_signature v5_oid f = file_signature v5_oid g"
    using assms(1,2) by (auto simp: file_signature_def signature_from_head_def prefix_def take_append)
  then show ?thesis using assms(1,3) prefix_length_le [OF assms(1)]
    by (auto simp: resolve_resume_offset_def split: option.splits)
qed

lemma drain_read_lines:
  assumes "keeps_newline lossy" "off = resolve_resume_offset (tail_offset pos) (tail_sig pos) (file_signature v5_oid f) (length (content f))"
  shows "drain_read v5_oid lossy f pos =
    (let (ls, off') = read_lines lossy off (drop off (content f)) in (ls, \<lparr>tail_offset = off', tail_sig = file_signature v5_oid f\<rparr>))"
  using assms by (auto simp: drain_read_def Let_def)

fun drain_reads :: "(string \<Rightarrow> string) \<Rightarrow> (string \<Rightarrow> string) \<Rightarrow> log_file list \<Rightarrow> tail_pos \<Rightarrow> (string \<times> nat) list \<times> tail_pos" where
  "drain_reads v5_oid lossy [] pos = ([], pos)"
| "drain_reads v5_oid lossy (f # fs) pos =
     (let (ls, pos') = drain_read v5_oid lossy f pos; (ls', pos'') = drain_reads v5_oid lossy fs pos' in (ls @ ls', pos''))"

definition grows :: "log_file \<Rightarrow> log_file \<Rightarrow> bool" where
  "grows f g \<longleftrightarrow> created_millis f = created_millis g \<and> prefix (content f) (content g)"

lemma drain_reads_grow:
  assumes "keeps_newline lossy" "successively grows (f # fs)"
    and "read_lines lossy 0 (content f) = (ls0, off)" "pos = \<lparr>tail_offset = off, tail_sig = file_signature v5_oid f\<rparr>"
  shows "drain_reads v5_oid lossy fs pos = (ls, pos') \<Longrightarrow>
    ls0 @ ls = fst (read_lines lossy 0 (content (last (f # fs)))) \<and>
    pos' = \<lparr>tail_offset = snd (read_lines lossy 0 (content (last (f # fs)))), tail_sig = file_signature v5_oid (last (f # fs))\<rparr>"
  using assms(2-)
proof (induction fs arbitrary: f ls0 off pos ls)
  case (Cons g fs)
  obtain ext where g: "content g = content f @ ext" "created_millis f = created_millis g"
    using Cons.prems(2) by (auto simp: grows_def prefix_def)
  have off: "off \<le> length (content f)" using read_lines_grow [OF assms(1) Cons.prems(3), of "[]"] by simp
  have resume: "off = resolve_resume_offset (tail_offset pos) (tail_sig pos) (file_signature v5_oid g) (length (content g))"
    using resume_same_file [of f g off v5_oid] g off Cons.prems(4) by simp
  obtain ls1 off1 where step: "read_lines lossy off (drop off (content g)) = (ls1, off1)" by fastforce
  have all: "read_lines lossy 0 (content g) = (ls0 @ ls1, off1)"
    using read_lines_grow [OF assms(1) Cons.prems(3), of ext] step by (simp add: g(1))
  obtain ls2 where rest: "drain_reads v5_oid lossy fs \<lparr>tail_offset = off1, tail_sig = file_signature v5_oid g\<rparr> = (ls2, pos')" "ls = ls1 @ ls2"
    using Cons.prems(1) drain_read_lines [OF assms(1) resume] step by (auto split: prod.splits)
  have "successively grows (g # fs)" using Cons.prems(2) by (simp add: successively_Cons)
  from Cons.IH [OF rest(1) this all refl] show ?case by (simp add: rest(2))
qed simp

section \<open>Stitched groups\<close>

definition merge_group :: "(string \<times> nat) list \<Rightarrow> string \<times> nat" where
  "merge_group g = (merge_lines (fst (hd g)) (tl g), snd (hd g))"

definition group_quotes :: "(string \<times> nat) list \<Rightarrow> nat" where
  "group_quotes g = quote_count (fst (hd g)) + sum_list (map (\<lambda>(l, _). quote_count (continuation_body l)) (tl g))"

definition group_ok :: "(string \<times> nat) list \<Rightarrow> bool" where
  "group_ok g \<longleftrightarrow>
     g \<noteq> [] \<and> length g \<le> MAX_STITCH_LINES \<and>
     (length g = 1 \<or>
      unterminated (fst (hd g)) \<and> group_quotes g mod 2 = 0 \<and> list_all (\<lambda>(l, _). \<not> looks_like_record_start l) (tl g))"

lemma stitch_run_spec:
  "stitch_run q k rest = (k', True) \<Longrightarrow> k \<le> MAX_STITCH_LINES \<Longrightarrow>
     k \<le> k' \<and> k' \<le> MAX_STITCH_LINES \<and> k' - k \<le> length rest \<and>
     (q + sum_list (map (\<lambda>(l, _). quote_count (continuation_body l)) (take (k' - k) rest))) mod 2 = 0 \<and>
     list_all (\<lambda>(l, _). \<not> looks_like_record_start l) (take (k' - k) rest)"
proof (induction q k rest rule: stitch_run.induct)
  case (1 q k rest)
  show ?case
  proof (cases "q mod 2 = 0")
    case True
    then show ?thesis using "1.prems" by (subst (asm) stitch_run.simps) auto
  next
    case False
    then obtain nx off rest' where rest: "rest = (nx, off) # rest'" "k < MAX_STITCH_LINES" "\<not> looks_like_record_start nx"
        "stitch_run (q + quote_count (continuation_body nx)) (k + 1) rest' = (k', True)"
      using "1.prems" by (subst (asm) stitch_run.simps) (auto split: if_splits list.splits)
    from "1.IH" [OF False _ rest(1) refl rest(3,4)] rest(2) have IH: "k + 1 \<le> k'" "k' \<le> MAX_STITCH_LINES" "k' - (k + 1) \<le> length rest'"
        "(q + quote_count (continuation_body nx) + sum_list (map (\<lambda>(l, _). quote_count (continuation_body l)) (take (k' - (k + 1)) rest'))) mod 2 = 0"
        "list_all (\<lambda>(l, _). \<not> looks_like_record_start l) (take (k' - (k + 1)) rest')"
      by auto
    obtain d where d: "k' = k + 1 + d" using IH(1) le_Suc_ex by blast
    show ?thesis using IH rest(1,3) by (simp add: d add.assoc)
  qed
qed

lemma stitch_grouping:
  "\<exists>gs. concat gs = lines \<and> map merge_group gs = stitch_multiline_records lines \<and> list_all group_ok gs"
proof (induction lines rule: stitch_multiline_records.induct)
  case (2 l off rest)
  have alone: "group_ok [(l, off)]" "merge_group [(l, off)] = (l, off)"
    by (simp_all add: group_ok_def merge_group_def merge_lines_def MAX_STITCH_LINES_def)
  obtain k closed where run: "stitch_run (quote_count l) 1 rest = (k, closed)" by fastforce
  show ?case
  proof (cases "unterminated l \<and> closed")
    case False
    then have "stitch_multiline_records ((l, off) # rest) = (l, off) # stitch_multiline_records rest" using run by auto
    moreover have "\<exists>gs. concat gs = rest \<and> map merge_group gs = stitch_multiline_records rest \<and> list_all group_ok gs"
      using False run "2.IH"(1) "2.IH"(3) [OF _ run [symmetric] refl] by (cases "unterminated l") auto
    then obtain gs where "concat gs = rest" "map merge_group gs = stitch_multiline_records rest" "list_all group_ok gs" by blast
    ultimately show ?thesis using alone by (intro exI [of _ "[(l, off)] # gs"]) simp
  next
    case True
    let ?g = "(l, off) # take (k - 1) rest"
    have spec: "k \<le> MAX_STITCH_LINES" "k - 1 \<le> length rest" "group_quotes ?g mod 2 = 0"
        "list_all (\<lambda>(l, _). \<not> looks_like_record_start l) (take (k - 1) rest)" "1 \<le> k"
      using stitch_run_spec [of "quote_count l" 1 rest k] run True by (auto simp: group_quotes_def MAX_STITCH_LINES_def)
    have "\<exists>gs. concat gs = drop (k - 1) rest \<and> map merge_group gs = stitch_multiline_records (drop (k - 1) rest) \<and> list_all group_ok gs"
      using True "2.IH"(2) [OF _ run [symmetric] refl] by auto
    then obtain gs where gs: "concat gs = drop (k - 1) rest" "map merge_group gs = stitch_multiline_records (drop (k - 1) rest)" "list_all group_ok gs"
      by blast
    have "group_ok ?g" using spec True by (auto simp: group_ok_def)
    moreover have "stitch_multiline_records ((l, off) # rest) = merge_group ?g # stitch_multiline_records (drop (k - 1) rest)"
      using True run by (simp add: merge_group_def)
    ultimately show ?thesis using gs by (intro exI [of _ "?g # gs"]) simp
  qed
qed simp

section \<open>Properties\<close>

text \<open>C10. A tail reads every complete line once.  Over any sequence of drains of a file that only grows between them, from a first drain that
  starts at the head (a fresh tail, a rotated or a truncated file), the lines read are together the complete lines of the last version, in
  order and with their offsets, and the tail stands behind the last of them.\<close>

theorem tail_reads_each_line_once:
  assumes "keeps_newline lossy" "successively grows (f # fs)"
    and "resolve_resume_offset (tail_offset pos) (tail_sig pos) (file_signature v5_oid f) (length (content f)) = 0"
  shows "drain_reads v5_oid lossy (f # fs) pos =
    (fst (read_lines lossy 0 (content (last (f # fs)))),
     \<lparr>tail_offset = snd (read_lines lossy 0 (content (last (f # fs)))), tail_sig = file_signature v5_oid (last (f # fs))\<rparr>)"
proof -
  obtain ls0 off where first: "read_lines lossy 0 (content f) = (ls0, off)" by fastforce
  obtain ls pos' where rest: "drain_reads v5_oid lossy fs \<lparr>tail_offset = off, tail_sig = file_signature v5_oid f\<rparr> = (ls, pos')" by fastforce
  from drain_reads_grow [OF assms(1,2) first refl rest] show ?thesis
    using drain_read_lines [OF assms(1) assms(3) [symmetric]] first rest by simp
qed

theorem tail_reads_each_line_once_witness:
  "fst (drain_reads Fun.id Fun.id [\<lparr>content = ''ab'' @ [LF] @ ''c'', created_millis = None\<rparr>, \<lparr>content = ''ab'' @ [LF] @ ''cd'' @ [LF] @ ''e'', created_millis = None\<rparr>]
     \<lparr>tail_offset = 99, tail_sig = None\<rparr>) = [(''ab'', 0), (''cd'', 3)]"
proof -
  let ?f = "\<lparr>content = ''ab'' @ [LF] @ ''c'', created_millis = None\<rparr>"
  let ?g = "\<lparr>content = ''ab'' @ [LF] @ ''cd'' @ [LF] @ ''e'', created_millis = None\<rparr>"
  have "keeps_newline Fun.id" by (simp add: keeps_newline_def)
  moreover have "successively grows [?f, ?g]" by (simp add: grows_def)
  moreover have "resolve_resume_offset 99 None (file_signature Fun.id ?f) (length (content ?f)) = 0" by (simp add: resolve_resume_offset_def)
  moreover have "fst (read_lines Fun.id 0 (content ?g)) = [(''ab'', 0), (''cd'', 3)]" by code_simp
  ultimately show ?thesis
    using tail_reads_each_line_once [of Fun.id ?f "[?g]" "\<lparr>tail_offset = 99, tail_sig = None\<rparr>" Fun.id] by simp
qed

text \<open>Stitching only groups lines.  The records it returns are the lines cut into consecutive groups of at most three, each merged and kept at the offset of
  its first line; a group of more than one line starts with an unterminated notification, closes its quotes, and swallows no line that starts
  a record of its own.\<close>

theorem stitch_groups_lines:
  "\<exists>gs. concat gs = lines \<and> map merge_group gs = stitch_multiline_records lines \<and> list_all group_ok gs"
  by (rule stitch_grouping)

text \<open>With the shipped rules a backfill chunk is never cut inside a burst: every burst of the buffer ends before the cut or starts at or
  behind it, and the carried tail holds at least the lines of the carry window.\<close>

theorem backfill_cut_spares_bursts:
  assumes "burst_buffer_ranges rfc rx buffer builtin_burst_rules = Done ranges"
    and "backfill_carry_split rfc rx buffer builtin_burst_rules = Done c"
  shows "(\<forall>r\<in>set ranges. snd r < c \<or> c \<le> fst r) \<and> c \<le> length buffer - BURST_CARRY_LINES"
proof -
  obtain parsed where ranges: "ranges = burst_ranges_of (valid_of parsed) (detect_bursts rfc (map snd (valid_of parsed)) builtin_burst_rules)"
    using assms(1) by (auto simp: burst_buffer_ranges_def split: exec.splits)
  have "sorted_wrt (\<lambda>r r'. snd r < fst r') ranges"
    unfolding ranges using detect_bursts_apart [OF builtin_shipped, of rfc "map snd (valid_of parsed)"] valid_of_ascending
    by (intro burst_ranges_ascending) auto
  moreover have "c = carry_boundary (length buffer) ranges BURST_CARRY_LINES"
    using assms by (simp add: backfill_carry_split_def)
  ultimately show ?thesis using carry_boundary_clear by (auto simp: clear_of_def)
qed

definition stowed_engine :: regex_engine where
  "stowed_engine re s =
     (if re = SHELL_RE \<and> s = ''v''
      then Some \<lparr>named = (\<lambda>g. if g = ''ts'' then Some ''t'' else if g = ''event'' then Some ''VehicleStowed'' else None), groups = (\<lambda>_. None)\<rparr>
      else None)"

definition sample_chunk :: "(string \<times> nat) list" where
  "sample_chunk = replicate 2 (''x'', 0) @ replicate 3 (''v'', 0) @ replicate 255 (''x'', 0)"

theorem backfill_cut_spares_bursts_witness:
  "burst_buffer_ranges (\<lambda>_. None) stowed_engine sample_chunk builtin_burst_rules = Done [(2, 4)] \<and>
   (\<exists>c. backfill_carry_split (\<lambda>_. None) stowed_engine sample_chunk builtin_burst_rules = Done c \<and> c \<le> 2)"
proof -
  have r: "burst_buffer_ranges (\<lambda>_. None) stowed_engine sample_chunk builtin_burst_rules = Done [(2, 4)]" by code_simp
  then obtain c where c: "backfill_carry_split (\<lambda>_. None) stowed_engine sample_chunk builtin_burst_rules = Done c"
    by (simp add: backfill_carry_split_def)
  have "length sample_chunk = 260" by (simp add: sample_chunk_def)
  with backfill_cut_spares_bursts [OF r c] r c show ?thesis by (auto simp: BURST_CARRY_LINES_def)
qed

end
