(* ===== verification/Classify.thy ===== *)
theory Classify
  imports Parser Metadata
begin

text \<open>
  The second pass of the log parser (\<open>classify\<close> and \<open>classify_body_prefix\<close> of \<open>crates/starstats-core/src/parser.rs\<close>):
  one definition per arm of the dispatch on the event name, one per branch of the scan of the body.  An arm takes the regex
  engine, the line's timestamp and its body; \<open>Return\<close> is an early exit of \<open>classify\<close> (a \<open>?\<close> that failed, or \<open>return\<close>), \<open>Go\<close>
  the value of the \<open>match\<close>.

  The lemmas show that no arm panics on the groups it reads, that every event carries the timestamp of its line, which
  events each route can produce, and that a recognised event name whose pattern fails ends the classification: the scan of the
  body only runs for names without an arm.
\<close>

type_synonym arm = "(game_event option, game_event option) flow"

section \<open>Arms of the dispatch on the event name\<close>

definition classify_process_init :: "regex_engine \<Rightarrow> string \<Rightarrow> string \<Rightarrow> arm" where
  "classify_process_init rx ts bd =
     ask (rx PROCESS_INIT_RE bd) (\<lambda>c. index c ''local'' (\<lambda>l. index c ''env'' (\<lambda>e. index c ''online'' (\<lambda>o'.
       Go (Some (ProcessInit \<lparr>process_init.timestamp = ts, local_session = trim l, env_session = trim e,
                              online = (o' = ''1'')\<rparr>))))))"

definition classify_legacy_login :: "regex_engine \<Rightarrow> string \<Rightarrow> string \<Rightarrow> arm" where
  "classify_legacy_login rx ts bd =
     ask (rx LEGACY_LOGIN_RE bd) (\<lambda>c. index c ''handle'' (\<lambda>h.
       Go (Some (LegacyLogin \<lparr>legacy_login.timestamp = ts, handle = h, server_time = named c ''time''\<rparr>))))"

definition classify_join_pu :: "regex_engine \<Rightarrow> string \<Rightarrow> string \<Rightarrow> arm" where
  "classify_join_pu rx ts bd =
     ask (rx JOIN_PU_RE bd) (\<lambda>c. index c ''address'' (\<lambda>a. index c ''port'' (\<lambda>p. ask (parse_unsigned 16 p) (\<lambda>pn.
       index c ''shard'' (\<lambda>sh. index c ''loc'' (\<lambda>l.
         Go (Some (JoinPu \<lparr>join_pu.timestamp = ts, address = a, join_pu.port = word_of_int pn, join_pu.shard = sh,
                           location_id = l\<rparr>))))))))"

definition classify_change_server :: "regex_engine \<Rightarrow> string \<Rightarrow> string \<Rightarrow> string \<Rightarrow> arm" where
  "classify_change_server rx ev ts bd =
     ask (rx CHANGE_SERVER_RE bd) (\<lambda>c.
       let ph = (if ev = ''Change Server Start'' then Start else End)
       in index c ''shard'' (\<lambda>sh. index c ''server'' (\<lambda>sv. index c ''mp'' (\<lambda>mp.
            Go (Some (ChangeServer \<lparr>change_server.timestamp = ts, change_server.phase = ph, is_shard_persisted = (sh = ''1''),
                                    is_server = (sv = ''1''), is_multiplayer = (mp = ''1''),
                                    is_online = map_option (\<lambda>m. m = ''1'') (named c ''online'')\<rparr>))))))"

definition classify_seed_solar_system :: "regex_engine \<Rightarrow> string \<Rightarrow> string \<Rightarrow> string \<Rightarrow> arm" where
  "classify_seed_solar_system rx ev ts bd =
     ask (rx SEED_SS_RE bd) (\<lambda>c. index c ''ss'' (\<lambda>ss. index c ''shard'' (\<lambda>sh.
       Go (Some (SeedSolarSystem \<lparr>seed_solar_system.timestamp = ts, solar_system = ss, seed_solar_system.shard = sh,
                                  seed_solar_system.success = (ev = ''Seed Solar System Success'')\<rparr>)))))"

definition classify_resolve_spawn :: "regex_engine \<Rightarrow> string \<Rightarrow> string \<Rightarrow> arm" where
  "classify_resolve_spawn rx ts bd =
     ask (rx RESOLVE_SPAWN_RE bd) (\<lambda>c. index c ''geid'' (\<lambda>g.
       Go (Some (ResolveSpawn \<lparr>resolve_spawn.timestamp = ts, player_geid = g, fallback = True\<rparr>))))"

definition split_vehicle_zone :: "string \<Rightarrow> string \<times> string option" where
  "split_vehicle_zone zn =
     (case rsplit_once (CHR ''_'') zn of
        Some (h, t) \<Rightarrow> if h \<noteq> [] \<and> list_all is_ascii_digit t then (h, Some t) else (zn, None)
      | None \<Rightarrow> (zn, None))"

definition classify_actor_ejected :: "regex_engine \<Rightarrow> string \<Rightarrow> string \<Rightarrow> arm" where
  "classify_actor_ejected rx ts bd =
     ask (rx ACTOR_EJECTED_RE bd) (\<lambda>c. index c ''from'' (\<lambda>fz.
       let (vc, vid) = split_vehicle_zone fz
       in index c ''actor'' (\<lambda>a. index c ''to'' (\<lambda>tz.
            Go (Some (ActorEjected \<lparr>actor_ejected.timestamp = ts, actor = a, actor_geid = named c ''ageid'',
                                    actor_ejected.vehicle_class = vc, actor_ejected.vehicle_id = vid, to_zone = tz\<rparr>))))))"

definition classify_actor_death :: "regex_engine \<Rightarrow> string \<Rightarrow> string \<Rightarrow> arm" where
  "classify_actor_death rx ts bd =
     ask (rx ACTOR_DEATH_RE bd) (\<lambda>c. index c ''victim'' (\<lambda>v. index c ''zone'' (\<lambda>z. index c ''killer'' (\<lambda>k.
       index c ''weapon'' (\<lambda>w. index c ''dmg'' (\<lambda>d.
         Go (Some (ActorDeath \<lparr>actor_death.timestamp = ts, victim = v, victim_geid = named c ''vgeid'', actor_death.zone = z,
                               killer = k, killer_geid = named c ''kgeid'', weapon = w, damage_type = d\<rparr>))))))))"

definition classify_vehicle_destruction :: "regex_engine \<Rightarrow> string \<Rightarrow> string \<Rightarrow> arm" where
  "classify_vehicle_destruction rx ts bd =
     ask (rx VEHICLE_DESTRUCTION_RE bd) (\<lambda>c. index c ''vclass'' (\<lambda>vc. index c ''level'' (\<lambda>l. ask (parse_unsigned 8 l) (\<lambda>ln8.
       index c ''cause'' (\<lambda>cs.
         Go (Some (VehicleDestruction \<lparr>vehicle_destruction.timestamp = ts, vehicle_destruction.vehicle_class = vc,
                                       vehicle_destruction.vehicle_id = named c ''vid'', destroy_level = word_of_int ln8,
                                       caused_by = cs, vehicle_destruction.zone = named c ''zone''\<rparr>)))))))"

definition NO_GUID :: string where
  "NO_GUID = ''00000000-0000-0000-0000-000000000000''"

definition option_filter :: "('a \<Rightarrow> bool) \<Rightarrow> 'a option \<Rightarrow> 'a option" where
  "option_filter P x = (case x of None \<Rightarrow> None | Some v \<Rightarrow> if P v then Some v else None)"

definition classify_hud_notification :: "regex_engine \<Rightarrow> string \<Rightarrow> string \<Rightarrow> arm" where
  "classify_hud_notification rx ts bd =
     ask (rx HUD_NOTIFICATION_RE bd) (\<lambda>c. index c ''text'' (\<lambda>tx. index c ''id'' (\<lambda>i. ask (parse_unsigned 64 i) (\<lambda>n.
       if starts_with tx ''Incapacitated:'' then
         Return (Some (PlayerIncapacitated \<lparr>player_incapacitated.timestamp = ts, queue_id = word_of_int n,
                                            player_incapacitated.zone = None\<rparr>))
       else
         Go (Some (HudNotification \<lparr>hud_notification.timestamp = ts, hud_notification.text = tx,
                                    notification_id = word_of_int n,
                                    hud_notification.mission_id = option_filter (\<lambda>m. m \<noteq> NO_GUID) (named c ''mission''),
                                    hud_notification.objective_id =
                                      option_filter (\<lambda>s. s \<noteq> NO_GUID)
                                        (option_filter (\<lambda>s. trim s \<noteq> []) (named c ''objective''))\<rparr>))))))"

definition classify_player_death :: "regex_engine \<Rightarrow> string \<Rightarrow> string \<Rightarrow> arm" where
  "classify_player_death rx ts bd =
     ask (rx PLAYER_DEATH_RE bd) (\<lambda>c. index c ''body_class'' (\<lambda>bc. index c ''body_id'' (\<lambda>bi.
       Go (Some (PlayerDeath \<lparr>player_death.timestamp = ts, body_class = bc, body_id = bi, player_death.zone = None\<rparr>)))))"

definition classify_location_inventory :: "regex_engine \<Rightarrow> string \<Rightarrow> string \<Rightarrow> arm" where
  "classify_location_inventory rx ts bd =
     ask (rx LOCATION_INVENTORY_RE bd) (\<lambda>c. index c ''player'' (\<lambda>p. index c ''location'' (\<lambda>l.
       Go (Some (LocationInventoryRequested \<lparr>location_inventory_requested.timestamp = ts,
                                             location_inventory_requested.player = p, location = l\<rparr>)))))"

definition classify_shop_buy_modern :: "regex_engine \<Rightarrow> string \<Rightarrow> string \<Rightarrow> arm" where
  "classify_shop_buy_modern rx ts bd =
     ask (rx SHOP_BUY_MODERN_RE bd) (\<lambda>c.
       Go (Some (ShopBuyRequest \<lparr>shop_buy_request.timestamp = ts, shop_buy_request.shop_id = named c ''shop'',
                                 shop_buy_request.item_class = named c ''item'', shop_buy_request.quantity = None,
                                 shop_buy_request.raw = trim bd,
                                 price = Option.bind (named c ''price'') (\<lambda>m. parse_i64 (hd (split_on (\<lambda>x. x = CHR ''.'') m))),
                                 shop_name = named c ''shopname''\<rparr>)))"

definition classify_planet_terrain :: "regex_engine \<Rightarrow> string \<Rightarrow> string \<Rightarrow> arm" where
  "classify_planet_terrain rx ts bd =
     ask (rx PLANET_TERRAIN_RE bd) (\<lambda>c. index c ''planet'' (\<lambda>p.
       Go (Some (PlanetTerrainLoad \<lparr>planet_terrain_load.timestamp = ts, planet = p\<rparr>))))"

definition classify_attachment_received :: "regex_engine \<Rightarrow> string \<Rightarrow> string \<Rightarrow> arm" where
  "classify_attachment_received rx ts bd =
     ask (rx ATTACHMENT_RECEIVED_RE bd) (\<lambda>c. index c ''player'' (\<lambda>p. index c ''class'' (\<lambda>cl. index c ''id'' (\<lambda>i.
       index c ''status'' (\<lambda>st. index c ''port'' (\<lambda>po. index c ''elapsed'' (\<lambda>el. ask (parse_f64 el) (\<lambda>f.
         Go (Some (AttachmentReceived \<lparr>attachment_received.timestamp = ts, attachment_received.player = p,
                                       attachment_received.item_class = cl, item_id = i, status = st,
                                       attachment_received.port = po, elapsed_seconds = f\<rparr>))))))))))"

definition classify_equip_item :: "regex_engine \<Rightarrow> string \<Rightarrow> string \<Rightarrow> arm" where
  "classify_equip_item rx ts bd =
     ask (rx EQUIP_ITEM_RE bd) (\<lambda>c. index c ''class'' (\<lambda>cl. index c ''port'' (\<lambda>p.
       Go (Some (ItemEquipChange \<lparr>item_equip_change.timestamp = ts, action = Equip, item_equip_change.item_class = cl,
                                  item_equip_change.port = Some p, items_count = None\<rparr>)))))"

definition classify_store_item :: "regex_engine \<Rightarrow> string \<Rightarrow> string \<Rightarrow> arm" where
  "classify_store_item rx ts bd =
     ask (rx STORE_ITEM_RE bd) (\<lambda>c. index c ''class'' (\<lambda>cl. index c ''count'' (\<lambda>n.
       Go (Some (ItemEquipChange \<lparr>item_equip_change.timestamp = ts, action = Store, item_equip_change.item_class = cl,
                                  item_equip_change.port = None,
                                  items_count = map_option word_of_int (parse_unsigned 32 n)\<rparr>)))))"

definition QUANTUM_SELECTED :: string where
  "QUANTUM_SELECTED = ''Player Selected Quantum Target - Local''"

definition classify_quantum_target :: "regex_engine \<Rightarrow> string \<Rightarrow> string \<Rightarrow> string \<Rightarrow> arm" where
  "classify_quantum_target rx ev ts bd =
     ask (rx QUANTUM_TARGET_RE bd) (\<lambda>c. index c ''dest'' (\<lambda>d.
       let dst = (if d \<noteq> [] \<and> last d = CHR '','' then butlast d else d);
           generic = index c ''vehicle'' (\<lambda>v. index c ''vid'' (\<lambda>vid.
             Go (Some (QuantumTargetSelected
               \<lparr>quantum_target_selected.timestamp = ts,
                quantum_target_selected.phase = (if ev = QUANTUM_SELECTED then Selected else FuelRequested),
                quantum_target_selected.vehicle_class = v, quantum_target_selected.vehicle_id = vid,
                quantum_target_selected.destination = dst\<rparr>))))
       in if ev = QUANTUM_SELECTED then
            (case rx MISSION_QT_BEACON_RE dst of
               Some m \<Rightarrow> index m ''beacon'' (\<lambda>b.
                 Return (Some (MissionQuantumDestinationSelected
                   \<lparr>mission_quantum_destination_selected.timestamp = ts,
                    mission_quantum_destination_selected.beacon_id = b, is_mission_destination = True,
                    travel_confirmed = False\<rparr>)))
             | None \<Rightarrow> generic)
          else generic))"

definition classify_quantum_arrived :: "regex_engine \<Rightarrow> string \<Rightarrow> string \<Rightarrow> arm" where
  "classify_quantum_arrived rx ts bd =
     ask (rx QUANTUM_ARRIVED_RE bd) (\<lambda>c. index c ''vehicle'' (\<lambda>v. index c ''vid'' (\<lambda>vid.
       Go (Some (QuantumArrived \<lparr>quantum_arrived.timestamp = ts, quantum_arrived.vehicle_class = v,
                                 quantum_arrived.vehicle_id = vid\<rparr>)))))"

definition classify_calculate_route :: "regex_engine \<Rightarrow> string \<Rightarrow> string \<Rightarrow> arm" where
  "classify_calculate_route rx ts bd =
     ask (rx CALCULATE_ROUTE_RE bd) (\<lambda>c. index c ''start'' (\<lambda>st. index c ''dest'' (\<lambda>d. index c ''vehicle'' (\<lambda>v.
       index c ''vid'' (\<lambda>vid.
         Go (Some (QuantumRoute \<lparr>quantum_route.timestamp = ts, start_system = st, quantum_route.destination = d,
                                 quantum_route.vehicle_class = v, quantum_route.vehicle_id = vid\<rparr>)))))))"

definition classify_mission_phase :: "regex_engine \<Rightarrow> string \<Rightarrow> string \<Rightarrow> arm" where
  "classify_mission_phase rx ts bd =
     ask (rx MISSION_PHASE_RE bd) (\<lambda>c. index c ''id'' (\<lambda>i.
       Go (Some (MissionStart \<lparr>mission_start.timestamp = ts, mission_start.mission_id = i, marker_kind = Phase,
                               mission_name = (case named c ''name'' of Some n \<Rightarrow> Some n | None \<Rightarrow> named c ''name2'')\<rparr>))))"

definition classify_end_mission :: "regex_engine \<Rightarrow> string \<Rightarrow> string \<Rightarrow> arm" where
  "classify_end_mission rx ts bd =
     (let c = rx MISSION_END_RE bd
      in Go (Some (MissionEnd \<lparr>mission_end.timestamp = ts,
                               mission_end.mission_id = Option.bind c (\<lambda>c. named c ''id''),
                               outcome = Option.bind c (\<lambda>c. named c ''outcome'')\<rparr>)))"

definition parse_objective_state :: "string \<Rightarrow> mission_objective_state" where
  "parse_objective_state s =
     (if s = ''INPROGRESS'' then InProgress
      else if s = ''COMPLETED'' then Completed
      else if s = ''FAILED'' then Failed
      else if s = ''WITHDRAWN'' then Withdrawn
      else Unknown)"

definition classify_objective_upserted :: "regex_engine \<Rightarrow> string \<Rightarrow> string \<Rightarrow> arm" where
  "classify_objective_upserted rx ts bd =
     ask (rx OBJECTIVE_UPSERTED_RE bd) (\<lambda>c. index c ''obj'' (\<lambda>o'. index c ''mission'' (\<lambda>m. index c ''state'' (\<lambda>st.
       Go (Some (MissionObjective \<lparr>mission_objective.timestamp = ts, mission_objective.objective_id = o',
                                   mission_objective.mission_id = Some m, state = Some (parse_objective_state st),
                                   mission_objective.text = None\<rparr>))))))"

definition classify_objective_label :: "regex_engine \<Rightarrow> string \<Rightarrow> string \<Rightarrow> arm" where
  "classify_objective_label rx ts bd =
     ask (rx OBJECTIVE_LABEL_RE bd) (\<lambda>c. index c ''obj'' (\<lambda>o'. index c ''text'' (\<lambda>tx.
       Go (Some (MissionObjective \<lparr>mission_objective.timestamp = ts, mission_objective.objective_id = o',
                                   mission_objective.mission_id = None, state = None,
                                   mission_objective.text = Some tx\<rparr>)))))"

section \<open>The dispatch on the event name\<close>

definition classify_shell :: "regex_engine \<Rightarrow> string list \<Rightarrow> string \<Rightarrow> string \<Rightarrow> string \<Rightarrow> arm" where
  "classify_shell rx tgs ev ts bd =
     (if ev = ''Init'' \<and> ''ProcessInit'' \<in> set tgs then classify_process_init rx ts bd
      else if ev = ''Legacy login response'' then classify_legacy_login rx ts bd
      else if ev = ''Join PU'' then classify_join_pu rx ts bd
      else if ev \<in> {''Change Server Start'', ''Change Server End''} then classify_change_server rx ev ts bd
      else if ev \<in> {''Seed Solar System'', ''Seed Solar System Success''} then classify_seed_solar_system rx ev ts bd
      else if ev = ''ResolveSpawnLocation Location Not Found'' then classify_resolve_spawn rx ts bd
      else if ev = ''[ActorState] Dead'' then classify_actor_ejected rx ts bd
      else if ev = ''Actor Death'' then classify_actor_death rx ts bd
      else if ev = ''Vehicle Destruction'' then classify_vehicle_destruction rx ts bd
      else if ev = ''SHUDEvent_OnNotification'' then classify_hud_notification rx ts bd
      else if ev = ''Adding non kept item [CSCActorCorpseUtils::PopulateItemPortForItemRecoveryEntitlement]''
        then classify_player_death rx ts bd
      else if ev = ''RequestLocationInventory'' then classify_location_inventory rx ts bd
      else if ev \<in> {''CEntityComponentShoppingProvider::SendStandardItemBuyRequest'',
                     ''CEntityComponentShopUIProvider::SendShopBuyRequest''} then classify_shop_buy_modern rx ts bd
      else if ev = ''InvalidateAllTerrainCells'' then classify_planet_terrain rx ts bd
      else if ev = ''AttachmentReceived'' then classify_attachment_received rx ts bd
      else if ev = ''EquipItem'' then classify_equip_item rx ts bd
      else if ev = ''StoreItem'' then classify_store_item rx ts bd
      else if ev \<in> {''Player Selected Quantum Target - Local'',
                     ''Player Requested Fuel to Quantum Target - Server Routing''} then classify_quantum_target rx ev ts bd
      else if ev = ''Quantum Drive Arrived - Arrived at Final Destination'' then classify_quantum_arrived rx ts bd
      else if ev = ''Calculate Route'' then classify_calculate_route rx ts bd
      else if ev = ''CLocalMissionPhaseMarker::CreateMarker'' then classify_mission_phase rx ts bd
      else if ev = ''EndMission'' then classify_end_mission rx ts bd
      else if ev = ''SystemQuit'' then Go (Some (SessionEnd \<lparr>session_end.timestamp = ts, session_end.kind = SystemQuit\<rparr>))
      else if ev = ''ObjectiveUpserted'' then classify_objective_upserted rx ts bd
      else if ev = ''CMissionLogEntry::UpdateActiveObjective'' then classify_objective_label rx ts bd
      else Go None)"

section \<open>The scan of the body\<close>

definition body_vehicle_stowed :: "regex_engine \<Rightarrow> string \<Rightarrow> string \<Rightarrow> arm" where
  "body_vehicle_stowed rx ts bd =
     ask (rx VEHICLE_STOWED_RE bd) (\<lambda>c. index c ''zone_host'' (\<lambda>zh. index c ''vehicle_id'' (\<lambda>v. index c ''area'' (\<lambda>a.
       index c ''area_id'' (\<lambda>ai.
         Return (Some (VehicleStowed \<lparr>vehicle_stowed.timestamp = ts, vehicle_stowed.vehicle_id = v, landing_area = a,
                                      landing_area_id = ai,
                                      zone_host_id = (if zh = ''0'' then None else Some zh)\<rparr>)))))))"

definition body_mission_objective :: "regex_engine \<Rightarrow> string \<Rightarrow> string \<Rightarrow> arm" where
  "body_mission_objective rx ts bd =
     ask (rx MISSION_OBJECTIVE_RE bd) (\<lambda>c. index c ''id'' (\<lambda>i.
       Return (Some (MissionStart \<lparr>mission_start.timestamp = ts, mission_start.mission_id = i, marker_kind = Objective,
                                   mission_name = None\<rparr>))))"

definition body_shop_buy :: "regex_engine \<Rightarrow> string \<Rightarrow> string \<Rightarrow> arm" where
  "body_shop_buy rx ts bd =
     (let g = (\<lambda>n. Option.bind (rx SHOP_BUY_RE bd) (\<lambda>c. named c n))
      in Return (Some (ShopBuyRequest \<lparr>shop_buy_request.timestamp = ts, shop_buy_request.shop_id = g ''shop'',
                                       shop_buy_request.item_class = g ''item'',
                                       shop_buy_request.quantity =
                                         Option.bind (g ''qty'') (\<lambda>m. map_option word_of_int (parse_unsigned 32 m)),
                                       shop_buy_request.raw = trim bd, price = None, shop_name = None\<rparr>)))"

definition body_shop_response :: "regex_engine \<Rightarrow> string \<Rightarrow> string \<Rightarrow> arm" where
  "body_shop_response rx ts bd =
     (let g = (\<lambda>n. Option.bind (rx SHOP_RESPONSE_RE bd) (\<lambda>c. named c n))
      in Return (Some (ShopFlowResponse \<lparr>shop_flow_response.timestamp = ts, shop_flow_response.shop_id = g ''shop'',
                                         shop_flow_response.success =
                                           map_option (\<lambda>m. m \<in> {''Success'', ''OK'', ''ok''}) (g ''result''),
                                         shop_flow_response.raw = trim bd\<rparr>)))"

definition body_commodity_buy :: "regex_engine \<Rightarrow> string \<Rightarrow> string \<Rightarrow> arm" where
  "body_commodity_buy rx ts bd =
     (let g = (\<lambda>n. Option.bind (rx COMMODITY_BUY_RE bd) (\<lambda>c. named c n))
      in Return (Some (CommodityBuyRequest \<lparr>commodity_buy_request.timestamp = ts,
                                            commodity_buy_request.commodity = g ''commodity'',
                                            commodity_buy_request.quantity = Option.bind (g ''qty'') parse_f64,
                                            commodity_buy_request.raw = trim bd\<rparr>)))"

definition body_commodity_sell :: "regex_engine \<Rightarrow> string \<Rightarrow> string \<Rightarrow> arm" where
  "body_commodity_sell rx ts bd =
     (let g = (\<lambda>n. Option.bind (rx COMMODITY_SELL_RE bd) (\<lambda>c. named c n))
      in Return (Some (CommoditySellRequest \<lparr>commodity_sell_request.timestamp = ts,
                                             commodity_sell_request.commodity = g ''commodity'',
                                             commodity_sell_request.quantity = Option.bind (g ''qty'') parse_f64,
                                             commodity_sell_request.raw = trim bd\<rparr>)))"

definition classify_body_prefix :: "regex_engine \<Rightarrow> string \<Rightarrow> string \<Rightarrow> arm" where
  "classify_body_prefix rx ts bd =
     (if contains_str bd ''[STOWING ON UNREGISTER]'' then body_vehicle_stowed rx ts bd
      else if contains_str bd ''CreateMissionObjectiveMarker'' then body_mission_objective rx ts bd
      else if contains_str bd ''BuyRequest'' \<and>
          (contains_str bd ''SendShopBuyRequest'' \<or> contains_str bd ''SendStandardItemBuyRequest'' \<or>
           contains_str bd ''SendStandardShopBuyRequest'') then body_shop_buy rx ts bd
      else if contains_str bd ''ShopFlowResponse'' then body_shop_response rx ts bd
      else if contains_str bd ''SendCommodityBuyRequest'' then body_commodity_buy rx ts bd
      else if contains_str bd ''SendCommoditySellRequest'' then body_commodity_sell rx ts bd
      else if contains_str bd ''CCIGBroker::FastShutdown'' then
        Return (Some (SessionEnd \<lparr>session_end.timestamp = ts, session_end.kind = FastShutdown\<rparr>))
      else Go None)"

section \<open>Classification\<close>

definition classify :: "regex_engine \<Rightarrow> log_line \<Rightarrow> game_event option exec" where
  "classify rx line =
     (let bd = log_line.body line; ts = log_line.timestamp line
      in case log_line.event_name line of
           None \<Rightarrow> run_flow (classify_body_prefix rx ts bd)
         | Some ev \<Rightarrow>
             (case classify_shell rx (log_line.tags line) ev ts bd of
                Panic \<Rightarrow> Panics
              | Return r \<Rightarrow> Done r
              | Go (Some e) \<Rightarrow> Done (Some e)
              | Go None \<Rightarrow> run_flow (classify_body_prefix rx ts bd)))"

definition classify_with_metadata ::
  "regex_engine \<Rightarrow> log_line \<Rightarrow> string option \<Rightarrow> (game_event option \<times> event_metadata option) exec" where
  "classify_with_metadata rx line claimed_handle =
     (case classify rx line of
        Panics \<Rightarrow> Panics
      | Done ev \<Rightarrow> Done (ev, map_option (\<lambda>e. stamp e claimed_handle) ev))"

section \<open>Facts about every arm\<close>

lemmas shell_arm_defs =
  classify_process_init_def classify_legacy_login_def classify_join_pu_def classify_change_server_def
  classify_seed_solar_system_def classify_resolve_spawn_def classify_actor_ejected_def classify_actor_death_def
  classify_vehicle_destruction_def classify_hud_notification_def classify_player_death_def
  classify_location_inventory_def classify_shop_buy_modern_def classify_planet_terrain_def
  classify_attachment_received_def classify_equip_item_def classify_store_item_def classify_quantum_target_def
  classify_quantum_arrived_def classify_calculate_route_def classify_mission_phase_def classify_end_mission_def
  classify_objective_upserted_def classify_objective_label_def

lemmas body_arm_defs =
  body_vehicle_stowed_def body_mission_objective_def body_shop_buy_def body_shop_response_def body_commodity_buy_def
  body_commodity_sell_def

text \<open>What holds of every event an arm can produce.\<close>

fun arm_events :: "(game_event \<Rightarrow> bool) \<Rightarrow> arm \<Rightarrow> bool" where
  "arm_events P Panic = True"
| "arm_events P (Return r) = pred_option P r"
| "arm_events P (Go r) = pred_option P r"

lemma arm_events_ask: "arm_events P (ask x k) \<longleftrightarrow> (\<forall>v. x = Some v \<longrightarrow> arm_events P (k v))"
  by (cases x) auto

lemma arm_events_index: "arm_events P (index c n k) \<longleftrightarrow> (\<forall>v. named c n = Some v \<longrightarrow> arm_events P (k v))"
  by (auto simp: index_def split: option.splits)

lemmas arm_simps = arm_events_ask arm_events_index Let_def split_def

lemma run_events: "arm_events P f \<Longrightarrow> run_flow f = Done (Some e) \<Longrightarrow> P e"
  by (cases f) auto

lemma shell_arm_timestamps:
  "arm_events (\<lambda>e. timestamp_of e = ts) (classify_process_init rx ts bd)"
  "arm_events (\<lambda>e. timestamp_of e = ts) (classify_legacy_login rx ts bd)"
  "arm_events (\<lambda>e. timestamp_of e = ts) (classify_join_pu rx ts bd)"
  "arm_events (\<lambda>e. timestamp_of e = ts) (classify_change_server rx ev ts bd)"
  "arm_events (\<lambda>e. timestamp_of e = ts) (classify_seed_solar_system rx ev ts bd)"
  "arm_events (\<lambda>e. timestamp_of e = ts) (classify_resolve_spawn rx ts bd)"
  "arm_events (\<lambda>e. timestamp_of e = ts) (classify_actor_ejected rx ts bd)"
  "arm_events (\<lambda>e. timestamp_of e = ts) (classify_actor_death rx ts bd)"
  "arm_events (\<lambda>e. timestamp_of e = ts) (classify_vehicle_destruction rx ts bd)"
  "arm_events (\<lambda>e. timestamp_of e = ts) (classify_hud_notification rx ts bd)"
  "arm_events (\<lambda>e. timestamp_of e = ts) (classify_player_death rx ts bd)"
  "arm_events (\<lambda>e. timestamp_of e = ts) (classify_location_inventory rx ts bd)"
  "arm_events (\<lambda>e. timestamp_of e = ts) (classify_shop_buy_modern rx ts bd)"
  "arm_events (\<lambda>e. timestamp_of e = ts) (classify_planet_terrain rx ts bd)"
  "arm_events (\<lambda>e. timestamp_of e = ts) (classify_attachment_received rx ts bd)"
  "arm_events (\<lambda>e. timestamp_of e = ts) (classify_equip_item rx ts bd)"
  "arm_events (\<lambda>e. timestamp_of e = ts) (classify_store_item rx ts bd)"
  "arm_events (\<lambda>e. timestamp_of e = ts) (classify_quantum_target rx ev ts bd)"
  "arm_events (\<lambda>e. timestamp_of e = ts) (classify_quantum_arrived rx ts bd)"
  "arm_events (\<lambda>e. timestamp_of e = ts) (classify_calculate_route rx ts bd)"
  "arm_events (\<lambda>e. timestamp_of e = ts) (classify_mission_phase rx ts bd)"
  "arm_events (\<lambda>e. timestamp_of e = ts) (classify_end_mission rx ts bd)"
  "arm_events (\<lambda>e. timestamp_of e = ts) (classify_objective_upserted rx ts bd)"
  "arm_events (\<lambda>e. timestamp_of e = ts) (classify_objective_label rx ts bd)"
  by (simp_all add: shell_arm_defs arm_simps split: option.split)

lemma shell_timestamp: "arm_events (\<lambda>e. timestamp_of e = ts) (classify_shell rx tgs ev ts bd)"
  by (simp add: classify_shell_def shell_arm_timestamps)

lemma body_timestamp: "arm_events (\<lambda>e. timestamp_of e = ts) (classify_body_prefix rx ts bd)"
  by (simp add: classify_body_prefix_def body_arm_defs arm_simps)

lemma no_panic_captures:
  assumes "required_groups rx" "\<And>c. list_all (\<lambda>n. \<exists>v. named c n = Some v) (required re) \<Longrightarrow> no_panic (k c)"
  shows "no_panic (ask (rx re s) k)"
  using assms required_groupsD [OF assms(1), of re s] by (auto simp: no_panic_ask)

lemma shell_arms_safe:
  assumes rx: "required_groups rx"
  shows "no_panic (classify_process_init rx ts bd)"
    "no_panic (classify_legacy_login rx ts bd)"
    "no_panic (classify_join_pu rx ts bd)"
    "no_panic (classify_change_server rx ev ts bd)"
    "no_panic (classify_seed_solar_system rx ev ts bd)"
    "no_panic (classify_resolve_spawn rx ts bd)"
    "no_panic (classify_actor_ejected rx ts bd)"
    "no_panic (classify_actor_death rx ts bd)"
    "no_panic (classify_vehicle_destruction rx ts bd)"
    "no_panic (classify_hud_notification rx ts bd)"
    "no_panic (classify_player_death rx ts bd)"
    "no_panic (classify_location_inventory rx ts bd)"
    "no_panic (classify_shop_buy_modern rx ts bd)"
    "no_panic (classify_planet_terrain rx ts bd)"
    "no_panic (classify_attachment_received rx ts bd)"
    "no_panic (classify_equip_item rx ts bd)"
    "no_panic (classify_store_item rx ts bd)"
    "no_panic (classify_quantum_arrived rx ts bd)"
    "no_panic (classify_calculate_route rx ts bd)"
    "no_panic (classify_mission_phase rx ts bd)"
    "no_panic (classify_objective_upserted rx ts bd)"
    "no_panic (classify_objective_label rx ts bd)"
  unfolding shell_arm_defs Let_def split_def
  by (rule no_panic_captures [OF rx], force simp: no_panic_ask no_panic_index)+

lemma quantum_target_safe:
  assumes rx: "required_groups rx"
  shows "no_panic (classify_quantum_target rx ev ts bd)"
proof -
  have beacon: "named m ''beacon'' \<noteq> None" if "rx MISSION_QT_BEACON_RE s = Some m" for s m
    using required_groupsD [OF rx that] by simp
  show ?thesis unfolding classify_quantum_target_def
    by (rule no_panic_captures [OF rx]) (use beacon in \<open>auto simp: no_panic_index Let_def split: option.split\<close>)
qed

lemma end_mission_safe: "no_panic (classify_end_mission rx ts bd)"
  by (simp add: classify_end_mission_def Let_def)

lemma shell_safe: "required_groups rx \<Longrightarrow> no_panic (classify_shell rx tgs ev ts bd)"
  by (simp add: classify_shell_def shell_arms_safe quantum_target_safe end_mission_safe)

lemma body_arms_safe:
  assumes rx: "required_groups rx"
  shows "no_panic (body_vehicle_stowed rx ts bd)" "no_panic (body_mission_objective rx ts bd)"
  unfolding body_arm_defs by (rule no_panic_captures [OF rx], force simp: no_panic_index)+

lemma body_safe: "required_groups rx \<Longrightarrow> no_panic (classify_body_prefix rx ts bd)"
  by (simp add: classify_body_prefix_def body_arms_safe)
    (simp add: body_shop_buy_def body_shop_response_def body_commodity_buy_def body_commodity_sell_def Let_def)

lemma classify_safe:
  assumes "required_groups rx"
  shows "classify rx line \<noteq> Panics"
proof (cases "log_line.event_name line")
  case None
  with body_safe [OF assms] show ?thesis by (simp add: classify_def run_no_panic)
next
  case (Some ev)
  with shell_safe [OF assms] body_safe [OF assms] show ?thesis
    by (auto simp: classify_def Let_def run_no_panic split: flow.splits option.splits) (metis no_panic.simps(1))
qed

lemma structural_parse_safe:
  assumes "whole_is_suffix rx"
  shows "structural_parse rx s \<noteq> Panics"
proof -
  have "\<exists>w. groups c 0 = Some w \<and> \<not> length r < length w" if "rx TAG_TAIL_RE r = Some c" for r c
    using assms that suffix_length_le unfolding whole_is_suffix_def by (metis linorder_not_less)
  then show ?thesis
    by (auto simp: structural_parse_def run_no_panic no_panic_ask Let_def split: option.split) fastforce+
qed

lemma classify_event:
  assumes "classify rx line = Done (Some e)"
  shows "timestamp_of e = log_line.timestamp line"
proof (cases "log_line.event_name line")
  case None
  with assms have "run_flow (classify_body_prefix rx (log_line.timestamp line) (log_line.body line)) = Done (Some e)"
    by (simp add: classify_def)
  from run_events [OF body_timestamp this] show ?thesis .
next
  case (Some ev)
  let ?f = "classify_shell rx (log_line.tags line) ev (log_line.timestamp line) (log_line.body line)"
  have "run_flow ?f = Done (Some e) \<or> run_flow (classify_body_prefix rx (log_line.timestamp line) (log_line.body line)) = Done (Some e)"
    using assms Some by (auto simp: classify_def Let_def split: flow.splits option.splits)
  with run_events [OF shell_timestamp [of "log_line.timestamp line"], of rx "log_line.tags line" ev "log_line.body line" e]
    run_events [OF body_timestamp] show ?thesis by blast
qed

text \<open>The pattern behind each event name that has an arm (\<open>EndMission\<close> and \<open>SystemQuit\<close> always classify).\<close>

definition shell_pattern :: "string list \<Rightarrow> string \<Rightarrow> static_re option" where
  "shell_pattern tgs ev =
     (if ev = ''Init'' then (if ''ProcessInit'' \<in> set tgs then Some PROCESS_INIT_RE else None)
      else map_of
        [(''Legacy login response'', LEGACY_LOGIN_RE), (''Join PU'', JOIN_PU_RE), (''Change Server Start'', CHANGE_SERVER_RE),
         (''Change Server End'', CHANGE_SERVER_RE), (''Seed Solar System'', SEED_SS_RE),
         (''Seed Solar System Success'', SEED_SS_RE), (''ResolveSpawnLocation Location Not Found'', RESOLVE_SPAWN_RE),
         (''[ActorState] Dead'', ACTOR_EJECTED_RE), (''Actor Death'', ACTOR_DEATH_RE),
         (''Vehicle Destruction'', VEHICLE_DESTRUCTION_RE), (''SHUDEvent_OnNotification'', HUD_NOTIFICATION_RE),
         (''Adding non kept item [CSCActorCorpseUtils::PopulateItemPortForItemRecoveryEntitlement]'', PLAYER_DEATH_RE),
         (''RequestLocationInventory'', LOCATION_INVENTORY_RE),
         (''CEntityComponentShoppingProvider::SendStandardItemBuyRequest'', SHOP_BUY_MODERN_RE),
         (''CEntityComponentShopUIProvider::SendShopBuyRequest'', SHOP_BUY_MODERN_RE),
         (''InvalidateAllTerrainCells'', PLANET_TERRAIN_RE), (''AttachmentReceived'', ATTACHMENT_RECEIVED_RE),
         (''EquipItem'', EQUIP_ITEM_RE), (''StoreItem'', STORE_ITEM_RE),
         (''Player Selected Quantum Target - Local'', QUANTUM_TARGET_RE),
         (''Player Requested Fuel to Quantum Target - Server Routing'', QUANTUM_TARGET_RE),
         (''Quantum Drive Arrived - Arrived at Final Destination'', QUANTUM_ARRIVED_RE),
         (''Calculate Route'', CALCULATE_ROUTE_RE), (''CLocalMissionPhaseMarker::CreateMarker'', MISSION_PHASE_RE),
         (''ObjectiveUpserted'', OBJECTIVE_UPSERTED_RE),
         (''CMissionLogEntry::UpdateActiveObjective'', OBJECTIVE_LABEL_RE)] ev)"

lemma shell_miss: "shell_pattern tgs ev = Some re \<Longrightarrow> rx re bd = None \<Longrightarrow> classify_shell rx tgs ev ts bd = Return None"
  apply (simp only: shell_pattern_def map_of.simps fun_upd_apply fst_conv snd_conv split: if_split_asm)
  apply (simp_all add: classify_shell_def shell_arm_defs)
  done

section \<open>Properties\<close>

text \<open>C21. The parser never panics: with a regex engine that binds the required groups of a matching pattern and whose match of
  the trailing tags is a suffix, no input line makes the structural pass or the classification index a missing group, unwrap
  nothing or slice out of range.\<close>

theorem parse_never_panics:
  assumes "required_groups rx" "whole_is_suffix rx"
  shows "\<exists>r. structural_parse rx s = Done r \<and> (\<forall>line. r = Some line \<longrightarrow> (\<exists>ev. classify rx line = Done ev))"
  using structural_parse_safe [OF assms(2), of s] classify_safe [OF assms(1)] by (metis exec.exhaust)

text \<open>An engine that matches everything: the whole text is group 0, every other group is the digit 0.\<close>

definition sample_engine :: regex_engine where
  "sample_engine re s = Some \<lparr>named = (\<lambda>n. Some ''0''), groups = (\<lambda>k. if k = 0 then Some s else Some ''[a][b]'')\<rparr>"

lemma sample_engine_ok: "required_groups sample_engine" "whole_is_suffix sample_engine"
  by (simp_all add: required_groups_def whole_is_suffix_def sample_engine_def list_all_iff)

theorem parse_never_panics_witness:
  "structural_parse sample_engine ''<t> x'' =
     Done (Some \<lparr>log_line.timestamp = ''0'', level = Some ''0'', event_name = Some ''0'', body = [], tags = [''a'', ''b'']\<rparr>) \<and>
   (\<exists>ev. classify sample_engine
      \<lparr>log_line.timestamp = ''0'', level = Some ''0'', event_name = Some ''0'', body = [], tags = [''a'', ''b'']\<rparr> = Done ev)"
proof -
  have "structural_parse sample_engine ''<t> x'' =
     Done (Some \<lparr>log_line.timestamp = ''0'', level = Some ''0'', event_name = Some ''0'', body = [], tags = [''a'', ''b'']\<rparr>)"
    by code_simp
  with parse_never_panics [OF sample_engine_ok, of "''<t> x''"] show ?thesis by auto
qed

text \<open>C32. Whatever arm or body scan produces an event, it carries the timestamp of its line, and the metadata stamped beside it
  has the event's own group key; a line without an event has no metadata.\<close>

theorem classify_with_metadata_consistent:
  assumes "classify_with_metadata rx line claimed = Done (ev, meta)"
  shows "case ev of
           None \<Rightarrow> meta = None
         | Some e \<Rightarrow> timestamp_of e = log_line.timestamp line \<and>
             (\<exists>m. meta = Some m \<and> event_metadata.group_key m = group_key_for e claimed)"
proof -
  have c: "classify rx line = Done ev" and m: "meta = map_option (\<lambda>e. stamp e claimed) ev"
    using assms by (auto simp: classify_with_metadata_def split: exec.splits)
  with classify_event [of rx line] show ?thesis by (auto simp: stamp_group_key split: option.split)
qed

abbreviation (input) sample_quit :: log_line where
  "sample_quit \<equiv> \<lparr>log_line.timestamp = ''t'', level = None, event_name = Some ''SystemQuit'', body = [], tags = []\<rparr>"

theorem classify_with_metadata_consistent_witness:
  "\<exists>e m. classify_with_metadata sample_engine sample_quit None = Done (Some e, Some m) \<and> timestamp_of e = ''t'' \<and>
     event_metadata.group_key m = group_key_for e None"
proof -
  let ?e = "SessionEnd \<lparr>session_end.timestamp = ''t'', session_end.kind = SystemQuit\<rparr>"
  have "classify_with_metadata sample_engine sample_quit None = Done (Some ?e, Some (stamp ?e None))"
    by (simp add: classify_with_metadata_def classify_def classify_shell_def)
  with classify_with_metadata_consistent [OF this] show ?thesis by auto
qed

text \<open>A recognised event name is final: when its pattern does not match the body, the line is unknown, even if the body scan
  would have recognised it.  The comment on \<open>classify\<close> promises the scan on a shell-match miss; the \<open>?\<close> in the arms leaves
  the function before it.\<close>

theorem recognised_name_is_final:
  assumes "log_line.event_name line = Some ev" "shell_pattern (log_line.tags line) ev = Some re"
    and "rx re (log_line.body line) = None"
  shows "classify rx line = Done None"
  using assms shell_miss [OF assms(2), where rx = rx] by (simp add: classify_def)

text \<open>A kiosk line of the older function-call form under the current event name.\<close>

abbreviation (input) old_kiosk_line :: "string option \<Rightarrow> log_line" where
  "old_kiosk_line ev \<equiv> \<lparr>log_line.timestamp = ''t'', level = None, event_name = ev, body = ''SendShopBuyRequest(shopId=1)'', tags = []\<rparr>"

theorem recognised_name_is_final_witness:
  "classify (\<lambda>_ _. None) (old_kiosk_line (Some ''CEntityComponentShopUIProvider::SendShopBuyRequest'')) = Done None \<and>
   (\<exists>e. classify (\<lambda>_ _. None) (old_kiosk_line None) = Done (Some (ShopBuyRequest e)))"
proof
  show "classify (\<lambda>_ _. None) (old_kiosk_line (Some ''CEntityComponentShopUIProvider::SendShopBuyRequest'')) = Done None"
    by (rule recognised_name_is_final [of _ "''CEntityComponentShopUIProvider::SendShopBuyRequest''" SHOP_BUY_MODERN_RE])
      (simp_all add: shell_pattern_def)
  show "\<exists>e. classify (\<lambda>_ _. None) (old_kiosk_line None) = Done (Some (ShopBuyRequest e))"
    by (simp add: classify_def classify_body_prefix_def contains_str_def sublist_code body_shop_buy_def Let_def)
qed

end
