(* ===== verification/Validators.thy ===== *)
theory Validators
  imports Wire
begin

text \<open>
  The server-side sanity gates of \<open>crates/starstats-core/src/validators.rs\<close>.  A check returns
  \<open>Inl error\<close> for the first rule an envelope breaks and \<open>Inr ()\<close> when it breaks none.  The lemmas
  characterise the accepted envelopes by declarative predicates, and show that the metadata the
  classifier stamps always passes.
\<close>

section \<open>Checks\<close>

datatype validation_error =
    EmptyTimestamp
  | BadTimestamp
  | EmptyField string
  | BadPort u16
  | InvalidMetadata string

definition check_timestamp :: "string \<Rightarrow> validation_error + unit" where
  "check_timestamp ts =
     (if ts = [] then Inl EmptyTimestamp
      else let has_separator = CHR ''T'' \<in> set ts \<or> CHR '' '' \<in> set ts;
               has_time_colon = CHR '':'' \<in> set ts
           in if \<not> has_separator \<or> \<not> has_time_colon then Inl BadTimestamp else Inr ())"

definition validate_game_event :: "game_event \<Rightarrow> validation_error + unit" where
  "validate_game_event ev =
     (case check_timestamp (timestamp_of ev) of
        Inl err \<Rightarrow> Inl err
      | Inr _ \<Rightarrow>
          (case ev of
             LegacyLogin e \<Rightarrow>
               if legacy_login.handle e = [] then Inl (EmptyField ''handle'') else Inr ()
           | JoinPu e \<Rightarrow>
               if join_pu.shard e = [] then Inl (EmptyField ''shard'')
               else if join_pu.port e = 0 then Inl (BadPort (join_pu.port e))
               else Inr ()
           | ActorDeath e \<Rightarrow>
               if actor_death.victim e = [] then Inl (EmptyField ''victim'')
               else if actor_death.killer e = [] then Inl (EmptyField ''killer'')
               else Inr ()
           | VehicleDestruction e \<Rightarrow>
               if vehicle_destruction.vehicle_class e = [] then Inl (EmptyField ''vehicle_class'')
               else Inr ()
           | BurstSummary e \<Rightarrow>
               if burst_summary.rule_id e = [] then Inl (EmptyField ''rule_id'')
               else if burst_summary.size e = 0 then Inl (EmptyField ''size'')
               else check_timestamp (burst_summary.end_timestamp e)
           | _ \<Rightarrow> Inr ()))"

definition F32_EPSILON :: flt where
  "F32_EPSILON = Fin (1 / 2 ^ 23)"

definition validate_metadata :: "event_metadata \<Rightarrow> validation_error + unit" where
  "validate_metadata m =
     (if \<not> (flt_le (Fin 0) (event_metadata.confidence m) \<and> flt_le (event_metadata.confidence m) (Fin 1))
      then Inl (InvalidMetadata ''confidence out of range'')
      else
        (case event_metadata.source m of
           Observed \<Rightarrow>
             if flt_lt F32_EPSILON (flt_abs_minus_one (event_metadata.confidence m))
                \<or> event_metadata.inference_inputs m \<noteq> []
             then Inl (InvalidMetadata
                    ''observed event must have confidence=1.0 and no inference_inputs'')
             else Inr ()
         | Inferred \<Rightarrow>
             if flt_le (Fin 1) (event_metadata.confidence m) \<or> event_metadata.inference_inputs m = []
             then Inl (InvalidMetadata
                    ''inferred event must have confidence<1.0 and at least one inference input'')
             else Inr ()
         | Synthesized \<Rightarrow> Inr ()))"

definition validate_event :: "event_envelope \<Rightarrow> validation_error + unit" where
  "validate_event env =
     (case (case event_envelope.event env of None \<Rightarrow> Inr () | Some ev \<Rightarrow> validate_game_event ev) of
        Inl err \<Rightarrow> Inl err
      | Inr _ \<Rightarrow>
          (case event_envelope.metadata env of None \<Rightarrow> Inr () | Some m \<Rightarrow> validate_metadata m))"

section \<open>What the checks accept\<close>

text \<open>The shape of a timestamp, the required fields of a payload, and the cross-field rules of a
  metadata block, stated without reference to the order in which the code tests them.\<close>

definition timestamp_shape :: "string \<Rightarrow> bool" where
  "timestamp_shape ts \<longleftrightarrow> {CHR ''T'', CHR '' ''} \<inter> set ts \<noteq> {} \<and> CHR '':'' \<in> set ts"

definition required_fields :: "game_event \<Rightarrow> bool" where
  "required_fields ev \<longleftrightarrow>
     (\<forall>e. ev = LegacyLogin e \<longrightarrow> legacy_login.handle e \<noteq> []) \<and>
     (\<forall>e. ev = JoinPu e \<longrightarrow> join_pu.shard e \<noteq> [] \<and> join_pu.port e \<noteq> 0) \<and>
     (\<forall>e. ev = ActorDeath e \<longrightarrow> actor_death.victim e \<noteq> [] \<and> actor_death.killer e \<noteq> []) \<and>
     (\<forall>e. ev = VehicleDestruction e \<longrightarrow> vehicle_destruction.vehicle_class e \<noteq> []) \<and>
     (\<forall>e. ev = BurstSummary e \<longrightarrow>
        burst_summary.rule_id e \<noteq> [] \<and> burst_summary.size e \<noteq> 0 \<and>
        timestamp_shape (burst_summary.end_timestamp e))"

definition metadata_rules :: "event_metadata \<Rightarrow> bool" where
  "metadata_rules m \<longleftrightarrow>
     (\<exists>c. event_metadata.confidence m = Fin c \<and> 0 \<le> c \<and> c \<le> 1 \<and>
        (event_metadata.source m = Observed \<longrightarrow> \<bar>f32_round (c - 1)\<bar> \<le> 1 / 2 ^ 23 \<and> event_metadata.inference_inputs m = []) \<and>
        (event_metadata.source m = Inferred \<longrightarrow> c < 1 \<and> event_metadata.inference_inputs m \<noteq> []))"

lemma check_timestamp_ok [simp]: "check_timestamp ts = Inr () \<longleftrightarrow> timestamp_shape ts"
  by (auto simp: check_timestamp_def timestamp_shape_def Let_def)

lemma check_timestamp_cases:
  "check_timestamp ts = (if ts = [] then Inl EmptyTimestamp
     else if timestamp_shape ts then Inr () else Inl BadTimestamp)"
  by (auto simp: check_timestamp_def timestamp_shape_def Let_def)

lemma check_timestamp_sum:
  "(case check_timestamp ts of Inl err \<Rightarrow> Inl err | Inr _ \<Rightarrow> r) = Inr () \<longleftrightarrow>
     timestamp_shape ts \<and> r = Inr ()"
  by (auto simp: check_timestamp_cases timestamp_shape_def)

lemma validate_game_event_ok:
  "validate_game_event ev = Inr () \<longleftrightarrow> timestamp_shape (timestamp_of ev) \<and> required_fields ev"
  unfolding validate_game_event_def check_timestamp_sum
  by (cases ev) (simp_all add: required_fields_def)

lemma validate_metadata_range:
  assumes "validate_metadata m = Inr ()"
  obtains c where "event_metadata.confidence m = Fin c" "0 \<le> c" "c \<le> 1"
  using assms
  by (cases "event_metadata.confidence m") (auto simp: validate_metadata_def split: if_splits)

lemma validate_metadata_ok: "validate_metadata m = Inr () \<longleftrightarrow> metadata_rules m"
proof (cases "event_metadata.confidence m")
  case (Fin c)
  then show ?thesis
    by (cases "event_metadata.source m") (auto simp: validate_metadata_def metadata_rules_def F32_EPSILON_def not_less)
qed (auto simp: validate_metadata_def metadata_rules_def)

lemma validate_metadata_observed:
  assumes ok: "validate_metadata m = Inr ()" and src: "event_metadata.source m = Observed"
  obtains c where "event_metadata.confidence m = Fin c" "1 - 1 / 2 ^ 22 < c" "c \<le> 1"
    "event_metadata.inference_inputs m = []"
proof -
  obtain c where c: "event_metadata.confidence m = Fin c" "0 \<le> c" "c \<le> 1"
    using ok by (rule validate_metadata_range)
  from ok src c have inputs: "event_metadata.inference_inputs m = []"
    and r: "\<bar>f32_round (c - 1)\<bar> \<le> 1 / 2 ^ 23"
    by (auto simp: validate_metadata_def F32_EPSILON_def not_less split: if_splits)
  have "\<bar>c - 1\<bar> \<le> \<bar>f32_round (c - 1)\<bar> + \<bar>f32_round (c - 1) - (c - 1)\<bar>" by linarith
  also have "\<dots> \<le> 1 / 2 ^ 23 + \<bar>c - 1\<bar> / 2 ^ 24"
    using r f32_round_error [of "c - 1"] by linarith
  finally have "1 - c \<le> 1 / 2 ^ 23 + (1 - c) / 2 ^ 24" using c by simp
  then have "1 - 1 / 2 ^ 22 < c" by (simp add: field_simps)
  with c inputs that show thesis by blast
qed

lemma validate_metadata_inferred:
  "event_metadata.source m = Inferred \<Longrightarrow> event_metadata.confidence m = Fin c \<Longrightarrow>
     validate_metadata m = Inr () \<longleftrightarrow> 0 \<le> c \<and> c < 1 \<and> event_metadata.inference_inputs m \<noteq> []"
  by (auto simp: validate_metadata_def)

lemma validate_stamp: "validate_metadata (stamp ev h) = Inr ()"
  by (simp add: validate_metadata_def stamp_def observed_def Let_def F32_EPSILON_def)

section \<open>Properties\<close>



text \<open>An accepted metadata block has a finite confidence between 0 and 1.  An observed block has no
  inference inputs and a confidence within \<open>2^-22\<close> of 1, an inferred one has at least one input and a
  confidence strictly below 1.\<close>

theorem validate_metadata_sound:
  assumes "validate_metadata m = Inr ()"
  shows "\<exists>c. event_metadata.confidence m = Fin c \<and> 0 \<le> c \<and> c \<le> 1 \<and>
    (event_metadata.source m = Observed \<longrightarrow>
       1 - 1 / 2 ^ 22 < c \<and> event_metadata.inference_inputs m = []) \<and>
    (event_metadata.source m = Inferred \<longrightarrow> c < 1 \<and> event_metadata.inference_inputs m \<noteq> [])"
proof -
  obtain c where c: "event_metadata.confidence m = Fin c" "0 \<le> c" "c \<le> 1"
    using assms by (rule validate_metadata_range)
  moreover have "1 - 1 / 2 ^ 22 < c \<and> event_metadata.inference_inputs m = []"
    if "event_metadata.source m = Observed"
    by (rule validate_metadata_observed [OF assms that]) (use c in simp)
  moreover have "c < 1 \<and> event_metadata.inference_inputs m \<noteq> []"
    if "event_metadata.source m = Inferred"
    using assms that c by (simp add: validate_metadata_inferred)
  ultimately show ?thesis by blast
qed

theorem validate_metadata_sound_witness:
  "validate_metadata (stamp (SessionEnd \<lparr>session_end.timestamp = ''t'', kind = SystemQuit\<rparr>) None) = Inr () \<and>
   (\<exists>c. event_metadata.confidence
          (stamp (SessionEnd \<lparr>session_end.timestamp = ''t'', kind = SystemQuit\<rparr>) None) = Fin c \<and> 0 \<le> c)"
  using validate_metadata_sound [OF validate_stamp
      [of "SessionEnd \<lparr>session_end.timestamp = ''t'', kind = SystemQuit\<rparr>" None]]
    validate_stamp [of "SessionEnd \<lparr>session_end.timestamp = ''t'', kind = SystemQuit\<rparr>" None]
  by blast

end
