(* ===== verification/Inference.thy ===== *)
theory Inference
  imports Validators
begin

text \<open>
  The inference pass of \<open>crates/starstats-core/src/inference.rs\<close>: rules run over every envelope and the
  time window behind it and emit events the log does not spell out, and a last pass marks the rows that an
  observed event supersedes.

  A rule is a closure; the values it captures behind a \<open>Mutex\<close> are the field \<open>captured\<close>, and running the rule
  returns the captured values it leaves behind.  Three of the four built-in rules capture nothing and
  ignore the field.  The pass therefore returns the rules as well as the rows, which is how a rule list that is
  used for two passes carries state from the first to the second.  chrono's parser is the parameter \<open>rfc\<close>.

  The lemmas say exactly which rows the built-in rules emit, that all of them pass the server's metadata
  gate, which row is superseded by which observed event, and that the pass is not a function of its events
  alone once a rule list is reused.
\<close>

section \<open>Rules and rows\<close>

record inference_config =
  window_size :: nat
  reconciliation_secs :: i64

definition default_config :: inference_config where
  "default_config = \<lparr>window_size = 200, reconciliation_secs = 5\<rparr>"

record inferred_event =
  event :: game_event
  metadata :: event_metadata
  trigger_idempotency_key :: string
  superseded_by :: "string option"

record inference_match =
  event :: game_event
  source_event_ids :: "string list"

record 's compiled_inference_rule =
  id :: string
  confidence :: flt
  window_secs :: i64
  captured :: 's
  apply_rule :: "'s \<Rightarrow> event_envelope \<Rightarrow> event_envelope list \<Rightarrow> 's \<times> inference_match option"

abbreviation (input) envelope_time :: "chrono_rfc3339 \<Rightarrow> event_envelope \<Rightarrow> int option" where
  "envelope_time rfc env \<equiv> Option.bind (envelope_timestamp env) rfc"

definition window_within_secs ::
  "chrono_rfc3339 \<Rightarrow> event_envelope \<Rightarrow> event_envelope list \<Rightarrow> i64 \<Rightarrow> event_envelope list" where
  "window_within_secs rfc trigger win w =
     (case envelope_time rfc trigger of
        None \<Rightarrow> []
      | Some trigger_ts \<Rightarrow>
          filter (\<lambda>env.
            case envelope_time rfc env of
              None \<Rightarrow> False
            | Some ts \<Rightarrow> let delta = num_seconds (ts - trigger_ts) in 0 < delta \<and> delta \<le> w) win)"

definition build_inferred_metadata ::
  "entity_ref \<Rightarrow> game_event \<Rightarrow> flt \<Rightarrow> string \<Rightarrow> string list \<Rightarrow> event_metadata" where
  "build_inferred_metadata entity ev conf rid inputs =
     \<lparr>event_metadata.primary_entity = entity, source = Inferred, confidence = conf,
      group_key = group_key_format (event_type_key ev) (entity_ref.kind entity) (entity_ref.id entity),
      field_provenance = [], inference_inputs = inputs, rule_id = Some rid\<rparr>"

definition inferred_row ::
  "event_envelope \<Rightarrow> 's compiled_inference_rule \<Rightarrow> inference_match \<Rightarrow> inferred_event" where
  "inferred_row env r m =
     \<lparr>inferred_event.event = inference_match.event m,
      metadata = build_inferred_metadata (primary_entity_for (inference_match.event m) None)
        (inference_match.event m) (compiled_inference_rule.confidence r) (compiled_inference_rule.id r)
        (source_event_ids m),
      trigger_idempotency_key = event_envelope.idempotency_key env,
      superseded_by = None\<rparr>"

section \<open>The pass\<close>

text \<open>One envelope: every rule runs, in order, against the window trimmed to its own bound.\<close>

fun run_rules ::
  "chrono_rfc3339 \<Rightarrow> event_envelope \<Rightarrow> event_envelope list \<Rightarrow> 's compiled_inference_rule list
     \<Rightarrow> 's compiled_inference_rule list \<times> inferred_event list" where
  "run_rules rfc env win [] = ([], [])"
| "run_rules rfc env win (r # rs) =
     (let trimmed = window_within_secs rfc env win (window_secs r);
          (st, m) = apply_rule r (captured r) env trimmed;
          (rs', out) = run_rules rfc env win rs
      in (r\<lparr>captured := st\<rparr> # rs', (case m of None \<Rightarrow> out | Some m \<Rightarrow> inferred_row env r m # out)))"

fun infer_loop ::
  "chrono_rfc3339 \<Rightarrow> inference_config \<Rightarrow> 's compiled_inference_rule list \<Rightarrow> event_envelope list
     \<Rightarrow> 's compiled_inference_rule list \<times> inferred_event list" where
  "infer_loop rfc cfg rules [] = (rules, [])"
| "infer_loop rfc cfg rules (env # rest) =
     (let (rules', out) = run_rules rfc env (take (window_size cfg) rest) rules;
          (rules'', out') = infer_loop rfc cfg rules' rest
      in (rules'', out @ out'))"

definition supersedes :: "chrono_rfc3339 \<Rightarrow> inference_config \<Rightarrow> inferred_event \<Rightarrow> int \<Rightarrow> event_envelope \<Rightarrow> bool" where
  "supersedes rfc cfg row inferred_ts env =
     (case event_envelope.event env of
        None \<Rightarrow> False
      | Some obs \<Rightarrow>
          if event_type_key obs \<noteq> event_type_key (inferred_event.event row) then False
          else
            let observed_entity = primary_entity_for obs None;
                inferred_entity = event_metadata.primary_entity (inferred_event.metadata row)
            in if entity_ref.kind observed_entity \<noteq> entity_ref.kind inferred_entity
                  \<or> entity_ref.id observed_entity \<noteq> entity_ref.id inferred_entity then False
               else
                 (case rfc (timestamp_of obs) of
                    None \<Rightarrow> False
                  | Some observed_ts \<Rightarrow>
                      let delta = num_seconds (observed_ts - inferred_ts)
                      in \<not> (delta < 0 \<or> reconciliation_secs cfg < delta)))"

definition reconcile_row ::
  "chrono_rfc3339 \<Rightarrow> inference_config \<Rightarrow> event_envelope list \<Rightarrow> inferred_event \<Rightarrow> inferred_event" where
  "reconcile_row rfc cfg events row =
     (case rfc (timestamp_of (inferred_event.event row)) of
        None \<Rightarrow> row
      | Some inferred_ts \<Rightarrow>
          (case find (supersedes rfc cfg row inferred_ts) events of
             None \<Rightarrow> row
           | Some env \<Rightarrow> row\<lparr>superseded_by := Some (event_envelope.idempotency_key env)\<rparr>))"

definition reconcile_supersedes ::
  "chrono_rfc3339 \<Rightarrow> event_envelope list \<Rightarrow> inference_config \<Rightarrow> inferred_event list \<Rightarrow> inferred_event list" where
  "reconcile_supersedes rfc events cfg inferred = map (reconcile_row rfc cfg events) inferred"

definition infer_with_rules ::
  "chrono_rfc3339 \<Rightarrow> event_envelope list \<Rightarrow> inference_config \<Rightarrow> 's compiled_inference_rule list
     \<Rightarrow> 's compiled_inference_rule list \<times> inferred_event list" where
  "infer_with_rules rfc events cfg rules =
     (let (rules', out) = infer_loop rfc cfg rules events
      in (rules', reconcile_supersedes rfc events cfg out))"

section \<open>The built-in rules\<close>

record location_change_state =
  prev_planet :: "(string \<times> string) option"
  inventory_seen_since_prev :: bool

definition location_change_default :: location_change_state where
  "location_change_default = \<lparr>prev_planet = None, inventory_seen_since_prev = False\<rparr>"

definition RULE_ID_IMPLICIT_DEATH :: string where
  "RULE_ID_IMPLICIT_DEATH = ''implicit_death_after_vehicle_destruction''"

definition IMPLICIT_DEATH_WINDOW_SECS :: i64 where
  "IMPLICIT_DEATH_WINDOW_SECS = 15"

definition IMPLICIT_DEATH_CONFIDENCE :: flt where
  "IMPLICIT_DEATH_CONFIDENCE = Fin (f32_round (85 / 100))"

definition is_resolve_spawn :: "event_envelope \<Rightarrow> bool" where
  "is_resolve_spawn env = (case event_envelope.event env of Some (ResolveSpawn _) \<Rightarrow> True | _ \<Rightarrow> False)"

definition implicit_death_apply :: "event_envelope \<Rightarrow> event_envelope list \<Rightarrow> inference_match option" where
  "implicit_death_apply env win =
     (case event_envelope.event env of
        Some (VehicleDestruction veh) \<Rightarrow>
          (case find is_resolve_spawn win of
             None \<Rightarrow> None
           | Some spawn \<Rightarrow>
               Some \<lparr>inference_match.event = PlayerDeath
                       \<lparr>player_death.timestamp = vehicle_destruction.timestamp veh,
                        body_class = ''inferred'',
                        body_id = ''inferred_'' @ event_envelope.idempotency_key env,
                        player_death.zone = vehicle_destruction.zone veh\<rparr>,
                     source_event_ids = [event_envelope.idempotency_key env, event_envelope.idempotency_key spawn]\<rparr>)
      | _ \<Rightarrow> None)"

definition built_in_implicit_death_after_vehicle_destruction :: "location_change_state compiled_inference_rule" where
  "built_in_implicit_death_after_vehicle_destruction =
     \<lparr>compiled_inference_rule.id = RULE_ID_IMPLICIT_DEATH, confidence = IMPLICIT_DEATH_CONFIDENCE,
      window_secs = IMPLICIT_DEATH_WINDOW_SECS, captured = location_change_default,
      apply_rule = (\<lambda>st env win. (st, implicit_death_apply env win))\<rparr>"

definition RULE_ID_IMPLICIT_LOCATION_CHANGE :: string where
  "RULE_ID_IMPLICIT_LOCATION_CHANGE = ''implicit_location_change''"

definition IMPLICIT_LOCATION_CHANGE_CONFIDENCE :: flt where
  "IMPLICIT_LOCATION_CHANGE_CONFIDENCE = Fin (f32_round (70 / 100))"

definition location_change_apply ::
  "location_change_state \<Rightarrow> event_envelope \<Rightarrow> event_envelope list \<Rightarrow> location_change_state \<times> inference_match option" where
  "location_change_apply st env win =
     (case event_envelope.event env of
        Some (PlanetTerrainLoad planet_load) \<Rightarrow>
          let emit = (case prev_planet st of
                        Some (prev_key, prev_planet_name) \<Rightarrow>
                          if \<not> inventory_seen_since_prev st \<and> prev_planet_name \<noteq> planet planet_load
                          then Some (prev_key, prev_planet_name) else None
                      | None \<Rightarrow> None);
              result = map_option (\<lambda>(prev_key, prev_planet_name).
                \<lparr>inference_match.event = LocationChanged
                   \<lparr>location_changed.timestamp = planet_terrain_load.timestamp planet_load,
                    from = Some prev_planet_name, to = planet planet_load\<rparr>,
                 source_event_ids = [prev_key, event_envelope.idempotency_key env]\<rparr>) emit
          in (\<lparr>prev_planet = Some (event_envelope.idempotency_key env, planet planet_load),
               inventory_seen_since_prev = False\<rparr>, result)
      | Some (LocationInventoryRequested _) \<Rightarrow> (st\<lparr>inventory_seen_since_prev := True\<rparr>, None)
      | _ \<Rightarrow> (st, None))"

definition built_in_implicit_location_change :: "location_change_state compiled_inference_rule" where
  "built_in_implicit_location_change =
     \<lparr>compiled_inference_rule.id = RULE_ID_IMPLICIT_LOCATION_CHANGE,
      confidence = IMPLICIT_LOCATION_CHANGE_CONFIDENCE,
      window_secs = 2 ^ 63 - 1, captured = location_change_default, apply_rule = location_change_apply\<rparr>"

definition RULE_ID_IMPLICIT_SHOP_REQUEST_TIMEOUT :: string where
  "RULE_ID_IMPLICIT_SHOP_REQUEST_TIMEOUT = ''implicit_shop_request_timeout''"

definition IMPLICIT_SHOP_REQUEST_TIMEOUT_SECS :: i64 where
  "IMPLICIT_SHOP_REQUEST_TIMEOUT_SECS = 30"

definition IMPLICIT_SHOP_REQUEST_TIMEOUT_CONFIDENCE :: flt where
  "IMPLICIT_SHOP_REQUEST_TIMEOUT_CONFIDENCE = Fin (f32_round (90 / 100))"

definition answers_request :: "shop_buy_request \<Rightarrow> event_envelope \<Rightarrow> bool" where
  "answers_request req env =
     (case event_envelope.event env of
        Some (ShopFlowResponse resp) \<Rightarrow>
          (case (shop_buy_request.shop_id req, shop_flow_response.shop_id resp) of
             (Some a, Some b) \<Rightarrow> a = b
           | _ \<Rightarrow> True)
      | _ \<Rightarrow> False)"

definition shop_timeout_apply :: "event_envelope \<Rightarrow> event_envelope list \<Rightarrow> inference_match option" where
  "shop_timeout_apply env win =
     (case event_envelope.event env of
        Some (ShopBuyRequest req) \<Rightarrow>
          if list_ex (answers_request req) win then None
          else
            let timed_out = (if 0 \<le> IMPLICIT_SHOP_REQUEST_TIMEOUT_SECS \<and> IMPLICIT_SHOP_REQUEST_TIMEOUT_SECS < 2 ^ 32
                             then of_int IMPLICIT_SHOP_REQUEST_TIMEOUT_SECS else - 1)
            in Some \<lparr>inference_match.event = ShopRequestTimedOut
                       \<lparr>shop_request_timed_out.timestamp = shop_buy_request.timestamp req,
                        shop_request_timed_out.shop_id = shop_buy_request.shop_id req,
                        shop_request_timed_out.item_class = shop_buy_request.item_class req,
                        timed_out_after_secs = timed_out\<rparr>,
                     source_event_ids = [event_envelope.idempotency_key env]\<rparr>
      | _ \<Rightarrow> None)"

definition built_in_implicit_shop_request_timeout :: "location_change_state compiled_inference_rule" where
  "built_in_implicit_shop_request_timeout =
     \<lparr>compiled_inference_rule.id = RULE_ID_IMPLICIT_SHOP_REQUEST_TIMEOUT,
      confidence = IMPLICIT_SHOP_REQUEST_TIMEOUT_CONFIDENCE,
      window_secs = IMPLICIT_SHOP_REQUEST_TIMEOUT_SECS, captured = location_change_default,
      apply_rule = (\<lambda>st env win. (st, shop_timeout_apply env win))\<rparr>"

definition RULE_ID_TRAVEL_TO_CONTRACT_LOCATION :: string where
  "RULE_ID_TRAVEL_TO_CONTRACT_LOCATION = ''travel_to_contract_location''"

definition TRAVEL_TO_CONTRACT_LOCATION_CONFIDENCE :: flt where
  "TRAVEL_TO_CONTRACT_LOCATION_CONFIDENCE = Fin (f32_round (90 / 100))"

definition TRAVEL_TO_CONTRACT_LOCATION_WINDOW_SECS :: i64 where
  "TRAVEL_TO_CONTRACT_LOCATION_WINDOW_SECS = 1"

definition travel_apply :: "event_envelope \<Rightarrow> event_envelope list \<Rightarrow> inference_match option" where
  "travel_apply env win =
     (case event_envelope.event env of
        Some (MissionQuantumDestinationSelected selected) \<Rightarrow>
          Some \<lparr>inference_match.event = TravelToContractLocation
                  \<lparr>travel_to_contract_location.timestamp = mission_quantum_destination_selected.timestamp selected,
                   travel_to_contract_location.beacon_id = mission_quantum_destination_selected.beacon_id selected,
                   travel_started = False, travel_completed = False\<rparr>,
                source_event_ids = [event_envelope.idempotency_key env]\<rparr>
      | _ \<Rightarrow> None)"

definition built_in_travel_to_contract_location :: "location_change_state compiled_inference_rule" where
  "built_in_travel_to_contract_location =
     \<lparr>compiled_inference_rule.id = RULE_ID_TRAVEL_TO_CONTRACT_LOCATION,
      confidence = TRAVEL_TO_CONTRACT_LOCATION_CONFIDENCE,
      window_secs = TRAVEL_TO_CONTRACT_LOCATION_WINDOW_SECS, captured = location_change_default,
      apply_rule = (\<lambda>st env win. (st, travel_apply env win))\<rparr>"

definition built_in_inference_rules :: "location_change_state compiled_inference_rule list" where
  "built_in_inference_rules =
     [built_in_implicit_death_after_vehicle_destruction, built_in_implicit_location_change,
      built_in_implicit_shop_request_timeout, built_in_travel_to_contract_location]"

definition infer :: "chrono_rfc3339 \<Rightarrow> event_envelope list \<Rightarrow> inference_config \<Rightarrow> inferred_event list" where
  "infer rfc events cfg = snd (infer_with_rules rfc events cfg built_in_inference_rules)"


section \<open>Windows\<close>

text \<open>An envelope follows another within \<open>w\<close> seconds: at least one full second later, less than \<open>w + 1\<close>
  seconds later.\<close>

definition follows_within :: "chrono_rfc3339 \<Rightarrow> event_envelope \<Rightarrow> event_envelope \<Rightarrow> i64 \<Rightarrow> bool" where
  "follows_within rfc a b w \<longleftrightarrow>
     (\<exists>t t'. envelope_time rfc a = Some t \<and> envelope_time rfc b = Some t' \<and>
        t + 1000000000 \<le> t' \<and> t' < t + (w + 1) * 1000000000)"

lemma window_filter:
  "0 \<le> w \<Longrightarrow> window_within_secs rfc a win w = filter (\<lambda>b. follows_within rfc a b w) win"
  by (auto simp: window_within_secs_def follows_within_def Let_def num_seconds_pos_iff num_seconds_le_iff
      algebra_simps intro!: filter_cong split: option.splits)

section \<open>Rows of the built-in rules\<close>

definition rules_at :: "location_change_state \<Rightarrow> location_change_state compiled_inference_rule list" where
  "rules_at st =
     [built_in_implicit_death_after_vehicle_destruction, built_in_implicit_location_change\<lparr>captured := st\<rparr>,
      built_in_implicit_shop_request_timeout, built_in_travel_to_contract_location]"

definition match_rows :: "event_envelope \<Rightarrow> 's compiled_inference_rule \<Rightarrow> inference_match option \<Rightarrow> inferred_event list" where
  "match_rows env r m = (case m of None \<Rightarrow> [] | Some m \<Rightarrow> [inferred_row env r m])"

definition rows_at ::
  "chrono_rfc3339 \<Rightarrow> location_change_state \<Rightarrow> event_envelope \<Rightarrow> event_envelope list \<Rightarrow> inferred_event list" where
  "rows_at rfc st env win =
     match_rows env built_in_implicit_death_after_vehicle_destruction
       (implicit_death_apply env (filter (\<lambda>b. follows_within rfc env b 15) win)) @
     match_rows env built_in_implicit_location_change (snd (location_change_apply st env [])) @
     match_rows env built_in_implicit_shop_request_timeout
       (shop_timeout_apply env (filter (\<lambda>b. follows_within rfc env b 30) win)) @
     match_rows env built_in_travel_to_contract_location (travel_apply env [])"

definition location_step :: "location_change_state \<Rightarrow> event_envelope \<Rightarrow> location_change_state" where
  "location_step st env = fst (location_change_apply st env [])"

lemmas built_in_defs =
  built_in_implicit_death_after_vehicle_destruction_def built_in_implicit_location_change_def
  built_in_implicit_shop_request_timeout_def built_in_travel_to_contract_location_def

lemma location_change_apply_window: "location_change_apply st env win = location_change_apply st env []"
  by (simp add: location_change_apply_def)

lemma travel_apply_window: "travel_apply env win = travel_apply env []"
  by (simp add: travel_apply_def)

lemma built_in_rules_at: "built_in_inference_rules = rules_at location_change_default"
  by (simp add: built_in_inference_rules_def rules_at_def built_in_implicit_location_change_def)

lemma match_rows_captured [simp]: "match_rows env (r\<lparr>captured := st\<rparr>) m = match_rows env r m"
  by (simp add: match_rows_def inferred_row_def split: option.splits)

lemma run_rules_Cons:
  "run_rules rfc env win (r # rs) =
     (r\<lparr>captured := fst (apply_rule r (captured r) env (window_within_secs rfc env win (window_secs r)))\<rparr>
        # fst (run_rules rfc env win rs),
      match_rows env r (snd (apply_rule r (captured r) env (window_within_secs rfc env win (window_secs r))))
        @ snd (run_rules rfc env win rs))"
  by (simp add: match_rows_def Let_def split: option.splits prod.splits)

lemma run_rules_at: "run_rules rfc env win (rules_at st) = (rules_at (location_step st env), rows_at rfc st env win)"
proof -
  let ?w = "window_within_secs rfc env win (2 ^ 63 - 1)"
  have "window_within_secs rfc env win IMPLICIT_DEATH_WINDOW_SECS = filter (\<lambda>b. follows_within rfc env b 15) win"
    "window_within_secs rfc env win IMPLICIT_SHOP_REQUEST_TIMEOUT_SECS = filter (\<lambda>b. follows_within rfc env b 30) win"
    by (simp_all add: window_filter IMPLICIT_DEATH_WINDOW_SECS_def IMPLICIT_SHOP_REQUEST_TIMEOUT_SECS_def)
  moreover have "location_change_apply st env ?w = location_change_apply st env []"
    by (rule location_change_apply_window)
  moreover have "travel_apply env (window_within_secs rfc env win TRAVEL_TO_CONTRACT_LOCATION_WINDOW_SECS)
      = travel_apply env []"
    by (rule travel_apply_window)
  ultimately show ?thesis
    by (simp add: rules_at_def rows_at_def location_step_def run_rules_Cons del: run_rules.simps(2))
      (simp add: built_in_defs)
qed

lemma infer_loop_rows:
  "row \<in> set (snd (infer_loop rfc cfg (rules_at st) es)) \<longleftrightarrow>
     (\<exists>xs env ys. es = xs @ env # ys \<and>
        row \<in> set (rows_at rfc (foldl location_step st xs) env (take (window_size cfg) ys)))"
proof (induction es arbitrary: st)
  case (Cons e es)
  have split: "e # es = xs @ env # ys \<longleftrightarrow>
      (xs = [] \<and> e = env \<and> es = ys) \<or> (\<exists>xs'. xs = e # xs' \<and> es = xs' @ env # ys)" for xs env ys
    by (cases xs) auto
  have "row \<in> set (snd (infer_loop rfc cfg (rules_at st) (e # es))) \<longleftrightarrow>
      row \<in> set (rows_at rfc st e (take (window_size cfg) es)) \<or>
      row \<in> set (snd (infer_loop rfc cfg (rules_at (location_step st e)) es))"
    by (simp add: run_rules_at split: prod.splits)
  also have "\<dots> \<longleftrightarrow> (\<exists>xs env ys. e # es = xs @ env # ys \<and>
      row \<in> set (rows_at rfc (foldl location_step st xs) env (take (window_size cfg) ys)))"
    (is "_ \<longleftrightarrow> (\<exists>xs env ys. ?split xs env ys \<and> ?row xs env ys)")
  proof -
    have "(\<exists>xs env ys. ?split xs env ys \<and> ?row xs env ys) \<longleftrightarrow>
        ?row [] e es \<or> (\<exists>xs env ys. es = xs @ env # ys \<and> ?row (e # xs) env ys)"
      unfolding split by blast
    then show ?thesis unfolding Cons.IH by simp
  qed
  finally show ?case .
qed simp

lemma reconcile_row_simps [simp]:
  "inferred_event.event (reconcile_row rfc cfg events row) = inferred_event.event row"
  "inferred_event.metadata (reconcile_row rfc cfg events row) = inferred_event.metadata row"
  "inferred_event.trigger_idempotency_key (reconcile_row rfc cfg events row) = inferred_event.trigger_idempotency_key row"
  by (simp_all add: reconcile_row_def split: option.splits)

lemma infer_rows:
  "row \<in> set (infer rfc events cfg) \<longleftrightarrow>
     (\<exists>xs env ys row0. events = xs @ env # ys \<and>
        row0 \<in> set (rows_at rfc (foldl location_step location_change_default xs) env (take (window_size cfg) ys)) \<and>
        row = reconcile_row rfc cfg events row0)"
proof -
  have "infer rfc events cfg =
      map (reconcile_row rfc cfg events) (snd (infer_loop rfc cfg (rules_at location_change_default) events))"
    by (simp add: infer_def infer_with_rules_def built_in_rules_at reconcile_supersedes_def split: prod.splits)
  then show ?thesis
    by (simp only: set_map image_iff Bex_def infer_loop_rows) blast
qed

text \<open>The event kinds of the four rules.\<close>

lemma implicit_death_event:
  "implicit_death_apply env win = Some m \<longleftrightarrow>
     (\<exists>veh spawn. event_envelope.event env = Some (VehicleDestruction veh) \<and> find is_resolve_spawn win = Some spawn \<and>
        m = \<lparr>inference_match.event = PlayerDeath
               \<lparr>player_death.timestamp = vehicle_destruction.timestamp veh, body_class = ''inferred'',
                body_id = ''inferred_'' @ event_envelope.idempotency_key env,
                player_death.zone = vehicle_destruction.zone veh\<rparr>,
             source_event_ids = [event_envelope.idempotency_key env, event_envelope.idempotency_key spawn]\<rparr>)"
  by (auto simp: implicit_death_apply_def split: option.splits game_event.splits)

lemma location_change_event:
  "snd (location_change_apply st env win) = Some m \<longleftrightarrow>
     (\<exists>load k p. event_envelope.event env = Some (PlanetTerrainLoad load) \<and> prev_planet st = Some (k, p) \<and>
        \<not> inventory_seen_since_prev st \<and> p \<noteq> planet load \<and>
        m = \<lparr>inference_match.event = LocationChanged
               \<lparr>location_changed.timestamp = planet_terrain_load.timestamp load, from = Some p, to = planet load\<rparr>,
             source_event_ids = [k, event_envelope.idempotency_key env]\<rparr>)"
  by (auto simp: location_change_apply_def Let_def split: option.splits game_event.splits if_splits)

lemma shop_timeout_event:
  "shop_timeout_apply env win = Some m \<longleftrightarrow>
     (\<exists>req. event_envelope.event env = Some (ShopBuyRequest req) \<and> (\<forall>b \<in> set win. \<not> answers_request req b) \<and>
        m = \<lparr>inference_match.event = ShopRequestTimedOut
               \<lparr>shop_request_timed_out.timestamp = shop_buy_request.timestamp req,
                shop_request_timed_out.shop_id = shop_buy_request.shop_id req,
                shop_request_timed_out.item_class = shop_buy_request.item_class req,
                timed_out_after_secs = 30\<rparr>,
             source_event_ids = [event_envelope.idempotency_key env]\<rparr>)"
  by (auto simp: shop_timeout_apply_def list_ex_iff IMPLICIT_SHOP_REQUEST_TIMEOUT_SECS_def
      split: option.splits game_event.splits if_splits)

lemma travel_event:
  "travel_apply env win = Some m \<longleftrightarrow>
     (\<exists>sel. event_envelope.event env = Some (MissionQuantumDestinationSelected sel) \<and>
        m = \<lparr>inference_match.event = TravelToContractLocation
               \<lparr>travel_to_contract_location.timestamp = mission_quantum_destination_selected.timestamp sel,
                travel_to_contract_location.beacon_id = mission_quantum_destination_selected.beacon_id sel,
                travel_started = False, travel_completed = False\<rparr>,
             source_event_ids = [event_envelope.idempotency_key env]\<rparr>)"
  by (auto simp: travel_apply_def split: option.splits game_event.splits)

lemma match_rows_iff [simp]: "row \<in> set (match_rows env r m) \<longleftrightarrow> (\<exists>x. m = Some x \<and> row = inferred_row env r x)"
  by (auto simp: match_rows_def split: option.splits)

lemma inferred_row_simps [simp]:
  "inferred_event.event (inferred_row env r m) = inference_match.event m"
  "trigger_idempotency_key (inferred_row env r m) = event_envelope.idempotency_key env"
  "superseded_by (inferred_row env r m) = None"
  by (simp_all add: inferred_row_def)

lemmas rule_events = implicit_death_event location_change_event shop_timeout_event travel_event

section \<open>The location-change rule\<close>

definition is_planet_load :: "event_envelope \<Rightarrow> bool" where
  "is_planet_load env = (case event_envelope.event env of Some (PlanetTerrainLoad _) \<Rightarrow> True | _ \<Rightarrow> False)"

definition is_inventory_request :: "event_envelope \<Rightarrow> bool" where
  "is_inventory_request env =
     (case event_envelope.event env of Some (LocationInventoryRequested _) \<Rightarrow> True | _ \<Rightarrow> False)"

lemma location_step_load:
  "event_envelope.event env = Some (PlanetTerrainLoad load) \<Longrightarrow>
     location_step st env =
       \<lparr>prev_planet = Some (event_envelope.idempotency_key env, planet load), inventory_seen_since_prev = False\<rparr>"
  by (simp add: location_step_def location_change_apply_def)

lemma location_step_other:
  "\<not> is_planet_load env \<Longrightarrow>
     location_step st env = (if is_inventory_request env then st\<lparr>inventory_seen_since_prev := True\<rparr> else st)"
  by (auto simp: location_step_def location_change_apply_def is_planet_load_def is_inventory_request_def
      split: option.splits game_event.splits)

lemma is_planet_loadE:
  assumes "is_planet_load env"
  obtains load where "event_envelope.event env = Some (PlanetTerrainLoad load)"
  using assms by (auto simp: is_planet_load_def split: option.splits game_event.splits)

lemma planet_load_kind:
  "event_envelope.event env = Some (PlanetTerrainLoad load) \<Longrightarrow> is_planet_load env \<and> \<not> is_inventory_request env"
  by (simp add: is_planet_load_def is_inventory_request_def)

text \<open>The last terrain load of a stream, when no inventory request came after it.\<close>

definition open_load :: "event_envelope list \<Rightarrow> string \<Rightarrow> string \<Rightarrow> bool" where
  "open_load es k p \<longleftrightarrow>
     (\<exists>xs a load ys. es = xs @ a # ys \<and> event_envelope.event a = Some (PlanetTerrainLoad load) \<and>
        k = event_envelope.idempotency_key a \<and> p = planet load \<and>
        (\<forall>e \<in> set ys. \<not> is_planet_load e \<and> \<not> is_inventory_request e))"

lemma open_loadI:
  "event_envelope.event a = Some (PlanetTerrainLoad load) \<Longrightarrow>
     \<forall>e \<in> set ys. \<not> is_planet_load e \<and> \<not> is_inventory_request e \<Longrightarrow>
     open_load (xs @ a # ys) (event_envelope.idempotency_key a) (planet load)"
  by (auto simp: open_load_def)

lemma open_load_snoc_load:
  assumes load: "event_envelope.event e = Some (PlanetTerrainLoad load)"
  shows "open_load (es @ [e]) k p \<longleftrightarrow> k = event_envelope.idempotency_key e \<and> p = planet load"
proof
  assume "open_load (es @ [e]) k p"
  then obtain xs a load' ys where d: "es @ [e] = xs @ a # ys"
    "event_envelope.event a = Some (PlanetTerrainLoad load')"
    "k = event_envelope.idempotency_key a" "p = planet load'"
    "\<forall>x \<in> set ys. \<not> is_planet_load x \<and> \<not> is_inventory_request x" unfolding open_load_def by blast
  with planet_load_kind [OF load] have "ys = []" by (cases ys rule: rev_cases) auto
  with d load show "k = event_envelope.idempotency_key e \<and> p = planet load" by simp
qed (use open_loadI [OF load, of "[]" es] in simp)

lemma open_load_snoc_other:
  assumes "\<not> is_planet_load e"
  shows "open_load (es @ [e]) k p \<longleftrightarrow> \<not> is_inventory_request e \<and> open_load es k p"
proof
  assume "open_load (es @ [e]) k p"
  then obtain xs a load ys where d: "es @ [e] = xs @ a # ys"
    "event_envelope.event a = Some (PlanetTerrainLoad load)"
    "k = event_envelope.idempotency_key a" "p = planet load"
    "\<forall>x \<in> set ys. \<not> is_planet_load x \<and> \<not> is_inventory_request x" unfolding open_load_def by blast
  with assms obtain ys' where "ys = ys' @ [e]" "es = xs @ a # ys'"
    using planet_load_kind [OF d(2)] by (cases ys rule: rev_cases) auto
  with d open_loadI [OF d(2), of ys' xs] show "\<not> is_inventory_request e \<and> open_load es k p" by simp
next
  assume R: "\<not> is_inventory_request e \<and> open_load es k p"
  then obtain xs a load ys where "es = xs @ a # ys" "event_envelope.event a = Some (PlanetTerrainLoad load)"
    "k = event_envelope.idempotency_key a" "p = planet load"
    "\<forall>x \<in> set ys. \<not> is_planet_load x \<and> \<not> is_inventory_request x" unfolding open_load_def by blast
  with assms R open_loadI [of a load "ys @ [e]" xs] show "open_load (es @ [e]) k p" by simp
qed

text \<open>What the captured state remembers.\<close>

lemma location_state_iff:
  "prev_planet (foldl location_step location_change_default es) = Some (k, p) \<and>
   \<not> inventory_seen_since_prev (foldl location_step location_change_default es) \<longleftrightarrow> open_load es k p"
proof (induction es rule: rev_induct)
  case Nil
  then show ?case by (simp add: location_change_default_def open_load_def)
next
  case (snoc e es)
  show ?case
  proof (cases "is_planet_load e")
    case True
    then obtain load where "event_envelope.event e = Some (PlanetTerrainLoad load)"
      by (rule is_planet_loadE)
    then show ?thesis by (auto simp: location_step_load open_load_snoc_load)
  next
    case False
    with snoc.IH show ?thesis by (auto simp: location_step_other open_load_snoc_other)
  qed
qed

section \<open>The shape of a row\<close>

lemma f32_round_fraction: "0 \<le> x \<Longrightarrow> x \<le> 9 / 10 \<Longrightarrow> 0 \<le> f32_round x \<and> f32_round x < 1"
  using f32_round_error [of x] by (auto simp: abs_if split: if_splits)

lemma built_in_confidence:
  "r \<in> set built_in_inference_rules \<Longrightarrow> \<exists>c. compiled_inference_rule.confidence r = Fin c \<and> 0 \<le> c \<and> c < 1"
  by (auto simp: built_in_inference_rules_def built_in_defs IMPLICIT_DEATH_CONFIDENCE_def
      IMPLICIT_LOCATION_CHANGE_CONFIDENCE_def IMPLICIT_SHOP_REQUEST_TIMEOUT_CONFIDENCE_def
      TRAVEL_TO_CONTRACT_LOCATION_CONFIDENCE_def f32_round_fraction)

definition match_ok :: "inference_match \<Rightarrow> bool" where
  "match_ok m \<longleftrightarrow> source_event_ids m \<noteq> [] \<and>
     (case inference_match.event m of
        TravelToContractLocation t \<Rightarrow> \<not> travel_started t \<and> \<not> travel_completed t
      | _ \<Rightarrow> True)"

lemma inferred_row_metadata:
  assumes "r \<in> set built_in_inference_rules" "match_ok m"
  shows "validate_metadata (inferred_event.metadata (inferred_row env r m)) = Inr ()"
    "event_metadata.source (inferred_event.metadata (inferred_row env r m)) = Inferred"
    "event_metadata.rule_id (inferred_event.metadata (inferred_row env r m)) = Some (compiled_inference_rule.id r)"
    "event_metadata.group_key (inferred_event.metadata (inferred_row env r m)) =
       group_key_for (inference_match.event m) None"
  using built_in_confidence [OF assms(1)] assms(2)
  by (auto simp: inferred_row_def build_inferred_metadata_def validate_metadata_def group_key_for_def Let_def match_ok_def)

lemma rule_matches_ok:
  "implicit_death_apply env win = Some m \<Longrightarrow> match_ok m"
  "snd (location_change_apply st env win) = Some m \<Longrightarrow> match_ok m"
  "shop_timeout_apply env win = Some m \<Longrightarrow> match_ok m"
  "travel_apply env win = Some m \<Longrightarrow> match_ok m"
  by (auto simp: rule_events match_ok_def)

lemma rows_at_form:
  assumes "row \<in> set (rows_at rfc st env win)"
  shows "\<exists>r m. r \<in> set built_in_inference_rules \<and> match_ok m \<and> row = inferred_row env r m"
proof -
  have rules: "built_in_implicit_death_after_vehicle_destruction \<in> set built_in_inference_rules"
    "built_in_implicit_location_change \<in> set built_in_inference_rules"
    "built_in_implicit_shop_request_timeout \<in> set built_in_inference_rules"
    "built_in_travel_to_contract_location \<in> set built_in_inference_rules"
    by (simp_all add: built_in_inference_rules_def)
  from assms show ?thesis
    unfolding rows_at_def set_append Un_iff match_rows_iff
    by (elim disjE exE conjE) (use rules rule_matches_ok in \<open>metis\<close>)+
qed

lemma supersedes_reconciled [simp]:
  "supersedes rfc cfg (reconcile_row rfc cfg events row) = supersedes rfc cfg row"
  by (intro ext) (simp only: supersedes_def reconcile_row_simps)

text \<open>Any rule list: a rule is sound when its confidence is a fraction and each match names an input.  The rows of sound rules
  pass the metadata gate, whatever state the rules carry.\<close>

definition rule_sound :: "'s compiled_inference_rule \<Rightarrow> bool" where
  "rule_sound r \<longleftrightarrow>
     (\<exists>c. compiled_inference_rule.confidence r = Fin c \<and> 0 \<le> c \<and> c < 1) \<and>
     (\<forall>st env win m. snd (apply_rule r st env win) = Some m \<longrightarrow> source_event_ids m \<noteq> [])"

lemma rule_sound_captured [simp]: "rule_sound (r\<lparr>captured := st\<rparr>) = rule_sound r"
  by (simp add: rule_sound_def)

lemma inferred_row_valid:
  "rule_sound r \<Longrightarrow> source_event_ids m \<noteq> [] \<Longrightarrow> validate_metadata (inferred_event.metadata (inferred_row env r m)) = Inr ()"
  by (auto simp: rule_sound_def inferred_row_def build_inferred_metadata_def validate_metadata_def)

lemma run_rules_valid:
  "\<forall>r \<in> set rules. rule_sound r \<Longrightarrow>
     (\<forall>r \<in> set (fst (run_rules rfc env win rules)). rule_sound r) \<and>
     (\<forall>row \<in> set (snd (run_rules rfc env win rules)). validate_metadata (inferred_event.metadata row) = Inr ())"
proof (induction rules)
  case (Cons r rs)
  have "source_event_ids m \<noteq> []"
    if "snd (apply_rule r (captured r) env (window_within_secs rfc env win (window_secs r))) = Some m" for m
    using Cons.prems that by (auto simp: rule_sound_def)
  with Cons show ?case
    by (auto simp: run_rules_Cons inferred_row_valid simp del: run_rules.simps(2))
qed simp

lemma infer_loop_valid:
  "\<forall>r \<in> set rules. rule_sound r \<Longrightarrow>
     (\<forall>row \<in> set (snd (infer_loop rfc cfg rules es)). validate_metadata (inferred_event.metadata row) = Inr ())"
proof (induction rfc cfg rules es rule: infer_loop.induct)
  case (2 rfc cfg rules env rest)
  obtain rules' out where r: "run_rules rfc env (take (window_size cfg) rest) rules = (rules', out)" by fastforce
  have sound: "\<forall>r \<in> set rules'. rule_sound r" and out: "\<forall>row \<in> set out. validate_metadata (inferred_event.metadata row) = Inr ()"
    using run_rules_valid [OF "2.prems", of rfc env "take (window_size cfg) rest"] by (simp_all add: r)
  show ?case
    using "2.IH" [OF r [symmetric] refl sound] out by (auto simp: r split: prod.splits)
qed simp

lemma infer_with_rules_valid:
  "\<forall>r \<in> set rules. rule_sound r \<Longrightarrow> row \<in> set (snd (infer_with_rules rfc events cfg rules)) \<Longrightarrow>
     validate_metadata (inferred_event.metadata row) = Inr ()"
  using infer_loop_valid [of rules rfc cfg events]
  by (auto simp: infer_with_rules_def reconcile_supersedes_def split: prod.splits)

lemma built_in_sound: "r \<in> set built_in_inference_rules \<Longrightarrow> rule_sound r"
  using built_in_confidence [of r] rule_matches_ok
  by (auto simp: rule_sound_def built_in_inference_rules_def built_in_defs match_ok_def)

lemma inferred_death_class:
  assumes "row \<in> set (infer rfc events cfg)" "inferred_event.event row = PlayerDeath d"
  shows "body_class d = ''inferred''"
proof -
  obtain st env win row0 where "row0 \<in> set (rows_at rfc st env win)" "inferred_event.event row0 = PlayerDeath d"
    using assms unfolding infer_rows by auto
  then show ?thesis by (auto simp: rows_at_def rule_events)
qed

section \<open>Properties\<close>

text \<open>The follow-up window of a rule is exactly the sub-list of envelopes that come at least one and less than
  \<open>window_secs + 1\<close> whole seconds after the trigger: nothing earlier or simultaneous is ever paired, order is
  kept, unreadable timestamps drop out.  (The comment promises every later event up to \<open>window_secs\<close>; a
  follow-up less than a second later is not seen, because the difference is truncated to seconds.)\<close>

theorem window_within_secs_exact:
  assumes "0 \<le> w"
  shows "window_within_secs rfc trigger win w =
    filter (\<lambda>env. \<exists>t t'. Option.bind (envelope_timestamp trigger) rfc = Some t \<and>
       Option.bind (envelope_timestamp env) rfc = Some t' \<and>
       t + 1000000000 \<le> t' \<and> t' < t + (w + 1) * 1000000000) win"
  using window_filter [OF assms] by (simp add: follows_within_def)

abbreviation (input) sample_envelope :: "string \<Rightarrow> game_event \<Rightarrow> event_envelope" where
  "sample_envelope k ev \<equiv>
     \<lparr>event_envelope.idempotency_key = k, raw_line = [], event_envelope.event = Some ev, event_envelope.source = Live,
      source_offset = 0, event_envelope.metadata = None, event_envelope.resolved_location = None\<rparr>"

abbreviation (input) sample_load :: "string \<Rightarrow> string \<Rightarrow> string \<Rightarrow> event_envelope" where
  "sample_load k t p \<equiv> sample_envelope k (PlanetTerrainLoad \<lparr>planet_terrain_load.timestamp = t, planet = p\<rparr>)"

text \<open>A clock for the samples: a string of length \<open>n\<close> is second \<open>n\<close>.\<close>

definition length_clock :: chrono_rfc3339 where
  "length_clock s = Some (int (length s) * 1000000000)"

theorem window_within_secs_exact_witness:
  "window_within_secs length_clock (sample_load ''a'' ''x'' ''p'')
     [sample_load ''b'' ''xx'' ''p'', sample_load ''c'' ''x'' ''p''] 15 = [sample_load ''b'' ''xx'' ''p'']"
  using window_within_secs_exact [of 15 length_clock "sample_load ''a'' ''x'' ''p''"
      "[sample_load ''b'' ''xx'' ''p'', sample_load ''c'' ''x'' ''p'']"]
  by (simp add: envelope_timestamp_def length_clock_def)

text \<open>C26. The death rule is exact: the pass reports an inferred death precisely when a vehicle destruction is
  followed, within the event cap, by a spawn resolution that lies at least 1 second and less than 16 seconds later; the death carries the time
  and the zone of the destruction and an id derived from the trigger.  This is the window of the code, which truncates the difference to whole seconds before
  it compares: a spawn half a second later is missed, and one 15.9 seconds later is taken, although the comment on the window says \<open>(t, t + 15s]\<close>.\<close>

theorem infer_death_iff:
  "(\<exists>row. row \<in> set (infer rfc events cfg) \<and> inferred_event.event row = PlayerDeath d) \<longleftrightarrow>
     (\<exists>xs env ys veh spawn. events = xs @ env # ys \<and>
        event_envelope.event env = Some (VehicleDestruction veh) \<and>
        spawn \<in> set (take (window_size cfg) ys) \<and> is_resolve_spawn spawn \<and>
        (\<exists>t t'. envelope_time rfc env = Some t \<and> envelope_time rfc spawn = Some t' \<and> t + 1000000000 \<le> t' \<and> t' < t + 16000000000) \<and>
        d = \<lparr>player_death.timestamp = vehicle_destruction.timestamp veh, body_class = ''inferred'',
             body_id = ''inferred_'' @ event_envelope.idempotency_key env,
             player_death.zone = vehicle_destruction.zone veh\<rparr>)"
proof -
  have row: "(\<exists>row. row \<in> set (rows_at rfc st env win) \<and> inferred_event.event row = PlayerDeath d) \<longleftrightarrow>
      (\<exists>veh spawn. event_envelope.event env = Some (VehicleDestruction veh) \<and>
        spawn \<in> set win \<and> is_resolve_spawn spawn \<and> follows_within rfc env spawn 15 \<and>
        d = \<lparr>player_death.timestamp = vehicle_destruction.timestamp veh, body_class = ''inferred'',
             body_id = ''inferred_'' @ event_envelope.idempotency_key env,
             player_death.zone = vehicle_destruction.zone veh\<rparr>)" for st env win
  proof -
    have "(\<exists>s. find is_resolve_spawn (filter P win) = Some s) \<longleftrightarrow> (\<exists>s \<in> set win. is_resolve_spawn s \<and> P s)" for P
      using find_None_iff [of is_resolve_spawn "filter P win"] by (cases "find is_resolve_spawn (filter P win)") auto
    note this [of "\<lambda>b. follows_within rfc env b 15"]
    then show ?thesis by (auto simp: rows_at_def rule_events)
  qed
  have "(\<exists>row. row \<in> set (infer rfc events cfg) \<and> inferred_event.event row = PlayerDeath d) \<longleftrightarrow>
      (\<exists>xs env ys. events = xs @ env # ys \<and> (\<exists>row. row \<in> set (rows_at rfc
         (foldl location_step location_change_default xs) env (take (window_size cfg) ys)) \<and>
         inferred_event.event row = PlayerDeath d))"
    unfolding infer_rows by (metis reconcile_row_simps(1))
  moreover have secs: "follows_within rfc a b 15 \<longleftrightarrow> (\<exists>t t'. envelope_time rfc a = Some t \<and> envelope_time rfc b = Some t' \<and>
      t + 1000000000 \<le> t' \<and> t' < t + 16000000000)" for a b by (simp add: follows_within_def)
  ultimately show ?thesis unfolding row secs by blast
qed

text \<open>The location rule is exact: the pass reports a change of location precisely for two successive terrain
  loads of different planets with no inventory request between them.\<close>

theorem infer_location_change_iff:
  "(\<exists>row. row \<in> set (infer rfc events cfg) \<and> inferred_event.event row = LocationChanged c) \<longleftrightarrow>
     (\<exists>xs a ys b zs la lb. events = xs @ a # ys @ b # zs \<and>
        event_envelope.event a = Some (PlanetTerrainLoad la) \<and> event_envelope.event b = Some (PlanetTerrainLoad lb) \<and>
        (\<forall>e \<in> set ys. \<not> is_planet_load e \<and> \<not> is_inventory_request e) \<and> planet la \<noteq> planet lb \<and>
        c = \<lparr>location_changed.timestamp = planet_terrain_load.timestamp lb, from = Some (planet la), to = planet lb\<rparr>)"
  (is "_ \<longleftrightarrow> ?spec")
proof -
  have row: "(\<exists>row. row \<in> set (rows_at rfc st env win) \<and> inferred_event.event row = LocationChanged c) \<longleftrightarrow>
      (\<exists>lb k p. event_envelope.event env = Some (PlanetTerrainLoad lb) \<and>
        (prev_planet st = Some (k, p) \<and> \<not> inventory_seen_since_prev st) \<and> p \<noteq> planet lb \<and>
        c = \<lparr>location_changed.timestamp = planet_terrain_load.timestamp lb, from = Some p, to = planet lb\<rparr>)"
    for st env win
    by (auto simp: rows_at_def rule_events)
  have "(\<exists>row. row \<in> set (infer rfc events cfg) \<and> inferred_event.event row = LocationChanged c) \<longleftrightarrow>
      (\<exists>xs env ys. events = xs @ env # ys \<and> (\<exists>row. row \<in> set (rows_at rfc
         (foldl location_step location_change_default xs) env (take (window_size cfg) ys)) \<and>
         inferred_event.event row = LocationChanged c))"
    unfolding infer_rows by (metis reconcile_row_simps(1))
  also have "\<dots> \<longleftrightarrow> ?spec"
    unfolding row location_state_iff
  proof (intro iffI; elim exE conjE)
    fix xs env ys lb k p
    assume *: "events = xs @ env # ys" "event_envelope.event env = Some (PlanetTerrainLoad lb)" "open_load xs k p"
      "p \<noteq> planet lb"
      "c = \<lparr>location_changed.timestamp = planet_terrain_load.timestamp lb, from = Some p, to = planet lb\<rparr>"
    then obtain us a la vs where "xs = us @ a # vs" "event_envelope.event a = Some (PlanetTerrainLoad la)"
      "p = planet la" "\<forall>e \<in> set vs. \<not> is_planet_load e \<and> \<not> is_inventory_request e"
      unfolding open_load_def by blast
    with * show ?spec
      by (intro exI [of _ us] exI [of _ a] exI [of _ vs] exI [of _ env] exI [of _ ys] exI [of _ la] exI [of _ lb]) simp
  next
    fix xs a ys b zs la lb
    assume "events = xs @ a # ys @ b # zs" "event_envelope.event a = Some (PlanetTerrainLoad la)"
      "event_envelope.event b = Some (PlanetTerrainLoad lb)"
      "\<forall>e \<in> set ys. \<not> is_planet_load e \<and> \<not> is_inventory_request e" "planet la \<noteq> planet lb"
      "c = \<lparr>location_changed.timestamp = planet_terrain_load.timestamp lb, from = Some (planet la), to = planet lb\<rparr>"
    then show "\<exists>xs env ys. events = xs @ env # ys \<and> (\<exists>lb k p. event_envelope.event env = Some (PlanetTerrainLoad lb) \<and>
        open_load xs k p \<and> p \<noteq> planet lb \<and>
        c = \<lparr>location_changed.timestamp = planet_terrain_load.timestamp lb, from = Some p, to = planet lb\<rparr>)"
      using open_loadI [of a la ys xs]
      by (intro exI [of _ "xs @ a # ys"] exI [of _ b] exI [of _ zs] conjI exI [of _ lb]
          exI [of _ "event_envelope.idempotency_key a"] exI [of _ "planet la"]) simp_all
  qed
  finally show ?thesis .
qed

theorem infer_location_change_iff_witness:
  "\<exists>row. row \<in> set (infer length_clock
      [sample_load ''a'' ''x'' ''Hurston'', sample_load ''b'' ''xx'' ''Daymar''] default_config) \<and>
    inferred_event.event row =
      LocationChanged \<lparr>location_changed.timestamp = ''xx'', from = Some ''Hurston'', to = ''Daymar''\<rparr>"
  unfolding infer_location_change_iff
  by (intro exI [of _ "[]"] exI [of _ "sample_load ''a'' ''x'' ''Hurston''"] exI [of _ "[]"]
      exI [of _ "sample_load ''b'' ''xx'' ''Daymar''"] exI [of _ "[]"]
      exI [of _ "\<lparr>planet_terrain_load.timestamp = ''x'', planet = ''Hurston''\<rparr>"]
      exI [of _ "\<lparr>planet_terrain_load.timestamp = ''xx'', planet = ''Daymar''\<rparr>"]) simp

text \<open>Every row of the pass is well-formed inferred evidence: it passes the server's metadata gate, is marked
  inferred with the id of a built-in rule, names its inputs, its group key is the one the timeline derives from
  the event, and a travel row never claims that travel started or completed.\<close>

theorem infer_metadata_valid:
  "\<forall>row \<in> set (infer rfc events cfg).
     validate_metadata (inferred_event.metadata row) = Inr () \<and>
     event_metadata.source (inferred_event.metadata row) = Inferred \<and>
     event_metadata.rule_id (inferred_event.metadata row) \<in>
       Some ` compiled_inference_rule.id ` set built_in_inference_rules \<and>
     event_metadata.group_key (inferred_event.metadata row) = group_key_for (inferred_event.event row) None \<and>
     (case inferred_event.event row of
        TravelToContractLocation t \<Rightarrow> \<not> travel_started t \<and> \<not> travel_completed t
      | _ \<Rightarrow> True)"
proof
  fix row
  assume "row \<in> set (infer rfc events cfg)"
  then obtain st env win row0 where row0: "row0 \<in> set (rows_at rfc st env win)"
    and row: "row = reconcile_row rfc cfg events row0"
    unfolding infer_rows by blast
  from rows_at_form [OF row0] obtain r m where
    *: "r \<in> set built_in_inference_rules" "match_ok m" "row0 = inferred_row env r m" by blast
  with row show "validate_metadata (inferred_event.metadata row) = Inr () \<and>
     event_metadata.source (inferred_event.metadata row) = Inferred \<and>
     event_metadata.rule_id (inferred_event.metadata row) \<in>
       Some ` compiled_inference_rule.id ` set built_in_inference_rules \<and>
     event_metadata.group_key (inferred_event.metadata row) = group_key_for (inferred_event.event row) None \<and>
     (case inferred_event.event row of
        TravelToContractLocation t \<Rightarrow> \<not> travel_started t \<and> \<not> travel_completed t
      | _ \<Rightarrow> True)"
    using inferred_row_metadata [OF *(1,2)] by (simp add: match_ok_def)
qed

theorem infer_metadata_valid_witness:
  "map (\<lambda>row. validate_metadata (inferred_event.metadata row))
     (infer length_clock [sample_load ''a'' ''x'' ''Hurston'', sample_load ''b'' ''xx'' ''Daymar''] default_config)
     = [Inr ()]"
proof -
  let ?out = "infer length_clock [sample_load ''a'' ''x'' ''Hurston'', sample_load ''b'' ''xx'' ''Daymar''] default_config"
  have "length ?out = 1" by code_simp
  then obtain row where "?out = [row]" by (auto simp: length_Suc_conv)
  with infer_metadata_valid [of length_clock
      "[sample_load ''a'' ''x'' ''Hurston'', sample_load ''b'' ''xx'' ''Daymar'']" default_config]
  show ?thesis by simp
qed

text \<open>Supersession: a row of the pass is superseded exactly by the first observed event of its type and entity
  whose time is in the reconciliation window, and by nothing when its own time is unreadable or there is none.\<close>

theorem infer_superseded_by:
  "\<forall>row \<in> set (infer rfc events cfg).
     superseded_by row =
       (case rfc (timestamp_of (inferred_event.event row)) of
          None \<Rightarrow> None
        | Some t \<Rightarrow> map_option event_envelope.idempotency_key (find (supersedes rfc cfg row t) events))"
proof
  fix row
  assume "row \<in> set (infer rfc events cfg)"
  then obtain st env win row0 where row0: "row0 \<in> set (rows_at rfc st env win)"
    and row: "row = reconcile_row rfc cfg events row0"
    unfolding infer_rows by blast
  from rows_at_form [OF row0] have none: "superseded_by row0 = None" by auto
  have same: "supersedes rfc cfg row = supersedes rfc cfg row0" "inferred_event.event row = inferred_event.event row0"
    by (simp_all add: row)
  show "superseded_by row =
       (case rfc (timestamp_of (inferred_event.event row)) of
          None \<Rightarrow> None
        | Some t \<Rightarrow> map_option event_envelope.idempotency_key (find (supersedes rfc cfg row t) events))"
    unfolding same by (simp add: row reconcile_row_def none split: option.splits)
qed

theorem infer_superseded_by_witness:
  "map superseded_by (infer length_clock
      [sample_load ''a'' ''x'' ''Hurston'', sample_load ''b'' ''xx'' ''Daymar'',
       sample_envelope ''c'' (LocationChanged
         \<lparr>location_changed.timestamp = ''xxx'', from = Some ''Hurston'', to = ''Daymar''\<rparr>)] default_config) = [Some ''c'']"
proof -
  let ?es = "[sample_load ''a'' ''x'' ''Hurston'', sample_load ''b'' ''xx'' ''Daymar'',
       sample_envelope ''c'' (LocationChanged
         \<lparr>location_changed.timestamp = ''xxx'', from = Some ''Hurston'', to = ''Daymar''\<rparr>)]"
  have "list_all (\<lambda>row. superseded_by row = (case length_clock (timestamp_of (inferred_event.event row)) of
          None \<Rightarrow> None
        | Some t \<Rightarrow> map_option event_envelope.idempotency_key
            (find (supersedes length_clock default_config row t) ?es))) (infer length_clock ?es default_config)"
    using infer_superseded_by [of length_clock ?es default_config] by (simp only: list_all_iff)
  then show ?thesis by code_simp
qed

text \<open>A rule list cannot be reused: the location rule keeps its state between passes.  Two passes over the same
  two terrain loads with the same rule list give different rows; the second reports a move back from the second planet
  to the first that never happened.\<close>

theorem infer_with_rules_not_repeatable:
  "let events = [sample_load ''a'' ''x'' ''Hurston'', sample_load ''b'' ''xx'' ''Daymar''];
       (rules', out) = infer_with_rules length_clock events default_config built_in_inference_rules;
       (rules'', out') = infer_with_rules length_clock events default_config rules'
   in map inferred_event.event out =
        [LocationChanged \<lparr>location_changed.timestamp = ''xx'', from = Some ''Hurston'', to = ''Daymar''\<rparr>] \<and>
      map inferred_event.event out' =
        [LocationChanged \<lparr>location_changed.timestamp = ''x'', from = Some ''Daymar'', to = ''Hurston''\<rparr>,
         LocationChanged \<lparr>location_changed.timestamp = ''xx'', from = Some ''Hurston'', to = ''Daymar''\<rparr>]"
  by code_simp

end
