(* ===== verification/Json.thy ===== *)
theory Json
  imports Text_Ops
begin

text \<open>
  JSON values as the code sees them through \<open>serde_json::Value\<close>: an object is a sorted map (\<open>serde_json::Map\<close> without the
  \<open>preserve_order\<close> feature), a number an integer or a finite double.
\<close>

datatype json_number = JInt int | JFloat rat

datatype json =
    JNull
  | JBool bool
  | JNumber json_number
  | JString string
  | JArray "json list"
  | JObject "(string \<times> json) list"

definition json_get :: "json \<Rightarrow> string \<Rightarrow> json option" where
  "json_get v fld = (case v of JObject m \<Rightarrow> map_of m fld | _ \<Rightarrow> None)"

definition json_as_str :: "json \<Rightarrow> string option" where
  "json_as_str v = (case v of JString s \<Rightarrow> Some s | _ \<Rightarrow> None)"

text \<open>\<open>Number::as_f64\<close>: an integer is rounded to the nearest double.  JSON integers fit 64 bits, so the result is finite.\<close>

definition round_f64 :: "rat \<Rightarrow> rat" where
  "round_f64 x =
     (case (if 0 \<le> x then float_round 53 (- 1074) 1024 x else flt_neg (float_round 53 (- 1074) 1024 (- x))) of
        Fin y \<Rightarrow> y
      | _ \<Rightarrow> 0)"

definition number_as_f64 :: "json_number \<Rightarrow> rat" where
  "number_as_f64 n = (case n of JInt i \<Rightarrow> round_f64 (of_int i) | JFloat q \<Rightarrow> q)"

end
