(* ===== verification/Inference_Defs.thy ===== *)
theory Inference_Defs
  imports Inference Json
begin

text \<open>
  Runtime-loaded inference rules (\<open>crates/starstats-core/src/inference_defs.rs\<close>): a declarative rule is validated and
  compiled into a rule of the inference pass.  serde is not part of the sources: the record \<open>serde\<close> holds the three
  functions the code calls (\<open>to_value\<close> and \<open>from_value\<close> on \<open>GameEvent\<close> and the compact rendering of a non-string value).  The compiled rules capture nothing; they carry the type of captured values of
  the built-in rules, with which the client combines them.

  The lemmas show what compilation accepts, that a rule fires exactly when its chain of follow-ups occurs in the window,
  that substitution leaves plain text alone and replaces tokens left to right, and that compiled rules only emit rows the
  server's metadata gate accepts.
\<close>

section \<open>The serialiser\<close>

record serde =
  to_value :: "game_event \<Rightarrow> json option"
  from_value :: "json \<Rightarrow> game_event option"
  render :: "json \<Rightarrow> string"

section \<open>Rules on the wire\<close>

record event_pattern =
  event_type :: string
  field_equals :: "(string, string) btree"

record emit_template =
  event_type :: string
  emit_fields :: "(string, string) btree"

record remote_inference_rule =
  id :: string
  confidence :: flt
  window_secs :: u32
  trigger :: event_pattern
  followups :: "event_pattern list"
  emits :: emit_template

datatype inference_compile_error =
    UnknownEventType string string
  | InvalidConfidence string flt
  | EmptyFollowups string

section \<open>Substitution\<close>

definition TOKEN_START :: string where
  "TOKEN_START = ''${trigger.''"

text \<open>The loop both substitution functions share; they differ in what a field name resolves to.\<close>

function subst_tokens :: "(string \<Rightarrow> string option) \<Rightarrow> string \<Rightarrow> string" where
  "subst_tokens resolve s =
     (case split_once TOKEN_START s of
        None \<Rightarrow> s
      | Some (before, rest) \<Rightarrow>
          (case split_once ''}'' rest of
             None \<Rightarrow> before @ TOKEN_START @ rest
           | Some (fld, rest') \<Rightarrow>
               before @ (case resolve fld of Some v \<Rightarrow> v | None \<Rightarrow> TOKEN_START @ fld @ ''}'')
                 @ subst_tokens resolve rest'))"
  by pat_completeness auto
termination
  by (relation "measure (\<lambda>(f, s). length s)") (auto dest!: split_once_Some)

declare subst_tokens.simps [simp del]

definition value_to_string :: "serde \<Rightarrow> json \<Rightarrow> string" where
  "value_to_string sd v = (case v of JString s \<Rightarrow> s | _ \<Rightarrow> render sd v)"

definition substitute :: "serde \<Rightarrow> string \<Rightarrow> event_envelope \<Rightarrow> json \<Rightarrow> string" where
  "substitute sd inp trigger_env trigger_json =
     subst_tokens (\<lambda>fld. if fld = ''idempotency_key'' then Some (event_envelope.idempotency_key trigger_env)
                         else map_option (value_to_string sd) (json_get trigger_json fld)) inp"

definition substitute_with_trigger_json :: "serde \<Rightarrow> string \<Rightarrow> json \<Rightarrow> string" where
  "substitute_with_trigger_json sd inp trigger_json =
     subst_tokens (\<lambda>fld. map_option (value_to_string sd) (json_get trigger_json fld)) inp"

definition coerce_value :: "string \<Rightarrow> json" where
  "coerce_value s =
     (case parse_i64 s of
        Some n \<Rightarrow> JNumber (JInt n)
      | None \<Rightarrow>
          (case parse_unsigned 64 s of
             Some n \<Rightarrow> JNumber (JInt n)
           | None \<Rightarrow>
               (case parse_f64 s of
                  Some (Fin n) \<Rightarrow> JNumber (JFloat n)
                | _ \<Rightarrow>
                    if s = ''true'' then JBool True else if s = ''false'' then JBool False else JString s)))"

definition object_matches :: "serde \<Rightarrow> json \<Rightarrow> (string, string) btree \<Rightarrow> json option \<Rightarrow> bool" where
  "object_matches sd candidate predicates trigger_json =
     (if predicates = [] then True
      else
        (case candidate of
           JObject obj \<Rightarrow>
             list_all (\<lambda>(fld, want).
               case map_of obj fld of
                 None \<Rightarrow> False
               | Some actual \<Rightarrow>
                   let want_resolved = (case trigger_json of
                                          Some t \<Rightarrow> substitute_with_trigger_json sd want t
                                        | None \<Rightarrow> want)
                   in value_to_string sd actual = want_resolved) predicates
         | _ \<Rightarrow> False))"

section \<open>Compiled rules\<close>

definition followup_matches :: "serde \<Rightarrow> json \<Rightarrow> event_pattern \<Rightarrow> event_envelope \<Rightarrow> bool" where
  "followup_matches sd trigger_json fu candidate =
     (case event_envelope.event candidate of
        None \<Rightarrow> False
      | Some ce \<Rightarrow>
          if event_type_key ce \<noteq> event_pattern.event_type fu then False
          else (case to_value sd ce of
                  None \<Rightarrow> False
                | Some v \<Rightarrow> object_matches sd v (field_equals fu) (Some trigger_json)))"

fun walk_followups :: "serde \<Rightarrow> json \<Rightarrow> event_pattern list \<Rightarrow> event_envelope list \<Rightarrow> string list option" where
  "walk_followups sd tj [] win = Some []"
| "walk_followups sd tj (fu # fus) win =
     (case dropWhile (\<lambda>c. \<not> followup_matches sd tj fu c) win of
        [] \<Rightarrow> None
      | c # rest \<Rightarrow> map_option ((#) (event_envelope.idempotency_key c)) (walk_followups sd tj fus rest))"

definition emit_payload :: "serde \<Rightarrow> emit_template \<Rightarrow> event_envelope \<Rightarrow> json \<Rightarrow> json" where
  "emit_payload sd em env tj =
     JObject (foldl (\<lambda>m (k, v). btree_insert k (coerce_value (substitute sd v env tj)) m)
       (btree_insert ''type'' (JString (emit_template.event_type em)) []) (emit_fields em))"

definition remote_apply :: "serde \<Rightarrow> remote_inference_rule \<Rightarrow> event_envelope \<Rightarrow> event_envelope list \<Rightarrow> inference_match option" where
  "remote_apply sd rule env win =
     (case event_envelope.event env of
        None \<Rightarrow> None
      | Some obs \<Rightarrow>
          if event_type_key obs \<noteq> event_pattern.event_type (trigger rule) then None
          else
            (case to_value sd obs of
               None \<Rightarrow> None
             | Some tj \<Rightarrow>
                 if \<not> object_matches sd tj (field_equals (trigger rule)) None then None
                 else
                   (case walk_followups sd tj (followups rule) win of
                      None \<Rightarrow> None
                    | Some ids \<Rightarrow>
                        (case from_value sd (emit_payload sd (emits rule) env tj) of
                           None \<Rightarrow> None
                         | Some ev \<Rightarrow>
                             Some \<lparr>inference_match.event = ev,
                                   source_event_ids = event_envelope.idempotency_key env # ids\<rparr>))))"

definition compile_one :: "serde \<Rightarrow> remote_inference_rule \<Rightarrow> location_change_state compiled_inference_rule" where
  "compile_one sd rule =
     \<lparr>compiled_inference_rule.id = remote_inference_rule.id rule,
      confidence = remote_inference_rule.confidence rule,
      window_secs = int (unat (remote_inference_rule.window_secs rule)), captured = location_change_default,
      apply_rule = (\<lambda>st env win. (st, remote_apply sd rule env win))\<rparr>"

definition validate_event_type :: "string \<Rightarrow> string \<Rightarrow> string list \<Rightarrow> inference_compile_error + unit" where
  "validate_event_type rid et known = (if et \<in> set known then Inr () else Inl (UnknownEventType rid et))"

fun validate_followups :: "string \<Rightarrow> event_pattern list \<Rightarrow> string list \<Rightarrow> inference_compile_error + unit" where
  "validate_followups rid [] known = Inr ()"
| "validate_followups rid (fu # fus) known =
     (case validate_event_type rid (event_pattern.event_type fu) known of
        Inl e \<Rightarrow> Inl e
      | Inr _ \<Rightarrow> validate_followups rid fus known)"

definition validate_rule :: "remote_inference_rule \<Rightarrow> string list \<Rightarrow> inference_compile_error + unit" where
  "validate_rule r known =
     (let rid = remote_inference_rule.id r; c = remote_inference_rule.confidence r
      in case validate_event_type rid (event_pattern.event_type (trigger r)) known of
           Inl e \<Rightarrow> Inl e
         | Inr _ \<Rightarrow>
             (case validate_event_type rid (emit_template.event_type (emits r)) known of
                Inl e \<Rightarrow> Inl e
              | Inr _ \<Rightarrow>
                  (case validate_followups rid (followups r) known of
                     Inl e \<Rightarrow> Inl e
                   | Inr _ \<Rightarrow>
                       if \<not> (flt_le (Fin 0) c \<and> flt_lt c (Fin 1)) then Inl (InvalidConfidence rid c)
                       else if followups r = [] then Inl (EmptyFollowups rid)
                       else Inr ())))"

fun compile_inference_rules ::
  "serde \<Rightarrow> remote_inference_rule list \<Rightarrow> inference_compile_error + location_change_state compiled_inference_rule list" where
  "compile_inference_rules sd [] = Inr []"
| "compile_inference_rules sd (r # rs) =
     (case validate_rule r all_event_type_keys of
        Inl e \<Rightarrow> Inl e
      | Inr _ \<Rightarrow>
          (case compile_inference_rules sd rs of
             Inl e \<Rightarrow> Inl e
           | Inr out \<Rightarrow> Inr (compile_one sd r # out)))"

section \<open>What compilation accepts\<close>

definition known_type :: "string \<Rightarrow> bool" where
  "known_type t \<longleftrightarrow> t \<in> set all_event_type_keys"

definition rule_valid :: "remote_inference_rule \<Rightarrow> bool" where
  "rule_valid r \<longleftrightarrow>
     known_type (event_pattern.event_type (trigger r)) \<and> known_type (emit_template.event_type (emits r)) \<and>
     (\<forall>fu \<in> set (followups r). known_type (event_pattern.event_type fu)) \<and>
     (\<exists>c. remote_inference_rule.confidence r = Fin c \<and> 0 \<le> c \<and> c < 1) \<and> followups r \<noteq> []"

lemma validate_event_type_ok: "validate_event_type rid t all_event_type_keys = Inr u \<longleftrightarrow> known_type t"
  by (simp add: validate_event_type_def known_type_def)

lemma validate_followups_ok:
  "validate_followups rid fus all_event_type_keys = Inr u \<longleftrightarrow> (\<forall>fu \<in> set fus. known_type (event_pattern.event_type fu))"
  by (induction fus) (simp_all add: sum_bind_ok validate_event_type_ok)

lemma confidence_ok: "flt_le (Fin 0) c \<and> flt_lt c (Fin 1) \<longleftrightarrow> (\<exists>x. c = Fin x \<and> 0 \<le> x \<and> x < 1)"
  by (cases c) auto

lemma validate_rule_ok: "validate_rule r all_event_type_keys = Inr u \<longleftrightarrow> rule_valid r"
  unfolding validate_rule_def Let_def rule_valid_def confidence_ok [symmetric]
  by (auto simp: sum_bind_ok validate_event_type_ok validate_followups_ok)

lemma compile_rules_ok:
  "compile_inference_rules sd rs = Inr out \<longleftrightarrow> list_all rule_valid rs \<and> out = map (compile_one sd) rs"
  by (induction rs arbitrary: out) (auto simp: sum_bind_ok validate_rule_ok)

lemma remote_apply_inputs: "remote_apply sd rule env win = Some m \<Longrightarrow> source_event_ids m \<noteq> []"
  by (auto simp: remote_apply_def split: option.splits if_splits)

lemma compile_one_sound: "rule_valid r \<Longrightarrow> rule_sound (compile_one sd r)"
  using remote_apply_inputs by (auto simp: rule_sound_def compile_one_def rule_valid_def)

section \<open>Follow-up chains\<close>

abbreviation (input) is_chain :: "serde \<Rightarrow> json \<Rightarrow> event_pattern list \<Rightarrow> event_envelope list \<Rightarrow> event_envelope list \<Rightarrow> bool" where
  "is_chain sd tj fus win cs \<equiv> subseq cs win \<and> list_all2 (followup_matches sd tj) fus cs"

lemma dropWhile_split: "dropWhile P xs = c # rest \<Longrightarrow> xs = takeWhile P xs @ c # rest \<and> \<not> P c"
  by (metis hd_dropWhile list.distinct(1) list.sel(1) takeWhile_dropWhile_id)

text \<open>Greedy search loses no chain: a chain in the window survives behind the first match of its head.\<close>

lemma chain_behind:
  assumes "is_chain sd tj (fu # fus) win cs" "dropWhile (\<lambda>c. \<not> followup_matches sd tj fu c) win = c # rest"
  shows "is_chain sd tj fus rest (tl cs)"
proof -
  obtain d ds where cs: "cs = d # ds" "followup_matches sd tj fu d" "list_all2 (followup_matches sd tj) fus ds"
    using assms(1) by (auto simp: list_all2_Cons1)
  let ?skip = "takeWhile (\<lambda>c. \<not> followup_matches sd tj fu c) win"
  have win: "win = ?skip @ c # rest" using dropWhile_split [OF assms(2)] by simp
  have "subseq (d # ds) (?skip @ c # rest)" using assms(1) cs(1) win by simp
  moreover have "d \<notin> set ?skip" using cs(2) by (auto dest: set_takeWhileD)
  ultimately have "subseq (d # ds) (c # rest)" by (rule subseq_skip)
  then have "subseq ds rest" by (metis subseq_Cons2_iff subseq_Cons')
  with cs show ?thesis by simp
qed

lemma walk_followups_chain:
  "walk_followups sd tj fus win = Some ids \<Longrightarrow> \<exists>cs. is_chain sd tj fus win cs \<and> ids = map event_envelope.idempotency_key cs"
proof (induction fus arbitrary: win ids)
  case (Cons fu fus)
  then obtain c rest ids' where d: "dropWhile (\<lambda>c. \<not> followup_matches sd tj fu c) win = c # rest"
    "walk_followups sd tj fus rest = Some ids'" "ids = event_envelope.idempotency_key c # ids'"
    by (auto split: list.splits)
  from Cons.IH [OF d(2)] obtain cs where cs: "is_chain sd tj fus rest cs" "ids' = map event_envelope.idempotency_key cs" by blast
  have "subseq (c # cs) win"
    using cs(1) dropWhile_split [OF d(1)] by (metis list_emb_append2 subseq_Cons2)
  with cs d dropWhile_split [OF d(1)] show ?case by (intro exI [of _ "c # cs"]) simp
qed simp

lemma walk_followups_none:
  "walk_followups sd tj fus win = None \<Longrightarrow> \<not> is_chain sd tj fus win cs"
proof (induction fus arbitrary: win cs)
  case (Cons fu fus)
  show ?case
  proof (cases "dropWhile (\<lambda>c. \<not> followup_matches sd tj fu c) win")
    case Nil
    then have "\<forall>c \<in> set win. \<not> followup_matches sd tj fu c" by (simp add: dropWhile_eq_Nil_conv)
    then show ?thesis by (auto simp: list_all2_Cons1 dest: list_emb_set)
  next
    case behind: (Cons c rest)
    with Cons.prems have "walk_followups sd tj fus rest = None" by simp
    from Cons.IH [OF this] chain_behind [OF _ behind] show ?thesis by blast
  qed
qed simp

text \<open>Which rule an error names, and the first rule that is refused.\<close>

fun error_rule_id :: "inference_compile_error \<Rightarrow> string" where
  "error_rule_id (UnknownEventType rid t) = rid"
| "error_rule_id (InvalidConfidence rid c) = rid"
| "error_rule_id (EmptyFollowups rid) = rid"

lemma validate_event_type_error: "validate_event_type rid t known = Inl e \<Longrightarrow> error_rule_id e = rid"
  by (auto simp: validate_event_type_def split: if_splits)

lemma validate_followups_error: "validate_followups rid fus known = Inl e \<Longrightarrow> error_rule_id e = rid"
  by (induction fus) (auto split: sum.splits dest: validate_event_type_error)

lemma validate_rule_error: "validate_rule r known = Inl e \<Longrightarrow> error_rule_id e = remote_inference_rule.id r"
  by (auto simp: validate_rule_def Let_def split: sum.splits if_splits
      dest: validate_event_type_error validate_followups_error)

lemma compile_rules_error:
  "compile_inference_rules sd rs = Inl e \<Longrightarrow>
     \<exists>pre r post. rs = pre @ r # post \<and> list_all rule_valid pre \<and> \<not> rule_valid r \<and> error_rule_id e = remote_inference_rule.id r"
proof (induction rs)
  case (Cons r rs)
  show ?case
  proof (cases "validate_rule r all_event_type_keys")
    case (Inl e')
    with Cons.prems validate_rule_error [OF Inl] validate_rule_ok [of r "()"] show ?thesis
      by (intro exI [of _ "[]"]) auto
  next
    case (Inr u)
    with Cons.prems have "compile_inference_rules sd rs = Inl e" by (auto split: sum.splits)
    from Cons.IH [OF this] obtain pre r' post where "rs = pre @ r' # post" "list_all rule_valid pre" "\<not> rule_valid r'"
      "error_rule_id e = remote_inference_rule.id r'" by blast
    with Inr validate_rule_ok [of r u] show ?thesis by (intro exI [of _ "r # pre"]) auto
  qed
qed simp

section \<open>Templates of emitted fields\<close>

text \<open>The abstract syntax a template text stands for: literal text and tokens.\<close>

datatype piece = Lit string | Token string

fun print_piece :: "piece \<Rightarrow> string" where
  "print_piece (Lit s) = s"
| "print_piece (Token fld) = TOKEN_START @ fld @ ''}''"

fun piece_ok :: "piece \<Rightarrow> bool" where
  "piece_ok (Lit s) \<longleftrightarrow> CHR ''$'' \<notin> set s"
| "piece_ok (Token fld) \<longleftrightarrow> CHR ''}'' \<notin> set fld"

fun piece_value :: "(string \<Rightarrow> string option) \<Rightarrow> piece \<Rightarrow> string" where
  "piece_value resolve (Lit s) = s"
| "piece_value resolve (Token fld) = (case resolve fld of Some v \<Rightarrow> v | None \<Rightarrow> print_piece (Token fld))"

lemma subst_tokens_lit:
  assumes "CHR ''$'' \<notin> set a"
  shows "subst_tokens resolve (a @ s) = a @ subst_tokens resolve s"
proof -
  have "split_once TOKEN_START (a @ s) = map_option (\<lambda>(x, y). (a @ x, y)) (split_once TOKEN_START s)"
    using split_once_skip [OF assms] by (simp add: TOKEN_START_def)
  then show ?thesis
    by (subst (1 2) subst_tokens.simps) (auto split: option.splits prod.splits)
qed

lemma subst_tokens_token:
  assumes "CHR ''}'' \<notin> set fld"
  shows "subst_tokens resolve (TOKEN_START @ fld @ ''}'' @ s) = piece_value resolve (Token fld) @ subst_tokens resolve s"
proof -
  have "split_once TOKEN_START (TOKEN_START @ fld @ ''}'' @ s) = Some ([], fld @ ''}'' @ s)"
    by (rule split_once_here) (simp add: TOKEN_START_def)
  moreover have "split_once ''}'' (fld @ ''}'' @ s) = Some (fld, s)"
    using split_once_skip [OF assms, of "[]"] split_once_here [of "''}''" s] by simp
  ultimately show ?thesis by (subst subst_tokens.simps) (simp split: option.split)
qed

lemma subst_tokens_empty [simp]: "subst_tokens resolve [] = []"
  by (subst subst_tokens.simps) (simp add: TOKEN_START_def)

lemma subst_tokens_pieces:
  "list_all piece_ok ps \<Longrightarrow> subst_tokens resolve (concat (map print_piece ps)) = concat (map (piece_value resolve) ps)"
proof (induction ps)
  case (Cons p ps)
  then show ?case
    using subst_tokens_lit subst_tokens_token [of _ resolve "concat (map print_piece ps)"] by (cases p) auto
qed simp

section \<open>Emitted fields\<close>

lemma emit_payload_other:
  "k \<notin> fst ` set fs \<Longrightarrow> map_of (foldl (\<lambda>m (k, v). btree_insert k (f v) m) m0 fs) k = map_of m0 k"
  by (induction fs arbitrary: m0) (auto simp: btree_lookup_insert)

lemma emit_payload_field:
  "distinct (map fst fs) \<Longrightarrow> map_of fs k = Some v \<Longrightarrow>
     map_of (foldl (\<lambda>m (k, v). btree_insert k (f v) m) m0 fs) k = Some (f v)"
  by (induction fs arbitrary: m0)
    (auto simp: btree_lookup_insert emit_payload_other split: if_splits dest: map_of_SomeD)

lemma coerce_value_digits:
  assumes "s \<noteq> []" "list_all is_ascii_digit s" "length s \<le> 18"
  shows "coerce_value s = JNumber (JInt (int (digits_value s)))"
  by (simp add: coerce_value_def parse_i64_digits [OF assms])

section \<open>Properties\<close>

text \<open>Compilation is all or nothing: a batch compiles exactly when every rule names known event types only, has a finite
  confidence in \<open>[0, 1)\<close> and at least one follow-up, and then each rule is compiled in place; otherwise the error
  names the first offending rule.\<close>

theorem compile_inference_rules_outcome:
  "case compile_inference_rules sd rs of
     Inr out \<Rightarrow> list_all rule_valid rs \<and> out = map (compile_one sd) rs
   | Inl e \<Rightarrow> \<exists>pre r post. rs = pre @ r # post \<and> list_all rule_valid pre \<and> \<not> rule_valid r \<and>
       error_rule_id e = remote_inference_rule.id r"
  using compile_rules_ok [of sd rs] compile_rules_error [of sd rs] by (cases "compile_inference_rules sd rs") auto

text \<open>The greedy walk over the follow-ups is complete: it succeeds exactly when the window contains envelopes that match the
  patterns one by one in order, and the ids it returns are those of such a chain.\<close>

theorem walk_followups_exact:
  "case walk_followups sd tj fus win of
     None \<Rightarrow> \<nexists>cs. subseq cs win \<and> list_all2 (followup_matches sd tj) fus cs
   | Some ids \<Rightarrow> \<exists>cs. subseq cs win \<and> list_all2 (followup_matches sd tj) fus cs \<and> ids = map event_envelope.idempotency_key cs"
  using walk_followups_chain [of sd tj fus win] walk_followups_none [of sd tj fus win]
  by (cases "walk_followups sd tj fus win") auto

text \<open>C28. A manifest cannot make the client produce rows the server refuses: whatever rules compile, run together with the
  built-in ones, every row passes the metadata gate.\<close>

theorem remote_rows_valid:
  assumes "compile_inference_rules sd rs = Inr out"
    and "row \<in> set (snd (infer_with_rules rfc events cfg (built_in_inference_rules @ out)))"
  shows "validate_metadata (inferred_event.metadata row) = Inr ()"
proof -
  have "\<forall>r \<in> set (built_in_inference_rules @ out). rule_sound r"
    using assms(1) built_in_sound compile_one_sound by (auto simp: compile_rules_ok list_all_iff)
  from infer_with_rules_valid [OF this assms(2)] show ?thesis .
qed

definition sample_serde :: "game_event \<Rightarrow> serde" where
  "sample_serde ev = \<lparr>to_value = (\<lambda>_. Some (JObject [])), from_value = (\<lambda>_. Some ev), render = (\<lambda>_. ''null'')\<rparr>"

definition sample_remote_rule :: "(string, string) btree \<Rightarrow> remote_inference_rule" where
  "sample_remote_rule fs =
     \<lparr>remote_inference_rule.id = ''r'', confidence = Fin (1 / 2), window_secs = 60,
      trigger = \<lparr>event_pattern.event_type = ''vehicle_destruction'', field_equals = []\<rparr>,
      followups = [\<lparr>event_pattern.event_type = ''resolve_spawn'', field_equals = []\<rparr>],
      emits = \<lparr>emit_template.event_type = ''player_death'', emit_fields = fs\<rparr>\<rparr>"

lemma sample_rule_valid: "rule_valid (sample_remote_rule fs)"
  unfolding rule_valid_def confidence_ok [symmetric] by (simp add: known_type_def all_event_type_keys_def sample_remote_rule_def)

abbreviation (input) sample_destruction :: event_envelope where
  "sample_destruction \<equiv> sample_envelope ''a'' (VehicleDestruction
     \<lparr>vehicle_destruction.timestamp = ''x'', vehicle_destruction.vehicle_class = ''Cutlass'', vehicle_destruction.vehicle_id = None,
      destroy_level = 2, caused_by = ''self'', vehicle_destruction.zone = None\<rparr>)"

abbreviation (input) sample_spawn :: event_envelope where
  "sample_spawn \<equiv> sample_envelope ''b'' (ResolveSpawn \<lparr>resolve_spawn.timestamp = ''xx'', player_geid = ''g'', fallback = False\<rparr>)"

abbreviation (input) sample_emitted :: game_event where
  "sample_emitted \<equiv> PlayerDeath \<lparr>player_death.timestamp = ''x'', body_class = ''b'', body_id = ''i'', player_death.zone = None\<rparr>"

theorem remote_rows_valid_witness:
  "let rows = snd (infer_with_rules length_clock [sample_destruction, sample_spawn] default_config
       (built_in_inference_rules @ [compile_one (sample_serde sample_emitted) (sample_remote_rule [])]))
   in rows \<noteq> [] \<and> inferred_event.event (last rows) = sample_emitted \<and>
      validate_metadata (inferred_event.metadata (last rows)) = Inr ()"
proof -
  let ?rows = "snd (infer_with_rules length_clock [sample_destruction, sample_spawn] default_config
       (built_in_inference_rules @ [compile_one (sample_serde sample_emitted) (sample_remote_rule [])]))"
  have compiles: "compile_inference_rules (sample_serde sample_emitted) [sample_remote_rule []] =
      Inr [compile_one (sample_serde sample_emitted) (sample_remote_rule [])]"
    unfolding compile_rules_ok by (simp add: sample_rule_valid)
  have rows: "?rows \<noteq> []" "inferred_event.event (last ?rows) = sample_emitted" by code_simp+
  from remote_rows_valid [OF compiles last_in_set [OF rows(1)]] rows show ?thesis by (simp add: Let_def)
qed

text \<open>Substitution means what a template says: written as literal text without \<open>$\<close> and tokens without \<open>}\<close>, a template
  becomes its literals with every token replaced by the envelope's key or the trigger's field; a token nothing resolves stays,
  and what is substituted is never scanned again.\<close>

theorem substitute_pieces:
  assumes "list_all piece_ok ps"
  shows "substitute sd (concat (map print_piece ps)) env tj =
    concat (map (piece_value (\<lambda>fld. if fld = ''idempotency_key'' then Some (event_envelope.idempotency_key env)
                                    else map_option (value_to_string sd) (json_get tj fld))) ps)"
  unfolding substitute_def by (rule subst_tokens_pieces [OF assms])

theorem substitute_pieces_witness:
  "substitute (sample_serde sample_emitted) ''inferred_${trigger.idempotency_key}${trigger.x}'' sample_spawn (JObject []) =
     ''inferred_b${trigger.x}''"
  using substitute_pieces [of "[Lit ''inferred_'', Token ''idempotency_key'', Token ''x'']"
      "sample_serde sample_emitted" sample_spawn "JObject []"]
  by (simp add: TOKEN_START_def json_get_def)

text \<open>A rule cannot emit a text field that happens to be a number: when a template of the emitted event resolves to digits,
  the payload carries a JSON number there, so with a deserialiser that refuses a number in that field the rule never fires.\<close>

theorem numeric_text_field_never_emitted:
  assumes "distinct (map fst (emit_fields (emits rule)))" "map_of (emit_fields (emits rule)) fld = Some tpl"
    and "\<And>tj. substitute sd tpl env tj = s" "s \<noteq> []" "list_all is_ascii_digit s" "length s \<le> 18"
    and "\<And>obj n. map_of obj fld = Some (JNumber n) \<Longrightarrow> from_value sd (JObject obj) = None"
  shows "remote_apply sd rule env win = None"
proof -
  have "from_value sd (emit_payload sd (emits rule) env tj) = None" for tj
    unfolding emit_payload_def
    by (rule assms(7), subst emit_payload_field [OF assms(1,2)])
      (simp add: assms(3) coerce_value_digits [OF assms(4-6)])
  then show ?thesis by (auto simp: remote_apply_def split: option.splits)
qed

text \<open>A deserialiser of \<open>player_death\<close> whose \<open>body_id\<close> must be a JSON string, on a rule that copies a numeric key.\<close>

definition strict_serde :: serde where
  "strict_serde = (sample_serde sample_emitted)\<lparr>from_value := (\<lambda>v.
     case json_get v ''body_id'' of Some (JString s) \<Rightarrow> Some sample_emitted | _ \<Rightarrow> None)\<rparr>"

theorem numeric_text_field_never_emitted_witness:
  "remote_apply strict_serde (sample_remote_rule [(''body_id'', ''204'')]) sample_destruction [sample_spawn] = None \<and>
   remote_apply strict_serde (sample_remote_rule [(''body_id'', ''x204'')]) sample_destruction [sample_spawn] \<noteq> None"
proof
  have "substitute strict_serde ''204'' sample_destruction tj = ''204''" for tj
    using subst_tokens_pieces [of "[Lit ''204'']"] by (simp add: substitute_def)
  then show "remote_apply strict_serde (sample_remote_rule [(''body_id'', ''204'')]) sample_destruction [sample_spawn] = None"
    by (intro numeric_text_field_never_emitted [where fld = "''body_id''" and tpl = "''204''" and s = "''204''"])
      (auto simp: sample_remote_rule_def is_ascii_digit_def strict_serde_def json_get_def)
  show "remote_apply strict_serde (sample_remote_rule [(''body_id'', ''x204'')]) sample_destruction [sample_spawn] \<noteq> None"
    by code_simp
qed

end
