(* ===== verification/Parser_Defs.thy ===== *)
theory Parser_Defs
  imports Inference_Defs Parser
begin

text \<open>
  Runtime-loaded parser rules (\<open>crates/starstats-core/src/parser_defs.rs\<close>): the manifest, the bytes its signature covers, the
  compilation of rules and their application to a line.  The regex crate is a parameter in two parts, \<open>regex_new\<close> (a compiled
  pattern or an error message) and \<open>captures_of\<close>; serde's rendering of the signing view is a parameter of \<open>manifest_signing_bytes\<close>.

  The lemmas show that compilation loses no rule, that the first rule whose anchor matches decides alone, and what a
  signature binds.
\<close>

datatype rule_match_kind = EventName | BodyKeyword

record remote_rule =
  id :: string
  event_name :: string
  match_kind :: rule_match_kind
  body_regex :: string
  capture_fields :: "string list"

definition default_match_kind :: rule_match_kind where
  "default_match_kind = EventName"

record manifest =
  version :: u32
  schema_version :: u32
  issued_at :: string
  rules :: "remote_rule list"
  inference_rules :: "remote_inference_rule list"
  signature :: "string option"

record manifest_signing_view =
  version :: u32
  schema_version :: u32
  issued_at :: string
  rules :: "remote_rule list"
  inference_rules :: "remote_inference_rule list"

definition manifest_signing_bytes :: "(manifest_signing_view \<Rightarrow> 'bytes) \<Rightarrow> manifest \<Rightarrow> 'bytes" where
  "manifest_signing_bytes to_vec m =
     to_vec \<lparr>manifest_signing_view.version = manifest.version m, schema_version = manifest.schema_version m,
             issued_at = manifest.issued_at m, rules = manifest.rules m, inference_rules = manifest.inference_rules m\<rparr>"

definition manifest_empty :: manifest where
  "manifest_empty =
     \<lparr>manifest.version = 0, schema_version = 1, issued_at = [], rules = [], inference_rules = [], signature = None\<rparr>"

record 'rx compiled_remote_rule =
  id :: string
  event_name :: string
  match_kind :: rule_match_kind
  regex :: 'rx
  capture_fields :: "string list"

fun compile_rules ::
  "(string \<Rightarrow> string + 'rx) \<Rightarrow> remote_rule list \<Rightarrow> 'rx compiled_remote_rule list \<times> (string \<times> string) list" where
  "compile_rules regex_new [] = ([], [])"
| "compile_rules regex_new (r # rs) =
     (let (oks, bad) = compile_rules regex_new rs
      in case regex_new (body_regex r) of
           Inr rx \<Rightarrow>
             (\<lparr>compiled_remote_rule.id = remote_rule.id r, event_name = remote_rule.event_name r,
               match_kind = remote_rule.match_kind r, regex = rx, capture_fields = remote_rule.capture_fields r\<rparr> # oks, bad)
         | Inl e \<Rightarrow> (oks, (remote_rule.id r, e) # bad))"

definition matches_anchor :: "log_line \<Rightarrow> 'rx compiled_remote_rule \<Rightarrow> bool" where
  "matches_anchor line rule =
     (case compiled_remote_rule.match_kind rule of
        EventName \<Rightarrow> log_line.event_name line = Some (compiled_remote_rule.event_name rule)
      | BodyKeyword \<Rightarrow> contains_str (log_line.body line) (compiled_remote_rule.event_name rule))"

definition remote_fields :: "string list \<Rightarrow> captures \<Rightarrow> (string, string) btree" where
  "remote_fields fs caps =
     foldl (\<lambda>m f. case named caps f of None \<Rightarrow> m | Some v \<Rightarrow> btree_insert f v m) [] fs"

definition remote_event :: "log_line \<Rightarrow> 'rx compiled_remote_rule \<Rightarrow> captures \<Rightarrow> game_event" where
  "remote_event line rule caps =
     RemoteMatch \<lparr>remote_match.timestamp = log_line.timestamp line, rule_id = compiled_remote_rule.id rule,
                  remote_match.event_name = compiled_remote_rule.event_name rule,
                  fields_map = remote_fields (compiled_remote_rule.capture_fields rule) caps\<rparr>"

text \<open>The \<open>?\<close> behind \<open>captures\<close> leaves the function, not the iteration.\<close>

fun apply_remote_rules ::
  "('rx \<Rightarrow> string \<Rightarrow> captures option) \<Rightarrow> log_line \<Rightarrow> 'rx compiled_remote_rule list \<Rightarrow> game_event option" where
  "apply_remote_rules captures_of line [] = None"
| "apply_remote_rules captures_of line (rule # rest) =
     (if \<not> matches_anchor line rule then apply_remote_rules captures_of line rest
      else (case captures_of (regex rule) (log_line.body line) of
              None \<Rightarrow> None
            | Some caps \<Rightarrow> Some (remote_event line rule caps)))"

section \<open>Lemmas\<close>

lemma apply_remote_rules_find:
  "apply_remote_rules captures_of line rs =
     (case find (matches_anchor line) rs of
        None \<Rightarrow> None
      | Some rule \<Rightarrow> map_option (remote_event line rule) (captures_of (regex rule) (log_line.body line)))"
  by (induction rs) (auto split: option.split)

lemma remote_fields_snoc:
  "remote_fields (fs @ [f]) caps =
     (case named caps f of None \<Rightarrow> remote_fields fs caps | Some v \<Rightarrow> btree_insert f v (remote_fields fs caps))"
  by (simp add: remote_fields_def split: option.split)

lemma remote_fields_lookup: "map_of (remote_fields fs caps) f = (if f \<in> set fs then named caps f else None)"
  by (induction fs rule: rev_induct)
    (auto simp: remote_fields_snoc btree_lookup_insert remote_fields_def [of "[]"] split: option.split)

lemma remote_fields_ok: "btree_ok (remote_fields fs caps)"
  by (induction fs rule: rev_induct)
    (auto simp: remote_fields_snoc btree_insert_ok remote_fields_def [of "[]"] btree_ok_def [of "[]"] split: option.split)

lemma apply_remote_rules_event:
  "apply_remote_rules captures_of line rs = Some e \<Longrightarrow> \<exists>rule \<in> set rs. \<exists>caps. e = remote_event line rule caps"
  by (auto simp: apply_remote_rules_find find_Some_iff split: option.splits)

section \<open>Properties\<close>

text \<open>What a remote rule does to a line: the first rule whose anchor matches decides alone.  It yields an event with the line's
  timestamp and the rule's id whose fields are exactly the listed captures that took part, in key order; when its pattern fails
  the line stays unmatched.\<close>

theorem apply_remote_rules_first_anchor:
  "case find (matches_anchor line) rs of
     None \<Rightarrow> apply_remote_rules captures_of line rs = None
   | Some rule \<Rightarrow>
       (case captures_of (regex rule) (log_line.body line) of
          None \<Rightarrow> apply_remote_rules captures_of line rs = None
        | Some caps \<Rightarrow> \<exists>m. apply_remote_rules captures_of line rs = Some (RemoteMatch m) \<and>
            remote_match.timestamp m = log_line.timestamp line \<and> remote_match.rule_id m = compiled_remote_rule.id rule \<and>
            btree_ok (fields_map m) \<and>
            map_of (fields_map m) =
              (\<lambda>f. if f \<in> set (compiled_remote_rule.capture_fields rule) then named caps f else None))"
  by (auto simp: apply_remote_rules_find remote_event_def remote_fields_ok remote_fields_lookup split: option.split)

text \<open>Two rules on one event name whose patterns accept different texts.\<close>

definition sample_parser_rule :: "string \<Rightarrow> string compiled_remote_rule" where
  "sample_parser_rule rx = \<lparr>compiled_remote_rule.id = rx, event_name = ''E'', match_kind = EventName, regex = rx, capture_fields = []\<rparr>"

definition literal_captures :: "string \<Rightarrow> string \<Rightarrow> captures option" where
  "literal_captures rx s = (if rx = s then Some \<lparr>named = (\<lambda>_. None), groups = (\<lambda>_. Some s)\<rparr> else None)"

abbreviation (input) sample_rule_line :: log_line where
  "sample_rule_line \<equiv> \<lparr>log_line.timestamp = ''t'', level = None, event_name = Some ''E'', body = ''b'', tags = []\<rparr>"

text \<open>A rule that would match can be hidden by an earlier rule that does not: with the second rule alone the line is recognised,
  with both it is not, although the documentation promises the first match.\<close>

theorem apply_remote_rules_hides_match:
  "\<exists>captures_of line rule1 (rule2 :: string compiled_remote_rule).
     apply_remote_rules captures_of line [rule1] = None \<and>
     apply_remote_rules captures_of line [rule2] \<noteq> None \<and>
     apply_remote_rules captures_of line [rule1, rule2] = None"
  by (intro exI [of _ literal_captures] exI [of _ sample_rule_line] exI [of _ "sample_parser_rule ''a''"]
      exI [of _ "sample_parser_rule ''b''"]) (simp add: sample_parser_rule_def literal_captures_def matches_anchor_def)

text \<open>What the manifest's signature binds: with a faithful serialiser two manifests have the same signed bytes exactly when
  they agree in everything but the signature.\<close>

theorem manifest_signing_binds:
  assumes "inj to_vec"
  shows "manifest_signing_bytes to_vec m = manifest_signing_bytes to_vec m' \<longleftrightarrow>
    m\<lparr>signature := None\<rparr> = m'\<lparr>signature := None\<rparr>"
  using assms by (cases m; cases m') (auto simp: manifest_signing_bytes_def dest: injD)

theorem manifest_signing_binds_witness:
  "manifest_signing_bytes (\<lambda>v. v) manifest_empty = manifest_signing_bytes (\<lambda>v. v) (manifest_empty\<lparr>signature := Some ''s''\<rparr>) \<and>
   manifest_signing_bytes (\<lambda>v. v) manifest_empty \<noteq> manifest_signing_bytes (\<lambda>v. v) (manifest_empty\<lparr>manifest.version := 1\<rparr>)"
  using manifest_signing_binds [of "\<lambda>v. v" manifest_empty "manifest_empty\<lparr>signature := Some ''s''\<rparr>"]
    manifest_signing_binds [of "\<lambda>v. v" manifest_empty "manifest_empty\<lparr>manifest.version := 1\<rparr>"]
  by (simp add: manifest_empty_def)

end
