(* ===== verification/Ingest.thy ===== *)
theory Ingest
  imports Classify Parser_Defs Unknown_Lines
begin

text \<open>
  The entry point of ingestion (\<open>classify_or_capture\<close> of \<open>crates/starstats-core/src/parser.rs\<close>), where the built-in
  classification, the remote rules and the capture of unknown lines meet.
\<close>

datatype classify_outcome =
    Classified game_event
  | RemoteMatched game_event
  | UnknownOutcome unknown_line

record 'rx ingest_deps =
  static_regex :: regex_engine
  rule_captures :: "'rx \<Rightarrow> string \<Rightarrow> captures option"
  shape_regex :: shape_engine
  hasher :: "string \<Rightarrow> u64"

definition classify_or_capture ::
  "'rx ingest_deps \<Rightarrow> string \<Rightarrow> log_line \<Rightarrow> 'rx compiled_remote_rule list \<Rightarrow> capture_context \<Rightarrow> string \<Rightarrow> string \<Rightarrow>
   classify_outcome exec" where
  "classify_or_capture deps fresh_id line remote_rules ctx rawl now =
     (case classify (static_regex deps) line of
        Panics \<Rightarrow> Panics
      | Done (Some ev) \<Rightarrow> Done (Classified ev)
      | Done None \<Rightarrow>
          (case apply_remote_rules (rule_captures deps) line remote_rules of
             Some ev \<Rightarrow> Done (RemoteMatched ev)
           | None \<Rightarrow>
               (case capture (hasher deps) fresh_id (shape_regex deps) rawl (log_line.event_name line) ctx now of
                  Panics \<Rightarrow> Panics
                | Done u \<Rightarrow> Done (UnknownOutcome u))))"

definition shard_group_bound :: "shape_engine \<Rightarrow> bool" where
  "shard_group_bound eng \<longleftrightarrow> (\<forall>s. None \<notin> set (group1_iter eng SHARD_RE s))"

lemma capture_fields_kept:
  "capture h i eng rawl tag ctx now = Done u \<Longrightarrow>
     unknown_line.raw_line u = rawl \<and> unknown_line.shell_tag u = tag \<and> occurrence_count u = 1 \<and>
     first_seen u = now \<and> last_seen u = now \<and> \<not> dismissed u"
  by (auto simp: capture_def Let_def split: exec.splits)

lemma capture_safe: "shard_group_bound eng \<Longrightarrow> \<exists>u. capture h i eng rawl tag ctx now = Done u"
  by (auto simp: capture_def detect_pii_def shard_group_bound_def Let_def)

text \<open>C22. Every line ends in exactly one of three outcomes: the built-in classification wins; a remote rule is only asked when it
  found nothing; only a line both leave alone is captured for review, verbatim and once.  No line panics.\<close>

theorem classify_or_capture_outcome:
  assumes "required_groups (static_regex deps)" "shard_group_bound (shape_regex deps)"
  shows "\<exists>out. classify_or_capture deps fresh line rs ctx rawl now = Done out \<and>
    (case out of
       Classified e \<Rightarrow> classify (static_regex deps) line = Done (Some e)
     | RemoteMatched e \<Rightarrow> classify (static_regex deps) line = Done None \<and>
         apply_remote_rules (rule_captures deps) line rs = Some e \<and> timestamp_of e = log_line.timestamp line
     | UnknownOutcome u \<Rightarrow> classify (static_regex deps) line = Done None \<and>
         apply_remote_rules (rule_captures deps) line rs = None \<and> unknown_line.raw_line u = rawl \<and>
         unknown_line.shell_tag u = log_line.event_name line \<and> occurrence_count u = 1)"
proof (cases "classify (static_regex deps) line")
  case Panics
  with classify_safe [OF assms(1)] show ?thesis by simp
next
  case (Done ev)
  show ?thesis
  proof (cases ev)
    case None
    obtain u where u: "capture (hasher deps) fresh (shape_regex deps) rawl (log_line.event_name line) ctx now = Done u"
      using capture_safe [OF assms(2)] by blast
    show ?thesis
    proof (cases "apply_remote_rules (rule_captures deps) line rs")
      case None
      with Done \<open>ev = None\<close> u capture_fields_kept [OF u] show ?thesis by (simp add: classify_or_capture_def)
    next
      case (Some e)
      with Done \<open>ev = None\<close> show ?thesis
        using apply_remote_rules_event [OF Some] by (auto simp: classify_or_capture_def remote_event_def)
    qed
  qed (use Done in \<open>simp add: classify_or_capture_def\<close>)
qed

theorem classify_or_capture_outcome_witness:
  "\<exists>u. classify_or_capture
     \<lparr>static_regex = (\<lambda>_ _. None), rule_captures = literal_captures, shape_regex = sample_shape_engine, hasher = (\<lambda>_. 0)\<rparr>
     ''id'' sample_rule_line [] capture_context_default ''<t> <E> b'' ''now'' = Done (UnknownOutcome u) \<and>
     unknown_line.raw_line u = ''<t> <E> b''"
proof -
  let ?deps = "\<lparr>static_regex = (\<lambda>_ _. None), rule_captures = literal_captures, shape_regex = sample_shape_engine,
    hasher = (\<lambda>_. 0)\<rparr> :: string ingest_deps"
  have ok: "required_groups (static_regex ?deps)" "shard_group_bound (shape_regex ?deps)"
    by (simp_all add: required_groups_def shard_group_bound_def sample_shape_engine_def)
  have none: "classify (static_regex ?deps) sample_rule_line = Done None"
    by (simp add: classify_def classify_shell_def classify_body_prefix_def contains_str_def sublist_code)
  from classify_or_capture_outcome [OF ok, of "''id''" sample_rule_line "[]" capture_context_default "''<t> <E> b''" "''now''"]
  show ?thesis using none by (elim exE) (rename_tac out, case_tac out, auto)
qed

end
