(* ===== verification/Tail_Ingest.thy ===== *)
theory Tail_Ingest
  imports Tail Ingest Inference_Defs
begin

text \<open>
  How the tray client turns the lines of a drain into rows of its database (\<open>crates/starstats-client/src/gamelog.rs\<close>, \<open>backfill.rs\<close>): the ingest of one line,
  the passes over a buffer (stitch, parse, collapse bursts, ingest the rest, infer), the drain of the live tail and the replay of an archived
  log in chunks.  The database does not fail in this model.  serde, the hashes, chrono, the regular expressions, the clock and fresh ids are
  parameters; a rule list carries the state of its rules.

  The lemmas show that no recognised line is lost on the way to the database and that reading the same lines again adds no rows.
\<close>

section \<open>State and parameters\<close>

record 'rx tail_env =
  ingest_deps_of :: "'rx ingest_deps"
  clock_parse :: chrono_rfc3339
  lower_text :: "string \<Rightarrow> string"
  to_json :: "game_event \<Rightarrow> string option"
  json_type :: "string \<Rightarrow> string option"
  json_timestamp :: "string \<Rightarrow> string option"
  oid_hash :: "string \<Rightarrow> string"
  content_hash_of :: "string \<Rightarrow> string"
  db_now :: string
  fresh_line_id :: string
  friends :: "string list"

definition INFERENCE_WINDOW_CAPACITY :: nat where
  "INFERENCE_WINDOW_CAPACITY = 50"

record inference_window =
  recent :: "event_envelope list"
  emitted :: "string set"

definition window_push :: "event_envelope \<Rightarrow> inference_window \<Rightarrow> inference_window" where
  "window_push e w =
     (let old = (if length (recent w) = INFERENCE_WINDOW_CAPACITY then tl (recent w) else recent w) in w\<lparr>recent := old @ [e]\<rparr>)"

record tail_stats =
  current_path :: "string option"
  bytes_read :: nat
  lines_processed :: nat
  events_recognised :: nat
  last_event_at :: "string option"
  last_event_type :: "string option"
  lines_structural_only :: nat
  lines_skipped :: nat
  lines_noise :: nat

definition count_event :: "string \<Rightarrow> string \<Rightarrow> tail_stats \<Rightarrow> tail_stats" where
  "count_event ty ts s = s\<lparr>events_recognised := events_recognised s + 1, last_event_type := Some ty, last_event_at := Some ts\<rparr>"

record 's ingest_state =
  db :: local_store
  tstats :: tail_stats
  window :: inference_window
  irules :: "'s compiled_inference_rule list"

text \<open>What a drain knows of its file.\<close>

record 'rx line_ctx =
  ctx_source :: string
  ctx_sig :: "string option"
  ctx_rules :: "'rx compiled_remote_rule list"
  ctx_bursts :: "burst_rule list"
  ctx_v2 :: bool
  ctx_handle :: string

fun bind_exec :: "'a exec \<Rightarrow> ('a \<Rightarrow> 'b exec) \<Rightarrow> 'b exec" where
  "bind_exec Panics f = Panics"
| "bind_exec (Done x) f = f x"

section \<open>One line\<close>

definition serialise_event :: "'rx tail_env \<Rightarrow> game_event \<Rightarrow> (string \<times> string \<times> string) option" where
  "serialise_event env ev =
     Option.bind (to_json env ev) (\<lambda>payload.
     Option.bind (json_type env payload) (\<lambda>ty. Some (ty, unwrap_or [] (json_timestamp env payload), payload)))"

definition put_event :: "'rx tail_env \<Rightarrow> string \<Rightarrow> string \<times> string \<times> string \<Rightarrow> string \<Rightarrow> string \<Rightarrow> nat \<Rightarrow> local_store \<Rightarrow> local_store" where
  "put_event env k ev rw src off st =
     (case ev of (ty, ts, payload) \<Rightarrow> snd (insert_event (content_hash_of env) k ty ts rw payload src (of_nat off) st))"

datatype ingest_outcome = LineSkipped | LineNoise | LineStructuralOnly | LineRecognised string string

definition capture_v2_unknown :: "'rx tail_env \<Rightarrow> 'rx line_ctx \<Rightarrow> log_line \<Rightarrow> string \<Rightarrow> local_store \<Rightarrow> local_store exec" where
  "capture_v2_unknown env ctx parsed l st =
     (let cctx = capture_context_default\<lparr>channel := log_source_enum_from_str (ctx_source ctx), own_handle := ctx_handle ctx,
                                         known_friends := friends env\<rparr>
      in bind_exec (classify_or_capture (ingest_deps_of env) (fresh_line_id env) parsed [] cctx l (log_line.timestamp parsed)) (\<lambda>out.
           Done (case out of UnknownOutcome u \<Rightarrow> cache_unknown_line u st | _ \<Rightarrow> st)))"

definition note_unknown :: "'rx tail_env \<Rightarrow> 'rx line_ctx \<Rightarrow> log_line \<Rightarrow> string \<Rightarrow> local_store \<Rightarrow> (ingest_outcome \<times> local_store) exec" where
  "note_unknown env ctx parsed l st =
     (case log_line.event_name parsed of
        None \<Rightarrow> Done (LineStructuralOnly, st)
      | Some name \<Rightarrow>
          if is_garbage_line l then Done (LineNoise, st)
          else if is_noise name st then Done (LineNoise, st)
          else
            let st1 = record_unknown (db_now env) (ctx_source ctx) name l (log_line.body parsed) st
            in if ctx_v2 ctx then bind_exec (capture_v2_unknown env ctx parsed l st1) (\<lambda>st2. Done (LineStructuralOnly, st2))
               else Done (LineStructuralOnly, st1))"

definition recognise :: "'rx tail_env \<Rightarrow> 'rx line_ctx \<Rightarrow> log_line \<Rightarrow> game_event option exec" where
  "recognise env ctx parsed =
     bind_exec (classify (static_regex (ingest_deps_of env)) parsed) (\<lambda>r.
       Done (case r of Some ev \<Rightarrow> Some ev | None \<Rightarrow> apply_remote_rules (rule_captures (ingest_deps_of env)) parsed (ctx_rules ctx)))"

definition observed_envelope :: "'rx line_ctx \<Rightarrow> string \<Rightarrow> string \<Rightarrow> nat \<Rightarrow> game_event \<Rightarrow> event_envelope" where
  "observed_envelope ctx k l off ev =
     \<lparr>idempotency_key = k, event_envelope.raw_line = l, event_envelope.event = Some ev,
      event_envelope.source = log_source_enum_from_str (ctx_source ctx), source_offset = of_nat off, event_envelope.metadata = None,
      resolved_location = None\<rparr>"

definition ingest_one_line ::
  "'rx tail_env \<Rightarrow> 'rx line_ctx \<Rightarrow> string \<Rightarrow> nat \<Rightarrow> 's ingest_state \<Rightarrow> (ingest_outcome \<times> 's ingest_state) exec" where
  "ingest_one_line env ctx l off st =
     bind_exec (structural_parse (static_regex (ingest_deps_of env)) l) (\<lambda>p.
       case p of
         None \<Rightarrow> Done (LineSkipped, st)
       | Some parsed \<Rightarrow>
           bind_exec (recognise env ctx parsed) (\<lambda>r.
             case r of
               None \<Rightarrow> bind_exec (note_unknown env ctx parsed l (db st)) (\<lambda>(out, d). Done (out, st\<lparr>db := d\<rparr>))
             | Some ev \<Rightarrow>
                 (case serialise_event env ev of
                    None \<Rightarrow> Done (LineSkipped, st)
                  | Some ser \<Rightarrow>
                      let k = line_key (oid_hash env) (ctx_source ctx) (ctx_sig ctx) off l;
                          st1 = st\<lparr>db := put_event env k ser l (ctx_source ctx) off (db st)\<rparr>;
                          st2 = (if ctx_v2 ctx then st1\<lparr>window := window_push (observed_envelope ctx k l off ev) (window st1)\<rparr> else st1)
                      in Done (LineRecognised (fst ser) (fst (snd ser)), st2))))"

definition count_outcome :: "ingest_outcome \<Rightarrow> tail_stats \<Rightarrow> tail_stats" where
  "count_outcome out s =
     (case out of
        LineSkipped \<Rightarrow> s\<lparr>lines_skipped := lines_skipped s + 1\<rparr>
      | LineNoise \<Rightarrow> s\<lparr>lines_noise := lines_noise s + 1\<rparr>
      | LineStructuralOnly \<Rightarrow> s\<lparr>lines_structural_only := lines_structural_only s + 1\<rparr>
      | LineRecognised ty ts \<Rightarrow> count_event ty ts s)"

definition process_line :: "'rx tail_env \<Rightarrow> 'rx line_ctx \<Rightarrow> string \<Rightarrow> nat \<Rightarrow> 's ingest_state \<Rightarrow> 's ingest_state exec" where
  "process_line env ctx l off st =
     bind_exec (ingest_one_line env ctx l off st) (\<lambda>(out, st'). Done (st'\<lparr>tstats := count_outcome out (tstats st')\<rparr>))"

section \<open>Bursts\<close>

fun loadout_pairs :: "regex_engine \<Rightarrow> log_line list \<Rightarrow> (string \<times> string) list exec" where
  "loadout_pairs rx [] = Done []"
| "loadout_pairs rx (l # ls) =
     bind_exec (classify rx l) (\<lambda>r.
     bind_exec (loadout_pairs rx ls) (\<lambda>ps.
       Done (case r of
               Some (AttachmentReceived ar) \<Rightarrow> (attachment_received.item_class ar, attachment_received.port ar) # ps
             | _ \<Rightarrow> ps)))"

definition burst_event :: "'rx tail_env \<Rightarrow> log_line list \<Rightarrow> burst_hit \<Rightarrow> game_event exec" where
  "burst_event env ls burst =
     (let a = ls ! start_index burst;
          sample = concat (take 200 (utf8_chars (log_line.body a)));
          mk = (\<lambda>knd cats its. BurstSummary
                  \<lparr>burst_summary.timestamp = log_line.timestamp a, burst_summary.rule_id = burst_hit.rule_id burst,
                   burst_summary.size = of_nat (burst_hit.size burst), end_timestamp = log_line.timestamp (ls ! end_index burst),
                   anchor_body_sample = (if sample = [] then None else Some sample), burst_summary.kind = knd, categories = cats, items = its\<rparr>)
      in if burst_hit.rule_id burst = LOADOUT_RESTORE_BURST_RULE_ID
         then bind_exec (loadout_pairs (static_regex (ingest_deps_of env)) (map ((!) ls) (member_indices burst))) (\<lambda>pairs.
                Done (mk (Some ''loadout_restore'') (build_loadout_categories (lower_text env) (map fst pairs))
                         (build_loadout_items (lower_text env) pairs)))
         else Done (mk None None None))"

definition emit_burst ::
  "'rx tail_env \<Rightarrow> 'rx line_ctx \<Rightarrow> (string \<times> nat) list \<Rightarrow> (nat \<times> log_line) list \<Rightarrow> burst_hit
    \<Rightarrow> nat set \<times> 's ingest_state \<Rightarrow> (nat set \<times> 's ingest_state) exec" where
  "emit_burst env ctx buffer valid burst acc =
     (case acc of (suppressed, st) \<Rightarrow>
        let (anchor_line, off) = buffer ! fst (valid ! start_index burst)
        in bind_exec (burst_event env (map snd valid) burst) (\<lambda>ev.
             Done (case serialise_event env ev of
                     None \<Rightarrow> (suppressed, st)
                   | Some ser \<Rightarrow>
                       let k = line_key (oid_hash env) (ctx_source ctx) (ctx_sig ctx) off
                                 (anchor_line @ ''|burst:'' @ burst_hit.rule_id burst @ '':'' @ show_nat (burst_hit.size burst));
                           st1 = st\<lparr>db := put_event env k ser anchor_line (ctx_source ctx) off (db st)\<rparr>;
                           st2 = (if ctx_v2 ctx then st1\<lparr>window := window_push (observed_envelope ctx k anchor_line off ev) (window st1)\<rparr> else st1)
                       in (suppressed \<union> (\<lambda>i. fst (valid ! i)) ` set (member_indices burst),
                           st2\<lparr>tstats := count_event (fst ser) (fst (snd ser)) (tstats st2)\<rparr>))))"

fun fold_exec :: "('a \<Rightarrow> 'b \<Rightarrow> 'b exec) \<Rightarrow> 'a list \<Rightarrow> 'b \<Rightarrow> 'b exec" where
  "fold_exec f [] b = Done b"
| "fold_exec f (x # xs) b = bind_exec (f x b) (fold_exec f xs)"

section \<open>Inference\<close>

definition persist_inferred :: "'rx tail_env \<Rightarrow> string \<Rightarrow> inferred_event \<Rightarrow> 's ingest_state \<Rightarrow> 's ingest_state" where
  "persist_inferred env src row st =
     (let rid = event_metadata.rule_id (inferred_event.metadata row);
          k = inferred_idempotency_key (oid_hash env) (unwrap_or [] rid) (trigger_idempotency_key row)
      in if k \<in> emitted (window st) then st
         else
           let st1 = st\<lparr>window := (window st)\<lparr>emitted := insert k (emitted (window st))\<rparr>\<rparr>
           in case serialise_event env (inferred_event.event row) of
                None \<Rightarrow> st1
              | Some ser \<Rightarrow>
                  st1\<lparr>db := put_event env k ser (''inferred:'' @ unwrap_or ''unknown'' rid) src 0 (db st1),
                      tstats := count_event (fst ser) (fst (snd ser)) (tstats st1)\<rparr>)"

definition run_inference :: "'rx tail_env \<Rightarrow> string \<Rightarrow> 's ingest_state \<Rightarrow> 's ingest_state" where
  "run_inference env src st =
     (if irules st = [] \<or> recent (window st) = [] then st
      else
        let (rules', rows) = infer_with_rules (clock_parse env) (recent (window st)) default_config (irules st)
        in foldl (\<lambda>st row. persist_inferred env src row st) (st\<lparr>irules := rules'\<rparr>) rows)"

section \<open>A buffer\<close>

definition process_rest :: "'rx tail_env \<Rightarrow> 'rx line_ctx \<Rightarrow> nat set \<Rightarrow> nat \<times> string \<times> nat \<Rightarrow> 's ingest_state \<Rightarrow> 's ingest_state exec" where
  "process_rest env ctx suppressed item st =
     (case item of (i, l, off) \<Rightarrow> if i \<in> suppressed then Done st else process_line env ctx l off st)"

definition process_buffer :: "'rx tail_env \<Rightarrow> 'rx line_ctx \<Rightarrow> (string \<times> nat) list \<Rightarrow> 's ingest_state \<Rightarrow> 's ingest_state exec" where
  "process_buffer env ctx buffer0 st =
     (let buffer = stitch_multiline_records buffer0
      in bind_exec (parse_buffer (static_regex (ingest_deps_of env)) buffer) (\<lambda>parsed.
           let valid = valid_of parsed;
               bursts = detect_bursts (clock_parse env) (map snd valid) (ctx_bursts ctx)
           in bind_exec (fold_exec (emit_burst env ctx buffer valid) bursts ({}, st)) (\<lambda>(suppressed, st1).
              bind_exec (fold_exec (process_rest env ctx suppressed) (enumerate 0 buffer) st1) (\<lambda>st2.
                Done (if ctx_v2 ctx then run_inference env (ctx_source ctx) st2 else st2)))))"

section \<open>Drains\<close>

record 's tail_task =
  task_pos :: tail_pos
  task_state :: "'s ingest_state"

text \<open>What a drain or a backfill knows of its file; \<open>components\<close> splits a path.\<close>

definition file_ctx :: "(string \<Rightarrow> string list) \<Rightarrow> string \<Rightarrow> string option \<Rightarrow> 'rx line_ctx \<Rightarrow> 'rx line_ctx" where
  "file_ctx components pth sig ctx =
     ctx\<lparr>ctx_source := log_source_from_path (components pth), ctx_sig := sig, ctx_bursts := builtin_burst_rules\<rparr>"

text \<open>A drain of the live tail; a missing file is nothing new.  The flag tells whether lines were read.\<close>

definition drain :: "'rx tail_env \<Rightarrow> 'rx line_ctx \<Rightarrow> (string \<Rightarrow> string) \<Rightarrow> (string \<Rightarrow> string list) \<Rightarrow> string \<Rightarrow> 's compiled_inference_rule list \<Rightarrow> log_file option
    \<Rightarrow> 's tail_task \<Rightarrow> (bool \<times> 's tail_task) exec" where
  "drain env ctx lossy components pth irs file tk =
     (case file of
        None \<Rightarrow> Done (False, tk)
      | Some f \<Rightarrow>
          let (ls, pos') = drain_read (oid_hash env) lossy f (task_pos tk)
          in if length (content f) = resolve_resume_offset (tail_offset (task_pos tk)) (tail_sig (task_pos tk)) (file_signature (oid_hash env) f)
                                       (length (content f))
             then Done (False, tk\<lparr>task_pos := pos'\<rparr>)
             else
               bind_exec (if ls = [] then Done (task_state tk)
                          else bind_exec (process_buffer env (file_ctx components pth (tail_sig pos') ctx) ls ((task_state tk)\<lparr>irules := irs\<rparr>)) (\<lambda>st.
                                 Done (st\<lparr>tstats := (tstats st)\<lparr>bytes_read := tail_offset pos',
                                                                lines_processed := lines_processed (tstats st) + length ls\<rparr>\<rparr>)))
                 (\<lambda>st. Done (ls \<noteq> [], \<lparr>task_pos = pos',
                    task_state = st\<lparr>db := write_tail_cursor pth (of_nat (tail_offset pos')) (tail_sig pos') (db st)\<rparr>\<rparr>)))"

definition BACKFILL_CHUNK_LINES :: nat where
  "BACKFILL_CHUNK_LINES = 10000"

text \<open>The chunk loop of a backfill: lines gathered since the last full chunk, and the tail carried over from it.\<close>

fun backfill_chunks ::
  "'rx tail_env \<Rightarrow> 'rx line_ctx \<Rightarrow> nat \<Rightarrow> (string \<times> nat) list \<Rightarrow> (string \<times> nat) list \<Rightarrow> (string \<times> nat) list \<Rightarrow> 's ingest_state \<Rightarrow> 's ingest_state exec" where
  "backfill_chunks env ctx cap [] chunk carry st =
     (if carry @ chunk = [] then Done st else process_buffer env ctx (carry @ chunk) st)"
| "backfill_chunks env ctx cap (l # ls) chunk carry st =
     (let chunk' = chunk @ [l]
      in if cap \<le> length chunk'
         then let buf = carry @ chunk'
              in bind_exec (backfill_carry_split (clock_parse env) (static_regex (ingest_deps_of env)) buf (ctx_bursts ctx)) (\<lambda>c.
                 bind_exec (process_buffer env ctx (take c buf) st) (backfill_chunks env ctx cap ls [] (drop c buf)))
         else backfill_chunks env ctx cap ls chunk' carry st)"

record backfill_stats =
  completed :: bool
  files_total :: nat
  files_processed :: nat
  files_already_done :: nat
  backfill_lines :: nat
  backfill_events :: nat

definition fresh_tail_stats :: tail_stats where
  "fresh_tail_stats =
     \<lparr>current_path = None, bytes_read = 0, lines_processed = 0, events_recognised = 0, last_event_at = None, last_event_type = None, lines_structural_only = 0,
      lines_skipped = 0, lines_noise = 0\<rparr>"

definition backfill_file ::
  "'rx tail_env \<Rightarrow> 'rx line_ctx \<Rightarrow> (string \<Rightarrow> string) \<Rightarrow> (string \<Rightarrow> string list) \<Rightarrow> string \<Rightarrow> 's compiled_inference_rule list \<Rightarrow> log_file option
    \<Rightarrow> local_store \<times> backfill_stats \<Rightarrow> ('s compiled_inference_rule list \<times> local_store \<times> backfill_stats) exec" where
  "backfill_file env ctx lossy components pth irs file acc =
     (case acc of (d, bs) \<Rightarrow>
        (case file of
           None \<Rightarrow> Done (irs, d, bs\<lparr>files_already_done := files_already_done bs + 1\<rparr>)
         | Some f \<Rightarrow>
             let start = unat (read_cursor pth d)
             in if length (content f) \<le> start then Done (irs, d, bs\<lparr>files_already_done := files_already_done bs + 1\<rparr>)
                else
                  let (ls, off) = read_lines lossy start (drop start (content f));
                      st0 = \<lparr>db = d, tstats = fresh_tail_stats, window = \<lparr>recent = [], emitted = {}\<rparr>, irules = irs\<rparr>
                  in bind_exec (backfill_chunks env (file_ctx components pth (file_signature (oid_hash env) f) ctx) BACKFILL_CHUNK_LINES ls [] [] st0) (\<lambda>st.
                       Done (irules st, write_cursor pth (of_nat off) (db st),
                             bs\<lparr>files_processed := files_processed bs + 1, backfill_lines := backfill_lines bs + length ls,
                                backfill_events := backfill_events bs + events_recognised (tstats st)\<rparr>))))"

datatype log_kind = ChannelLive | ChannelArchived | CrashReport | LauncherLog

record discovered_log =
  log_channel :: string
  log_kind_of :: log_kind
  log_path :: string
  size_bytes :: nat

text \<open>The sweep over the archived logs among the discovered ones; \<open>files\<close> is the file system.\<close>

definition run_once ::
  "'rx tail_env \<Rightarrow> 'rx line_ctx \<Rightarrow> (string \<Rightarrow> string) \<Rightarrow> (string \<Rightarrow> string list) \<Rightarrow> (string \<Rightarrow> log_file option) \<Rightarrow> discovered_log list
    \<Rightarrow> 's compiled_inference_rule list \<Rightarrow> local_store \<times> backfill_stats \<Rightarrow> ('s compiled_inference_rule list \<times> local_store \<times> backfill_stats) exec" where
  "run_once env ctx lossy components files logs irs acc =
     (case acc of (d, bs) \<Rightarrow>
        let archived = filter (\<lambda>g. log_kind_of g = ChannelArchived) logs
        in fold_exec (\<lambda>g (irs, acc). backfill_file env ctx lossy components (log_path g) irs
                                        (files (log_path g)) acc)
             archived (irs, d, bs\<lparr>files_total := length archived mod 2 ^ 32\<rparr>))"

section \<open>Rows that stay\<close>

lemma bind_exec_Done [simp]: "bind_exec x f = Done y \<longleftrightarrow> (\<exists>v. x = Done v \<and> f v = Done y)"
  by (cases x) auto

lemma fold_exec_induct:
  assumes "fold_exec f xs b = Done b'" "P b" "\<And>x b b'. x \<in> set xs \<Longrightarrow> f x b = Done b' \<Longrightarrow> P b \<Longrightarrow> P b'"
  shows "P b'"
  using assms by (induction xs arbitrary: b) auto

lemma fold_exec_establishes:
  assumes "fold_exec f xs b = Done b'" "x \<in> set xs"
    and "\<And>b b'. f x b = Done b' \<Longrightarrow> Q b'" "\<And>y b b'. f y b = Done b' \<Longrightarrow> Q b \<Longrightarrow> Q b'"
  shows "Q b'"
  using assms(1,2)
proof (induction xs arbitrary: b)
  case (Cons y xs)
  then obtain c where c: "f y b = Done c" "fold_exec f xs c = Done b'" by auto
  show ?case
  proof (cases "x \<in> set xs")
    case True
    with Cons.IH [OF c(2)] show ?thesis .
  next
    case False
    then have "Q c" using Cons.prems(2) c(1) assms(3) by auto
    with c(2) show ?thesis by (rule fold_exec_induct) (auto intro: assms(4))
  qed
qed simp

text \<open>A row with this key or this content.\<close>

definition stored_in :: "'rx tail_env \<Rightarrow> event_row list \<Rightarrow> string \<Rightarrow> string \<times> string \<times> string \<Rightarrow> string \<Rightarrow> bool" where
  "stored_in env rows k ser rw \<longleftrightarrow>
     (case ser of (ty, ts, payload) \<Rightarrow>
        list_ex (\<lambda>r. row_content r = content_key (content_hash_of env) ty ts rw payload \<or> row_key r = k) rows)"

lemma stored_in_prefix: "stored_in env rows k ser rw \<Longrightarrow> prefix rows rows' \<Longrightarrow> stored_in env rows' k ser rw"
  by (auto simp: stored_in_def prefix_def split: prod.splits)

lemma put_event_stored: "stored_in env (ls_events (put_event env k ser rw src off d)) k ser rw"
  by (auto simp: stored_in_def put_event_def insert_event_def new_row_def list_ex_iff split: prod.splits)

lemma put_event_known: "stored_in env (ls_events d) k ser rw \<Longrightarrow> put_event env k ser rw src off d = d"
  by (auto simp: stored_in_def put_event_def insert_event_def list_ex_iff split: prod.splits)

lemma put_event_rows:
  "\<exists>new. ls_events (put_event env k ser rw src off d) = ls_events d @ new \<and> (\<forall>r\<in>set new. row_raw r = rw)"
  by (auto simp: put_event_def insert_event_def new_row_def split: prod.splits)

lemma put_event_prefix: "prefix (ls_events d) (ls_events (put_event env k ser rw src off d))"
  using put_event_rows [of env k ser rw src off d] by (auto simp: prefix_def)

lemma put_event_ok: "store_ok d \<Longrightarrow> store_ok (put_event env k ser rw src off d)"
  by (auto simp: put_event_def store_ok_insert split: prod.splits)

lemma unknown_rows [simp]:
  "ls_events (record_unknown now src name l bd d) = ls_events d" "ls_events (cache_unknown_line u d) = ls_events d"
  by (simp_all add: record_unknown_def cache_unknown_line_def)

lemma capture_rows:
  assumes "capture_v2_unknown env ctx parsed l d = Done d'"
  shows "ls_events d' = ls_events d \<and> (store_ok d \<longrightarrow> store_ok d')"
proof -
  obtain out where "d' = (case out of UnknownOutcome u \<Rightarrow> cache_unknown_line u d | _ \<Rightarrow> d)"
    using assms by (auto simp: capture_v2_unknown_def Let_def)
  then show ?thesis by (cases out) (simp_all add: store_ok_cache)
qed

lemma note_unknown_rows:
  "note_unknown env ctx parsed l d = Done (out, d') \<Longrightarrow> ls_events d' = ls_events d \<and> (store_ok d \<longrightarrow> store_ok d')"
  by (auto simp: note_unknown_def Let_def store_ok_unknown dest!: capture_rows split: option.splits if_splits)

text \<open>What a line puts into the database.\<close>

definition line_event :: "'rx tail_env \<Rightarrow> 'rx line_ctx \<Rightarrow> string \<Rightarrow> (string \<times> string \<times> string) option exec" where
  "line_event env ctx l =
     bind_exec (structural_parse (static_regex (ingest_deps_of env)) l) (\<lambda>p.
       case p of
         None \<Rightarrow> Done None
       | Some parsed \<Rightarrow> bind_exec (recognise env ctx parsed) (\<lambda>r. Done (Option.bind r (serialise_event env))))"

abbreviation key_of :: "'rx tail_env \<Rightarrow> 'rx line_ctx \<Rightarrow> nat \<Rightarrow> string \<Rightarrow> string" where
  "key_of env ctx off l \<equiv> line_key (oid_hash env) (ctx_source ctx) (ctx_sig ctx) off l"

definition line_result :: "'rx tail_env \<Rightarrow> 'rx line_ctx \<Rightarrow> string \<Rightarrow> nat \<Rightarrow> (string \<times> string \<times> string) option \<Rightarrow> local_store \<Rightarrow> event_row list" where
  "line_result env ctx l off lr d =
     (case lr of None \<Rightarrow> ls_events d | Some ser \<Rightarrow> ls_events (put_event env (key_of env ctx off l) ser l (ctx_source ctx) off d))"

lemma ingest_one_line_rows:
  assumes "ingest_one_line env ctx l off st = Done (out, st')"
  shows "\<exists>lr. line_event env ctx l = Done lr \<and> (store_ok (db st) \<longrightarrow> store_ok (db st')) \<and> ls_events (db st') = line_result env ctx l off lr (db st)"
proof -
  obtain p where p: "structural_parse (static_regex (ingest_deps_of env)) l = Done p"
    using assms by (cases "structural_parse (static_regex (ingest_deps_of env)) l") (simp_all add: ingest_one_line_def)
  show ?thesis
  proof (cases p)
    case None
    then show ?thesis using assms p by (simp add: ingest_one_line_def line_event_def line_result_def)
  next
    case (Some parsed)
    obtain r where r: "recognise env ctx parsed = Done r"
      using assms p Some by (cases "recognise env ctx parsed") (simp_all add: ingest_one_line_def)
    show ?thesis
    proof (cases r)
      case None
      then obtain d where "note_unknown env ctx parsed l (db st) = Done (out, d)" "st' = st\<lparr>db := d\<rparr>"
        using assms p Some r by (auto simp: ingest_one_line_def)
      then show ?thesis using p Some r None by (auto simp: line_event_def line_result_def dest!: note_unknown_rows)
    next
      case ev: (Some ev)
      show ?thesis
      proof (cases "serialise_event env ev")
        case None
        then show ?thesis using assms p Some r ev by (simp add: ingest_one_line_def line_event_def line_result_def)
      next
        case (Some ser)
        then have "db st' = put_event env (key_of env ctx off l) ser l (ctx_source ctx) off (db st)"
          using assms p \<open>p = _\<close> r ev by (auto simp: ingest_one_line_def Let_def)
        then show ?thesis using p \<open>p = _\<close> r ev Some by (simp add: line_event_def line_result_def put_event_ok)
      qed
    qed
  qed
qed

lemma process_line_rows:
  assumes "process_line env ctx l off st = Done st'"
  obtains lr where "line_event env ctx l = Done lr" "store_ok (db st) \<Longrightarrow> store_ok (db st')"
    "ls_events (db st') = line_result env ctx l off lr (db st)"
proof -
  obtain out st1 where "ingest_one_line env ctx l off st = Done (out, st1)" "db st' = db st1"
    using assms by (auto simp: process_line_def)
  with ingest_one_line_rows [OF this(1)] show ?thesis using that by auto
qed

definition anchor_of :: "(string \<times> nat) list \<Rightarrow> (nat \<times> log_line) list \<Rightarrow> burst_hit \<Rightarrow> string \<times> nat" where
  "anchor_of buffer valid burst = buffer ! fst (valid ! start_index burst)"

definition burst_key :: "'rx tail_env \<Rightarrow> 'rx line_ctx \<Rightarrow> (string \<times> nat) list \<Rightarrow> (nat \<times> log_line) list \<Rightarrow> burst_hit \<Rightarrow> string" where
  "burst_key env ctx buffer valid burst =
     key_of env ctx (snd (anchor_of buffer valid burst))
       (fst (anchor_of buffer valid burst) @ ''|burst:'' @ burst_hit.rule_id burst @ '':'' @ show_nat (burst_hit.size burst))"

definition burst_ser :: "'rx tail_env \<Rightarrow> (nat \<times> log_line) list \<Rightarrow> burst_hit \<Rightarrow> (string \<times> string \<times> string) option" where
  "burst_ser env valid burst = (case burst_event env (map snd valid) burst of Panics \<Rightarrow> None | Done ev \<Rightarrow> serialise_event env ev)"

lemma emit_burst_rows:
  assumes "emit_burst env ctx buffer valid burst (supp, st) = Done (supp', st')"
  shows "(store_ok (db st) \<longrightarrow> store_ok (db st')) \<and>
    (case burst_ser env valid burst of
       None \<Rightarrow> supp' = supp \<and> db st' = db st
     | Some ser \<Rightarrow>
         supp' = supp \<union> (\<lambda>i. fst (valid ! i)) ` set (member_indices burst) \<and>
         db st' = put_event env (burst_key env ctx buffer valid burst) ser (fst (anchor_of buffer valid burst)) (ctx_source ctx)
                    (snd (anchor_of buffer valid burst)) (db st))"
proof -
  obtain l off where anchor: "anchor_of buffer valid burst = (l, off)" by fastforce
  obtain ev where ev: "burst_event env (map snd valid) burst = Done ev"
    using assms by (cases "burst_event env (map snd valid) burst") (simp_all add: emit_burst_def split_beta)
  show ?thesis
  proof (cases "serialise_event env ev")
    case None
    then show ?thesis using assms ev by (auto simp: emit_burst_def burst_ser_def split_beta)
  next
    case (Some ser)
    let ?d = "put_event env (burst_key env ctx buffer valid burst) ser l (ctx_source ctx) off (db st)"
    have "\<exists>st1. emit_burst env ctx buffer valid burst (supp, st) =
        Done (supp \<union> (\<lambda>i. fst (valid ! i)) ` set (member_indices burst), st1) \<and> db st1 = ?d"
      using ev Some anchor by (simp add: emit_burst_def burst_key_def anchor_of_def Let_def)
    then have "supp' = supp \<union> (\<lambda>i. fst (valid ! i)) ` set (member_indices burst) \<and> db st' = ?d" using assms by auto
    then show ?thesis using ev Some anchor by (simp add: burst_ser_def put_event_ok)
  qed
qed

lemma persist_inferred_cases:
  obtains "db (persist_inferred env src row st) = db st"
    | k ser rw where "db (persist_inferred env src row st) = put_event env k ser (''inferred:'' @ rw) src 0 (db st)"
proof -
  let ?rid = "event_metadata.rule_id (inferred_event.metadata row)"
  let ?k = "inferred_idempotency_key (oid_hash env) (unwrap_or [] ?rid) (trigger_idempotency_key row)"
  show ?thesis
  proof (cases "?k \<in> emitted (window st)")
    case True
    then show ?thesis by (intro that(1)) (simp add: persist_inferred_def)
  next
    case new: False
    show ?thesis
    proof (cases "serialise_event env (inferred_event.event row)")
      case None
      then show ?thesis using new by (intro that(1)) (simp add: persist_inferred_def Let_def)
    next
      case (Some ser)
      then show ?thesis using new
        by (intro that(2) [of ?k ser "unwrap_or ''unknown'' ?rid"]) (simp add: persist_inferred_def Let_def)
    qed
  qed
qed

lemma persist_inferred_rows:
  "\<exists>new. ls_events (db (persist_inferred env src row st)) = ls_events (db st) @ new \<and> (\<forall>r\<in>set new. prefix ''inferred:'' (row_raw r))"
proof (rule persist_inferred_cases [of env src row st])
  fix k ser rw
  assume "db (persist_inferred env src row st) = put_event env k ser (''inferred:'' @ rw) src 0 (db st)"
  then show ?thesis using put_event_rows [of env k ser "''inferred:'' @ rw" src 0 "db st"] by auto
qed simp

lemma persist_inferred_ok: "store_ok (db st) \<Longrightarrow> store_ok (db (persist_inferred env src row st))"
  by (rule persist_inferred_cases [of env src row st]) (simp_all add: put_event_ok)

lemma persist_all_rows:
  "\<exists>new. ls_events (db (foldl (\<lambda>st row. persist_inferred env src row st) st rows)) = ls_events (db st) @ new \<and>
     (\<forall>r\<in>set new. prefix ''inferred:'' (row_raw r))"
proof (induction rows rule: rev_induct)
  case (snoc row rows)
  then obtain new where "ls_events (db (foldl (\<lambda>st row. persist_inferred env src row st) st rows)) = ls_events (db st) @ new"
    "\<forall>r\<in>set new. prefix ''inferred:'' (row_raw r)" by blast
  moreover obtain new' where "ls_events (db (persist_inferred env src row (foldl (\<lambda>st row. persist_inferred env src row st) st rows))) =
      ls_events (db (foldl (\<lambda>st row. persist_inferred env src row st) st rows)) @ new'" "\<forall>r\<in>set new'. prefix ''inferred:'' (row_raw r)"
    using persist_inferred_rows by blast
  ultimately show ?case by (intro exI [of _ "new @ new'"]) auto
qed simp

lemma persist_all_ok: "store_ok (db st) \<Longrightarrow> store_ok (db (foldl (\<lambda>st row. persist_inferred env src row st) st rows))"
  by (induction rows rule: rev_induct) (auto simp: persist_inferred_ok)

lemma run_inference_cases:
  obtains "run_inference env src st = st"
    | rules' rows where "run_inference env src st = foldl (\<lambda>st row. persist_inferred env src row st) (st\<lparr>irules := rules'\<rparr>) rows"
proof (cases "irules st = [] \<or> recent (window st) = []")
  case True
  then show ?thesis by (intro that(1)) (simp add: run_inference_def)
next
  case False
  obtain rules' rows where "infer_with_rules (clock_parse env) (recent (window st)) default_config (irules st) = (rules', rows)"
    by fastforce
  with False show ?thesis by (intro that(2) [of rules' rows]) (simp add: run_inference_def)
qed

lemma run_inference_rows:
  "\<exists>new. ls_events (db (run_inference env src st)) = ls_events (db st) @ new \<and> (\<forall>r\<in>set new. prefix ''inferred:'' (row_raw r))"
proof (rule run_inference_cases [of env src st])
  fix rules' rows
  assume "run_inference env src st = foldl (\<lambda>st row. persist_inferred env src row st) (st\<lparr>irules := rules'\<rparr>) rows"
  then show ?thesis using persist_all_rows [of env src "st\<lparr>irules := rules'\<rparr>" rows] by simp
qed simp

lemma run_inference_ok: "store_ok (db st) \<Longrightarrow> store_ok (db (run_inference env src st))"
  by (rule run_inference_cases [of env src st]) (simp_all add: persist_all_ok)

section \<open>What a buffer leaves behind\<close>

text \<open>Both passes over a buffer are folds of insertions: rows are only appended, the invariant stays, every insertion has its row at
  the end, and a fold whose insertions are all known appends nothing.\<close>

definition wanted :: "'rx tail_env \<Rightarrow> event_row list \<Rightarrow> string \<Rightarrow> string \<Rightarrow> (string \<times> string \<times> string) option \<Rightarrow> bool" where
  "wanted env rows k rw ser \<longleftrightarrow> (case ser of None \<Rightarrow> True | Some s \<Rightarrow> stored_in env rows k s rw)"

lemma wanted_prefix: "wanted env rows k rw ser \<Longrightarrow> prefix rows rows' \<Longrightarrow> wanted env rows' k rw ser"
  by (auto simp: wanted_def stored_in_prefix split: option.splits)

lemma wanted_kept:
  assumes "wanted env rows k rw ser" "\<And>r. r \<in> set rows \<Longrightarrow> row_mark r \<in> row_mark ` set rows'"
  shows "wanted env rows' k rw ser"
proof -
  have "\<exists>r'\<in>set rows'. row_key r' = row_key r \<and> row_content r' = row_content r" if "r \<in> set rows" for r
    using assms(2) [OF that] by (auto simp: row_mark_def)
  then show ?thesis using assms(1) unfolding wanted_def stored_in_def list_ex_iff
    by (fastforce split: option.splits prod.splits)
qed

lemma line_result_facts:
  "prefix (ls_events d) (line_result env ctx l off lr d)" "wanted env (line_result env ctx l off lr d) (key_of env ctx off l) l lr"
  "wanted env (ls_events d) (key_of env ctx off l) l lr \<Longrightarrow> line_result env ctx l off lr d = ls_events d"
  by (auto simp: line_result_def wanted_def put_event_prefix put_event_stored put_event_known split: option.splits)

abbreviation burst_wanted :: "'rx tail_env \<Rightarrow> 'rx line_ctx \<Rightarrow> (string \<times> nat) list \<Rightarrow> (nat \<times> log_line) list \<Rightarrow> event_row list \<Rightarrow> burst_hit \<Rightarrow> bool" where
  "burst_wanted env ctx buffer valid rows b \<equiv>
     wanted env rows (burst_key env ctx buffer valid b) (fst (anchor_of buffer valid b)) (burst_ser env valid b)"

definition collapsed :: "'rx tail_env \<Rightarrow> (nat \<times> log_line) list \<Rightarrow> burst_hit list \<Rightarrow> nat set" where
  "collapsed env valid bursts =
     (\<Union>b\<in>{b \<in> set bursts. burst_ser env valid b \<noteq> None}. (\<lambda>i. fst (valid ! i)) ` set (member_indices b))"

lemma emit_burst_facts:
  assumes "emit_burst env ctx buffer valid b (supp, st) = Done (supp', st')"
  shows "supp' = supp \<union> collapsed env valid [b]" "store_ok (db st) \<longrightarrow> store_ok (db st')" "prefix (ls_events (db st)) (ls_events (db st'))"
    "burst_wanted env ctx buffer valid (ls_events (db st')) b"
    "burst_wanted env ctx buffer valid (ls_events (db st)) b \<Longrightarrow> ls_events (db st') = ls_events (db st)"
  using emit_burst_rows [OF assms]
  by (auto simp: collapsed_def wanted_def put_event_prefix put_event_stored put_event_known split: option.splits)

lemma bursts_fold:
  assumes "fold_exec (emit_burst env ctx buffer valid) bursts (supp, st) = Done (supp', st')"
  shows "supp' = supp \<union> collapsed env valid bursts \<and> (store_ok (db st) \<longrightarrow> store_ok (db st')) \<and>
    prefix (ls_events (db st)) (ls_events (db st')) \<and> (\<forall>b\<in>set bursts. burst_wanted env ctx buffer valid (ls_events (db st')) b) \<and>
    ((\<forall>b\<in>set bursts. burst_wanted env ctx buffer valid (ls_events (db st)) b) \<longrightarrow> ls_events (db st') = ls_events (db st))"
  using assms
proof (induction bursts arbitrary: supp st)
  case Nil
  then show ?case by (simp add: collapsed_def)
next
  case (Cons b bs)
  obtain supp1 st1 where step: "emit_burst env ctx buffer valid b (supp, st) = Done (supp1, st1)"
      "fold_exec (emit_burst env ctx buffer valid) bs (supp1, st1) = Done (supp', st')"
    using Cons.prems by auto
  note f = emit_burst_facts [OF step(1)] and IH = Cons.IH [OF step(2)]
  have "burst_wanted env ctx buffer valid (ls_events (db st')) b" using f(4) IH wanted_prefix by blast
  moreover have "collapsed env valid (b # bs) = collapsed env valid [b] \<union> collapsed env valid bs" by (auto simp: collapsed_def)
  moreover have "\<forall>b\<in>set bs. burst_wanted env ctx buffer valid (ls_events (db st)) b \<longrightarrow> burst_wanted env ctx buffer valid (ls_events (db st1)) b"
    using f(3) wanted_prefix by blast
  ultimately show ?case using f(1-3,5) IH by (auto intro: prefix_order.trans)
qed

abbreviation line_wanted :: "'rx tail_env \<Rightarrow> 'rx line_ctx \<Rightarrow> event_row list \<Rightarrow> string \<Rightarrow> nat \<Rightarrow> bool" where
  "line_wanted env ctx rows l off \<equiv> (\<forall>lr. line_event env ctx l = Done lr \<longrightarrow> wanted env rows (key_of env ctx off l) l lr)"

lemma process_line_facts:
  assumes "process_line env ctx l off st = Done st'"
  shows "store_ok (db st) \<longrightarrow> store_ok (db st')" "prefix (ls_events (db st)) (ls_events (db st'))" "line_wanted env ctx (ls_events (db st')) l off"
    "line_wanted env ctx (ls_events (db st)) l off \<Longrightarrow> ls_events (db st') = ls_events (db st)"
  by (rule process_line_rows [OF assms], simp add: line_result_facts)+

lemma rest_fold:
  assumes "fold_exec (process_rest env ctx supp) its st = Done st'"
  shows "(store_ok (db st) \<longrightarrow> store_ok (db st')) \<and> prefix (ls_events (db st)) (ls_events (db st')) \<and>
    (\<forall>(i, l, off)\<in>set its. i \<notin> supp \<longrightarrow> line_wanted env ctx (ls_events (db st')) l off) \<and>
    ((\<forall>(i, l, off)\<in>set its. i \<notin> supp \<longrightarrow> line_wanted env ctx (ls_events (db st)) l off) \<longrightarrow> ls_events (db st') = ls_events (db st))"
  using assms
proof (induction its arbitrary: st)
  case (Cons item its)
  obtain i l off where item: "item = (i, l, off)" by (cases item)
  obtain st1 where step: "process_rest env ctx supp item st = Done st1" "fold_exec (process_rest env ctx supp) its st1 = Done st'"
    using Cons.prems by auto
  note IH = Cons.IH [OF step(2)]
  show ?case
  proof (cases "i \<in> supp")
    case True
    then have "st1 = st" using step(1) by (simp add: process_rest_def item)
    then show ?thesis using IH True by (auto simp: item)
  next
    case False
    then have line: "process_line env ctx l off st = Done st1" using step(1) by (simp add: process_rest_def item)
    note f = process_line_facts [OF line]
    have "line_wanted env ctx (ls_events (db st')) l off" using f(3) IH wanted_prefix by blast
    moreover have "line_wanted env ctx (ls_events (db st)) l' off' \<longrightarrow> line_wanted env ctx (ls_events (db st1)) l' off'" for l' off'
      using f(2) wanted_prefix by blast
    ultimately show ?thesis using f(1,2,4) IH False by (auto simp: item intro: prefix_order.trans)
  qed
qed simp


text \<open>The lines of a buffer, its valid lines and its bursts.\<close>

abbreviation buffer_bursts :: "'rx tail_env \<Rightarrow> 'rx line_ctx \<Rightarrow> log_line option list \<Rightarrow> burst_hit list" where
  "buffer_bursts env ctx parsed \<equiv> detect_bursts (clock_parse env) (map snd (valid_of parsed)) (ctx_bursts ctx)"

text \<open>No index of a burst is out of range, so that the indexing of \<open>emit_burst\<close> into the parsed and the physical lines never panics.\<close>

lemma parse_buffer_length: "parse_buffer rx buffer = Done parsed \<Longrightarrow> length parsed = length buffer"
  by (induction rx buffer arbitrary: parsed rule: parse_buffer.induct) (auto split: exec.splits)

lemma burst_indices_in_range:
  assumes "parse_buffer rx buffer = Done parsed" "b \<in> set (buffer_bursts env ctx parsed)"
  shows "start_index b \<in> set (member_indices b)"
    "\<forall>i\<in>set (member_indices b). i < length (valid_of parsed) \<and> fst (valid_of parsed ! i) < length buffer"
proof -
  have "burst_ok (clock_parse env) None (map snd (valid_of parsed)) (ctx_bursts ctx) b"
    using detect_bursts_hits [of "clock_parse env" None "map snd (valid_of parsed)" "ctx_bursts ctx"] assms(2) by (auto simp: detect_bursts_def scan_inv_def)
  then have b: "start_index b = hd (member_indices b)" "member_indices b \<noteq> []" "\<forall>i\<in>set (member_indices b). i < length (valid_of parsed)"
    by (auto simp: burst_ok_def)
  have "fst p < length buffer" if "p \<in> set (valid_of parsed)" for p
    using that parse_buffer_length [OF assms(1)] by (auto simp: valid_of_def in_set_enumerate_eq split: option.splits)
  with b show "start_index b \<in> set (member_indices b)"
    "\<forall>i\<in>set (member_indices b). i < length (valid_of parsed) \<and> fst (valid_of parsed ! i) < length buffer" by simp_all
qed

lemma process_buffer_phases:
  assumes "process_buffer env ctx buffer0 st = Done st'"
  obtains parsed supp st1 st2 where
    "parse_buffer (static_regex (ingest_deps_of env)) (stitch_multiline_records buffer0) = Done parsed"
    "fold_exec (emit_burst env ctx (stitch_multiline_records buffer0) (valid_of parsed)) (buffer_bursts env ctx parsed) ({}, st) = Done (supp, st1)"
    "fold_exec (process_rest env ctx supp) (enumerate 0 (stitch_multiline_records buffer0)) st1 = Done st2"
    "st' = (if ctx_v2 ctx then run_inference env (ctx_source ctx) st2 else st2)"
  using assms by (auto simp: process_buffer_def Let_def split: prod.splits)

lemma process_buffer_facts:
  assumes "process_buffer env ctx buffer0 st = Done st'"
    and "parse_buffer (static_regex (ingest_deps_of env)) (stitch_multiline_records buffer0) = Done parsed"
  defines "buffer \<equiv> stitch_multiline_records buffer0"
  shows "store_ok (db st) \<longrightarrow> store_ok (db st')" "prefix (ls_events (db st)) (ls_events (db st'))"
    "\<forall>b\<in>set (buffer_bursts env ctx parsed). burst_wanted env ctx buffer (valid_of parsed) (ls_events (db st')) b"
    "\<forall>(i, l, off)\<in>set (enumerate 0 buffer). i \<notin> collapsed env (valid_of parsed) (buffer_bursts env ctx parsed) \<longrightarrow>
       line_wanted env ctx (ls_events (db st')) l off"
    "(\<forall>b\<in>set (buffer_bursts env ctx parsed). burst_wanted env ctx buffer (valid_of parsed) (ls_events (db st)) b) \<Longrightarrow>
     (\<forall>(i, l, off)\<in>set (enumerate 0 buffer). i \<notin> collapsed env (valid_of parsed) (buffer_bursts env ctx parsed) \<longrightarrow>
       line_wanted env ctx (ls_events (db st)) l off) \<Longrightarrow>
     \<exists>new. ls_events (db st') = ls_events (db st) @ new \<and> (\<forall>r\<in>set new. prefix ''inferred:'' (row_raw r)) \<and> (\<not> ctx_v2 ctx \<longrightarrow> new = [])"
proof -
  obtain supp st1 st2 where bursts: "fold_exec (emit_burst env ctx buffer (valid_of parsed)) (buffer_bursts env ctx parsed) ({}, st) = Done (supp, st1)"
      and rest: "fold_exec (process_rest env ctx supp) (enumerate 0 buffer) st1 = Done st2"
      and st': "st' = (if ctx_v2 ctx then run_inference env (ctx_source ctx) st2 else st2)"
    using process_buffer_phases [OF assms(1)] assms(2) unfolding buffer_def by (metis exec.inject)
  note B = bursts_fold [OF bursts] and R = rest_fold [OF rest]
  obtain new where new: "ls_events (db st') = ls_events (db st2) @ new" "\<forall>r\<in>set new. prefix ''inferred:'' (row_raw r)"
      "\<not> ctx_v2 ctx \<longrightarrow> new = []"
    using run_inference_rows [of env "ctx_source ctx" st2] st' by (cases "ctx_v2 ctx") auto
  have supp: "supp = collapsed env (valid_of parsed) (buffer_bursts env ctx parsed)" using B by simp
  have grow: "prefix (ls_events (db st1)) (ls_events (db st2))" "prefix (ls_events (db st2)) (ls_events (db st'))"
    using R new by (simp_all add: prefix_def)
  show "store_ok (db st) \<longrightarrow> store_ok (db st')" using B R st' run_inference_ok by auto
  show "prefix (ls_events (db st)) (ls_events (db st'))" using B grow by (blast intro: prefix_order.trans)
  show "\<forall>b\<in>set (buffer_bursts env ctx parsed). burst_wanted env ctx buffer (valid_of parsed) (ls_events (db st')) b"
    using B grow wanted_prefix by (meson prefix_order.trans)
  show "\<forall>(i, l, off)\<in>set (enumerate 0 buffer). i \<notin> collapsed env (valid_of parsed) (buffer_bursts env ctx parsed) \<longrightarrow>
       line_wanted env ctx (ls_events (db st')) l off"
    using R grow(2) wanted_prefix unfolding supp by fastforce
  assume "\<forall>b\<in>set (buffer_bursts env ctx parsed). burst_wanted env ctx buffer (valid_of parsed) (ls_events (db st)) b"
    "\<forall>(i, l, off)\<in>set (enumerate 0 buffer). i \<notin> collapsed env (valid_of parsed) (buffer_bursts env ctx parsed) \<longrightarrow>
       line_wanted env ctx (ls_events (db st)) l off"
  then have "ls_events (db st2) = ls_events (db st)" using B R unfolding supp by simp
  with new show "\<exists>new. ls_events (db st') = ls_events (db st) @ new \<and> (\<forall>r\<in>set new. prefix ''inferred:'' (row_raw r)) \<and> (\<not> ctx_v2 ctx \<longrightarrow> new = [])"
    by auto
qed

section \<open>A buffer is processed to its end\<close>

definition engines_ok :: "'rx tail_env \<Rightarrow> bool" where
  "engines_ok env \<longleftrightarrow> required_groups (static_regex (ingest_deps_of env)) \<and> whole_is_suffix (static_regex (ingest_deps_of env)) \<and>
     shard_group_bound (shape_regex (ingest_deps_of env))"

definition returns :: "'a exec \<Rightarrow> bool" where
  "returns x \<longleftrightarrow> x \<noteq> Panics"

lemma returns_Done [simp]: "returns (Done v)" "\<not> returns Panics"
  by (simp_all add: returns_def)

lemma returns_bind [simp]: "returns (bind_exec x f) \<longleftrightarrow> returns x \<and> (\<forall>v. x = Done v \<longrightarrow> returns (f v))"
  by (cases x) auto

lemma returns_obtain: "returns x \<Longrightarrow> \<exists>v. x = Done v"
  by (cases x) auto

lemma fold_exec_returns: "(\<And>x b. returns (f x b)) \<Longrightarrow> returns (fold_exec f xs b)"
  by (induction xs arbitrary: b) auto

lemma classify_or_capture_safe:
  assumes "required_groups (static_regex deps)" "shard_group_bound (shape_regex deps)"
  shows "classify_or_capture deps fresh line rs cctx rawl now \<noteq> Panics"
proof -
  obtain u where "capture (hasher deps) fresh (shape_regex deps) rawl (log_line.event_name line) cctx now = Done u"
    using capture_safe [OF assms(2)] by blast
  with classify_safe [OF assms(1), of line] show ?thesis by (auto simp: classify_or_capture_def split: exec.splits option.splits)
qed

lemma engines_return:
  assumes "engines_ok env"
  shows "returns (structural_parse (static_regex (ingest_deps_of env)) s)" "returns (classify (static_regex (ingest_deps_of env)) line)"
    "returns (classify_or_capture (ingest_deps_of env) fresh line rs cctx rawl now)"
  using assms structural_parse_safe classify_safe classify_or_capture_safe unfolding engines_ok_def returns_def by blast+

lemma parse_buffer_returns: "engines_ok env \<Longrightarrow> returns (parse_buffer (static_regex (ingest_deps_of env)) buffer)"
proof (induction buffer)
  case (Cons p buffer)
  obtain l off where p: "p = (l, off)" by fastforce
  obtain r where "structural_parse (static_regex (ingest_deps_of env)) l = Done r" using returns_obtain engines_return(1) Cons.prems by blast
  moreover obtain ps where "parse_buffer (static_regex (ingest_deps_of env)) buffer = Done ps" using returns_obtain Cons by blast
  ultimately show ?case by (simp add: p)
qed simp

lemma loadout_pairs_returns: "engines_ok env \<Longrightarrow> returns (loadout_pairs (static_regex (ingest_deps_of env)) ls)"
  by (induction ls) (auto simp: engines_return)

lemma burst_event_returns: "engines_ok env \<Longrightarrow> returns (burst_event env ls burst)"
  by (auto simp: burst_event_def Let_def loadout_pairs_returns)

lemma emit_burst_returns: "engines_ok env \<Longrightarrow> returns (emit_burst env ctx buffer valid burst acc)"
  by (auto simp: emit_burst_def burst_event_returns split: prod.splits)

lemma note_unknown_returns: "engines_ok env \<Longrightarrow> returns (note_unknown env ctx parsed l d)"
  by (auto simp: note_unknown_def capture_v2_unknown_def Let_def engines_return split: option.splits)

lemma recognise_returns: "engines_ok env \<Longrightarrow> returns (recognise env ctx parsed)"
  by (auto simp: recognise_def engines_return)

lemma process_line_returns: "engines_ok env \<Longrightarrow> returns (process_line env ctx l off st)"
  by (auto simp: process_line_def ingest_one_line_def Let_def engines_return recognise_returns note_unknown_returns split: option.splits)

lemma process_buffer_returns: "engines_ok env \<Longrightarrow> returns (process_buffer env ctx buffer st)"
  by (auto simp: process_buffer_def Let_def process_rest_def parse_buffer_returns emit_burst_returns process_line_returns
      intro!: fold_exec_returns split: prod.splits)

section \<open>Properties\<close>

text \<open>A small world: every line is a terrain load, except that the line \<open>?\<close> does not parse.\<close>

definition terrain_engine :: regex_engine where
  "terrain_engine re s =
     (if re = TAG_TAIL_RE \<or> s = ''?'' then None
      else Some \<lparr>named = (\<lambda>g. Some (if g = ''event'' then ''InvalidateAllTerrainCells'' else ''p'')), groups = (\<lambda>_. None)\<rparr>)"

definition terrain_env :: "unit tail_env" where
  "terrain_env =
     \<lparr>ingest_deps_of = \<lparr>static_regex = terrain_engine, rule_captures = (\<lambda>_ _. None), shape_regex = sample_shape_engine, hasher = (\<lambda>_. 0)\<rparr>,
      clock_parse = (\<lambda>_. None), lower_text = Fun.id, to_json = (\<lambda>_. Some ''{}''), json_type = (\<lambda>_. Some ''planet_terrain_load''),
      json_timestamp = (\<lambda>_. Some ''p''), oid_hash = Fun.id, content_hash_of = Fun.id, db_now = ''now'', fresh_line_id = ''id'', friends = []\<rparr>"

definition terrain_ctx :: "unit line_ctx" where
  "terrain_ctx = \<lparr>ctx_source = ''live'', ctx_sig = None, ctx_rules = [], ctx_bursts = builtin_burst_rules, ctx_v2 = False, ctx_handle = []\<rparr>"

definition terrain_start :: "unit ingest_state" where
  "terrain_start = \<lparr>db = empty_store, tstats = fresh_tail_stats, window = \<lparr>recent = [], emitted = {}\<rparr>, irules = []\<rparr>"

lemma terrain_ok: "engines_ok terrain_env" "store_ok (db terrain_start)"
  by (auto simp: engines_ok_def terrain_env_def terrain_engine_def terrain_start_def empty_store_def store_ok_def rows_ok_def hmap_ok_def
      required_groups_def whole_is_suffix_def shard_group_bound_def sample_shape_engine_def list_all_iff split: if_splits)

text \<open>A line of the buffer that a burst covers whose summary has its row.\<close>

definition summarised :: "'rx tail_env \<Rightarrow> 'rx line_ctx \<Rightarrow> (string \<times> nat) list \<Rightarrow> event_row list \<Rightarrow> nat \<Rightarrow> bool" where
  "summarised env ctx buffer rows i \<longleftrightarrow>
     (\<exists>parsed b s. parse_buffer (static_regex (ingest_deps_of env)) buffer = Done parsed \<and> b \<in> set (buffer_bursts env ctx parsed) \<and>
        i \<in> (\<lambda>j. fst (valid_of parsed ! j)) ` set (member_indices b) \<and> burst_ser env (valid_of parsed) b = Some s \<and>
        stored_in env rows (burst_key env ctx buffer (valid_of parsed) b) s (fst (anchor_of buffer (valid_of parsed) b)))"

lemma buffer_kept:
  assumes "engines_ok env" "process_buffer env ctx buffer0 st = Done st'"
  shows "store_ok (db st) \<Longrightarrow> store_ok (db st')" "prefix (ls_events (db st)) (ls_events (db st'))"
    "\<forall>(i, l, off)\<in>set (enumerate 0 (stitch_multiline_records buffer0)). \<forall>ser. line_event env ctx l = Done (Some ser) \<longrightarrow>
       stored_in env (ls_events (db st')) (key_of env ctx off l) ser l \<or>
       summarised env ctx (stitch_multiline_records buffer0) (ls_events (db st')) i"
proof -
  obtain parsed where parsed: "parse_buffer (static_regex (ingest_deps_of env)) (stitch_multiline_records buffer0) = Done parsed"
    using returns_obtain parse_buffer_returns assms(1) by blast
  note F = process_buffer_facts [OF assms(2) parsed]
  show "store_ok (db st) \<Longrightarrow> store_ok (db st')" "prefix (ls_events (db st)) (ls_events (db st'))" using F(1,2) by simp_all
  have kept: "stored_in env (ls_events (db st')) (key_of env ctx off l) ser l \<or> summarised env ctx (stitch_multiline_records buffer0) (ls_events (db st')) i"
    if item: "(i, l, off) \<in> set (enumerate 0 (stitch_multiline_records buffer0))" and ev: "line_event env ctx l = Done (Some ser)" for i l off ser
  proof (cases "i \<in> collapsed env (valid_of parsed) (buffer_bursts env ctx parsed)")
    case True
    then obtain b s where b: "b \<in> set (buffer_bursts env ctx parsed)" "burst_ser env (valid_of parsed) b = Some s"
        "i \<in> (\<lambda>j. fst (valid_of parsed ! j)) ` set (member_indices b)"
      by (auto simp: collapsed_def)
    moreover have "stored_in env (ls_events (db st')) (burst_key env ctx (stitch_multiline_records buffer0) (valid_of parsed) b) s
        (fst (anchor_of (stitch_multiline_records buffer0) (valid_of parsed) b))"
      using F(3) b by (fastforce simp: wanted_def)
    ultimately show ?thesis using parsed unfolding summarised_def by blast
  next
    case False
    with F(4) item ev show ?thesis by (fastforce simp: wanted_def)
  qed
  show "\<forall>(i, l, off)\<in>set (enumerate 0 (stitch_multiline_records buffer0)). \<forall>ser. line_event env ctx l = Done (Some ser) \<longrightarrow>
       stored_in env (ls_events (db st')) (key_of env ctx off l) ser l \<or>
       summarised env ctx (stitch_multiline_records buffer0) (ls_events (db st')) i"
    by (clarify, drule (1) kept) blast
qed

text \<open>C8. No recognised line is lost on the way to the database.  With regular-expression engines that bind the groups they promise a
  buffer is processed to its end; the database keeps its invariant and all its rows; and every line of the stitched buffer that is recognised
  and can be serialised has its row (by key or by content), unless a burst covers it whose own summary has one.\<close>

theorem recognised_lines_kept:
  assumes "engines_ok env" "store_ok (db st)"
  shows "\<exists>st'. process_buffer env ctx buffer0 st = Done st' \<and> store_ok (db st') \<and> prefix (ls_events (db st)) (ls_events (db st')) \<and>
    (\<forall>(i, l, off)\<in>set (enumerate 0 (stitch_multiline_records buffer0)). \<forall>ser. line_event env ctx l = Done (Some ser) \<longrightarrow>
       stored_in env (ls_events (db st')) (line_key (oid_hash env) (ctx_source ctx) (ctx_sig ctx) off l) ser l \<or>
       summarised env ctx (stitch_multiline_records buffer0) (ls_events (db st')) i)"
proof -
  obtain st' where st': "process_buffer env ctx buffer0 st = Done st'"
    using returns_obtain [OF process_buffer_returns [OF assms(1)]] by blast
  show ?thesis by (intro exI [of _ st'] conjI st' buffer_kept [OF assms(1) st'] assms(2))
qed

theorem recognised_lines_kept_witness:
  "\<exists>st'. process_buffer terrain_env terrain_ctx [(''a'', 0), (''?'', 2)] terrain_start = Done st' \<and>
     stored_in terrain_env (ls_events (db st')) (line_key Fun.id ''live'' None 0 ''a'') (''planet_terrain_load'', ''p'', ''{}'') ''a''"
proof -
  let ?buf = "[(''a'', 0 :: nat), (''?'', 2)]"
  obtain st' where st': "process_buffer terrain_env terrain_ctx ?buf terrain_start = Done st'"
      "\<forall>(i, l, off)\<in>set (enumerate 0 (stitch_multiline_records ?buf)). \<forall>ser. line_event terrain_env terrain_ctx l = Done (Some ser) \<longrightarrow>
         stored_in terrain_env (ls_events (db st')) (line_key (oid_hash terrain_env) (ctx_source terrain_ctx) (ctx_sig terrain_ctx) off l) ser l \<or>
         summarised terrain_env terrain_ctx (stitch_multiline_records ?buf) (ls_events (db st')) i"
    using recognised_lines_kept [OF terrain_ok, of terrain_ctx ?buf] by blast
  have plain: "stitch_multiline_records ?buf = ?buf" "line_event terrain_env terrain_ctx ''a'' = Done (Some (''planet_terrain_load'', ''p'', ''{}''))"
    by code_simp+
  have "case parse_buffer (static_regex (ingest_deps_of terrain_env)) ?buf of Done parsed \<Rightarrow> buffer_bursts terrain_env terrain_ctx parsed = [] | Panics \<Rightarrow> True"
    by code_simp
  then have "\<not> summarised terrain_env terrain_ctx ?buf (ls_events (db st')) 0" unfolding summarised_def by fastforce
  then show ?thesis using st' plain by (auto simp: terrain_env_def terrain_ctx_def)
qed

text \<open>C9. Reading the same lines again adds no rows.  When a buffer has been processed and the database has since gone through any operations that deleted no row
  of it (rows sent, quarantined, requeued or reclassified, other lines stored, ...), processing the buffer again (a restart without a cursor, a backfill over a file the
  tail has read) leaves all rows as they are, whatever the state of the inference window; only the inference of the second run may append rows, marked as
  inferred.\<close>

theorem reread_adds_no_rows:
  assumes "process_buffer env ctx buffer0 st = Done st1" "store_ok (db st)"
    and "(store_step hsh)\<^sup>*\<^sup>* (db st1) (db st2)" "row_id ` set (ls_events (db st1)) \<subseteq> row_id ` set (ls_events (db st2))"
    and "process_buffer env ctx buffer0 st2 = Done st3"
  shows "\<exists>new. ls_events (db st3) = ls_events (db st2) @ new \<and> (\<forall>r\<in>set new. prefix ''inferred:'' (row_raw r)) \<and>
    (\<not> ctx_v2 ctx \<longrightarrow> new = [])"
proof -
  obtain parsed where parsed: "parse_buffer (static_regex (ingest_deps_of env)) (stitch_multiline_records buffer0) = Done parsed"
    using assms(1) by (rule process_buffer_phases) blast
  note F = process_buffer_facts [OF assms(1) parsed]
  have "store_ok (db st1)" using F(1) assms(2) by simp
  then have "row_mark r \<in> row_mark ` set (ls_events (db st2))" if "r \<in> set (ls_events (db st1))" for r
    using store_run_keeps [OF _ assms(3) that] that assms(4) by blast
  then have known: "wanted env (ls_events (db st2)) k rw ser" if "wanted env (ls_events (db st1)) k rw ser" for k rw ser
    by (rule wanted_kept [OF that])
  show ?thesis
  proof (rule process_buffer_facts(5) [OF assms(5) parsed])
    show "\<forall>b\<in>set (buffer_bursts env ctx parsed). burst_wanted env ctx (stitch_multiline_records buffer0) (valid_of parsed) (ls_events (db st2)) b"
      using F(3) known by blast
    show "\<forall>(i, l, off)\<in>set (enumerate 0 (stitch_multiline_records buffer0)).
       i \<notin> collapsed env (valid_of parsed) (buffer_bursts env ctx parsed) \<longrightarrow> line_wanted env ctx (ls_events (db st2)) l off"
      using F(4) known by fastforce
  qed
qed

lemma stamp_ids_rows: "map row_id (ls_events (stamp_ids tm is d)) = map row_id (ls_events d)"
  by (simp add: stamp_ids_def)

theorem reread_adds_no_rows_witness:
  "\<exists>st1. process_buffer terrain_env terrain_ctx [(''a'', 0), (''a'', 2)] terrain_start = Done st1 \<and> length (ls_events (db st1)) = 1 \<and>
     (\<forall>st3. process_buffer terrain_env terrain_ctx [(''a'', 0), (''a'', 2)] (st1\<lparr>db := mark_sent ''t'' [1] (db st1)\<rparr>) = Done st3 \<longrightarrow>
        ls_events (db st3) = ls_events (mark_sent ''t'' [1] (db st1)))"
proof -
  let ?buf = "[(''a'', 0 :: nat), (''a'', 2)]"
  obtain st1 where st1: "process_buffer terrain_env terrain_ctx ?buf terrain_start = Done st1"
    using returns_obtain process_buffer_returns terrain_ok(1) by blast
  have "case process_buffer terrain_env terrain_ctx ?buf terrain_start of Done st \<Rightarrow> length (ls_events (db st)) = 1 | Panics \<Rightarrow> False" by code_simp
  moreover have "\<not> ctx_v2 terrain_ctx" by (simp add: terrain_ctx_def)
  moreover have "(store_step Fun.id)\<^sup>*\<^sup>* (db st1) (db (st1\<lparr>db := mark_sent ''t'' [1] (db st1)\<rparr>))"
    using store_step.Sent by (simp add: r_into_rtranclp)
  moreover have "row_id ` set (ls_events (db st1)) \<subseteq> row_id ` set (ls_events (db (st1\<lparr>db := mark_sent ''t'' [1] (db st1)\<rparr>)))"
    by (simp add: mark_sent_stamp stamp_ids_rows flip: set_map)
  ultimately show ?thesis
    using reread_adds_no_rows [OF st1 terrain_ok(2), of Fun.id "st1\<lparr>db := mark_sent ''t'' [1] (db st1)\<rparr>"] st1 by fastforce
qed

section \<open>The live tail and its cursor\<close>

lemma tail_cursor_roundtrip:
  assumes "off < 2 ^ 63"
  shows "read_tail_cursor p (write_tail_cursor p (of_nat off) sig d) = (of_nat off, sig)"
proof -
  have "uint (of_nat off :: u64) = int off" using assms by (simp add: unsigned_of_nat take_bit_nat_eq_self)
  then have "wrap_i64 (uint (of_nat off :: u64)) = int off" using assms by (simp add: wrap_i64_def)
  then show ?thesis by (simp add: read_tail_cursor_def write_tail_cursor_def hmap_insert_def)
qed

text \<open>The position that a restart reads from the cursor.\<close>

definition stored_pos :: "string \<Rightarrow> local_store \<Rightarrow> tail_pos" where
  "stored_pos p d = (case read_tail_cursor p d of (off, sig) \<Rightarrow> \<lparr>tail_offset = unat off, tail_sig = sig\<rparr>)"

lemma stored_pos_written:
  "tail_offset pos < 2 ^ 63 \<Longrightarrow> stored_pos p (write_tail_cursor p (of_nat (tail_offset pos)) (tail_sig pos) d) = pos"
  by (simp add: stored_pos_def tail_cursor_roundtrip unsigned_of_nat take_bit_nat_eq_self)

lemma tail_cursor_rows: "ls_events (write_tail_cursor p off sig d) = ls_events d"
  by (simp add: write_tail_cursor_def)

lemma drain_read_within:
  assumes "keeps_newline lossy"
  shows "tail_offset (snd (drain_read oid lossy f pos)) \<le> length (content f)"
proof -
  let ?off = "resolve_resume_offset (tail_offset pos) (tail_sig pos) (file_signature oid f) (length (content f))"
  have within: "?off \<le> length (content f)" by (auto simp: resolve_resume_offset_def)
  obtain ls off' where r: "read_lines lossy ?off (drop ?off (content f)) = (ls, off')" by fastforce
  then have "off' \<le> length (content f)" using read_lines_grow [OF assms r, of "[]"] within by simp
  with r show ?thesis by (simp add: drain_read_def Let_def)
qed

text \<open>C24. A drain of the live tail returns, keeps the invariant and all rows of the database, and stands where its lines end.  When the file holds more than the
  position it resumes at, the cursor it leaves in the database is the position it stands at, byte for byte; when there is nothing new, it leaves the database alone.  In both
  cases a restart on this file resumes where the tail stands, provided the cursor stood at the tail's position before.\<close>

theorem drain_cursor_faithful:
  assumes "engines_ok env" "keeps_newline lossy" "length (content f) < 2 ^ 63" "store_ok (db (task_state tk))"
  shows "\<exists>flag tk'. drain env ctx lossy components pth irs (Some f) tk = Done (flag, tk') \<and>
    flag = (fst (drain_read (oid_hash env) lossy f (task_pos tk)) \<noteq> []) \<and> task_pos tk' = snd (drain_read (oid_hash env) lossy f (task_pos tk)) \<and>
    store_ok (db (task_state tk')) \<and> prefix (ls_events (db (task_state tk))) (ls_events (db (task_state tk'))) \<and>
    (if resolve_resume_offset (tail_offset (task_pos tk)) (tail_sig (task_pos tk)) (file_signature (oid_hash env) f) (length (content f)) = length (content f)
     then task_state tk' = task_state tk
     else task_pos tk' = stored_pos pth (db (task_state tk'))) \<and>
    (task_pos tk = stored_pos pth (db (task_state tk)) \<longrightarrow>
       (let pos = stored_pos pth (db (task_state tk'))
        in resolve_resume_offset (tail_offset pos) (tail_sig pos) (file_signature (oid_hash env) f) (length (content f)) = tail_offset (task_pos tk')))"
proof -
  let ?resumed = "resolve_resume_offset (tail_offset (task_pos tk)) (tail_sig (task_pos tk)) (file_signature (oid_hash env) f) (length (content f))"
  obtain ls pos' where r: "drain_read (oid_hash env) lossy f (task_pos tk) = (ls, pos')" by fastforce
  have within: "tail_offset pos' \<le> length (content f)" using drain_read_within [OF assms(2), of "oid_hash env" f "task_pos tk"] r by simp
  have cur: "stored_pos pth (write_tail_cursor pth (of_nat (tail_offset pos')) (tail_sig pos') d) = pos'" for d
    using stored_pos_written within assms(3) by simp
  have again: "resolve_resume_offset (tail_offset pos') (tail_sig pos') (file_signature (oid_hash env) f) (length (content f)) = tail_offset pos'"
    using r within by (auto simp: drain_read_def Let_def resolve_resume_offset_def split: if_splits prod.splits option.splits)
  obtain st where st: "process_buffer env (file_ctx components pth (tail_sig pos') ctx) ls ((task_state tk)\<lparr>irules := irs\<rparr>) = Done st"
    using returns_obtain [OF process_buffer_returns [OF assms(1)]] by blast
  note kept = buffer_kept(1,2) [OF assms(1) st]
  show ?thesis
  proof (cases "?resumed = length (content f)")
    case True
    then have "ls = []" "pos' = \<lparr>tail_offset = ?resumed, tail_sig = file_signature (oid_hash env) f\<rparr>" using r by (auto simp: drain_read_def Let_def)
    then show ?thesis using True r assms(4) by (auto simp: drain_def Let_def)
  next
    case False
    then show ?thesis using r st kept assms(4)
      by (cases "ls = []"; simp add: drain_def Let_def cur again store_ok_plain tail_cursor_rows; blast)
  qed
qed

theorem drain_cursor_faithful_witness:
  "\<exists>flag tk'. drain terrain_env terrain_ctx Fun.id (\<lambda>p. [p]) ''p'' [] (Some \<lparr>content = ''a'' @ [LF] @ ''b'', created_millis = None\<rparr>)
       \<lparr>task_pos = \<lparr>tail_offset = 0, tail_sig = None\<rparr>, task_state = terrain_start\<rparr> = Done (flag, tk') \<and> flag \<and>
     stored_pos ''p'' (db (task_state tk')) = \<lparr>tail_offset = 2, tail_sig = None\<rparr>"
proof -
  let ?f = "\<lparr>content = ''a'' @ [LF] @ ''b'', created_millis = None\<rparr>"
  let ?tk = "\<lparr>task_pos = \<lparr>tail_offset = 0, tail_sig = None\<rparr>, task_state = terrain_start\<rparr>"
  have r: "drain_read (oid_hash terrain_env) Fun.id ?f (task_pos ?tk) = ([(''a'', 0)], \<lparr>tail_offset = 2, tail_sig = None\<rparr>)" by code_simp
  have "keeps_newline Fun.id" "length (content ?f) < 2 ^ 63" "store_ok (db (task_state ?tk))"
    using terrain_ok(2) by (simp_all add: keeps_newline_def)
  from drain_cursor_faithful [OF terrain_ok(1) this, of terrain_ctx "\<lambda>p. [p]" "''p''" "[]"]
  show ?thesis unfolding r by (auto simp: resolve_resume_offset_def)
qed

section \<open>A sweep over the archived logs\<close>

definition keeps_rows :: "local_store \<Rightarrow> local_store exec \<Rightarrow> bool" where
  "keeps_rows d x \<longleftrightarrow> (\<exists>d'. x = Done d' \<and> (store_ok d \<longrightarrow> store_ok d') \<and> prefix (ls_events d) (ls_events d'))"

abbreviation db_after :: "'s ingest_state exec \<Rightarrow> local_store exec" where
  "db_after x \<equiv> bind_exec x (\<lambda>st. Done (db st))"

lemma keeps_rows_refl [simp]: "keeps_rows d (Done d)"
  by (simp add: keeps_rows_def)

lemma keeps_rows_trans: "keeps_rows d (Done d1) \<Longrightarrow> keeps_rows d1 x \<Longrightarrow> keeps_rows d x"
  unfolding keeps_rows_def by (metis exec.inject prefix_order.trans)

lemma process_buffer_keeps: "engines_ok env \<Longrightarrow> keeps_rows (db st) (db_after (process_buffer env ctx buffer st))"
  using returns_obtain [OF process_buffer_returns] buffer_kept(1,2) unfolding keeps_rows_def by fastforce

lemma backfill_carry_split_returns:
  assumes "engines_ok env"
  shows "returns (backfill_carry_split rfc (static_regex (ingest_deps_of env)) buffer rls)"
proof -
  obtain parsed where "parse_buffer (static_regex (ingest_deps_of env)) buffer = Done parsed"
    using returns_obtain parse_buffer_returns assms by blast
  then show ?thesis by (simp add: backfill_carry_split_def burst_buffer_ranges_def)
qed

lemma backfill_chunks_keeps:
  "engines_ok env \<Longrightarrow> keeps_rows (db st) (db_after (backfill_chunks env ctx cap ls chunk carry st))"
proof (induction ls arbitrary: chunk carry st)
  case Nil
  then show ?case by (simp add: process_buffer_keeps)
next
  case (Cons l ls)
  show ?case
  proof (cases "cap \<le> length (chunk @ [l])")
    case False
    then show ?thesis using Cons by simp
  next
    case True
    let ?buf = "carry @ chunk @ [l]"
    obtain c where c: "backfill_carry_split (clock_parse env) (static_regex (ingest_deps_of env)) ?buf (ctx_bursts ctx) = Done c"
      using returns_obtain [OF backfill_carry_split_returns [OF Cons.prems]] by blast
    obtain st1 where st1: "process_buffer env ctx (take c ?buf) st = Done st1"
      using returns_obtain [OF process_buffer_returns [OF Cons.prems]] by blast
    have "keeps_rows (db st) (Done (db st1))" using process_buffer_keeps [OF Cons.prems, of st ctx "take c ?buf"] st1 by simp
    then have "keeps_rows (db st) (db_after (backfill_chunks env ctx cap ls [] (drop c ?buf) st1))"
      by (rule keeps_rows_trans) (rule Cons.IH [OF Cons.prems])
    moreover have "backfill_chunks env ctx cap (l # ls) chunk carry st = backfill_chunks env ctx cap ls [] (drop c ?buf) st1"
      using True c st1 by simp
    ultimately show ?thesis by simp
  qed
qed

lemma write_cursor_keeps: "store_ok d \<Longrightarrow> store_ok (write_cursor p off d)" "ls_events (write_cursor p off d) = ls_events d"
  by (rule store_ok_plain(5)) (simp_all add: write_cursor_def)

definition files_seen :: "backfill_stats \<Rightarrow> nat" where
  "files_seen bs = files_processed bs + files_already_done bs"

lemma backfill_file_keeps:
  assumes "engines_ok env"
  shows "\<exists>irs' d' bs'. backfill_file env ctx lossy components pth irs file (d, bs) = Done (irs', d', bs') \<and> (store_ok d \<longrightarrow> store_ok d') \<and>
    prefix (ls_events d) (ls_events d') \<and> files_seen bs' = files_seen bs + 1 \<and> files_total bs' = files_total bs"
proof -
  show ?thesis
  proof (cases "\<exists>f. file = Some f \<and> unat (read_cursor pth d) < length (content f)")
    case False
    then show ?thesis by (auto simp: backfill_file_def files_seen_def split: option.splits)
  next
    case True
    then obtain f where f: "file = Some f" "\<not> length (content f) \<le> unat (read_cursor pth d)" by auto
    obtain ls off where ls: "read_lines lossy (unat (read_cursor pth d)) (drop (unat (read_cursor pth d)) (content f)) = (ls, off)" by fastforce
    let ?st0 = "\<lparr>db = d, tstats = fresh_tail_stats, window = \<lparr>recent = [], emitted = {}\<rparr>, irules = irs\<rparr>"
    have "keeps_rows (db ?st0) (db_after (backfill_chunks env (file_ctx components pth (file_signature (oid_hash env) f) ctx) BACKFILL_CHUNK_LINES ls [] [] ?st0))"
      by (rule backfill_chunks_keeps [OF assms])
    then obtain st' where st': "backfill_chunks env (file_ctx components pth (file_signature (oid_hash env) f) ctx) BACKFILL_CHUNK_LINES ls [] [] ?st0 = Done st'"
        "store_ok d \<longrightarrow> store_ok (db st')" "prefix (ls_events d) (ls_events (db st'))"
      by (auto simp: keeps_rows_def)
    then show ?thesis using f ls by (simp add: backfill_file_def Let_def write_cursor_keeps files_seen_def)
  qed
qed

lemma sweep_fold:
  assumes "engines_ok env"
  shows "\<exists>irs' d' bs'. fold_exec (\<lambda>g (irs, acc). backfill_file env ctx lossy components
        (log_path g) irs (files (log_path g)) acc) logs (irs, d, bs) = Done (irs', d', bs') \<and> (store_ok d \<longrightarrow> store_ok d') \<and>
    prefix (ls_events d) (ls_events d') \<and> files_seen bs' = files_seen bs + length logs \<and> files_total bs' = files_total bs"
proof (induction logs arbitrary: irs d bs)
  case (Cons g logs)
  obtain irs1 d1 bs1 where step: "backfill_file env ctx lossy components
        (log_path g) irs (files (log_path g)) (d, bs) = Done (irs1, d1, bs1)" "store_ok d \<longrightarrow> store_ok d1" "prefix (ls_events d) (ls_events d1)"
      "files_seen bs1 = files_seen bs + 1" "files_total bs1 = files_total bs"
    using backfill_file_keeps [OF assms] by blast
  from Cons.IH [of irs1 d1 bs1] step show ?case by (auto intro: prefix_order.trans)
qed simp

text \<open>The sweep over the archived logs ends, whatever the discovered files hold and wherever their cursors stand: it keeps the invariant
  and all rows of the database, and counts every archived log exactly once, as processed or as already done.\<close>

theorem sweep_returns:
  assumes "engines_ok env" "store_ok d"
  shows "\<exists>irs' d' bs'. run_once env ctx lossy components files logs irs (d, bs) = Done (irs', d', bs') \<and> store_ok d' \<and>
    prefix (ls_events d) (ls_events d') \<and>
    files_processed bs' + files_already_done bs' =
      files_processed bs + files_already_done bs + length (filter (\<lambda>g. log_kind_of g = ChannelArchived) logs)"
  using sweep_fold [OF assms(1), where ctx = ctx and components = components and lossy = lossy and files = files and logs = "filter (\<lambda>g. log_kind_of g = ChannelArchived) logs" and irs = irs and d = d and bs =
      "bs\<lparr>files_total := length (filter (\<lambda>g. log_kind_of g = ChannelArchived) logs) mod 2 ^ 32\<rparr>"] assms(2)
  by (auto simp: run_once_def Let_def files_seen_def)

theorem sweep_returns_witness:
  "\<exists>irs' d' bs'. run_once terrain_env terrain_ctx Fun.id (\<lambda>p. [p]) (\<lambda>_. Some \<lparr>content = ''a'' @ [LF] @ ''b'', created_millis = None\<rparr>)
       [\<lparr>log_channel = ''LIVE'', log_kind_of = ChannelArchived, log_path = ''p'', size_bytes = 3\<rparr>] ([] :: unit compiled_inference_rule list)
       (empty_store, \<lparr>completed = False, files_total = 0, files_processed = 0, files_already_done = 0, backfill_lines = 0, backfill_events = 0\<rparr>) =
       Done (irs', d', bs') \<and> files_processed bs' + files_already_done bs' = 1"
  using sweep_returns [OF terrain_ok(1), of empty_store terrain_ctx Fun.id "\<lambda>p. [p]"
      "\<lambda>_. Some \<lparr>content = ''a'' @ [LF] @ ''b'', created_millis = None\<rparr>"
      "[\<lparr>log_channel = ''LIVE'', log_kind_of = ChannelArchived, log_path = ''p'', size_bytes = 3\<rparr>]" "[]"
      "\<lparr>completed = False, files_total = 0, files_processed = 0, files_already_done = 0, backfill_lines = 0, backfill_events = 0\<rparr>"] terrain_ok(2)
  by (auto simp: terrain_start_def)

end
