(* ===== verification/Combatant.thy ===== *)
theory Combatant
  imports Text_Ops
begin

text \<open>
  Engine names of combatants made readable (\<open>crates/starstats-core/src/combatant.rs\<close>).  The lemmas show that the entity id at the
  end of a name has no influence on its label: all encounters with one enemy share display, family and group key.
\<close>

datatype combatant_family = Human | Creature | Environment | PlayerLike | Unclassified

record combatant_label =
  display :: string
  family :: combatant_family
  group_key :: string

definition NOISE_TOKENS :: "string list" where
  "NOISE_TOKENS = [''pu'', ''npc'', ''archetypes'', ''pilots'']"

definition ENVIRONMENT_NAMES :: "string list" where
  "ENVIRONMENT_NAMES = [''jackandjillfell'', ''unknown'', ''suffocation'', ''crash'', ''hazard'']"

definition CREATURE_PREFIXES :: "string list" where
  "CREATURE_PREFIXES = [''kopion'', ''vlk'', ''valakkar'', ''marok'']"

definition strip_entity_id :: "string \<Rightarrow> string" where
  "strip_entity_id s =
     (case rsplit_once (CHR ''_'') s of
        Some (h, t) \<Rightarrow> if t \<noteq> [] \<and> list_all is_ascii_digit t \<and> h \<noteq> [] then h else s
      | None \<Rightarrow> s)"

definition environment_display :: "string \<Rightarrow> string" where
  "environment_display low =
     (if low = ''jackandjillfell'' then ''A fall''
      else if low = ''suffocation'' then ''Suffocation''
      else if low = ''crash'' then ''A crash''
      else if low = ''hazard'' then ''An environmental hazard''
      else ''Unknown cause'')"

definition title_case :: "unicode \<Rightarrow> string \<Rightarrow> string" where
  "title_case u s = (case utf8_chars s of [] \<Rightarrow> [] | c # cs \<Rightarrow> upper u c @ concat (map (lower u) cs))"

definition humanize_combatant :: "unicode \<Rightarrow> string \<Rightarrow> combatant_label" where
  "humanize_combatant u nm =
     (let trimmed = trim nm
      in if trimmed = [] then \<lparr>display = ''Unknown'', family = Unclassified, group_key = []\<rparr>
         else
           let gk = strip_entity_id trimmed; low = to_ascii_lowercase gk
           in if low \<in> set ENVIRONMENT_NAMES
              then \<lparr>display = environment_display low, family = Environment, group_key = gk\<rparr>
              else
                let is_creature = list_ex (starts_with low) CREATURE_PREFIXES;
                    tokens = filter (\<lambda>t. t \<noteq> []) (split_on (\<lambda>c. c = CHR ''-'' \<or> c = CHR ''_'') gk)
                in if length tokens = 1 \<and> \<not> is_creature
                   then \<lparr>display = gk, family = PlayerLike, group_key = gk\<rparr>
                   else
                     let fam = (if is_creature then Creature
                                else if starts_with low ''pu_'' \<or> starts_with low ''npc_'' \<or> contains_str low ''pilots'' then Human
                                else Unclassified);
                         meaningful = map (title_case u) (filter (\<lambda>t. to_ascii_lowercase t \<notin> set NOISE_TOKENS) tokens)
                     in \<lparr>display = (if meaningful = [] then gk else join '' '' meaningful), family = fam, group_key = gk\<rparr>)"

section \<open>Lemmas\<close>

lemma ws_not_alnum: "list_all (\<lambda>e. \<not> is_ascii_alphanumeric (hd e) \<and> \<not> is_ascii_alphanumeric (last e) \<and> e \<noteq> []) ws_encodings"
  by code_simp

lemma strip_while_id:
  assumes "\<forall>e \<in> set es. e \<noteq> [] \<and> \<not> is_ascii_alphanumeric (hd e)" "s \<noteq> []" "is_ascii_alphanumeric (hd s)"
  shows "strip_while es s = s"
proof -
  have "find (\<lambda>e. e \<noteq> [] \<and> prefix e s) es = None"
    using assms by (force simp: find_None_iff prefix_def hd_append)
  then show ?thesis by (subst strip_while.simps) simp
qed

lemma trim_id:
  assumes "s \<noteq> []" "is_ascii_alphanumeric (hd s)" "is_ascii_alphanumeric (last s)"
  shows "trim s = s"
proof -
  have ws: "\<forall>e \<in> set ws_encodings. e \<noteq> [] \<and> \<not> is_ascii_alphanumeric (hd e)"
    "\<forall>e \<in> set (map rev ws_encodings). e \<noteq> [] \<and> \<not> is_ascii_alphanumeric (hd e)"
    using ws_not_alnum by (auto simp: list_all_iff hd_rev)
  have "trim_start s = s" unfolding trim_start_def using strip_while_id [OF ws(1) assms(1,2)] .
  moreover have "strip_while (map rev ws_encodings) (rev s) = rev s"
    by (rule strip_while_id [OF ws(2)]) (use assms in \<open>simp_all add: hd_rev\<close>)
  ultimately show ?thesis by (simp add: trim_def trim_end_def)
qed

lemma rsplit_once_snoc:
  assumes "c \<notin> set t"
  shows "rsplit_once c (h @ c # t) = Some (h, t)"
proof -
  have "dropWhile (\<lambda>x. x \<noteq> c) (rev t @ c # rev h) = dropWhile (\<lambda>x. x \<noteq> c) (c # rev h)"
    by (rule dropWhile_append2) (use assms in auto)
  moreover have "takeWhile (\<lambda>x. x \<noteq> c) (rev t @ c # rev h) = rev t @ takeWhile (\<lambda>x. x \<noteq> c) (c # rev h)"
    by (rule takeWhile_append2) (use assms in auto)
  ultimately show ?thesis by (simp add: rsplit_once_def)
qed

lemma digit_not_underscore: "is_ascii_digit c \<Longrightarrow> c \<noteq> CHR ''_''"
  by (auto simp: is_ascii_digit_def less_eq_char_def)

lemma trimmed_name:
  assumes "n \<noteq> []" "is_ascii_alphanumeric (hd n)" "ds \<noteq> []" "list_all is_ascii_digit ds"
  shows "trim (n @ CHR ''_'' # ds) = n @ CHR ''_'' # ds" "strip_entity_id (n @ CHR ''_'' # ds) = n"
proof -
  have "is_ascii_alphanumeric (last ds)" using assms(3,4) by (simp add: list_all_iff is_ascii_alphanumeric_def)
  with assms show "trim (n @ CHR ''_'' # ds) = n @ CHR ''_'' # ds" by (intro trim_id) simp_all
  have "CHR ''_'' \<notin> set ds" using assms(4) digit_not_underscore by (auto simp: list_all_iff)
  from rsplit_once_snoc [OF this] assms show "strip_entity_id (n @ CHR ''_'' # ds) = n" by (simp add: strip_entity_id_def)
qed

section \<open>Properties\<close>

text \<open>Encounters group: the label of a spawned entity does not depend on the entity id the engine appends, and its group key is
  the name without the id, so all spawns of one enemy fall into one group.\<close>

theorem humanize_ignores_entity_id:
  assumes "n \<noteq> []" "is_ascii_alphanumeric (hd n)"
    and "ds \<noteq> []" "list_all is_ascii_digit ds" "ds' \<noteq> []" "list_all is_ascii_digit ds'"
  shows "humanize_combatant u (n @ CHR ''_'' # ds) = humanize_combatant u (n @ CHR ''_'' # ds') \<and>
    group_key (humanize_combatant u (n @ CHR ''_'' # ds)) = n"
  unfolding humanize_combatant_def
  using trimmed_name [OF assms(1-4)] trimmed_name [OF assms(1,2,5,6)] by (simp add: Let_def)

theorem humanize_ignores_entity_id_witness:
  "group_key (humanize_combatant \<lparr>alphanumeric = (\<lambda>_. True), lower = (\<lambda>c. c), upper = (\<lambda>c. c)\<rparr> ''Kopion_Irradiated_77'') =
     ''Kopion_Irradiated''"
  using humanize_ignores_entity_id [of "''Kopion_Irradiated''" "''77''" "''9''"
      "\<lparr>alphanumeric = (\<lambda>_. True), lower = (\<lambda>c. c), upper = (\<lambda>c. c)\<rparr>"]
  by (auto simp: char_class_defs less_eq_char_def)

end
