(* ===== verification/Cohorts.thy ===== *)
theory Cohorts
  imports Json
begin

text \<open>
  Reference statistics: peer groups (\<open>crates/starstats-core/src/peer_group.rs\<close>), comparison cohorts (\<open>cohort.rs\<close>) and
  distribution helpers (\<open>stats.rs\<close>).  Doubles are finite rationals; the products of the quantile ranks are rounded to a double.

  The lemmas show that slugs are bounded and clean, that the bands of every attribute partition its range, which leaves are
  found in a metadata blob, and that quantiles are sample values in order of the extremes.
\<close>

section \<open>Peer groups\<close>

definition MAX_SLUG_LEN :: nat where
  "MAX_SLUG_LEN = 48"

definition meta_str :: "json \<Rightarrow> string \<Rightarrow> string" where
  "meta_str meta k = (case Option.bind (json_get meta k) json_as_str of Some s \<Rightarrow> s | None \<Rightarrow> [])"

definition vehicle_family :: "string \<Rightarrow> string" where
  "vehicle_family role =
     (let r = to_ascii_lowercase role; has = (\<lambda>kws. list_ex (contains_str r) kws)
      in if has [''fighter'', ''interceptor'', ''bomber'', ''gunship''] then ''combat''
         else if has [''mining'', ''salvage'', ''refuel'', ''repair'', ''industrial''] then ''industrial''
         else if has [''cargo'', ''freight'', ''transport'', ''expedition'', ''dropship''] then ''transport''
         else if has [''medical'', ''data'', ''racing'', ''pathfinder'', ''science''] then ''support''
         else if has [''ground''] then ''ground''
         else ''other'')"

text \<open>Every character that is not an ASCII letter, digit or underscore becomes one hyphen.\<close>

definition slug_char :: "string \<Rightarrow> char" where
  "slug_char ch =
     (case ch of
        [c] \<Rightarrow> if is_ascii_alphanumeric c \<or> c = CHR ''_'' then c else CHR ''-''
      | _ \<Rightarrow> CHR ''-'')"

definition slug_base :: "string \<Rightarrow> string" where
  "slug_base label = trim_matches (CHR ''-'') (map slug_char (utf8_chars (to_ascii_lowercase (trim label))))"

definition slugify_label :: "string \<Rightarrow> string" where
  "slugify_label label = (let s = slug_base label in if s = [] then ''other'' else take MAX_SLUG_LEN s)"

definition peer_group :: "string \<Rightarrow> json \<Rightarrow> string" where
  "peer_group category meta =
     (if category = ''vehicle'' then vehicle_family (meta_str meta ''role'')
      else if category \<in> {''weapon'', ''item''} then slugify_label (meta_str meta ''type_label'')
      else if category = ''location'' then slugify_label (meta_str meta ''tier'')
      else ''other'')"

section \<open>Cohorts\<close>

record cohort =
  key :: string
  kind :: string
  label :: string

record bucket =
  key :: string
  label :: string
  min_value :: rat
  max_value :: flt

record range_attr =
  attr :: string
  path :: string
  buckets :: "bucket list"

definition EN_DASH :: string where
  "EN_DASH = [CHR 0xE2, CHR 0x80, CHR 0x93]"

definition mk_bucket :: "string \<Rightarrow> string \<Rightarrow> rat \<Rightarrow> flt \<Rightarrow> bucket" where
  "mk_bucket k l lo hi = \<lparr>bucket.key = k, label = l, min_value = lo, max_value = hi\<rparr>"

definition VEHICLE_RANGES :: "range_attr list" where
  "VEHICLE_RANGES =
     [\<lparr>attr = ''cargo'', path = ''cargo_capacity'', buckets =
        [mk_bucket ''0-10'' ''Cargo <10 SCU'' 0 (Fin 10), mk_bucket ''10-100'' (''Cargo 10'' @ EN_DASH @ ''100 SCU'') 10 (Fin 100),
         mk_bucket ''100-1000'' (''Cargo 100'' @ EN_DASH @ ''1000 SCU'') 100 (Fin 1000), mk_bucket ''1000+'' ''Cargo 1000+ SCU'' 1000 PInf]\<rparr>,
      \<lparr>attr = ''crew'', path = ''crew.max'', buckets =
        [mk_bucket ''1'' ''Solo crew'' 1 (Fin 2), mk_bucket ''2'' ''2 crew'' 2 (Fin 3),
         mk_bucket ''3-5'' (''3'' @ EN_DASH @ ''5 crew'') 3 (Fin 6), mk_bucket ''6+'' ''6+ crew'' 6 PInf]\<rparr>,
      \<lparr>attr = ''price'', path = ''msrp'', buckets =
        [mk_bucket ''0-75'' ''Pledge <$75'' 0 (Fin 75), mk_bucket ''75-150'' (''Pledge $75'' @ EN_DASH @ ''150'') 75 (Fin 150),
         mk_bucket ''150-400'' (''Pledge $150'' @ EN_DASH @ ''400'') 150 (Fin 400), mk_bucket ''400+'' ''Pledge $400+'' 400 PInf]\<rparr>]"

definition WEAPON_RANGES :: "range_attr list" where
  "WEAPON_RANGES =
     [\<lparr>attr = ''size'', path = ''size'', buckets =
        [mk_bucket ''1'' ''Size 1'' 1 (Fin 2), mk_bucket ''2'' ''Size 2'' 2 (Fin 3), mk_bucket ''3+'' ''Size 3+'' 3 PInf]\<rparr>,
      \<lparr>attr = ''range'', path = ''personal_weapon.effective_range'', buckets =
        [mk_bucket ''0-60'' ''Range <60 m'' 0 (Fin 60), mk_bucket ''60-150'' (''Range 60'' @ EN_DASH @ ''150 m'') 60 (Fin 150),
         mk_bucket ''150+'' ''Range 150 m+'' 150 PInf]\<rparr>]"

definition ITEM_RANGES :: "range_attr list" where
  "ITEM_RANGES =
     [\<lparr>attr = ''size'', path = ''size'', buckets =
        [mk_bucket ''1'' ''Size 1'' 1 (Fin 2), mk_bucket ''2'' ''Size 2'' 2 (Fin 3), mk_bucket ''3'' ''Size 3'' 3 PInf]\<rparr>,
      \<lparr>attr = ''mass'', path = ''mass'', buckets =
        [mk_bucket ''0-5'' ''Light (<5 kg)'' 0 (Fin 5), mk_bucket ''5-50'' (''Medium (5'' @ EN_DASH @ ''50 kg)'') 5 (Fin 50),
         mk_bucket ''50+'' ''Heavy (50 kg+)'' 50 PInf]\<rparr>]"

definition LOCATION_RANGES :: "range_attr list" where
  "LOCATION_RANGES =
     [\<lparr>attr = ''missions'', path = ''mission_count'', buckets =
        [mk_bucket ''0-50'' ''<50 missions'' 0 (Fin 50), mk_bucket ''50-200'' (''50'' @ EN_DASH @ ''200 missions'') 50 (Fin 200),
         mk_bucket ''200+'' ''200+ missions'' 200 PInf]\<rparr>,
      \<lparr>attr = ''diameter'', path = ''size'', buckets =
        [mk_bucket ''0-1000'' ''Small (<1 km)'' 0 (Fin 1000), mk_bucket ''1000-100000'' ''Medium'' 1000 (Fin 100000),
         mk_bucket ''100000+'' ''Large'' 100000 PInf]\<rparr>]"

definition ranges_for :: "string \<Rightarrow> range_attr list" where
  "ranges_for category =
     (if category = ''vehicle'' then VEHICLE_RANGES
      else if category = ''weapon'' then WEAPON_RANGES
      else if category = ''item'' then ITEM_RANGES
      else if category = ''location'' then LOCATION_RANGES
      else [])"

definition type_field :: "string \<Rightarrow> string" where
  "type_field category =
     (if category = ''vehicle'' then ''role''
      else if category \<in> {''weapon'', ''item''} then ''type_label''
      else if category = ''location'' then ''tier''
      else ''role'')"

definition str_field :: "json \<Rightarrow> string \<Rightarrow> string option" where
  "str_field meta k =
     (case Option.bind (json_get meta k) json_as_str of
        None \<Rightarrow> None
      | Some s \<Rightarrow> if trim s = [] then None else Some (trim s))"

definition manufacturer :: "json \<Rightarrow> string option" where
  "manufacturer meta =
     (case json_get meta ''manufacturer'' of
        Some (JString s) \<Rightarrow> if trim s = [] then None else Some (trim s)
      | Some (JObject m) \<Rightarrow> str_field (JObject m) ''name''
      | _ \<Rightarrow> None)"

fun num_segments :: "json \<Rightarrow> string list \<Rightarrow> json option" where
  "num_segments cur [] = Some cur"
| "num_segments cur (seg # segs) = Option.bind (json_get cur seg) (\<lambda>next'. num_segments next' segs)"

definition num_path :: "json \<Rightarrow> string \<Rightarrow> rat option" where
  "num_path meta p =
     (case num_segments meta (split_on (\<lambda>c. c = CHR ''.'') p) of
        Some (JNumber n) \<Rightarrow> Some (number_as_f64 n)
      | _ \<Rightarrow> None)"

definition cohort_slugify :: "string \<Rightarrow> string" where
  "cohort_slugify s = take 48 (slug_base s)"

definition pluralish :: "string \<Rightarrow> string" where
  "pluralish t = (if suffix ''s'' t then t else t @ ''s'')"

definition family_label :: "unicode \<Rightarrow> string \<Rightarrow> string \<Rightarrow> string" where
  "family_label u category fam =
     (if category = ''vehicle'' then
        (if fam = ''combat'' then ''Combat ships''
         else if fam = ''industrial'' then ''Industrial ships''
         else if fam = ''transport'' then ''Transport ships''
         else if fam = ''support'' then ''Support ships''
         else if fam = ''ground'' then ''Ground vehicles''
         else ''Other vehicles'')
      else (case utf8_chars fam of [] \<Rightarrow> ''Other'' | c # cs \<Rightarrow> upper u c @ concat cs))"

definition in_bucket :: "rat \<Rightarrow> bucket \<Rightarrow> bool" where
  "in_bucket v b \<longleftrightarrow> min_value b \<le> v \<and> flt_lt (Fin v) (max_value b)"

definition range_cohort :: "json \<Rightarrow> range_attr \<Rightarrow> cohort list" where
  "range_cohort meta ra =
     (case num_path meta (path ra) of
        None \<Rightarrow> []
      | Some v \<Rightarrow>
          (case find (in_bucket v) (buckets ra) of
             None \<Rightarrow> []
           | Some b \<Rightarrow> [\<lparr>cohort.key = ''range:'' @ attr ra @ '':'' @ bucket.key b, kind = ''range'', label = bucket.label b\<rparr>]))"

definition cohort_memberships :: "unicode \<Rightarrow> string \<Rightarrow> json \<Rightarrow> cohort list" where
  "cohort_memberships u category meta =
     (let fam = peer_group category meta
      in [\<lparr>cohort.key = ''family:'' @ fam, kind = ''family'', label = family_label u category fam\<rparr>]
         @ (case str_field meta (type_field category) of
              None \<Rightarrow> []
            | Some t \<Rightarrow>
                let slug = cohort_slugify t
                in if slug = [] then [] else [\<lparr>cohort.key = ''type:'' @ slug, kind = ''type'', label = pluralish t\<rparr>])
         @ (case manufacturer meta of
              None \<Rightarrow> []
            | Some m \<Rightarrow>
                let slug = cohort_slugify m
                in if slug = [] then [] else [\<lparr>cohort.key = ''make:'' @ slug, kind = ''make'', label = m @ '' ships''\<rparr>])
         @ concat (map (range_cohort meta) (ranges_for category)))"

definition cohort_keys :: "unicode \<Rightarrow> string \<Rightarrow> json \<Rightarrow> string list" where
  "cohort_keys u category meta = map cohort.key (cohort_memberships u category meta)"

section \<open>Distributions\<close>

record quantiles =
  q_min :: rat
  p10 :: rat
  p25 :: rat
  p50 :: rat
  p75 :: rat
  p90 :: rat
  q_max :: rat
  n :: nat

text \<open>Nearest rank: the fraction is a double, its product with the length is rounded, the index is clamped.\<close>

definition rank_index :: "rat \<Rightarrow> nat \<Rightarrow> nat" where
  "rank_index fr len = nat (max 0 (min (int len - 1) (\<lceil>round_f64 (round_f64 fr * of_nat len)\<rceil> - 1)))"

definition from_values :: "rat list \<Rightarrow> quantiles option" where
  "from_values vs =
     (if vs = [] then None
      else
        let v = sort vs; q = (\<lambda>fr. v ! rank_index fr (length v))
        in Some \<lparr>q_min = v ! 0, p10 = q (1 / 10), p25 = q (1 / 4), p50 = q (1 / 2), p75 = q (3 / 4), p90 = q (9 / 10),
                 q_max = v ! (length v - 1), n = length v\<rparr>)"

function walk :: "json \<Rightarrow> string \<Rightarrow> (string \<times> rat) list" where
  "walk (JObject m) pre =
     concat (map (\<lambda>(k, child). walk child (if pre = [] then k else pre @ ''.'' @ k)) m)"
| "walk (JNumber num) pre = [(pre, number_as_f64 num)]"
| "walk JNull pre = []"
| "walk (JBool b) pre = []"
| "walk (JString s) pre = []"
| "walk (JArray vs) pre = []"
  by pat_completeness auto
termination
proof (relation "measure (\<lambda>(v, pre). size v)", goal_cases)
  case (2 m pre x k child)
  then show ?case by (induction m) auto
qed simp

definition numeric_leaves :: "json \<Rightarrow> (string \<times> rat) list" where
  "numeric_leaves meta = walk meta []"

section \<open>Slugs\<close>

definition slug_alphabet :: "char \<Rightarrow> bool" where
  "slug_alphabet c \<longleftrightarrow> is_ascii_lowercase c \<or> is_ascii_digit c \<or> c = CHR ''_'' \<or> c = CHR ''-''"

lemma set_trim_matches: "set (trim_matches c s) \<subseteq> set s"
  unfolding trim_matches_def trim_end_matches_def by (auto dest!: set_dropWhileD)

lemma lowercase_class:
  assumes "c \<in> set (to_ascii_lowercase s)" "is_ascii_alphanumeric c"
  shows "is_ascii_lowercase c \<or> is_ascii_digit c"
proof -
  obtain d where d: "c = char_to_ascii_lowercase d" using assms(1) by (auto simp: to_ascii_lowercase_def)
  show ?thesis
  proof (cases "is_ascii_alphanumeric d")
    case True
    from lower_class [OF this] d show ?thesis by simp
  next
    case False
    then have "c = d"
      by (simp add: d char_to_ascii_lowercase_def is_ascii_alphanumeric_def is_ascii_alphabetic_def)
    with False assms(2) show ?thesis by simp
  qed
qed

lemma slug_base_alphabet: "list_all slug_alphabet (slug_base l)"
proof -
  have "slug_alphabet (slug_char ch)" if "ch \<in> set (utf8_chars (to_ascii_lowercase s))" for ch s
  proof -
    have "set ch \<subseteq> set (to_ascii_lowercase s)"
      using that concat_utf8_chars [of "to_ascii_lowercase s"] by (metis UN_upper set_concat)
    then show ?thesis
      using lowercase_class [of "hd ch" s] by (auto simp: slug_char_def slug_alphabet_def split: list.split)
  qed
  then show ?thesis using set_trim_matches by (fastforce simp: slug_base_def list_all_iff)
qed

lemma take_alphabet: "list_all P s \<Longrightarrow> list_all P (take k s)"
  by (auto simp: list_all_iff dest: in_set_takeD)

lemma slugify_label_ok:
  "slugify_label l \<noteq> [] \<and> length (slugify_label l) \<le> 48 \<and> list_all slug_alphabet (slugify_label l)"
  using take_alphabet [OF slug_base_alphabet, of MAX_SLUG_LEN l]
  by (auto simp: slugify_label_def Let_def MAX_SLUG_LEN_def slug_alphabet_def is_ascii_lowercase_def less_eq_char_def)

lemma vehicle_family_ok: "vehicle_family r \<in> {''combat'', ''industrial'', ''transport'', ''support'', ''ground'', ''other''}"
  by (simp add: vehicle_family_def Let_def)

section \<open>Bands\<close>

fun bands_ok :: "bucket list \<Rightarrow> bool" where
  "bands_ok [] = False"
| "bands_ok [b] = (max_value b = PInf)"
| "bands_ok (b # c # bs) = (max_value b = Fin (min_value c) \<and> min_value b \<le> min_value c \<and> bands_ok (c # bs))"

lemma bands_below: "bands_ok (c # bs) \<Longrightarrow> b \<in> set (c # bs) \<Longrightarrow> min_value c \<le> min_value b"
  by (induction "c # bs" arbitrary: c bs rule: bands_ok.induct) fastforce+

lemma bands_partition: "bands_ok bs \<Longrightarrow> min_value (hd bs) \<le> v \<Longrightarrow> \<exists>!b. b \<in> set bs \<and> in_bucket v b"
proof (induction bs rule: bands_ok.induct)
  case (3 b c bs)
  show ?case
  proof (cases "v < min_value c")
    case True
    have "x = b" if "x \<in> set (b # c # bs)" "in_bucket v x" for x
      using that True bands_below [of c bs x] 3 by (auto simp: in_bucket_def)
    with True 3 show ?thesis by (intro ex1I [of _ b]) (auto simp: in_bucket_def)
  next
    case False
    with 3 have "\<exists>!b. b \<in> set (c # bs) \<and> in_bucket v b" by simp
    moreover have "\<not> in_bucket v b" using 3 False by (simp add: in_bucket_def)
    ultimately show ?thesis by (metis set_ConsD list.set_intros(2))
  qed
qed (auto simp: in_bucket_def)

lemma ranges_ok: "ra \<in> set (ranges_for category) \<Longrightarrow> bands_ok (buckets ra)"
proof -
  have "list_all (\<lambda>ra. bands_ok (buckets ra)) (VEHICLE_RANGES @ WEAPON_RANGES @ ITEM_RANGES @ LOCATION_RANGES)" by code_simp
  then show "ra \<in> set (ranges_for category) \<Longrightarrow> ?thesis" by (auto simp: ranges_for_def list_all_iff split: if_splits)
qed

section \<open>Properties\<close>

text \<open>A peer group is a non-empty key of at most 48 lower-case letters, digits, underscores and hyphens, whatever the metadata
  holds.\<close>

theorem peer_group_bounded:
  "peer_group category meta \<noteq> [] \<and> length (peer_group category meta) \<le> 48 \<and> list_all slug_alphabet (peer_group category meta)"
proof -
  have "\<forall>s \<in> {''combat'', ''industrial'', ''transport'', ''support'', ''ground'', ''other''}.
      s \<noteq> [] \<and> length s \<le> 48 \<and> list_all slug_alphabet s" by code_simp
  with vehicle_family_ok [of "meta_str meta ''role''"]
  have v: "vehicle_family (meta_str meta ''role'') \<noteq> [] \<and> length (vehicle_family (meta_str meta ''role'')) \<le> 48 \<and>
      list_all slug_alphabet (vehicle_family (meta_str meta ''role''))" by blast
  have o: "list_all slug_alphabet ''other''" by code_simp
  from v o slugify_label_ok show ?thesis
    unfolding peer_group_def by (simp split: if_split)
qed

text \<open>The bands of every preset attribute partition its range: a value that is not below the lowest band lies in exactly one, so
  an entity has exactly one range cohort for the attribute.\<close>

theorem range_cohort_unique:
  assumes "ra \<in> set (ranges_for category)" "num_path meta (path ra) = Some v" "min_value (hd (buckets ra)) \<le> v"
  shows "\<exists>!b. b \<in> set (buckets ra) \<and> in_bucket v b \<and>
    map cohort.key (range_cohort meta ra) = [''range:'' @ attr ra @ '':'' @ bucket.key b]"
proof -
  have ex: "\<exists>!b. b \<in> set (buckets ra) \<and> in_bucket v b" by (rule bands_partition [OF ranges_ok [OF assms(1)] assms(3)])
  then obtain b where b: "find (in_bucket v) (buckets ra) = Some b"
    by (metis find_None_iff not_Some_eq)
  then have "b \<in> set (buckets ra) \<and> in_bucket v b" by (auto simp: find_Some_iff)
  moreover have "map cohort.key (range_cohort meta ra) = [''range:'' @ attr ra @ '':'' @ bucket.key b]"
    using assms(2) b by (simp add: range_cohort_def)
  ultimately show ?thesis using ex by (metis (no_types, lifting))
qed

abbreviation (input) sample_ship :: json where
  "sample_ship \<equiv> JObject [(''crew'', JObject [(''max'', JNumber (JInt 4))])]"

theorem range_cohort_unique_witness:
  "\<exists>!b. b \<in> set (buckets (VEHICLE_RANGES ! 1)) \<and> in_bucket 4 b \<and>
    map cohort.key (range_cohort sample_ship (VEHICLE_RANGES ! 1)) = [''range:'' @ attr (VEHICLE_RANGES ! 1) @ '':'' @ bucket.key b]"
proof (rule range_cohort_unique [of _ "''vehicle''"])
  show "VEHICLE_RANGES ! 1 \<in> set (ranges_for ''vehicle'')" by (simp add: ranges_for_def VEHICLE_RANGES_def)
  show "num_path sample_ship (path (VEHICLE_RANGES ! 1)) = Some 4" by code_simp
  show "min_value (hd (buckets (VEHICLE_RANGES ! 1))) \<le> 4" by (simp add: VEHICLE_RANGES_def mk_bucket_def)
qed

text \<open>Quantiles are values of the sample between its extremes.\<close>

theorem from_values_extremes:
  assumes "from_values vs = Some q"
  shows "n q = length vs \<and> q_min q = Min (set vs) \<and> q_max q = Max (set vs) \<and>
    (\<forall>x \<in> {p10 q, p25 q, p50 q, p75 q, p90 q}. x \<in> set vs \<and> q_min q \<le> x \<and> x \<le> q_max q)"
proof -
  let ?v = "sort vs"
  have ne: "vs \<noteq> []" and q: "q = \<lparr>q_min = ?v ! 0, p10 = ?v ! rank_index (1 / 10) (length ?v), p25 = ?v ! rank_index (1 / 4) (length ?v),
      p50 = ?v ! rank_index (1 / 2) (length ?v), p75 = ?v ! rank_index (3 / 4) (length ?v), p90 = ?v ! rank_index (9 / 10) (length ?v),
      q_max = ?v ! (length ?v - 1), n = length ?v\<rparr>"
    using assms by (auto simp: from_values_def Let_def split: if_splits)
  have rank: "rank_index fr (length ?v) < length ?v" for fr using ne by (auto simp: rank_index_def nat_less_iff)
  have mem: "?v ! i \<in> set vs \<and> ?v ! 0 \<le> ?v ! i \<and> ?v ! i \<le> ?v ! (length ?v - 1)" if "i < length ?v" for i
    using that nth_mem [OF that] by (auto intro!: sorted_nth_mono)
  have "?v ! 0 = Min (set vs)"
  proof (rule Min_eqI [symmetric])
    show "?v ! 0 \<le> y" if "y \<in> set vs" for y
      using that mem by (metis in_set_conv_nth set_sort)
  qed (use ne mem [of 0] in auto)
  moreover have "?v ! (length ?v - 1) = Max (set vs)"
  proof (rule Max_eqI [symmetric])
    show "y \<le> ?v ! (length ?v - 1)" if "y \<in> set vs" for y
      using that mem by (metis in_set_conv_nth set_sort)
  qed (use ne mem [of "length vs - 1"] in auto)
  ultimately show ?thesis using mem [OF rank] by (simp add: q)
qed

end
