(* ===== verification/Server_Store.thy ===== *)
theory Server_Store
  imports Validators Json
begin

text \<open>
  The write side of the server's event store (\<open>crates/starstats-server/src/repo.rs\<close>, with the tables and unique indexes of
  \<open>migrations/0001\<close>, \<open>0047\<close>, \<open>0049\<close>, \<open>0056\<close>, \<open>0067\<close> and \<open>0069\<close>): the rows built from envelopes, the bulk INSERT with its two rollup
  writes, the quarantine table and the per-device batch ordinals.  A table is the list of its rows in the order of their insertion; a table
  with a primary key that the code updates is a map.  The SQL of \<open>insert_batch\<close> is one statement and so one step; \<open>ON CONFLICT DO NOTHING\<close>
  skips a row that collides with a stored row or with an earlier row of the same statement on any unique index.

  Parameters stand for serde, chrono, md5, Postgres's rendering of \<open>JSONB\<close> and its rounding of instants to the resolution of \<open>TIMESTAMPTZ\<close>.

  The lemmas show that the unique indexes hold and that the per-type counters are exactly the aggregate of the stored rows.
\<close>

section \<open>Rows\<close>

record stored_event =
  stored_id :: string
  stored_key :: string
  stored_handle :: string
  stored_type :: string
  stored_at :: "int option"
  stored_source :: log_source
  stored_offset :: i64
  stored_raw :: string
  stored_payload :: json
  stored_metadata :: "event_metadata option"
  stored_location :: "resolved_location option"

datatype insert_outcome = Inserted | Duplicate

record quarantined_event =
  held_id :: string
  held_key :: string
  held_handle :: string
  held_reason :: string
  held_detail :: "string option"
  held_source :: log_source
  held_offset :: i64
  held_raw :: string
  held_payload :: json

record store_env =
  event_value :: "game_event \<Rightarrow> json option"
  rfc3339_instant :: chrono_rfc3339
  naive_instant :: "string \<Rightarrow> string \<Rightarrow> int option"
  timestamptz :: "int \<Rightarrow> int"
  md5 :: "string \<Rightarrow> string"
  jsonb_text :: "json \<Rightarrow> string"

definition parse_event_timestamp :: "store_env \<Rightarrow> string \<Rightarrow> int option" where
  "parse_event_timestamp env s =
     (case rfc3339_instant env s of
        Some t \<Rightarrow> Some t
      | None \<Rightarrow>
          (case naive_instant env ''%Y-%m-%d %H:%M:%S%.f'' s of
             Some t \<Rightarrow> Some t
           | None \<Rightarrow> naive_instant env ''%Y-%m-%d %H:%M:%S'' s))"

definition extract_type_and_ts :: "store_env \<Rightarrow> json \<Rightarrow> string \<times> int option" where
  "extract_type_and_ts env payload =
     (case Option.bind (json_get payload ''type'') json_as_str of Some s \<Rightarrow> s | None \<Rightarrow> ''unknown'',
      Option.bind (Option.bind (json_get payload ''timestamp'') json_as_str) (parse_event_timestamp env))"

text \<open>\<open>serde_json::to_value\<close> on an optional event: an absent event is null, and so is one that does not serialise.\<close>

definition envelope_payload :: "store_env \<Rightarrow> event_envelope \<Rightarrow> json" where
  "envelope_payload env e =
     (case event_envelope.event e of None \<Rightarrow> JNull | Some ev \<Rightarrow> (case event_value env ev of Some v \<Rightarrow> v | None \<Rightarrow> JNull))"

definition from_envelope :: "store_env \<Rightarrow> string \<Rightarrow> event_envelope \<Rightarrow> string \<Rightarrow> stored_event" where
  "from_envelope env uuid e hdl =
     (let payload = envelope_payload env e;
          (ty, ts) = extract_type_and_ts env payload
      in \<lparr>stored_id = uuid, stored_key = idempotency_key e, stored_handle = hdl, stored_type = ty, stored_at = ts,
          stored_source = event_envelope.source e, stored_offset = wrap_i64 (uint (source_offset e)), stored_raw = event_envelope.raw_line e,
          stored_payload = payload, stored_metadata = event_envelope.metadata e, stored_location = resolved_location e\<rparr>)"

section \<open>Tables\<close>

record type_count =
  event_count :: nat
  first_seen_at :: "int option"
  last_seen_at :: "int option"

record rollup_state =
  sessions_dirty :: bool
  contracts_dirty :: bool
  sessions_dirty_from_ts :: "int option"
  rebuilt_at :: "int option"
  state_updated_at :: int

record ingest_tables =
  event_table :: "stored_event list"
  quarantine_table :: "quarantined_event list"
  stat_event_counts :: "(string \<times> string, type_count) hmap"
  stat_rollup_state :: "(string, rollup_state) hmap"
  device_batch_progress :: "(string, i64) hmap"

definition empty_tables :: ingest_tables where
  "empty_tables =
     \<lparr>event_table = [], quarantine_table = [], stat_event_counts = [], stat_rollup_state = [], device_batch_progress = []\<rparr>"

text \<open>The primary key and the two unique indexes of \<open>events\<close>.\<close>

definition same_content :: "store_env \<Rightarrow> stored_event \<Rightarrow> stored_event \<Rightarrow> bool" where
  "same_content env a b \<longleftrightarrow>
     stored_handle a = stored_handle b \<and> stored_type a = stored_type b \<and> stored_at a = stored_at b \<and>
     md5 env (stored_raw a) = md5 env (stored_raw b) \<and>
     md5 env (jsonb_text env (stored_payload a)) = md5 env (jsonb_text env (stored_payload b))"

definition conflicts :: "store_env \<Rightarrow> stored_event \<Rightarrow> stored_event \<Rightarrow> bool" where
  "conflicts env a b \<longleftrightarrow>
     stored_id a = stored_id b \<or> stored_handle a = stored_handle b \<and> stored_key a = stored_key b \<or> same_content env a b"

fun new_rows :: "store_env \<Rightarrow> stored_event list \<Rightarrow> stored_event list \<Rightarrow> stored_event list" where
  "new_rows env rows [] = []"
| "new_rows env rows (e # es) =
     (if list_ex (conflicts env e) rows then new_rows env rows es else e # new_rows env (rows @ [e]) es)"

text \<open>\<open>LEAST\<close> and \<open>GREATEST\<close> ignore nulls, and so do the aggregates \<open>MIN\<close> and \<open>MAX\<close>.\<close>

fun pg_least :: "int option \<Rightarrow> int option \<Rightarrow> int option" where
  "pg_least None b = b"
| "pg_least a None = a"
| "pg_least (Some x) (Some y) = Some (min x y)"

fun pg_greatest :: "int option \<Rightarrow> int option \<Rightarrow> int option" where
  "pg_greatest None b = b"
| "pg_greatest a None = a"
| "pg_greatest (Some x) (Some y) = Some (max x y)"

definition pg_min :: "int option list \<Rightarrow> int option" where
  "pg_min xs = foldr pg_least xs None"

definition pg_max :: "int option list \<Rightarrow> int option" where
  "pg_max xs = foldr pg_greatest xs None"

definition row_group :: "stored_event \<Rightarrow> string \<times> string" where
  "row_group e = (stored_handle e, stored_type e)"

definition aggregate :: "stored_event list \<Rightarrow> type_count" where
  "aggregate rows =
     \<lparr>event_count = length rows, first_seen_at = pg_min (map stored_at rows), last_seen_at = pg_max (map stored_at rows)\<rparr>"

definition add_counts :: "type_count \<Rightarrow> type_count \<Rightarrow> type_count" where
  "add_counts a b =
     \<lparr>event_count = event_count a + event_count b, first_seen_at = pg_least (first_seen_at a) (first_seen_at b),
      last_seen_at = pg_greatest (last_seen_at a) (last_seen_at b)\<rparr>"

text \<open>\<open>INSERT .. SELECT .. GROUP BY .. ON CONFLICT DO UPDATE\<close>: one upsert for each group.\<close>

definition upsert_groups :: "('k \<Rightarrow> 'v option \<Rightarrow> 'v) \<Rightarrow> 'k list \<Rightarrow> ('k, 'v) hmap \<Rightarrow> ('k, 'v) hmap" where
  "upsert_groups f gs m = foldl (\<lambda>m g. hmap_insert g (f g (map_of m g)) m) m (remdups gs)"

definition roll_counts :: "stored_event list \<Rightarrow> (string \<times> string, type_count) hmap \<Rightarrow> (string \<times> string, type_count) hmap" where
  "roll_counts ins =
     upsert_groups (\<lambda>g old. let excluded = aggregate (filter (\<lambda>e. row_group e = g) ins)
                            in case old of None \<Rightarrow> excluded | Some c \<Rightarrow> add_counts c excluded)
       (map row_group ins)"

definition mark_dirty :: "int \<Rightarrow> stored_event list \<Rightarrow> (string, rollup_state) hmap \<Rightarrow> (string, rollup_state) hmap" where
  "mark_dirty now ins =
     upsert_groups (\<lambda>h old. let excluded = pg_min (map stored_at (filter (\<lambda>e. stored_handle e = h) ins))
                            in case old of
                                 None \<Rightarrow> \<lparr>sessions_dirty = True, contracts_dirty = True, sessions_dirty_from_ts = excluded,
                                          rebuilt_at = None, state_updated_at = now\<rparr>
                               | Some s \<Rightarrow>
                                   s\<lparr>sessions_dirty := True, contracts_dirty := True, state_updated_at := now,
                                     sessions_dirty_from_ts :=
                                       (if sessions_dirty s \<and> sessions_dirty_from_ts s = None then None
                                        else pg_least (sessions_dirty_from_ts s) excluded)\<rparr>)
       (map stored_handle ins)"

section \<open>Operations\<close>

definition bind_row :: "store_env \<Rightarrow> stored_event \<Rightarrow> stored_event" where
  "bind_row env e = e\<lparr>stored_at := map_option (timestamptz env) (stored_at e)\<rparr>"

definition insert_batch :: "store_env \<Rightarrow> int \<Rightarrow> (stored_event list \<Rightarrow> bool) \<Rightarrow> stored_event list \<Rightarrow> ingest_tables
    \<Rightarrow> insert_outcome list option \<times> ingest_tables" where
  "insert_batch env now fails evs t =
     (if evs = [] then (Some [], t)
      else if fails evs then (None, t)
      else
        let ins = new_rows env (event_table t) (map (bind_row env) evs);
            keys = map stored_key ins
        in (Some (map (\<lambda>e. if List.member keys (stored_key e) then Inserted else Duplicate) evs),
            t\<lparr>event_table := event_table t @ ins, stat_event_counts := roll_counts ins (stat_event_counts t),
              stat_rollup_state := mark_dirty now ins (stat_rollup_state t)\<rparr>))"

text \<open>The conflict target is the index on handle and key; a repeated primary key would be an error.\<close>

definition quarantine :: "(quarantined_event \<Rightarrow> bool) \<Rightarrow> quarantined_event \<Rightarrow> ingest_tables \<Rightarrow> bool \<times> ingest_tables" where
  "quarantine fails q t =
     (if fails q then (False, t)
      else if list_ex (\<lambda>r. held_handle r = held_handle q \<and> held_key r = held_key q) (quarantine_table t) then (True, t)
      else if list_ex (\<lambda>r. held_id r = held_id q) (quarantine_table t) then (False, t)
      else (True, t\<lparr>quarantine_table := quarantine_table t @ [q]\<rparr>))"

definition observe_batch_sequence :: "bool \<Rightarrow> string \<Rightarrow> i64 \<Rightarrow> ingest_tables \<Rightarrow> i64 option option \<times> ingest_tables" where
  "observe_batch_sequence fails dev sq t =
     (if fails then (None, t)
      else
        let prior = map_of (device_batch_progress t) dev
        in (Some prior,
            t\<lparr>device_batch_progress :=
                hmap_insert dev (case prior of None \<Rightarrow> sq | Some p \<Rightarrow> max p sq) (device_batch_progress t)\<rparr>))"

section \<open>Aggregates\<close>

lemma pg_least_None [simp]: "pg_least a None = a"
  by (cases a) simp_all

lemma pg_greatest_None [simp]: "pg_greatest a None = a"
  by (cases a) simp_all

lemma pg_least_assoc: "pg_least (pg_least a b) c = pg_least a (pg_least b c)"
  by (cases a; cases b; cases c) simp_all

lemma pg_greatest_assoc: "pg_greatest (pg_greatest a b) c = pg_greatest a (pg_greatest b c)"
  by (cases a; cases b; cases c) simp_all

lemma pg_min_append: "pg_min (xs @ ys) = pg_least (pg_min xs) (pg_min ys)"
  by (induction xs) (simp_all add: pg_min_def pg_least_assoc)

lemma pg_max_append: "pg_max (xs @ ys) = pg_greatest (pg_max xs) (pg_max ys)"
  by (induction xs) (simp_all add: pg_max_def pg_greatest_assoc)

lemma aggregate_append: "aggregate (xs @ ys) = add_counts (aggregate xs) (aggregate ys)"
  by (simp add: aggregate_def add_counts_def pg_min_append pg_max_append)

lemma add_counts_empty [simp]: "add_counts (aggregate []) c = c"
  by (simp add: aggregate_def add_counts_def pg_min_def pg_max_def)

lemma pg_least_lower: "pg_least a b = Some m \<Longrightarrow> a = Some x \<or> b = Some x \<Longrightarrow> m \<le> x"
  by (cases a; cases b) auto

lemma pg_min_none: "pg_min xs = None \<longleftrightarrow> set xs \<subseteq> {None}"
proof (induction xs)
  case (Cons y ys)
  then show ?case by (cases y; cases "pg_min ys") (auto simp: pg_min_def)
qed (simp add: pg_min_def)

lemma pg_min_lower: "pg_min xs = Some m \<Longrightarrow> Some x \<in> set xs \<Longrightarrow> m \<le> x"
proof (induction xs arbitrary: m)
  case (Cons y ys)
  have split: "pg_min (y # ys) = pg_least y (pg_min ys)" by (simp add: pg_min_def)
  show ?case
  proof (cases "y = Some x")
    case True
    then show ?thesis using Cons.prems(1) split pg_least_lower by metis
  next
    case False
    then have x: "Some x \<in> set ys" using Cons.prems(2) by auto
    then have "pg_min ys \<noteq> None" unfolding pg_min_none by auto
    then obtain k where "pg_min ys = Some k" by auto
    then show ?thesis using Cons.IH [OF _ x] Cons.prems(1) split pg_least_lower [of y "pg_min ys" m k] by force
  qed
qed simp

lemma hmap_insert_lookup: "map_of (hmap_insert k v m) k' = (if k' = k then Some v else map_of m k')"
  by (simp add: hmap_insert_def hmap_lookup_remove)

lemma foldl_upsert:
  assumes "distinct gs"
  shows "map_of (foldl (\<lambda>m g. hmap_insert g (f g (map_of m g)) m) m gs) g = (if g \<in> set gs then Some (f g (map_of m g)) else map_of m g)"
  using assms by (induction gs arbitrary: m) (auto simp: hmap_insert_lookup)

lemma upsert_lookup:
  "map_of (upsert_groups f gs m) g = (if g \<in> set gs then Some (f g (map_of m g)) else map_of m g)"
  by (simp add: upsert_groups_def foldl_upsert)

section \<open>The unique indexes\<close>

lemma conflicts_refl [simp]: "conflicts env e e"
  by (simp add: conflicts_def)

lemma conflicts_sym: "conflicts env a b \<longleftrightarrow> conflicts env b a"
  by (auto simp: conflicts_def same_content_def)

abbreviation unique_rows :: "store_env \<Rightarrow> stored_event list \<Rightarrow> bool" where
  "unique_rows env \<equiv> sorted_wrt (\<lambda>a b. \<not> conflicts env a b)"

lemma new_rows_unique: "unique_rows env rows \<Longrightarrow> unique_rows env (rows @ new_rows env rows es)"
proof (induction env rows es rule: new_rows.induct)
  case (2 env rows e es)
  show ?case
  proof (cases "list_ex (conflicts env e) rows")
    case False
    then have "unique_rows env (rows @ [e])"
      using 2(3) by (auto simp: sorted_wrt_append list_ex_iff conflicts_sym [of env _ e])
    then show ?thesis using 2(2) [OF False] False by simp
  qed (use 2 in simp)
qed simp

lemma new_rows_sub: "set (new_rows env rows es) \<subseteq> set es"
  by (induction env rows es rule: new_rows.induct) auto

text \<open>Every row offered is stored, or a stored row stands in its way.\<close>

lemma new_rows_cover: "e \<in> set es \<Longrightarrow> \<exists>r\<in>set (rows @ new_rows env rows es). conflicts env e r"
proof (induction env rows es rule: new_rows.induct)
  case (2 env rows e' es)
  show ?case
  proof (cases "list_ex (conflicts env e') rows")
    case True
    then show ?thesis using 2(1,3) by (auto simp: list_ex_iff)
  next
    case False
    then show ?thesis using 2(2,3) by fastforce
  qed
qed simp

lemma new_rows_none: "(\<forall>e\<in>set es. list_ex (conflicts env e) rows) \<Longrightarrow> new_rows env rows es = []"
  by (induction es) auto

section \<open>What the operations keep\<close>

definition rows_of :: "string \<times> string \<Rightarrow> stored_event list \<Rightarrow> stored_event list" where
  "rows_of g rows = filter (\<lambda>e. row_group e = g) rows"

text \<open>The unique indexes hold, the counters are the aggregates of the rows, and every handle with rows has a rollup state.\<close>

definition counts_exact :: "ingest_tables \<Rightarrow> bool" where
  "counts_exact t \<longleftrightarrow>
     (\<forall>g. map_of (stat_event_counts t) g =
       (if rows_of g (event_table t) = [] then None else Some (aggregate (rows_of g (event_table t)))))"

definition tables_ok :: "store_env \<Rightarrow> ingest_tables \<Rightarrow> bool" where
  "tables_ok env t \<longleftrightarrow>
     unique_rows env (event_table t) \<and> counts_exact t \<and>
     (\<forall>e\<in>set (event_table t). map_of (stat_rollup_state t) (stored_handle e) \<noteq> None) \<and>
     distinct (map (\<lambda>q. (held_handle q, held_key q)) (quarantine_table t))"

lemma tables_ok_empty [simp]: "tables_ok env empty_tables"
  by (simp add: tables_ok_def counts_exact_def empty_tables_def rows_of_def)

lemma roll_counts_exact:
  assumes "counts_exact t"
  shows "counts_exact (t\<lparr>event_table := event_table t @ ins, stat_event_counts := roll_counts ins (stat_event_counts t),
           stat_rollup_state := x\<rparr>)"
proof -
  have one: "map_of (roll_counts ins (stat_event_counts t)) g =
      (if rows_of g (event_table t @ ins) = [] then None else Some (aggregate (rows_of g (event_table t @ ins))))" for g
  proof -
    have at_g: "map_of (stat_event_counts t) g =
        (if rows_of g (event_table t) = [] then None else Some (aggregate (rows_of g (event_table t))))"
      using assms by (simp only: counts_exact_def)
    have "g \<in> set (map row_group ins) \<longleftrightarrow> rows_of g ins \<noteq> []" by (auto simp: rows_of_def filter_empty_conv)
    moreover have "rows_of g (event_table t @ ins) = rows_of g (event_table t) @ rows_of g ins" by (simp add: rows_of_def)
    ultimately show ?thesis
      using at_g
      by (cases "rows_of g ins = []"; cases "rows_of g (event_table t) = []")
        (simp_all add: roll_counts_def upsert_lookup aggregate_append Let_def rows_of_def [symmetric])
  qed
  then show ?thesis by (simp add: counts_exact_def del: split_paired_All)
qed

lemma insert_batch_ok:
  assumes "tables_ok env t"
  shows "tables_ok env (snd (insert_batch env now fails evs t))"
proof -
  let ?ins = "new_rows env (event_table t) (map (bind_row env) evs)"
  have "map_of (mark_dirty now ?ins (stat_rollup_state t)) (stored_handle e) \<noteq> None" if "e \<in> set (event_table t @ ?ins)" for e
    using assms that by (auto simp: mark_dirty_def upsert_lookup tables_ok_def)
  then show ?thesis
    using assms new_rows_unique roll_counts_exact by (auto simp: insert_batch_def tables_ok_def Let_def)
qed

lemma quarantine_ok: "tables_ok env t \<Longrightarrow> tables_ok env (snd (quarantine fails q t))"
  by (auto simp: quarantine_def tables_ok_def counts_exact_def list_ex_iff)

lemma observe_ok: "tables_ok env t \<Longrightarrow> tables_ok env (snd (observe_batch_sequence fails dev sq t))"
  by (auto simp: observe_batch_sequence_def tables_ok_def counts_exact_def Let_def)

end
