(* ===== verification/Server_Accounts.thy ===== *)
theory Server_Accounts
  imports Wire
begin

text \<open>
  Who may talk to the server (\<open>crates/starstats-server/src\<close>): checked request parameters (\<open>validation.rs\<close>), the rules and the in-process index of handle
  renames (\<open>handle_renames.rs\<close>), account restrictions and their guard (\<open>account_restrictions.rs\<close>, \<open>restriction_guard.rs\<close>), and the
  extractor that turns a bearer token into a user (\<open>auth.rs\<close>).  The JWT library, uuid's parser and the lookups in Postgres are parameters; a
  lookup that fails is a value.  Instants are seconds since the epoch.

  The lemmas show that renames respect the cooldown, that the index holds the last handle of every account and the handles it left, that an
  old token acts as the current handle, that every failing check of the guard denies, and what a rename does to friendships under the collation of the database.
\<close>

section \<open>Request parameters\<close>

definition TIMELINE_DAYS_MAX :: nat where
  "TIMELINE_DAYS_MAX = 366"

definition TIMELINE_DAYS_DEFAULT :: nat where
  "TIMELINE_DAYS_DEFAULT = 30"

definition EVENT_TYPE_MAX_LEN :: nat where
  "EVENT_TYPE_MAX_LEN = 64"

definition validate_handle :: "string \<Rightarrow> bool" where
  "validate_handle h \<longleftrightarrow>
     h \<noteq> [] \<and> length h \<le> 64 \<and> list_all (\<lambda>c. is_ascii_alphanumeric c \<or> c = CHR ''_'' \<or> c = CHR ''-'') h"

definition is_valid_event_type :: "string \<Rightarrow> bool" where
  "is_valid_event_type s \<longleftrightarrow>
     s \<noteq> [] \<and> length s \<le> EVENT_TYPE_MAX_LEN \<and> list_all (\<lambda>c. is_ascii_lowercase c \<or> is_ascii_digit c \<or> c = CHR ''_'') s"

definition resolve_timeline_days :: "nat option \<Rightarrow> unit + nat" where
  "resolve_timeline_days ds =
     (let d = (case ds of Some x \<Rightarrow> x | None \<Rightarrow> TIMELINE_DAYS_DEFAULT)
      in if d = 0 \<or> TIMELINE_DAYS_MAX < d then Inl () else Inr d)"

text \<open>A day is its number; collecting the rows into a map keeps the last count of a day.\<close>

function bucket_loop :: "(int \<rightharpoonup> nat) \<Rightarrow> (int \<Rightarrow> string) \<Rightarrow> int \<Rightarrow> int \<Rightarrow> (string \<times> nat) list" where
  "bucket_loop seen fmt today cursor =
     (if cursor \<le> today
      then (fmt cursor, case seen cursor of Some c \<Rightarrow> c | None \<Rightarrow> 0) # bucket_loop seen fmt today (cursor + 1)
      else [])"
  by pat_completeness auto
termination
  by (relation "measure (\<lambda>(seen, fmt, today, cursor). nat (today + 1 - cursor))") auto

declare bucket_loop.simps [simp del]

definition build_timeline_buckets :: "(int \<Rightarrow> string) \<Rightarrow> int \<Rightarrow> (int \<times> int) list \<Rightarrow> nat \<Rightarrow> (string \<times> nat) list" where
  "build_timeline_buckets fmt today rows days =
     bucket_loop (map_of (rev (map (\<lambda>(d, c). (d, nat (max c 0))) rows))) fmt today (today - (int days - 1))"

section \<open>Handle renames\<close>

definition COOLDOWN :: int where
  "COOLDOWN = 30 * 86400"

definition RESERVATION :: int where
  "RESERVATION = 90 * 86400"

record rename_subject =
  subject_handle :: string
  rsi_verified :: bool
  last_handle_change_at :: "int option"

datatype rename_kind = FreeRename | StandardRename

datatype rename_refusal = InvalidHandle | Unchanged | Cooldown int | Taken | Reserved

definition evaluate :: "rename_subject \<Rightarrow> string \<Rightarrow> int \<Rightarrow> rename_refusal + rename_kind" where
  "evaluate subj new now =
     (if \<not> validate_handle new then Inl InvalidHandle
      else if subject_handle subj = new then Inl Unchanged
      else case last_handle_change_at subj of
             None \<Rightarrow> if \<not> rsi_verified subj then Inr FreeRename else Inr StandardRename
           | Some lst \<Rightarrow> if now < lst + COOLDOWN then Inl (Cooldown (lst + COOLDOWN)) else Inr StandardRename)"

record handle_rename =
  rename_user :: string
  old_handle :: string
  renamed_to :: string
  was_verified :: bool
  free_change :: bool
  renamed_at :: int
  reserved_until :: int

record renamed_account =
  current_handle :: string
  previous_handles :: "string list"
  last_renamed_at :: int

type_synonym handle_index = "(string, renamed_account) hmap"

definition index_apply :: "handle_index \<Rightarrow> handle_rename \<Rightarrow> handle_index" where
  "index_apply m r =
     (let entry = (case map_of m (rename_user r) of
                     Some a \<Rightarrow> a
                   | None \<Rightarrow> \<lparr>current_handle = renamed_to r, previous_handles = [], last_renamed_at = renamed_at r\<rparr>)
      in hmap_insert (rename_user r)
           \<lparr>current_handle = renamed_to r,
            previous_handles =
              old_handle r # filter (\<lambda>h. \<not> eq_ignore_ascii_case h (old_handle r) \<and> \<not> eq_ignore_ascii_case h (renamed_to r)) (previous_handles entry),
            last_renamed_at = renamed_at r\<rparr> m)"

definition replace_all_renames :: "handle_rename list \<Rightarrow> handle_index" where
  "replace_all_renames rs = foldl index_apply [] rs"

definition index_resolve :: "handle_index \<Rightarrow> string \<Rightarrow> string \<Rightarrow> nat \<Rightarrow> string option" where
  "index_resolve m user token_handle issued_at =
     (case map_of m user of
        None \<Rightarrow> None
      | Some a \<Rightarrow>
          if eq_ignore_ascii_case (current_handle a) token_handle then None
          else if issued_at \<le> nat (last_renamed_at a) then Some (current_handle a) else None)"

text \<open>Every column outside \<open>users\<close> that holds a handle; a database gives the values of each column in the order of the rows.\<close>

definition HANDLE_COLUMNS :: "(string \<times> string) list" where
  "HANDLE_COLUMNS =
     [(''events'', ''claimed_handle''), (''quarantined_events'', ''claimed_handle''), (''stat_event_counts'', ''claimed_handle''),
      (''entity_rollup_agg'', ''claimed_handle''), (''session_summary'', ''claimed_handle''), (''character_records'', ''claimed_handle''),
      (''stat_rollup_state'', ''claimed_handle''), (''contract_runs'', ''claimed_handle''), (''unknown_tag_sighting'', ''claimed_handle''),
      (''share_metadata'', ''owner_handle''), (''share_metadata'', ''recipient_handle''), (''share_reports'', ''reporter_handle''),
      (''share_reports'', ''owner_handle''), (''share_reports'', ''recipient_handle''), (''share_reports'', ''resolved_by''),
      (''public_profile_view_counters'', ''profile_handle''), (''friend_requests'', ''requester_handle''),
      (''friend_requests'', ''recipient_handle''), (''friendships'', ''handle_a''), (''friendships'', ''handle_b''),
      (''user_blocks'', ''blocker_handle''), (''user_blocks'', ''blocked_handle''), (''user_mutes'', ''muter_handle''),
      (''user_mutes'', ''muted_handle''), (''notifications'', ''recipient_handle''), (''notifications'', ''actor_handle''),
      (''profile_salutes'', ''saluter_handle''), (''profile_salutes'', ''target_handle''), (''lfg_posts'', ''host_handle''),
      (''lfg_posts'', ''removed_by''), (''lfg_members'', ''member_handle''), (''lfg_reports'', ''reporter_handle''),
      (''lfg_reports'', ''host_handle''), (''lfg_reports'', ''resolved_by''), (''crew_history'', ''handle''),
      (''crew_history'', ''other_handle''), (''crew_commends'', ''giver_handle''), (''crew_commends'', ''recipient_handle''),
      (''chat_reports'', ''reporter_handle''), (''chat_reports'', ''reported_handle''), (''chat_reports'', ''resolved_by''),
      (''parser_submissions'', ''submitter_handle''), (''account_restrictions'', ''restricted_by''), (''news_posts'', ''created_by''),
      (''roadmap_changelog'', ''published_by''), (''parser_health_finding'', ''acknowledged_by'')]"

type_synonym columns = "string \<times> string \<Rightarrow> string list"

definition rewrite_cell :: "(string \<Rightarrow> string) \<Rightarrow> string \<Rightarrow> string \<Rightarrow> string \<Rightarrow> string" where
  "rewrite_cell sql_lower old new v =
     (if sql_lower v = sql_lower old then (if v = sql_lower v then sql_lower new else new) else v)"

text \<open>Row by row over the columns; a unique index that the new values violate (\<open>clash\<close>) refuses the rename.\<close>

fun rewrite_columns :: "(string \<Rightarrow> string) \<Rightarrow> (string \<times> string \<Rightarrow> columns \<Rightarrow> bool) \<Rightarrow> string \<Rightarrow> string \<Rightarrow> (string \<times> string) list \<Rightarrow> columns \<Rightarrow> columns option" where
  "rewrite_columns sql_lower clash old new [] cs = Some cs"
| "rewrite_columns sql_lower clash old new (c # rest) cs =
     (let cs' = cs(c := map (rewrite_cell sql_lower old new) (cs c))
      in if clash c cs' then None else rewrite_columns sql_lower clash old new rest cs')"

text \<open>Friendships are kept with the smaller handle first; the ones a rename put out of order are turned round.  The comparison \<open>lower(handle_a) > lower(handle_b)\<close> is
  the database's, in its collation: a parameter.\<close>

definition turn_friendship :: "(string \<Rightarrow> string) \<Rightarrow> (string \<Rightarrow> string \<Rightarrow> bool) \<Rightarrow> string \<Rightarrow> string \<times> string \<Rightarrow> string \<times> string" where
  "turn_friendship sql_lower sql_gt new p =
     (case p of (a, b) \<Rightarrow>
        if sql_gt (sql_lower a) (sql_lower b) \<and> (sql_lower a = sql_lower new \<or> sql_lower b = sql_lower new) then (b, a) else (a, b))"

definition order_friendships :: "(string \<Rightarrow> string) \<Rightarrow> (string \<Rightarrow> string \<Rightarrow> bool) \<Rightarrow> string \<Rightarrow> columns \<Rightarrow> columns" where
  "order_friendships sql_lower sql_gt new cs =
     (let ps = map (turn_friendship sql_lower sql_gt new) (zip (cs (''friendships'', ''handle_a'')) (cs (''friendships'', ''handle_b'')))
      in cs((''friendships'', ''handle_a'') := map fst ps, (''friendships'', ''handle_b'') := map snd ps))"

text \<open>Friendships are written and looked up (\<open>social.rs\<close>) with the pair in the byte order of the ASCII-lowered handles.\<close>

definition friendships_of :: "columns \<Rightarrow> (string \<times> string) list" where
  "friendships_of cs = zip (cs (''friendships'', ''handle_a'')) (cs (''friendships'', ''handle_b''))"

definition ordered_pair :: "string \<Rightarrow> string \<Rightarrow> string \<times> string" where
  "ordered_pair a b = (if to_ascii_lowercase a \<le> to_ascii_lowercase b then (a, b) else (b, a))"

definition are_friends :: "(string \<Rightarrow> string) \<Rightarrow> columns \<Rightarrow> string \<Rightarrow> string \<Rightarrow> bool" where
  "are_friends sql_lower cs a b =
     (case ordered_pair a b of (x, y) \<Rightarrow>
        list_ex (\<lambda>(p, q). sql_lower p = sql_lower x \<and> sql_lower q = sql_lower y) (friendships_of cs))"

definition add_friendship :: "(string \<Rightarrow> string) \<Rightarrow> string \<Rightarrow> string \<Rightarrow> columns \<Rightarrow> columns" where
  "add_friendship sql_lower a b cs =
     (case ordered_pair a b of (x, y) \<Rightarrow>
        if list_ex (\<lambda>(p, q). sql_lower p = sql_lower x \<and> sql_lower q = sql_lower y) (friendships_of cs) then cs
        else cs((''friendships'', ''handle_a'') := cs (''friendships'', ''handle_a'') @ [x],
                (''friendships'', ''handle_b'') := cs (''friendships'', ''handle_b'') @ [y]))"

text \<open>A rename is one transaction: an error leaves everything as it was.\<close>

record user_row =
  user_handle :: string
  user_verified :: bool
  user_changed_at :: "int option"
  user_localpart :: "string option"

record rename_store =
  users :: "(string, user_row) hmap"
  renames :: "handle_rename list"
  cells :: columns

datatype rename_error = Refused rename_refusal | UserNotFound

definition rename_handle ::
  "(string \<Rightarrow> string) \<Rightarrow> (string \<Rightarrow> string \<Rightarrow> bool) \<Rightarrow> (string \<times> string \<Rightarrow> columns \<Rightarrow> bool) \<Rightarrow> string \<Rightarrow> string \<Rightarrow> int \<Rightarrow> rename_store \<Rightarrow> (rename_error + handle_rename) \<times> rename_store" where
  "rename_handle sql_lower sql_gt clash user new now st =
     (case map_of (users st) user of
        None \<Rightarrow> (Inl UserNotFound, st)
      | Some u \<Rightarrow>
          (case evaluate \<lparr>subject_handle = user_handle u, rsi_verified = user_verified u, last_handle_change_at = user_changed_at u\<rparr> new now of
             Inl e \<Rightarrow> (Inl (Refused e), st)
           | Inr kd \<Rightarrow>
               let moved = \<not> eq_ignore_ascii_case (user_handle u) new
               in if moved \<and> list_ex (\<lambda>(i, v). sql_lower (user_handle v) = sql_lower new \<and> i \<noteq> user) (users st)
                  then (Inl (Refused Taken), st)
                  else if moved \<and> list_ex (\<lambda>r. sql_lower (old_handle r) = sql_lower new \<and> now < reserved_until r \<and> rename_user r \<noteq> user) (renames st)
                  then (Inl (Refused Reserved), st)
                  else
                    case rewrite_columns sql_lower clash (user_handle u) new HANDLE_COLUMNS (cells st) of
                      None \<Rightarrow> (Inl (Refused Taken), st)
                    | Some cs \<Rightarrow>
                        let r = \<lparr>rename_user = user, old_handle = user_handle u, renamed_to = new, was_verified = user_verified u,
                                 free_change = (kd = FreeRename), renamed_at = now, reserved_until = now + RESERVATION\<rparr>;
                            u' = \<lparr>user_handle = new, user_verified = False, user_changed_at = Some now,
                                  user_localpart = (case user_localpart u of Some l \<Rightarrow> Some l | None \<Rightarrow> Some (sql_lower (user_handle u)))\<rparr>
                        in (Inr r, st\<lparr>users := hmap_insert user u' (users st), renames := renames st @ [r],
                                     cells := order_friendships sql_lower sql_gt new cs\<rparr>)))"

section \<open>Restrictions\<close>

datatype capability = CapIngest | CapSharing | CapPublicProfile | CapSubmissions | CapChat

fun capability_as_str :: "capability \<Rightarrow> string" where
  "capability_as_str CapIngest = ''ingest''"
| "capability_as_str CapSharing = ''sharing''"
| "capability_as_str CapPublicProfile = ''public_profile''"
| "capability_as_str CapSubmissions = ''submissions''"
| "capability_as_str CapChat = ''chat''"

record restriction =
  ingest_blocked :: bool
  sharing_blocked :: bool
  public_profile_blocked :: bool
  submissions_blocked :: bool
  chat_blocked :: bool
  restriction_reason :: string
  restricted_by :: string
  restricted_at :: int
  expires_at :: "int option"

fun blocks :: "restriction \<Rightarrow> capability \<Rightarrow> bool" where
  "blocks r CapIngest = ingest_blocked r"
| "blocks r CapSharing = sharing_blocked r"
| "blocks r CapPublicProfile = public_profile_blocked r"
| "blocks r CapSubmissions = submissions_blocked r"
| "blocks r CapChat = chat_blocked r"

definition is_suspension :: "restriction \<Rightarrow> bool" where
  "is_suspension r \<longleftrightarrow>
     ingest_blocked r \<and> sharing_blocked r \<and> public_profile_blocked r \<and> submissions_blocked r \<and> chat_blocked r"

definition is_effective_at :: "restriction \<Rightarrow> int \<Rightarrow> bool" where
  "is_effective_at r now = (case expires_at r of None \<Rightarrow> True | Some e \<Rightarrow> now < e)"

section \<open>Authentication\<close>

datatype token_type = UserToken | DeviceToken | LoginInterim

record claims =
  claim_sub :: string
  iat :: nat
  claim_username :: string
  claim_type :: token_type
  claim_device :: "string option"

record authenticated_user =
  sub :: string
  preferred_username :: string
  user_token_type :: token_type
  user_device :: "string option"

datatype auth_error = MissingToken | BadHeader | UnsupportedAlgorithm | UnknownKey | InvalidToken string | Keypair | Unavailable

definition auth_status :: "auth_error \<Rightarrow> nat" where
  "auth_status e = (case e of Unavailable \<Rightarrow> 503 | _ \<Rightarrow> 401)"

datatype device_auth_status = DeviceActive | DeviceRevoked | DeviceMissing

text \<open>What the extractors consult: JWT verification, uuid's parser, the rename index, the devices table and the restrictions table.  A failed
  lookup is \<open>None\<close> at the outer level; a server without the index or the restrictions store has \<open>None\<close> there.\<close>

record auth_env =
  verify_token :: "string \<Rightarrow> auth_error + claims"
  parse_uuid :: "string \<Rightarrow> string option"
  rename_index :: "handle_index option"
  device_status :: "string \<Rightarrow> device_auth_status option"
  restriction_store :: "(string \<Rightarrow> restriction option option) option"

definition current_user :: "auth_env \<Rightarrow> claims \<Rightarrow> authenticated_user" where
  "current_user env c =
     (let user = \<lparr>sub = claim_sub c, preferred_username = claim_username c, user_token_type = claim_type c, user_device = claim_device c\<rparr>
      in case rename_index env of
           None \<Rightarrow> user
         | Some m \<Rightarrow>
             (case parse_uuid env (sub user) of
                None \<Rightarrow> user
              | Some uid \<Rightarrow>
                  (case index_resolve m uid (preferred_username user) (iat c) of
                     None \<Rightarrow> user
                   | Some cur \<Rightarrow> user\<lparr>preferred_username := cur\<rparr>)))"

definition extract_user :: "auth_env \<Rightarrow> string option \<Rightarrow> auth_error + authenticated_user" where
  "extract_user env bearer =
     (case bearer of
        None \<Rightarrow> Inl MissingToken
      | Some tok \<Rightarrow>
          (case verify_token env tok of
             Inl e \<Rightarrow> Inl e
           | Inr c \<Rightarrow>
               let user = current_user env c
               in if user_token_type user = DeviceToken
                  then (case user_device user of
                          None \<Rightarrow> Inl (InvalidToken ''device token without device_id claim'')
                        | Some d \<Rightarrow>
                            (case device_status env d of
                               Some DeviceActive \<Rightarrow> Inr user
                             | Some DeviceRevoked \<Rightarrow> Inl (InvalidToken ''device revoked'')
                             | Some DeviceMissing \<Rightarrow> Inl (InvalidToken ''device not found'')
                             | None \<Rightarrow> Inl Unavailable))
                  else Inr user))"

datatype guard_rejection = Unauthenticated auth_error | CheckUnavailable | Denied capability string

definition guard_status :: "guard_rejection \<Rightarrow> nat" where
  "guard_status g = (case g of Unauthenticated e \<Rightarrow> auth_status e | CheckUnavailable \<Rightarrow> 503 | Denied _ _ \<Rightarrow> 403)"

definition require_unrestricted :: "capability \<Rightarrow> auth_env \<Rightarrow> string option \<Rightarrow> guard_rejection + authenticated_user" where
  "require_unrestricted cap env bearer =
     (case extract_user env bearer of
        Inl e \<Rightarrow> Inl (Unauthenticated e)
      | Inr user \<Rightarrow>
          (case parse_uuid env (sub user) of
             None \<Rightarrow> Inl CheckUnavailable
           | Some uid \<Rightarrow>
               (case restriction_store env of
                  None \<Rightarrow> Inl CheckUnavailable
                | Some look \<Rightarrow>
                    (case look uid of
                       None \<Rightarrow> Inl CheckUnavailable
                     | Some None \<Rightarrow> Inr user
                     | Some (Some r) \<Rightarrow> if blocks r cap then Inl (Denied cap (restriction_reason r)) else Inr user))))"

section \<open>Lemmas\<close>

lemma bucket_loop_days:
  "bucket_loop seen fmt today start =
     map (\<lambda>d. (fmt d, case seen d of Some c \<Rightarrow> c | None \<Rightarrow> 0)) [start..today]"
proof (induction seen fmt today start rule: bucket_loop.induct)
  case (1 seen fmt today cursor)
  show ?case
  proof (cases "cursor \<le> today")
    case True
    then have "[cursor..today] = cursor # [cursor + 1..today]" by (simp add: upto_rec1)
    with True 1 show ?thesis by (subst bucket_loop.simps) simp
  qed (subst bucket_loop.simps, simp)
qed

text \<open>The history of renames: every account waits for the cooldown, no two accounts hold one handle, and every account's row shows its last
  rename.\<close>

definition gaps_ok :: "handle_rename list \<Rightarrow> bool" where
  "gaps_ok rs \<longleftrightarrow> sorted_wrt (\<lambda>r r'. rename_user r = rename_user r' \<longrightarrow> renamed_at r + COOLDOWN \<le> renamed_at r') rs"

definition renames_ok :: "(string \<Rightarrow> string) \<Rightarrow> rename_store \<Rightarrow> bool" where
  "renames_ok sql_lower st \<longleftrightarrow>
     hmap_ok (users st) \<and> distinct (map (\<lambda>(i, u). sql_lower (user_handle u)) (users st)) \<and> gaps_ok (renames st) \<and>
     (\<forall>r\<in>set (renames st). \<exists>u. map_of (users st) (rename_user r) = Some u \<and> (\<exists>t. user_changed_at u = Some t \<and> renamed_at r \<le> t))"

inductive rename_step :: "(string \<Rightarrow> string) \<Rightarrow> (string \<Rightarrow> string \<Rightarrow> bool) \<Rightarrow> (string \<times> string \<Rightarrow> columns \<Rightarrow> bool) \<Rightarrow> rename_store \<Rightarrow> rename_store \<Rightarrow> bool" for sql_lower sql_gt clash where
  Rename: "rename_step sql_lower sql_gt clash st (snd (rename_handle sql_lower sql_gt clash user new now st))"

definition folds_case :: "(string \<Rightarrow> string) \<Rightarrow> bool" where
  "folds_case sql_lower \<longleftrightarrow> (\<forall>a b. eq_ignore_ascii_case a b \<longrightarrow> sql_lower a = sql_lower b)"

lemma rename_handle_cases:
  obtains (refused) e where "rename_handle sql_lower sql_gt clash user new now st = (Inl e, st)"
  | (renamed) u r u' cs where "map_of (users st) user = Some u" "rename_handle sql_lower sql_gt clash user new now st =
      (Inr r, st\<lparr>users := hmap_insert user u' (users st), renames := renames st @ [r], cells := order_friendships sql_lower sql_gt new cs\<rparr>)"
      "rename_user r = user" "old_handle r = user_handle u" "renamed_to r = new" "renamed_at r = now"
      "\<forall>t. user_changed_at u = Some t \<longrightarrow> t + COOLDOWN \<le> now"
      "eq_ignore_ascii_case (user_handle u) new \<or> (\<forall>(i, v)\<in>set (users st). sql_lower (user_handle v) = sql_lower new \<longrightarrow> i = user)"
      "user_handle u' = new" "user_changed_at u' = Some now"
      "rewrite_columns sql_lower clash (user_handle u) new HANDLE_COLUMNS (cells st) = Some cs"
proof (cases "map_of (users st) user")
  case None
  then show ?thesis using refused by (simp add: rename_handle_def)
next
  case (Some u)
  let ?ev = "evaluate \<lparr>subject_handle = user_handle u, rsi_verified = user_verified u, last_handle_change_at = user_changed_at u\<rparr> new now"
  let ?moved = "\<not> eq_ignore_ascii_case (user_handle u) new"
  let ?taken = "list_ex (\<lambda>(i, v). sql_lower (user_handle v) = sql_lower new \<and> i \<noteq> user) (users st)"
  let ?held = "list_ex (\<lambda>r. sql_lower (old_handle r) = sql_lower new \<and> now < reserved_until r \<and> rename_user r \<noteq> user) (renames st)"
  let ?cs = "rewrite_columns sql_lower clash (user_handle u) new HANDLE_COLUMNS (cells st)"
  show ?thesis
  proof (cases "(\<exists>e. ?ev = Inl e) \<or> ?moved \<and> (?taken \<or> ?held) \<or> ?cs = None")
    case True
    then have "\<exists>e. rename_handle sql_lower sql_gt clash user new now st = (Inl e, st)" using Some by (cases ?ev) (auto simp: rename_handle_def Let_def)
    then show ?thesis using refused by blast
  next
    case False
    then obtain kd cs where kd: "?ev = Inr kd" "?cs = Some cs" by (cases ?ev) auto
    then have "\<forall>t. user_changed_at u = Some t \<longrightarrow> t + COOLDOWN \<le> now" by (auto simp: evaluate_def split: if_splits)
    moreover have "eq_ignore_ascii_case (user_handle u) new \<or> (\<forall>(i, v)\<in>set (users st). sql_lower (user_handle v) = sql_lower new \<longrightarrow> i = user)"
      using False by (auto simp: list_ex_iff)
    ultimately show ?thesis using Some kd False
      by (intro renamed [where u = u and cs = cs and u' = "\<lparr>user_handle = new, user_verified = False, user_changed_at = Some now,
          user_localpart = (case user_localpart u of Some l \<Rightarrow> Some l | None \<Rightarrow> Some (sql_lower (user_handle u)))\<rparr>"])
        (auto simp: rename_handle_def Let_def)
  qed
qed

lemma user_handles_distinct_update:
  assumes "hmap_ok m" "distinct (map (\<lambda>(i, u). f u) m)" "\<forall>(i, v)\<in>set m. f v = f new \<longrightarrow> i = k"
  shows "distinct (map (\<lambda>(i, u). f u) (hmap_insert k new m))"
proof -
  have "distinct (map (\<lambda>(i, u). f u) (filter (\<lambda>(i, u). i \<noteq> k) m))" using assms(2) by (rule distinct_map_filter)
  moreover have "f new \<notin> (\<lambda>(i, u). f u) ` set (filter (\<lambda>(i, u). i \<noteq> k) m)" using assms(3) by fastforce
  ultimately show ?thesis by (simp add: hmap_insert_def hmap_remove_def case_prod_unfold)
qed

lemma own_handle_only:
  assumes "hmap_ok m" "distinct (map (\<lambda>(i, u). f u) m)" "map_of m k = Some u" "(i, v) \<in> set m" "f v = f u"
  shows "i = k"
proof -
  have "(k, u) \<in> set m" using assms(3) by (rule map_of_SomeD)
  then have "(i, v) = (k, u)" using assms(2,4,5) by (auto simp: distinct_map inj_on_def)
  then show ?thesis by simp
qed

lemma rename_step_ok:
  assumes "rename_step sql_lower sql_gt clash st st'" "renames_ok sql_lower st" "folds_case sql_lower"
  shows "renames_ok sql_lower st'"
  using assms(1)
proof cases
  case (Rename user new now)
  show ?thesis
  proof (cases rule: rename_handle_cases [of sql_lower sql_gt clash user new now st])
    case (refused e)
    then show ?thesis using Rename assms(2) by simp
  next
    case (renamed u r u' cs)
    note ok = assms(2) [unfolded renames_ok_def]
    have only: "\<forall>(i, v)\<in>set (users st). sql_lower (user_handle v) = sql_lower (user_handle u') \<longrightarrow> i = user"
      using renamed(8,9) own_handle_only [of "users st" "\<lambda>u. sql_lower (user_handle u)" user u] ok renamed(1) assms(3)
      unfolding folds_case_def by fastforce
    have wait: "\<forall>r'\<in>set (renames st). rename_user r' = user \<longrightarrow> renamed_at r' + COOLDOWN \<le> now"
      using ok renamed(1,7) by fastforce
    have "distinct (map (\<lambda>(i, u). sql_lower (user_handle u)) (hmap_insert user u' (users st)))"
      using user_handles_distinct_update [of "users st" "\<lambda>u. sql_lower (user_handle u)" u' user] ok only by simp
    moreover have "gaps_ok (renames st @ [r])" using ok wait renamed(3,6) by (auto simp: gaps_ok_def sorted_wrt_append)
    moreover have "\<forall>r'\<in>set (renames st @ [r]). \<exists>u. map_of (hmap_insert user u' (users st)) (rename_user r') = Some u \<and>
        (\<exists>t. user_changed_at u = Some t \<and> renamed_at r' \<le> t)"
      using ok wait renamed(3,6,10) by (auto simp: hm.lookup_insert COOLDOWN_def split: if_splits)
    ultimately show ?thesis using Rename renamed(2) ok by (simp add: renames_ok_def hm.invar_insert)
  qed
qed

lemma index_apply_ok: "hmap_ok m \<Longrightarrow> hmap_ok (index_apply m r)"
  by (simp add: index_apply_def Let_def hm.invar_insert)

lemma replace_all_snoc: "replace_all_renames (rs @ [r]) = index_apply (replace_all_renames rs) r"
  by (simp add: replace_all_renames_def)

lemma replace_all_ok: "hmap_ok (replace_all_renames rs)"
  by (induction rs rule: rev_induct) (simp_all add: replace_all_snoc index_apply_ok, simp add: replace_all_renames_def hmap_ok_def)

lemma replace_all_lookup_snoc:
  "map_of (replace_all_renames (rs @ [r])) k =
     (if k = rename_user r
      then Some \<lparr>current_handle = renamed_to r,
                 previous_handles = old_handle r # filter (\<lambda>h. \<not> eq_ignore_ascii_case h (old_handle r) \<and> \<not> eq_ignore_ascii_case h (renamed_to r))
                   (case map_of (replace_all_renames rs) k of Some a \<Rightarrow> previous_handles a | None \<Rightarrow> []),
                 last_renamed_at = renamed_at r\<rparr>
      else map_of (replace_all_renames rs) k)"
  by (simp add: replace_all_snoc index_apply_def Let_def hm.lookup_insert replace_all_ok split: option.splits)

lemma split_snoc:
  "(\<exists>r pre post. rs @ [x] = pre @ r # post \<and> P r post) \<longleftrightarrow> P x [] \<or> (\<exists>r pre post. rs = pre @ r # post \<and> P r (post @ [x]))"
proof
  assume "\<exists>r pre post. rs @ [x] = pre @ r # post \<and> P r post"
  then obtain r pre post where h: "rs @ [x] = pre @ r # post" "P r post" by blast
  then show "P x [] \<or> (\<exists>r pre post. rs = pre @ r # post \<and> P r (post @ [x]))" by (cases post rule: rev_cases) auto
next
  assume "P x [] \<or> (\<exists>r pre post. rs = pre @ r # post \<and> P r (post @ [x]))"
  then show "\<exists>r pre post. rs @ [x] = pre @ r # post \<and> P r post"
  proof
    assume "\<exists>r pre post. rs = pre @ r # post \<and> P r (post @ [x])"
    then show ?thesis by fastforce
  qed blast
qed

lemma index_known: "map_of (replace_all_renames rs) u = None \<longleftrightarrow> (\<forall>r\<in>set rs. rename_user r \<noteq> u)"
  by (induction rs rule: rev_induct) (auto simp: replace_all_lookup_snoc, simp add: replace_all_renames_def)

lemma index_current:
  "map_of (replace_all_renames rs) u = Some a \<Longrightarrow>
     \<exists>r pre post. rs = pre @ r # post \<and> rename_user r = u \<and> (\<forall>r'\<in>set post. rename_user r' \<noteq> u) \<and>
       current_handle a = renamed_to r \<and> last_renamed_at a = renamed_at r"
proof (induction rs rule: rev_induct)
  case (snoc x rs)
  then show ?case unfolding split_snoc by (cases "u = rename_user x") (auto simp: replace_all_lookup_snoc)
qed (simp add: replace_all_renames_def)

definition left_for :: "string \<Rightarrow> string \<Rightarrow> handle_rename list \<Rightarrow> bool" where
  "left_for u h rs \<longleftrightarrow>
     (\<exists>r pre post. rs = pre @ r # post \<and> rename_user r = u \<and> eq_ignore_ascii_case h (old_handle r) \<and>
        (\<forall>r'\<in>set post. rename_user r' = u \<longrightarrow> \<not> eq_ignore_ascii_case h (renamed_to r')))"

lemma left_for_snoc:
  "left_for u h (rs @ [x]) \<longleftrightarrow>
     rename_user x = u \<and> eq_ignore_ascii_case h (old_handle x) \<or>
     left_for u h rs \<and> (rename_user x = u \<longrightarrow> \<not> eq_ignore_ascii_case h (renamed_to x))"
  unfolding left_for_def split_snoc by auto

lemma index_previous:
  "list_ex (eq_ignore_ascii_case h) (case map_of (replace_all_renames rs) u of Some a \<Rightarrow> previous_handles a | None \<Rightarrow> []) \<longleftrightarrow> left_for u h rs"
proof (induction rs rule: rev_induct)
  case Nil
  then show ?case by (simp add: replace_all_renames_def left_for_def)
next
  case (snoc x rs)
  then show ?case
    by (cases "u = rename_user x") (auto simp: replace_all_lookup_snoc left_for_snoc list_ex_iff eq_ignore_ascii_case_def)
qed

lemma HANDLE_COLUMNS_distinct: "distinct HANDLE_COLUMNS"
  and friendship_columns: "(''friendships'', ''handle_a'') \<in> set HANDLE_COLUMNS" "(''friendships'', ''handle_b'') \<in> set HANDLE_COLUMNS"
  by code_simp+

lemma rewrite_columns_spec:
  "rewrite_columns sql_lower clash old new cols cs = Some cs' \<Longrightarrow> distinct cols \<Longrightarrow>
     cs' c = (if c \<in> set cols then map (rewrite_cell sql_lower old new) (cs c) else cs c)"
  by (induction cols arbitrary: cs) (auto simp: Let_def split: if_splits)

lemma rewrite_cell_gone:
  "\<forall>v. sql_lower (sql_lower v) = sql_lower v \<Longrightarrow> sql_lower new \<noteq> sql_lower old \<Longrightarrow> sql_lower (rewrite_cell sql_lower old new v) \<noteq> sql_lower old"
  by (auto simp: rewrite_cell_def)

lemma lower_rewrite_cell:
  "\<forall>v. sql_lower (sql_lower v) = sql_lower v \<Longrightarrow>
     sql_lower (rewrite_cell sql_lower old new v) = (if sql_lower v = sql_lower old then sql_lower new else sql_lower v)"
  by (simp add: rewrite_cell_def)

lemma turn_friendship_ordered:
  assumes "\<forall>v. sql_lower (sql_lower v) = sql_lower v" "\<forall>x y. sql_gt x y \<longrightarrow> \<not> sql_gt y x" "\<not> sql_gt (sql_lower a) (sql_lower b)"
  shows "case turn_friendship sql_lower sql_gt new (rewrite_cell sql_lower old new a, rewrite_cell sql_lower old new b) of
      (x, y) \<Rightarrow> \<not> sql_gt (sql_lower x) (sql_lower y)"
  using assms(2,3) by (auto simp: turn_friendship_def lower_rewrite_cell [OF assms(1)])

lemma order_friendships_pairs: "friendships_of (order_friendships sql_lower sql_gt new cs) = map (turn_friendship sql_lower sql_gt new) (friendships_of cs)"
  by (simp add: friendships_of_def order_friendships_def Let_def zip_map_fst_snd del: map_map)

lemma order_friendships_cells:
  "set (order_friendships sql_lower sql_gt new cs c) \<subseteq>
     (if c \<in> {(''friendships'', ''handle_a''), (''friendships'', ''handle_b'')}
      then set (cs (''friendships'', ''handle_a'')) \<union> set (cs (''friendships'', ''handle_b'')) else set (cs c))"
  by (auto simp: order_friendships_def Let_def turn_friendship_def dest: set_zip_leftD set_zip_rightD split: if_splits)

lemma renamed_friendships:
  assumes "rename_handle sql_lower sql_gt clash user new now st = (Inr r, st')"
  shows "friendships_of (cells st') = map (\<lambda>(a, b). turn_friendship sql_lower sql_gt new
    (rewrite_cell sql_lower (old_handle r) new a, rewrite_cell sql_lower (old_handle r) new b)) (friendships_of (cells st))"
proof (cases rule: rename_handle_cases [of sql_lower sql_gt clash user new now st])
  case (refused e)
  then show ?thesis using assms by simp
next
  case (renamed u r' u' cs)
  then have r: "old_handle r = user_handle u" and cells: "cells st' = order_friendships sql_lower sql_gt new cs" using assms by auto
  note cols = rewrite_columns_spec [OF renamed(11) HANDLE_COLUMNS_distinct]
  have "friendships_of cs = map (map_prod (rewrite_cell sql_lower (old_handle r) new) (rewrite_cell sql_lower (old_handle r) new)) (friendships_of (cells st))"
    by (simp add: friendships_of_def cols friendship_columns r zip_map_map map_prod_def)
  then show ?thesis unfolding cells order_friendships_pairs by (simp add: case_prod_unfold map_prod_def)
qed

text \<open>Where the collation is the byte order a rename keeps friends findable; where it is not, a rename can turn a pair so that no lookup finds it.\<close>

lemma rename_keeps_friends:
  assumes "rename_handle to_ascii_lowercase (\<lambda>x y. y < x) clash user new now st = (Inr r, st')"
    and "are_friends to_ascii_lowercase (cells st) (old_handle r) b" "\<not> eq_ignore_ascii_case (old_handle r) b"
  shows "are_friends to_ascii_lowercase (cells st') new b"
proof -
  let ?rw = "rewrite_cell to_ascii_lowercase (old_handle r) new"
  obtain p q where pq: "(p, q) \<in> set (friendships_of (cells st))"
      "to_ascii_lowercase p = to_ascii_lowercase (old_handle r) \<and> to_ascii_lowercase q = to_ascii_lowercase b \<or>
       to_ascii_lowercase p = to_ascii_lowercase b \<and> to_ascii_lowercase q = to_ascii_lowercase (old_handle r)"
    using assms(2) by (auto simp: are_friends_def list_ex_iff ordered_pair_def split: if_splits)
  let ?t = "turn_friendship to_ascii_lowercase (\<lambda>x y. y < x) new (?rw p, ?rw q)"
  have "?t \<in> set (friendships_of (cells st'))" unfolding renamed_friendships [OF assms(1)] using pq(1) by (force simp: image_iff)
  moreover have "to_ascii_lowercase (fst ?t) = to_ascii_lowercase (fst (ordered_pair new b))" "to_ascii_lowercase (snd ?t) = to_ascii_lowercase (snd (ordered_pair new b))"
    using pq(2) assms(3) by (auto simp: turn_friendship_def ordered_pair_def lower_rewrite_cell to_ascii_lowercase_idem eq_ignore_ascii_case_def)
  ultimately show ?thesis unfolding are_friends_def list_ex_iff by (force simp: case_prod_unfold)
qed

lemma collation_loses_friend:
  assumes "rename_handle to_ascii_lowercase sql_gt clash user new now st = (Inr r, st')"
    and "friendships_of (cells st) = [(old_handle r, b)]" "\<not> eq_ignore_ascii_case (old_handle r) b"
    and "to_ascii_lowercase new < to_ascii_lowercase b" "sql_gt (to_ascii_lowercase new) (to_ascii_lowercase b)"
  shows "\<not> are_friends to_ascii_lowercase (cells st') new b"
  using assms(3-5) unfolding are_friends_def renamed_friendships [OF assms(1)] assms(2)
  by (auto simp: turn_friendship_def ordered_pair_def lower_rewrite_cell to_ascii_lowercase_idem eq_ignore_ascii_case_def)

interpretation rename_sys: step_system "rename_step sql_lower sql_gt clash"
    "\<lambda>st. renames st = [] \<and> hmap_ok (users st) \<and> distinct (map (\<lambda>(i, u). sql_lower (user_handle u)) (users st))"
    "\<lambda>st. folds_case sql_lower \<longrightarrow> renames_ok sql_lower st" for sql_lower sql_gt clash
  by unfold_locales (simp add: renames_ok_def gaps_ok_def, blast intro: rename_step_ok)

section \<open>Properties\<close>

text \<open>C17. However accounts are renamed, and at whatever times the requests arrive: no two accounts ever hold the same handle up to case, and two
  renames of one account lie at least the cooldown apart.\<close>

theorem renames_reachable_ok:
  assumes "(rename_step sql_lower sql_gt clash)\<^sup>*\<^sup>* st0 st" "renames st0 = []" "hmap_ok (users st0)"
    and "distinct (map (\<lambda>(i, u). sql_lower (user_handle u)) (users st0))" "folds_case sql_lower"
  shows "distinct (map (\<lambda>(i, u). sql_lower (user_handle u)) (users st)) \<and>
    sorted_wrt (\<lambda>r r'. rename_user r = rename_user r' \<longrightarrow> renamed_at r + COOLDOWN \<le> renamed_at r') (renames st)"
proof -
  have "folds_case sql_lower \<longrightarrow> renames_ok sql_lower st"
    using assms(2-4) by (intro rename_sys.inv_reachable [OF assms(1)]) simp
  then have "renames_ok sql_lower st" using assms(5) by simp
  then show ?thesis by (simp add: renames_ok_def gaps_ok_def)
qed

theorem renames_reachable_ok_witness:
  "\<exists>st. (rename_step to_ascii_lowercase (\<lambda>x y. y < x) (\<lambda>_ _. False))\<^sup>*\<^sup>*
       \<lparr>users = [(''u'', \<lparr>user_handle = ''Ann'', user_verified = True, user_changed_at = None, user_localpart = None\<rparr>),
                 (''v'', \<lparr>user_handle = ''Bob'', user_verified = False, user_changed_at = None, user_localpart = None\<rparr>)], renames = [], cells = (\<lambda>_. [])\<rparr> st \<and>
     length (renames st) = 1 \<and> distinct (map (\<lambda>(i, u). to_ascii_lowercase (user_handle u)) (users st))"
proof -
  let ?origin = "\<lparr>users = [(''u'', \<lparr>user_handle = ''Ann'', user_verified = True, user_changed_at = None, user_localpart = None\<rparr>),
                 (''v'', \<lparr>user_handle = ''Bob'', user_verified = False, user_changed_at = None, user_localpart = None\<rparr>)], renames = [], cells = (\<lambda>_. [])\<rparr>"
  let ?final = "snd (rename_handle to_ascii_lowercase (\<lambda>x y. y < x) (\<lambda>_ _. False) ''u'' ''Eve'' 0 ?origin)"
  have run: "(rename_step to_ascii_lowercase (\<lambda>x y. y < x) (\<lambda>_ _. False))\<^sup>*\<^sup>* ?origin ?final"
    using rtranclp.rtrancl_into_rtrancl [OF rtranclp.rtrancl_refl [of "rename_step to_ascii_lowercase (\<lambda>x y. y < x) (\<lambda>_ _. False)" ?origin] rename_step.Rename] by blast
  have start: "renames ?origin = []" "hmap_ok (users ?origin)" "distinct (map (\<lambda>(i, u). to_ascii_lowercase (user_handle u)) (users ?origin))"
      and one: "length (renames ?final) = 1"
    by code_simp+
  have "folds_case to_ascii_lowercase" by (simp add: folds_case_def eq_ignore_ascii_case_def)
  from renames_reachable_ok [OF run start this] run one show ?thesis by blast
qed

text \<open>C18. A rename that succeeds and changes more than the case of the handle leaves no trace of the old one: no column of the list holds it any more in any
  case.  Friendships that stood in the order of the database's collation before the rename, of whatever collation, stand in it afterwards.\<close>

theorem rename_moves_every_column:
  assumes "rename_handle sql_lower sql_gt clash user new now st = (Inr r, st')" "\<forall>v. sql_lower (sql_lower v) = sql_lower v"
    and "\<forall>x y. sql_gt x y \<longrightarrow> \<not> sql_gt y x"
  shows "(sql_lower new \<noteq> sql_lower (old_handle r) \<longrightarrow> (\<forall>c\<in>set HANDLE_COLUMNS. \<forall>v\<in>set (cells st' c). sql_lower v \<noteq> sql_lower (old_handle r))) \<and>
    (list_all (\<lambda>(a, b). \<not> sql_gt (sql_lower a) (sql_lower b)) (friendships_of (cells st)) \<longrightarrow>
     list_all (\<lambda>(a, b). \<not> sql_gt (sql_lower a) (sql_lower b)) (friendships_of (cells st')))"
proof (intro conjI impI)
  assume "list_all (\<lambda>(a, b). \<not> sql_gt (sql_lower a) (sql_lower b)) (friendships_of (cells st))"
  then show "list_all (\<lambda>(a, b). \<not> sql_gt (sql_lower a) (sql_lower b)) (friendships_of (cells st'))"
    unfolding renamed_friendships [OF assms(1)] list_all_iff set_map ball_simps(9)
    using turn_friendship_ordered [OF assms(2,3)] by (simp add: case_prod_unfold)
next
  assume new: "sql_lower new \<noteq> sql_lower (old_handle r)"
  show "\<forall>c\<in>set HANDLE_COLUMNS. \<forall>v\<in>set (cells st' c). sql_lower v \<noteq> sql_lower (old_handle r)"
  proof (cases rule: rename_handle_cases [of sql_lower sql_gt clash user new now st])
    case (refused e)
    then show ?thesis using assms(1) by simp
  next
    case (renamed u r' u' cs)
    then have r: "old_handle r = user_handle u" and cells: "cells st' = order_friendships sql_lower sql_gt new cs" using assms(1) by auto
    have gone: "sql_lower v \<noteq> sql_lower (old_handle r)" if "c \<in> set HANDLE_COLUMNS" "v \<in> set (cs c)" for c v
      using that rewrite_cell_gone [OF assms(2) new] by (auto simp: rewrite_columns_spec [OF renamed(11) HANDLE_COLUMNS_distinct] r)
    show ?thesis
    proof (intro ballI)
      fix c v
      assume "c \<in> set HANDLE_COLUMNS" "v \<in> set (cells st' c)"
      then show "sql_lower v \<noteq> sql_lower (old_handle r)"
        using order_friendships_cells [of sql_lower sql_gt new cs c] gone [of c v] gone [OF friendship_columns(1), of v] gone [OF friendship_columns(2), of v]
        unfolding cells by (auto split: if_splits)
    qed
  qed
qed

theorem rename_moves_every_column_witness:
  "\<exists>r st'. rename_handle to_ascii_lowercase (\<lambda>x y. y < x) (\<lambda>_ _. False) ''u'' ''Zoe'' 0
       \<lparr>users = [(''u'', \<lparr>user_handle = ''Ann'', user_verified = True, user_changed_at = None, user_localpart = None\<rparr>)], renames = [],
        cells = (\<lambda>c. if c = (''friendships'', ''handle_a'') then [''ann''] else if c = (''friendships'', ''handle_b'') then [''bob''] else [])\<rparr> = (Inr r, st') \<and>
     cells st' (''friendships'', ''handle_a'') = [''bob''] \<and>
     list_all (\<lambda>(a, b). \<not> to_ascii_lowercase b < to_ascii_lowercase a) (friendships_of (cells st')) \<and>
     (\<forall>c\<in>set HANDLE_COLUMNS. \<forall>v\<in>set (cells st' c). to_ascii_lowercase v \<noteq> ''ann'')"
proof -
  let ?origin = "\<lparr>users = [(''u'', \<lparr>user_handle = ''Ann'', user_verified = True, user_changed_at = None, user_localpart = None\<rparr>)], renames = [],
        cells = (\<lambda>c. if c = (''friendships'', ''handle_a'') then [''ann''] else if c = (''friendships'', ''handle_b'') then [''bob''] else [])\<rparr>"
  let ?gt = "\<lambda>x y :: string. y < x"
  let ?run = "rename_handle to_ascii_lowercase ?gt (\<lambda>_ _. False) ''u'' ''Zoe'' 0 ?origin"
  have "case ?run of (Inr r, st') \<Rightarrow> old_handle r = ''Ann'' \<and> cells st' (''friendships'', ''handle_a'') = [''bob''] | _ \<Rightarrow> False" by code_simp
  then obtain r st' where run: "?run = (Inr r, st')" "old_handle r = ''Ann''" "cells st' (''friendships'', ''handle_a'') = [''bob'']"
    by (cases ?run; cases "fst ?run") auto
  have fold: "\<forall>v. to_ascii_lowercase (to_ascii_lowercase v) = to_ascii_lowercase v" by (simp add: to_ascii_lowercase_idem)
  have asym: "\<forall>x y. ?gt x y \<longrightarrow> \<not> ?gt y x" by auto
  have low: "to_ascii_lowercase ''Zoe'' \<noteq> to_ascii_lowercase (old_handle r)" "to_ascii_lowercase (old_handle r) = ''ann''" unfolding run(2) by code_simp+
  have "list_all (\<lambda>(a, b). \<not> ?gt (to_ascii_lowercase a) (to_ascii_lowercase b)) (friendships_of (cells ?origin))" by code_simp
  then show ?thesis using rename_moves_every_column [OF run(1) fold asym] run(1,3) low by auto
qed

text \<open>The rename index holds the truth of the recorded renames: it knows exactly the accounts that were renamed; each has the handle of its last
  rename; an old handle is accepted for it exactly when the account left it and has not come back to it since, up to case; and a token
  that names another handle acts as the current one exactly when it was issued no later than the last rename.\<close>

theorem index_holds_last_rename:
  "(map_of (replace_all_renames rs) u = None \<longleftrightarrow> (\<forall>r\<in>set rs. rename_user r \<noteq> u)) \<and>
   (\<forall>a. map_of (replace_all_renames rs) u = Some a \<longrightarrow>
      (\<exists>r pre post. rs = pre @ r # post \<and> rename_user r = u \<and> (\<forall>r'\<in>set post. rename_user r' \<noteq> u) \<and>
         current_handle a = renamed_to r \<and> last_renamed_at a = renamed_at r) \<and>
      (\<forall>h. list_ex (eq_ignore_ascii_case h) (previous_handles a) \<longleftrightarrow>
         (\<exists>r pre post. rs = pre @ r # post \<and> rename_user r = u \<and> eq_ignore_ascii_case h (old_handle r) \<and>
            (\<forall>r'\<in>set post. rename_user r' = u \<longrightarrow> \<not> eq_ignore_ascii_case h (renamed_to r')))))"
  using index_known [of rs u] index_current [of rs u] index_previous [of _ rs u] unfolding left_for_def [symmetric] by auto

text \<open>The guard of the ingest route fails closed: a request passes exactly when its token verifies, a device token names an active device, the
  account's id parses, the restrictions can be read and the account is not barred; the user it passes is the token's, under the current handle.\<close>

theorem guard_passes_iff:
  "require_unrestricted cap env bearer = Inr user \<longleftrightarrow>
     (\<exists>tok c look uid. bearer = Some tok \<and> verify_token env tok = Inr c \<and> user = current_user env c \<and>
        (claim_type c = DeviceToken \<longrightarrow> (\<exists>d. claim_device c = Some d \<and> device_status env d = Some DeviceActive)) \<and>
        parse_uuid env (claim_sub c) = Some uid \<and> restriction_store env = Some look \<and>
        (look uid = Some None \<or> (\<exists>r. look uid = Some (Some r) \<and> \<not> blocks r cap)))"
proof -
  have same: "sub (current_user env c) = claim_sub c" "user_token_type (current_user env c) = claim_type c"
      "user_device (current_user env c) = claim_device c" for c
    by (auto simp: current_user_def Let_def split: option.splits)
  show ?thesis
    by (auto simp: require_unrestricted_def extract_user_def same Let_def split: option.splits sum.splits if_splits device_auth_status.splits)
qed

end
