(* ===== verification/Audit_Log.thy ===== *)
theory Audit_Log
  imports Json
begin

text \<open>
  The hash-chained audit log of the server (\<open>crates/starstats-server/src/audit.rs\<close>, \<open>migrations/0002_audit_log.sql\<close>): canonical payloads, the queue that takes
  entries off the request path, the single background writer with its chained INSERT, and the trigger that checks the chain.  SHA-256 and
  serde's printer are parameters.  A write can fail before the INSERT or after it; as in Postgres a rolled back INSERT has still drawn a value
  of the sequence behind the \<open>seq\<close> column.

  The lemmas show that the chain holds under every interleaving of appends, writes and failures, that no entry is reordered or written twice,
  what a verified chain protects, and what it does not.
\<close>

section \<open>Canonical payloads\<close>

fun sort_keys :: "json \<Rightarrow> json" where
  "sort_keys (JObject m) =
     JObject (foldl (\<lambda>acc (k, v). btree_insert k v acc) [] (sort_key fst (map (\<lambda>(k, v). (k, sort_keys v)) m)))"
| "sort_keys (JArray xs) = JArray (map sort_keys xs)"
| "sort_keys v = v"

definition canonicalize :: "(json \<Rightarrow> string option) \<Rightarrow> json \<Rightarrow> string option" where
  "canonicalize to_vec v = to_vec (sort_keys v)"

section \<open>The table\<close>

record audit_entry =
  actor_sub :: "string option"
  actor_handle :: "string option"
  audit_action :: string
  audit_payload :: json

record audit_row =
  audit_seq :: nat
  occurred_at :: int
  row_entry :: audit_entry
  prev_hash :: string
  row_hash :: string

record audit_table =
  audit_rows :: "audit_row list"
  seq_value :: nat

definition GENESIS_HASH :: string where
  "GENESIS_HASH = replicate 32 (CHR 0x00)"

definition tail_hash :: "audit_row list \<Rightarrow> string" where
  "tail_hash rows = (if rows = [] then GENESIS_HASH else row_hash (last rows))"

definition next_audit_seq :: "audit_row list \<Rightarrow> nat" where
  "next_audit_seq rows = (if rows = [] then 1 else audit_seq (last rows) + 1)"

text \<open>\<open>nextval\<close> hands out the next value whether or not the transaction commits.\<close>

definition audit_log_check_chain :: "audit_row list \<Rightarrow> audit_row \<Rightarrow> bool" where
  "audit_log_check_chain rows r \<longleftrightarrow> prev_hash r = tail_hash rows"

datatype write_fate = Commits | FailsEarly | RollsBack

record audit_env =
  sha256 :: "string \<Rightarrow> string"
  json_to_vec :: "json \<Rightarrow> string option"

definition hash_input :: "string \<Rightarrow> string \<Rightarrow> nat \<Rightarrow> string" where
  "hash_input prev canonical sq = prev @ canonical @ show_nat sq"

text \<open>The INSERT violates the unique index when the hash is already there, and then rolls back as well.\<close>

definition write_one :: "audit_env \<Rightarrow> audit_entry \<Rightarrow> int \<Rightarrow> write_fate \<Rightarrow> audit_table \<Rightarrow> bool \<times> audit_table" where
  "write_one env e at_time fate t =
     (case canonicalize (json_to_vec env) (audit_payload e) of
        None \<Rightarrow> (False, t)
      | Some canonical \<Rightarrow>
          if fate = FailsEarly then (False, t)
          else
            let next_seq = next_audit_seq (audit_rows t);
                prev = tail_hash (audit_rows t);
                r = \<lparr>audit_seq = seq_value t, occurred_at = at_time, row_entry = e, prev_hash = prev,
                     row_hash = sha256 env (hash_input prev canonical next_seq)\<rparr>;
                t' = t\<lparr>seq_value := seq_value t + 1\<rparr>
            in if fate = RollsBack \<or> \<not> audit_log_check_chain (audit_rows t) r \<or> list_ex (\<lambda>q. row_hash q = row_hash r) (audit_rows t)
               then (False, t')
               else (True, t'\<lparr>audit_rows := audit_rows t @ [r]\<rparr>))"

section \<open>The queue and its writer\<close>

text \<open>An append waits while the queue is full, so it ends in the queue unless the channel is closed; the entry is then dropped.\<close>

record audit_log =
  audit_queue :: "(audit_entry \<times> int) list"
  channel_open :: bool
  audit_table_of :: audit_table

definition audit_append :: "audit_entry \<Rightarrow> int \<Rightarrow> audit_log \<Rightarrow> audit_log" where
  "audit_append e now lg = (if channel_open lg then lg\<lparr>audit_queue := audit_queue lg @ [(e, now)]\<rparr> else lg)"

definition write_metered :: "audit_env \<Rightarrow> write_fate \<Rightarrow> audit_log \<Rightarrow> audit_log" where
  "write_metered env fate lg =
     (case audit_queue lg of
        [] \<Rightarrow> lg
      | (e, now) # q \<Rightarrow> lg\<lparr>audit_queue := q, audit_table_of := snd (write_one env e now fate (audit_table_of lg))\<rparr>)"

fun drain_queue :: "audit_env \<Rightarrow> write_fate list \<Rightarrow> audit_log \<Rightarrow> audit_log" where
  "drain_queue env [] lg = lg"
| "drain_queue env (f # fs) lg = drain_queue env fs (write_metered env f lg)"

text \<open>Shutting down closes the channel and writes what is queued, each entry with its own fate.\<close>

definition shutdown_and_drain :: "audit_env \<Rightarrow> (nat \<Rightarrow> write_fate) \<Rightarrow> audit_log \<Rightarrow> audit_log" where
  "shutdown_and_drain env fates lg = drain_queue env (map fates [0..<length (audit_queue lg)]) (lg\<lparr>channel_open := False\<rparr>)"

definition empty_audit_log :: audit_log where
  "empty_audit_log = \<lparr>audit_queue = [], channel_open = True, audit_table_of = \<lparr>audit_rows = [], seq_value = 1\<rparr>\<rparr>"

text \<open>Steps carry the entries accepted so far.\<close>

inductive audit_step :: "audit_env \<Rightarrow> (audit_entry \<times> int) list \<times> audit_log \<Rightarrow> (audit_entry \<times> int) list \<times> audit_log \<Rightarrow> bool" for env where
  Append: "audit_step env (acc, lg) (if channel_open lg then acc @ [(e, now)] else acc, audit_append e now lg)"
| Write: "audit_step env (acc, lg) (acc, write_metered env fate lg)"
| Shutdown: "audit_step env (acc, lg) (acc, shutdown_and_drain env fates lg)"

section \<open>Chains\<close>

fun chained :: "string \<Rightarrow> audit_row list \<Rightarrow> bool" where
  "chained h [] \<longleftrightarrow> True"
| "chained h (r # rs) \<longleftrightarrow> prev_hash r = h \<and> chained (row_hash r) rs"

text \<open>A specification, for which the server has no routine of its own.  What the migration promises of every row: its hash is that of its predecessor's hash, its canonical payload and its own number.\<close>

definition row_verifies :: "audit_env \<Rightarrow> audit_row \<Rightarrow> bool" where
  "row_verifies env r \<longleftrightarrow>
     (case canonicalize (json_to_vec env) (audit_payload (row_entry r)) of
        None \<Rightarrow> False
      | Some canonical \<Rightarrow> row_hash r = sha256 env (hash_input (prev_hash r) canonical (audit_seq r)))"

definition verify_chain :: "audit_env \<Rightarrow> audit_row list \<Rightarrow> bool" where
  "verify_chain env rows \<longleftrightarrow> chained GENESIS_HASH rows \<and> list_all (row_verifies env) rows"

lemma chained_snoc: "chained h (rs @ [r]) \<longleftrightarrow> chained h rs \<and> prev_hash r = (if rs = [] then h else row_hash (last rs))"
  by (induction rs arbitrary: h) auto

lemma tail_hash_snoc [simp]: "tail_hash (rs @ [r]) = row_hash r"
  by (simp add: tail_hash_def)

lemma write_one_cases:
  obtains (failed) k where "write_one env e now fate t = (False, t\<lparr>seq_value := seq_value t + k\<rparr>)"
  | (written) r canonical where "write_one env e now fate t = (True, t\<lparr>audit_rows := audit_rows t @ [r], seq_value := seq_value t + 1\<rparr>)"
      "canonicalize (json_to_vec env) (audit_payload e) = Some canonical" "audit_seq r = seq_value t" "occurred_at r = now" "row_entry r = e"
      "prev_hash r = tail_hash (audit_rows t)" "row_hash r = sha256 env (hash_input (prev_hash r) canonical (next_audit_seq (audit_rows t)))"
      "\<forall>q\<in>set (audit_rows t). row_hash q \<noteq> row_hash r" "fate = Commits"
proof (cases "canonicalize (json_to_vec env) (audit_payload e)")
  case None
  then show ?thesis using failed [of 0] by (simp add: write_one_def)
next
  case (Some canonical)
  let ?r = "\<lparr>audit_seq = seq_value t, occurred_at = now, row_entry = e, prev_hash = tail_hash (audit_rows t),
     row_hash = sha256 env (hash_input (tail_hash (audit_rows t)) canonical (next_audit_seq (audit_rows t)))\<rparr>"
  show ?thesis
  proof (cases "fate = Commits \<and> (\<forall>q\<in>set (audit_rows t). row_hash q \<noteq> row_hash ?r)")
    case True
    then show ?thesis using Some
      by (intro written [of ?r canonical]) (auto simp: write_one_def Let_def audit_log_check_chain_def list_ex_iff)
  next
    case False
    then show ?thesis using Some failed [of 0] failed [of 1]
      by (cases fate) (auto simp: write_one_def Let_def audit_log_check_chain_def list_ex_iff)
  qed
qed

lemma digits_value_show_nat: "digits_value (show_nat n) = n"
proof (induction n rule: show_nat.induct)
  case (1 n)
  have "of_char (char_of (48 + n mod 10) :: char) - 48 = n mod 10" by simp
  with 1 show ?case by (cases "n < 10") (simp_all add: digits_value_def show_nat.simps [of n])
qed

lemma show_nat_inj: "show_nat m = show_nat n \<longleftrightarrow> m = n"
  by (metis digits_value_show_nat)

text \<open>The bytes that are hashed for the rows of a table.\<close>

definition row_input :: "audit_env \<Rightarrow> audit_row \<Rightarrow> string" where
  "row_input env r =
     (case canonicalize (json_to_vec env) (audit_payload (row_entry r)) of None \<Rightarrow> [] | Some c \<Rightarrow> hash_input (prev_hash r) c (audit_seq r))"

lemma tail_hash_length:
  assumes "list_all (row_verifies env) rows" "\<forall>x. length (sha256 env x) = 32"
  shows "length (tail_hash rows) = 32"
  using assms by (cases rows rule: rev_cases) (auto simp: tail_hash_def GENESIS_HASH_def row_verifies_def split: option.splits)

section \<open>What the steps keep\<close>

definition entries_of :: "audit_row list \<Rightarrow> (audit_entry \<times> int) list" where
  "entries_of rows = map (\<lambda>r. (row_entry r, occurred_at r)) rows"

definition table_ok :: "audit_table \<Rightarrow> bool" where
  "table_ok t \<longleftrightarrow>
     chained GENESIS_HASH (audit_rows t) \<and> distinct (map row_hash (audit_rows t)) \<and> sorted_wrt (<) (map audit_seq (audit_rows t)) \<and>
     (\<forall>r\<in>set (audit_rows t). audit_seq r < seq_value t)"

definition log_ok :: "(audit_entry \<times> int) list \<times> audit_log \<Rightarrow> bool" where
  "log_ok s \<longleftrightarrow>
     (case s of (acc, lg) \<Rightarrow>
        table_ok (audit_table_of lg) \<and>
        (\<exists>processed. acc = processed @ audit_queue lg \<and> subseq (entries_of (audit_rows (audit_table_of lg))) processed))"

lemma write_one_ok:
  assumes "table_ok t"
  shows "table_ok (snd (write_one env e now fate t)) \<and>
    (audit_rows (snd (write_one env e now fate t)) = audit_rows t \<or>
     entries_of (audit_rows (snd (write_one env e now fate t))) = entries_of (audit_rows t) @ [(e, now)])"
proof (cases rule: write_one_cases [of env e now fate t])
  case (failed k)
  then show ?thesis using assms by (auto simp: table_ok_def)
next
  case (written r canonical)
  then show ?thesis using assms
    by (auto simp: table_ok_def entries_of_def chained_snoc sorted_wrt_append tail_hash_def less_Suc_eq split: if_splits)
qed

lemma write_metered_ok:
  assumes "log_ok (acc, lg)"
  shows "log_ok (acc, write_metered env fate lg)"
proof (cases "audit_queue lg")
  case Nil
  then show ?thesis using assms by (simp add: write_metered_def)
next
  case (Cons p q)
  obtain e now where p: "p = (e, now)" by fastforce
  from assms obtain processed where ok: "table_ok (audit_table_of lg)" "acc = processed @ (e, now) # q"
      "subseq (entries_of (audit_rows (audit_table_of lg))) processed"
    using Cons p by (auto simp: log_ok_def)
  let ?t = "snd (write_one env e now fate (audit_table_of lg))"
  have "subseq (entries_of (audit_rows ?t)) (processed @ [(e, now)])"
    using write_one_ok [OF ok(1), of env e now fate] ok(3) by (auto intro: subseq_order.trans list_emb_append2)
  moreover have "table_ok ?t" using write_one_ok [OF ok(1)] by blast
  ultimately show ?thesis using Cons p ok(2)
    by (auto simp: log_ok_def write_metered_def intro!: exI [of _ "processed @ [(e, now)]"])
qed

lemma drain_queue_ok: "log_ok (acc, lg) \<Longrightarrow> log_ok (acc, drain_queue env fates lg)"
  by (induction fates arbitrary: lg) (simp_all add: write_metered_ok)

lemma audit_step_ok: "audit_step env s s' \<Longrightarrow> log_ok s \<Longrightarrow> log_ok s'"
proof (induction rule: audit_step.induct)
  case (Append acc lg e now)
  then show ?case by (auto simp: audit_append_def log_ok_def)
next
  case (Write acc lg fate)
  then show ?case by (rule write_metered_ok)
next
  case (Shutdown acc lg fates)
  then have "log_ok (acc, lg\<lparr>channel_open := False\<rparr>)" by (simp add: log_ok_def)
  then show ?case by (simp add: shutdown_and_drain_def drain_queue_ok)
qed

interpretation audit_sys: step_system "audit_step env" "\<lambda>s. s = ([], empty_audit_log)" log_ok for env
  by unfold_locales (simp add: log_ok_def table_ok_def empty_audit_log_def entries_of_def, rule audit_step_ok)

section \<open>Properties\<close>

text \<open>C15. Under every interleaving of appends, background writes and a shutdown, with writes failing at any point: each row's \<open>prev_hash\<close> is the
  hash of the row before it, numbers grow and hashes do not repeat, and the rows are the accepted entries in the order of their
  acceptance, each at most once, with the time of acceptance; those not yet written stand in the queue.\<close>

theorem audit_chain_holds:
  assumes "(audit_step env)\<^sup>*\<^sup>* ([], empty_audit_log) (acc, lg)"
  shows "chained GENESIS_HASH (audit_rows (audit_table_of lg)) \<and> sorted_wrt (<) (map audit_seq (audit_rows (audit_table_of lg))) \<and>
    distinct (map row_hash (audit_rows (audit_table_of lg))) \<and>
    (\<exists>processed. acc = processed @ audit_queue lg \<and>
       subseq (map (\<lambda>r. (row_entry r, occurred_at r)) (audit_rows (audit_table_of lg))) processed)"
proof -
  have "log_ok (acc, lg)" using audit_sys.inv_reachable [OF assms] by simp
  then show ?thesis by (auto simp: log_ok_def table_ok_def entries_of_def)
qed

theorem audit_chain_holds_witness:
  "\<exists>lg. (audit_step \<lparr>sha256 = (\<lambda>x. x), json_to_vec = (\<lambda>_. Some [])\<rparr>)\<^sup>*\<^sup>* ([], empty_audit_log)
       ([(\<lparr>actor_sub = None, actor_handle = None, audit_action = ''a'', audit_payload = JNull\<rparr>, 7)], lg) \<and>
     chained GENESIS_HASH (audit_rows (audit_table_of lg)) \<and> length (audit_rows (audit_table_of lg)) = 1"
proof -
  let ?env = "\<lparr>sha256 = (\<lambda>x. x), json_to_vec = (\<lambda>_. Some [])\<rparr>"
  let ?e = "\<lparr>actor_sub = None, actor_handle = None, audit_action = ''a'', audit_payload = JNull\<rparr>"
  let ?mid = "audit_append ?e 7 empty_audit_log"
  let ?fin = "write_metered ?env Commits ?mid"
  have "audit_step ?env ([], empty_audit_log) ([(?e, 7)], ?mid)"
    using audit_step.Append [of ?env "[]" empty_audit_log ?e 7] by (simp add: empty_audit_log_def)
  then have run: "(audit_step ?env)\<^sup>*\<^sup>* ([], empty_audit_log) ([(?e, 7)], ?fin)"
    using audit_step.Write [of ?env "[(?e, 7)]" ?mid Commits] by (meson converse_rtranclp_into_rtranclp rtranclp.rtrancl_refl)
  have "length (audit_rows (audit_table_of ?fin)) = 1" by code_simp
  with audit_chain_holds [OF run] run show ?thesis by blast
qed

text \<open>C16. What a verified chain protects: two tables that verify, carry the same numbers and end in the same hash have the same canonical payloads in every
  row, as long as SHA-256 gives 32 bytes and does not collide on the bytes hashed for them.\<close>

theorem verified_chain_binds_payloads:
  assumes "verify_chain env rows" "verify_chain env rows'" "map audit_seq rows = map audit_seq rows'" "tail_hash rows = tail_hash rows'"
    and "inj_on (sha256 env) (row_input env ` (set rows \<union> set rows'))" "\<forall>x. length (sha256 env x) = 32"
  shows "map (\<lambda>r. canonicalize (json_to_vec env) (audit_payload (row_entry r))) rows =
    map (\<lambda>r. canonicalize (json_to_vec env) (audit_payload (row_entry r))) rows'"
  using assms(1-5)
proof (induction rows arbitrary: rows' rule: rev_induct)
  case Nil
  then show ?case by simp
next
  case (snoc r rows)
  then obtain qs q where q: "rows' = qs @ [q]" by (cases rows' rule: rev_cases) auto
  note prems = snoc.prems [unfolded q]
  obtain c where c: "canonicalize (json_to_vec env) (audit_payload (row_entry r)) = Some c" "row_hash r = sha256 env (row_input env r)"
    using prems(1) by (auto simp: verify_chain_def row_verifies_def row_input_def split: option.splits)
  obtain d where d: "canonicalize (json_to_vec env) (audit_payload (row_entry q)) = Some d" "row_hash q = sha256 env (row_input env q)"
    using prems(2) by (auto simp: verify_chain_def row_verifies_def row_input_def split: option.splits)
  have "row_input env r = row_input env q"
    by (rule inj_onD [OF prems(5)]) (use prems(4) c(2) d(2) in simp_all)
  moreover have "length (prev_hash r) = 32" "length (prev_hash q) = 32"
    using prems(1,2) tail_hash_length [OF _ assms(6), of rows] tail_hash_length [OF _ assms(6), of qs]
    by (auto simp: verify_chain_def chained_snoc tail_hash_def)
  ultimately have same: "prev_hash r = prev_hash q" "c = d" using prems(3) c(1) d(1) by (auto simp: row_input_def hash_input_def)
  have "map (\<lambda>r. canonicalize (json_to_vec env) (audit_payload (row_entry r))) rows =
      map (\<lambda>r. canonicalize (json_to_vec env) (audit_payload (row_entry r))) qs"
  proof (rule snoc.IH)
    show "verify_chain env rows" "verify_chain env qs" using prems(1,2) by (simp_all add: verify_chain_def chained_snoc)
    show "map audit_seq rows = map audit_seq qs" using prems(3) by simp
    show "tail_hash rows = tail_hash qs" using prems(1,2) same(1) by (auto simp: verify_chain_def chained_snoc tail_hash_def split: if_splits)
    show "inj_on (sha256 env) (row_input env ` (set rows \<union> set qs))" using prems(5) by (rule inj_on_subset) auto
  qed
  then show ?case using q c(1) d(1) same(2) by simp
qed

text \<open>A hash of the right length that does not collide on short inputs.\<close>

definition pad32 :: "string \<Rightarrow> string" where
  "pad32 x = take 32 (rev x @ replicate 32 (CHR 0x00))"

theorem verified_chain_binds_payloads_witness:
  "\<exists>rows rows'. rows \<noteq> rows' \<and> verify_chain \<lparr>sha256 = pad32, json_to_vec = (\<lambda>_. Some [])\<rparr> rows \<and>
     verify_chain \<lparr>sha256 = pad32, json_to_vec = (\<lambda>_. Some [])\<rparr> rows' \<and>
     map (\<lambda>r. canonicalize (\<lambda>_. Some []) (audit_payload (row_entry r))) rows = map (\<lambda>r. canonicalize (\<lambda>_. Some []) (audit_payload (row_entry r))) rows'"
proof -
  let ?env = "\<lparr>sha256 = pad32, json_to_vec = (\<lambda>_. Some [])\<rparr>"
  let ?e = "\<lambda>a. \<lparr>actor_sub = None, actor_handle = None, audit_action = a, audit_payload = JNull\<rparr>"
  let ?rows = "\<lambda>a. audit_rows (snd (write_one ?env (?e a) 7 Commits \<lparr>audit_rows = [], seq_value = 1\<rparr>))"
  have ok: "verify_chain ?env (?rows ''a'')" "verify_chain ?env (?rows ''b'')" "map audit_seq (?rows ''a'') = map audit_seq (?rows ''b'')"
      "tail_hash (?rows ''a'') = tail_hash (?rows ''b'')" and new: "map (audit_action \<circ> row_entry) (?rows ''a'') \<noteq> map (audit_action \<circ> row_entry) (?rows ''b'')"
    by code_simp+
  have inj: "inj_on (sha256 ?env) (row_input ?env ` (set (?rows ''a'') \<union> set (?rows ''b'')))" by code_simp
  have len: "\<forall>x. length (sha256 ?env x) = 32" by (simp add: pad32_def min_def)
  from verified_chain_binds_payloads [OF ok inj len] ok(1,2) new show ?thesis by (metis audit_env.select_convs(2))
qed

text \<open>C40. What the chain does not protect: the writer hashes the previous hash, the payload and the number only.  Two entries with the same payload, written to the same
  table, give rows with the same number and the same two hashes, whatever their actors, their actions and their times; so the table that holds the other row verifies
  as well or as badly.\<close>

theorem writer_ignores_actor:
  assumes "audit_payload e' = audit_payload e" "write_one env e now fate t = (ok, t1)" "write_one env e' now' fate t = (ok', t1')"
  shows "ok' = ok \<and> map row_hash (audit_rows t1') = map row_hash (audit_rows t1) \<and> map prev_hash (audit_rows t1') = map prev_hash (audit_rows t1) \<and>
    map audit_seq (audit_rows t1') = map audit_seq (audit_rows t1) \<and> verify_chain env (audit_rows t1') = verify_chain env (audit_rows t1)"
proof (cases "canonicalize (json_to_vec env) (audit_payload e)")
  case None
  then show ?thesis using assms by (simp add: write_one_def)
next
  case (Some c)
  let ?hash = "sha256 env (hash_input (tail_hash (audit_rows t)) c (next_audit_seq (audit_rows t)))"
  let ?row = "\<lambda>e tm. \<lparr>audit_seq = seq_value t, occurred_at = tm, row_entry = e, prev_hash = tail_hash (audit_rows t), row_hash = ?hash\<rparr>"
  have once: "write_one env x tm fate t =
      (if fate = FailsEarly then (False, t)
       else if fate = RollsBack \<or> list_ex (\<lambda>q. row_hash q = ?hash) (audit_rows t) then (False, t\<lparr>seq_value := seq_value t + 1\<rparr>)
       else (True, t\<lparr>seq_value := seq_value t + 1, audit_rows := audit_rows t @ [?row x tm]\<rparr>))" if "audit_payload x = audit_payload e" for x tm
    using that Some by (simp add: write_one_def Let_def audit_log_check_chain_def)
  have "row_verifies env (?row e' now') = row_verifies env (?row e now)" using assms(1) by (simp add: row_verifies_def split: option.splits)
  moreover have "fate = FailsEarly \<or> fate = RollsBack \<or> fate = Commits" by (cases fate) simp_all
  ultimately show ?thesis using assms(2,3) once [OF refl, of now] once [OF assms(1), of now']
    by (elim disjE; cases "list_ex (\<lambda>q. row_hash q = ?hash) (audit_rows t)") (simp_all add: verify_chain_def chained_snoc)
qed

theorem writer_ignores_actor_witness:
  "\<exists>t1 t1'. write_one \<lparr>sha256 = pad32, json_to_vec = (\<lambda>_. Some [])\<rparr> \<lparr>actor_sub = Some ''u'', actor_handle = None, audit_action = ''a'', audit_payload = JNull\<rparr>
       7 Commits \<lparr>audit_rows = [], seq_value = 1\<rparr> = (True, t1) \<and>
     write_one \<lparr>sha256 = pad32, json_to_vec = (\<lambda>_. Some [])\<rparr> \<lparr>actor_sub = Some ''v'', actor_handle = None, audit_action = ''b'', audit_payload = JNull\<rparr>
       8 Commits \<lparr>audit_rows = [], seq_value = 1\<rparr> = (True, t1') \<and> t1' \<noteq> t1 \<and> map row_hash (audit_rows t1') = map row_hash (audit_rows t1)"
proof -
  let ?env = "\<lparr>sha256 = pad32, json_to_vec = (\<lambda>_. Some [])\<rparr>"
  let ?t = "\<lparr>audit_rows = [], seq_value = 1\<rparr>"
  let ?a = "\<lparr>actor_sub = Some ''u'', actor_handle = None, audit_action = ''a'', audit_payload = JNull\<rparr>"
  let ?b = "\<lparr>actor_sub = Some ''v'', actor_handle = None, audit_action = ''b'', audit_payload = JNull\<rparr>"
  let ?A = "write_one ?env ?a 7 Commits ?t" and ?B = "write_one ?env ?b 8 Commits ?t"
  have ev: "fst ?A" "fst ?B" "map occurred_at (audit_rows (snd ?B)) \<noteq> map occurred_at (audit_rows (snd ?A))" by code_simp+
  then have run: "?A = (True, snd ?A)" "?B = (True, snd ?B)" by (simp_all only: prod_eq_iff fst_conv snd_conv simp_thms)
  have "audit_payload ?b = audit_payload ?a" by simp
  from writer_ignores_actor [OF this run] have "map row_hash (audit_rows (snd ?B)) = map row_hash (audit_rows (snd ?A))" by blast
  moreover have "snd ?B \<noteq> snd ?A" by (rule notI) (use ev(3) in \<open>simp only: simp_thms\<close>)
  ultimately show ?thesis by (intro exI [of _ "snd ?A"] exI [of _ "snd ?B"] conjI run)
qed

text \<open>C39. A rolled back insertion leaves a gap in the numbers, and the row after it no longer verifies although nobody touched it: its hash was computed
  with the number of its predecessor plus one, the row carries the number of the sequence.\<close>

theorem rollback_breaks_verification:
  assumes "write_one env e now RollsBack t = (False, t1)" "canonicalize (json_to_vec env) (audit_payload e) \<noteq> None"
    and "write_one env e' now' Commits t1 = (True, t2)" "seq_value t = next_audit_seq (audit_rows t)"
    and "canonicalize (json_to_vec env) (audit_payload e') = Some c"
    and "inj_on (sha256 env) {hash_input (tail_hash (audit_rows t)) c (seq_value t), hash_input (tail_hash (audit_rows t)) c (seq_value t + 1)}"
  shows "\<not> verify_chain env (audit_rows t2)"
proof -
  have t1: "t1 = t\<lparr>seq_value := seq_value t + 1\<rparr>" using assms(1,2) by (auto simp: write_one_def Let_def split: option.splits)
  show ?thesis
  proof (cases rule: write_one_cases [of env e' now' Commits t1])
    case (failed k)
    then show ?thesis using assms(3) by simp
  next
    case (written r c')
    have "row_hash r = sha256 env (hash_input (tail_hash (audit_rows t)) c (seq_value t))" "audit_seq r = seq_value t + 1"
      using written t1 assms(4,5) by simp_all
    moreover have "hash_input (tail_hash (audit_rows t)) c (seq_value t) \<noteq> hash_input (tail_hash (audit_rows t)) c (seq_value t + 1)"
      by (simp add: hash_input_def show_nat_inj)
    ultimately have "\<not> row_verifies env r" using written(5,6) t1 assms(5,6) by (auto simp: row_verifies_def inj_on_def)
    then show ?thesis using written(1) assms(3) by (auto simp: verify_chain_def)
  qed
qed

theorem rollback_breaks_verification_witness:
  "\<exists>t1 t2. write_one \<lparr>sha256 = pad32, json_to_vec = (\<lambda>_. Some [])\<rparr> \<lparr>actor_sub = None, actor_handle = None, audit_action = ''a'', audit_payload = JNull\<rparr>
       7 RollsBack \<lparr>audit_rows = [], seq_value = 1\<rparr> = (False, t1) \<and>
     write_one \<lparr>sha256 = pad32, json_to_vec = (\<lambda>_. Some [])\<rparr> \<lparr>actor_sub = None, actor_handle = None, audit_action = ''b'', audit_payload = JNull\<rparr>
       8 Commits t1 = (True, t2) \<and> \<not> verify_chain \<lparr>sha256 = pad32, json_to_vec = (\<lambda>_. Some [])\<rparr> (audit_rows t2)"
proof -
  let ?env = "\<lparr>sha256 = pad32, json_to_vec = (\<lambda>_. Some [])\<rparr>"
  let ?t = "\<lparr>audit_rows = [], seq_value = 1\<rparr>"
  let ?a = "\<lparr>actor_sub = None, actor_handle = None, audit_action = ''a'', audit_payload = JNull\<rparr>"
  let ?b = "\<lparr>actor_sub = None, actor_handle = None, audit_action = ''b'', audit_payload = JNull\<rparr>"
  let ?one = "snd (write_one ?env ?a 7 RollsBack ?t)"
  have first: "write_one ?env ?a 7 RollsBack ?t = (False, ?one)" by code_simp
  have "fst (write_one ?env ?b 8 Commits ?one)" by code_simp
  then have second: "write_one ?env ?b 8 Commits ?one = (True, snd (write_one ?env ?b 8 Commits ?one))" by (metis prod.collapse)
  have "canonicalize (json_to_vec ?env) (audit_payload ?a) \<noteq> None" "seq_value ?t = next_audit_seq (audit_rows ?t)"
      "canonicalize (json_to_vec ?env) (audit_payload ?b) = Some []"
    by code_simp+
  moreover have "inj_on (sha256 ?env) {hash_input (tail_hash (audit_rows ?t)) [] (seq_value ?t), hash_input (tail_hash (audit_rows ?t)) [] (seq_value ?t + 1)}"
    by code_simp
  ultimately show ?thesis using rollback_breaks_verification [OF first _ second, of "[]"] first second by blast
qed

end
