(* ===== verification/Location_Catalog.thy ===== *)
theory Location_Catalog
  imports Location_Taxonomy
begin

text \<open>
  The in-memory location catalogue (\<open>crates/starstats-core/src/location_catalog.rs\<close>): its three indices, the token statistics of
  the display names, the inverted index over rare tokens and the fuzzy match.  Hash maps are association lists with distinct keys.

  The lemmas show that a lookup returns the last present entry with the key, and that the fuzzy match is the best eligible entry of
  the whole catalogue: the inverted index, a pruning device, never hides one.
\<close>

section \<open>Entries and indices\<close>

record location_catalog_entry =
  slug :: string
  display_name :: string
  class_name :: string
  system :: "string option"
  parent_body :: "string option"
  engine_tag :: "string option"
  classification :: "string option"
  taxonomy :: location_taxonomy

definition is_present :: "location_catalog_entry \<Rightarrow> bool" where
  "is_present e \<longleftrightarrow> location_catalog_entry.slug e \<noteq> [] \<and> location_catalog_entry.display_name e \<noteq> []"

record location_catalog =
  entries :: "location_catalog_entry list"
  by_engine_tag :: "(string, location_catalog_entry) hmap"
  by_slug :: "(string, location_catalog_entry) hmap"
  by_normalized_name :: "(string, location_catalog_entry) hmap"
  entry_tokens :: "string list list"
  name_token_df :: "(string, u32) hmap"
  name_token_index :: "(string, nat list) hmap"

definition location_catalog_default :: location_catalog where
  "location_catalog_default =
     \<lparr>entries = [], by_engine_tag = [], by_slug = [], by_normalized_name = [], entry_tokens = [], name_token_df = [],
      name_token_index = []\<rparr>"

definition MAX_INDEX_DF :: u32 where
  "MAX_INDEX_DF = 40"

definition FUZZY_ANCHOR_DF :: u32 where
  "FUZZY_ANCHOR_DF = 4"

definition AFFILIATION_NOISE :: "string list" where
  "AFFILIATION_NOISE =
     [''hydro'', ''dynamics'', ''corp'', ''corporation'', ''industries'', ''industrial'', ''manufacturing'', ''security'',
      ''logistics'', ''aerospace'']"

section \<open>Tokens\<close>

definition normalize_name :: "string \<Rightarrow> string" where
  "normalize_name s = map char_to_ascii_lowercase (filter is_ascii_alphanumeric s)"

definition SYSTEM_TOKENS :: "string list" where
  "SYSTEM_TOKENS = [''stanton'', ''pyro'', ''nyx'', ''castra'', ''terra'', ''sol'']"

datatype token_kind = UpperK | LowerK | DigitK | OtherK

definition kind_of_char :: "char \<Rightarrow> token_kind" where
  "kind_of_char c =
     (if is_ascii_digit c then DigitK else if is_ascii_uppercase c then UpperK
      else if is_ascii_lowercase c then LowerK else OtherK)"

definition token_boundary :: "token_kind option \<Rightarrow> token_kind \<Rightarrow> bool" where
  "token_boundary prev k \<longleftrightarrow>
     k = OtherK \<or> prev = Some OtherK \<or>
     (prev, k) \<in> {(Some LowerK, UpperK), (Some DigitK, UpperK), (Some LowerK, DigitK), (Some UpperK, DigitK), (Some DigitK, LowerK)}"

text \<open>The loop over the characters: finished tokens, the current one, the kind of the previous character.\<close>

fun token_step :: "string list \<times> string \<times> token_kind option \<Rightarrow> char \<Rightarrow> string list \<times> string \<times> token_kind option" where
  "token_step (toks, cur, prev) c =
     (let k = kind_of_char c;
          flush = token_boundary prev k \<and> cur \<noteq> [];
          toks' = (if flush then toks @ [cur] else toks);
          cur' = (if flush then [] else cur)
      in (toks', if k \<noteq> OtherK then cur' @ [char_to_ascii_lowercase c] else cur', Some k))"

definition content_tokens :: "string \<Rightarrow> string list" where
  "content_tokens s =
     (let (toks, cur, _) = foldl token_step ([], [], None) s;
          toks' = (if cur \<noteq> [] then toks @ [cur] else toks)
      in filter (\<lambda>t. (3 \<le> length t \<or> list_all is_ascii_digit t) \<and> t \<notin> set SYSTEM_TOKENS) toks')"

section \<open>Building\<close>

definition bump_df :: "(string, u32) hmap \<Rightarrow> string \<Rightarrow> (string, u32) hmap" where
  "bump_df m tok = hmap_insert tok ((case map_of m tok of Some n \<Rightarrow> n | None \<Rightarrow> 0) + 1) m"

definition push_index :: "(string, nat list) hmap \<Rightarrow> string \<Rightarrow> nat \<Rightarrow> (string, nat list) hmap" where
  "push_index m tok i = hmap_insert tok ((case map_of m tok of Some is \<Rightarrow> is | None \<Rightarrow> []) @ [i]) m"

definition add_entry :: "location_catalog \<Rightarrow> location_catalog_entry \<Rightarrow> location_catalog" where
  "add_entry cat e =
     (if \<not> is_present e then cat
      else
        let toks = remdups_adj (sort (content_tokens (location_catalog_entry.display_name e)))
        in cat\<lparr>by_engine_tag := (case engine_tag e of
                                   None \<Rightarrow> by_engine_tag cat
                                 | Some t \<Rightarrow> hmap_insert (to_ascii_lowercase t) e (by_engine_tag cat)),
               by_slug := hmap_insert (to_ascii_lowercase (location_catalog_entry.slug e)) e (by_slug cat),
               by_normalized_name :=
                 hmap_insert (normalize_name (location_catalog_entry.display_name e)) e (by_normalized_name cat),
               name_token_df := foldl bump_df (name_token_df cat) toks,
               entry_tokens := entry_tokens cat @ [toks],
               entries := entries cat @ [e]\<rparr>)"

definition df_of :: "location_catalog \<Rightarrow> u32 \<Rightarrow> string \<Rightarrow> u32" where
  "df_of cat dflt tok = (case map_of (name_token_df cat) tok of Some n \<Rightarrow> n | None \<Rightarrow> dflt)"

fun index_entry :: "location_catalog \<Rightarrow> (string, nat list) hmap \<Rightarrow> nat \<times> string list \<Rightarrow> (string, nat list) hmap" where
  "index_entry cat m (i, toks) =
     foldl (\<lambda>m tok. if df_of cat 0 tok \<le> MAX_INDEX_DF then push_index m tok i else m) m toks"

definition from_entries :: "location_catalog_entry list \<Rightarrow> location_catalog" where
  "from_entries es =
     (let cat = foldl add_entry location_catalog_default es
      in cat\<lparr>name_token_index := foldl (index_entry cat) [] (enumerate 0 (entry_tokens cat))\<rparr>)"

section \<open>Fuzzy match\<close>

record scored =
  idx :: nat
  score :: rat
  shared :: nat

definition query_of :: "string list \<Rightarrow> string list" where
  "query_of query_tokens =
     foldl (\<lambda>q tok. if tok \<in> set q then q else q @ [tok]) [] (concat (map content_tokens query_tokens))"

definition candidates_of :: "location_catalog \<Rightarrow> string list \<Rightarrow> nat list" where
  "candidates_of cat query =
     remdups_adj (sort (concat (map (\<lambda>tok. case map_of (name_token_index cat) tok of Some is \<Rightarrow> is | None \<Rightarrow> []) query)))"

definition is_anchor :: "location_catalog \<Rightarrow> string \<Rightarrow> bool" where
  "is_anchor cat tok \<longleftrightarrow>
     max 1 (df_of cat 1 tok) \<le> FUZZY_ANCHOR_DF \<and> 3 \<le> length tok \<and> \<not> list_all is_ascii_digit tok \<and> tok \<notin> set AFFILIATION_NOISE"

fun score_step :: "location_catalog \<Rightarrow> string list \<Rightarrow> rat \<times> nat \<times> bool \<Rightarrow> string \<Rightarrow> rat \<times> nat \<times> bool" where
  "score_step cat query (sc, sh, anchored) tok =
     (if tok \<notin> set query then (sc, sh, anchored)
      else (f32_add sc (f32_div 1 (f32_of_nat (unat (max 1 (df_of cat 1 tok))))), as_u32 (sh + 1), anchored \<or> is_anchor cat tok))"

definition score_entry :: "location_catalog \<Rightarrow> string list \<Rightarrow> nat \<Rightarrow> rat \<times> nat \<times> bool" where
  "score_entry cat query i = foldl (score_step cat query) (0, 0, False) (entry_tokens cat ! i)"

definition system_conflict :: "string option \<Rightarrow> location_catalog_entry \<Rightarrow> bool" where
  "system_conflict hint e =
     (case (hint, location_catalog_entry.system e) of
        (Some h, Some s) \<Rightarrow> \<not> eq_ignore_ascii_case h s
      | _ \<Rightarrow> False)"

definition scored_better :: "location_catalog \<Rightarrow> scored \<Rightarrow> scored \<Rightarrow> bool" where
  "scored_better cat a b \<longleftrightarrow>
     score b < score a \<or> (score a = score b \<and> shared b < shared a) \<or>
     (score a = score b \<and> shared a = shared b \<and>
      location_catalog_entry.slug (entries cat ! idx a) < location_catalog_entry.slug (entries cat ! idx b))"

definition fuzzy_step :: "location_catalog \<Rightarrow> string list \<Rightarrow> string option \<Rightarrow> scored option \<Rightarrow> nat \<Rightarrow> scored option" where
  "fuzzy_step cat query hint best i =
     (if system_conflict hint (entries cat ! i) then best
      else
        let (sc, sh, anchored) = score_entry cat query i; new = \<lparr>idx = i, score = sc, shared = sh\<rparr>
        in if \<not> anchored then best
           else (case best of None \<Rightarrow> Some new | Some b \<Rightarrow> if scored_better cat new b then Some new else best))"

definition fuzzy_match :: "location_catalog \<Rightarrow> string list \<Rightarrow> string option \<Rightarrow> location_catalog_entry option" where
  "fuzzy_match cat query_tokens hint =
     (let query = query_of query_tokens
      in if query = [] then None
         else map_option (\<lambda>b. entries cat ! idx b)
                (foldl (fuzzy_step cat query hint) None (candidates_of cat query)))"

section \<open>Lookups\<close>

definition catalog_len :: "location_catalog \<Rightarrow> nat" where
  "catalog_len cat = length (entries cat)"

definition lookup_by_engine_tag :: "location_catalog \<Rightarrow> string \<Rightarrow> location_catalog_entry option" where
  "lookup_by_engine_tag cat t = map_of (by_engine_tag cat) (to_ascii_lowercase t)"

definition lookup_by_slug :: "location_catalog \<Rightarrow> string \<Rightarrow> location_catalog_entry option" where
  "lookup_by_slug cat s = map_of (by_slug cat) (to_ascii_lowercase s)"

definition lookup_by_name :: "location_catalog \<Rightarrow> string \<Rightarrow> location_catalog_entry option" where
  "lookup_by_name cat n = map_of (by_normalized_name cat) (normalize_name n)"

definition lookup_by_token :: "location_catalog \<Rightarrow> string \<Rightarrow> location_catalog_entry option" where
  "lookup_by_token cat tok =
     or_else (lookup_by_engine_tag cat tok) (or_else (lookup_by_slug cat tok) (lookup_by_name cat tok))"

section \<open>What a lookup returns\<close>

lemma hmap_lookup_insert: "map_of (hmap_insert k v m) k' = (if k' = k then Some v else map_of m k')"
  by (simp add: hmap_insert_def hmap_lookup_remove)

lemma by_slug_fold:
  "map_of (by_slug (foldl add_entry cat es)) k =
     or_else (find (\<lambda>e. is_present e \<and> to_ascii_lowercase (location_catalog_entry.slug e) = k) (rev es)) (map_of (by_slug cat) k)"
  by (induction es rule: rev_induct) (auto simp: add_entry_def hmap_lookup_insert Let_def)

lemma by_name_fold:
  "map_of (by_normalized_name (foldl add_entry cat es)) k =
     or_else (find (\<lambda>e. is_present e \<and> normalize_name (location_catalog_entry.display_name e) = k) (rev es))
       (map_of (by_normalized_name cat) k)"
  by (induction es rule: rev_induct) (auto simp: add_entry_def hmap_lookup_insert Let_def)

lemma by_engine_tag_fold:
  "map_of (by_engine_tag (foldl add_entry cat es)) k =
     or_else (find (\<lambda>e. is_present e \<and> map_option to_ascii_lowercase (engine_tag e) = Some k) (rev es)) (map_of (by_engine_tag cat) k)"
  by (induction es rule: rev_induct) (auto simp: add_entry_def hmap_lookup_insert Let_def split: option.split)

section \<open>The inverted index\<close>

definition postings :: "(string, nat list) hmap \<Rightarrow> string \<Rightarrow> nat list" where
  "postings m tok = (case map_of m tok of Some is \<Rightarrow> is | None \<Rightarrow> [])"

lemma postings_empty [simp]: "postings [] tok = []"
  by (simp add: postings_def)

lemma postings_push: "postings (push_index m tok i) t = postings m t @ (if t = tok then [i] else [])"
  by (auto simp: postings_def push_index_def hmap_lookup_insert split: option.split)

lemma postings_entry:
  "set (postings (index_entry cat m (i, toks)) t) =
     set (postings m t) \<union> (if t \<in> set toks \<and> df_of cat 0 t \<le> MAX_INDEX_DF then {i} else {})"
proof (induction toks rule: rev_induct)
  case (snoc tok toks)
  then show ?case by (auto simp: postings_push)
qed simp

lemma postings_fold:
  "set (postings (foldl (index_entry cat) m ps) t) =
     set (postings m t) \<union> {i. \<exists>toks. (i, toks) \<in> set ps \<and> t \<in> set toks \<and> df_of cat 0 t \<le> MAX_INDEX_DF}"
proof (induction ps rule: rev_induct)
  case (snoc p ps)
  then show ?case by (cases p) (auto simp: postings_entry simp del: index_entry.simps split: if_splits)
qed simp

lemma catalog_tokens_len: "length (entry_tokens (foldl add_entry cat es)) = length (entries (foldl add_entry cat es))"
  if "length (entry_tokens cat) = length (entries cat)"
  using that by (induction es arbitrary: cat) (auto simp: add_entry_def Let_def)

lemma df_of_index [simp]: "df_of (cat\<lparr>name_token_index := m\<rparr>) = df_of cat"
  by (intro ext) (simp add: df_of_def)

lemma from_entries_index:
  "i \<in> set (postings (name_token_index (from_entries es)) t) \<longleftrightarrow>
     i < length (entries (from_entries es)) \<and> t \<in> set (entry_tokens (from_entries es) ! i) \<and>
     df_of (from_entries es) 0 t \<le> MAX_INDEX_DF"
proof -
  let ?cat = "foldl add_entry location_catalog_default es"
  have len: "length (entry_tokens ?cat) = length (entries ?cat)"
    by (rule catalog_tokens_len) (simp add: location_catalog_default_def)
  have "i \<in> set (postings (foldl (index_entry ?cat) [] (enumerate 0 (entry_tokens ?cat))) t) \<longleftrightarrow>
      (\<exists>toks. (i, toks) \<in> set (enumerate 0 (entry_tokens ?cat)) \<and> t \<in> set toks) \<and> df_of ?cat 0 t \<le> MAX_INDEX_DF"
    by (auto simp: postings_fold)
  also have "\<dots> \<longleftrightarrow> i < length (entry_tokens ?cat) \<and> t \<in> set (entry_tokens ?cat ! i) \<and> df_of ?cat 0 t \<le> MAX_INDEX_DF"
    by (auto simp: in_set_enumerate_eq)
  finally show ?thesis by (simp add: from_entries_def Let_def len)
qed

lemma candidates_set: "i \<in> set (candidates_of cat query) \<longleftrightarrow> (\<exists>tok \<in> set query. i \<in> set (postings (name_token_index cat) tok))"
  by (simp add: candidates_of_def postings_def [abs_def])

section \<open>The best candidate\<close>

text \<open>A scan that keeps the best element seen so far under a strict order.\<close>

locale best_fold =
  fixes better :: "'a \<Rightarrow> 'a \<Rightarrow> bool"
  assumes better_irrefl: "\<not> better x x"
    and better_trans: "better x y \<Longrightarrow> better y z \<Longrightarrow> better x z"
begin

definition keep :: "'a option \<Rightarrow> 'a \<Rightarrow> 'a option" where
  "keep best new = (case best of None \<Rightarrow> Some new | Some b \<Rightarrow> if better new b then Some new else best)"

lemma keep_None: "keep None new = Some new"
  and keep_Some: "keep (Some b) new = (if better new b then Some new else Some b)"
  by (simp_all add: keep_def)

lemma keep_best:
  "case foldl keep None xs of
     None \<Rightarrow> xs = []
   | Some b \<Rightarrow> b \<in> set xs \<and> (\<forall>x \<in> set xs. \<not> better x b)"
proof (induction xs rule: rev_induct)
  case (snoc x xs)
  then show ?case
    using better_irrefl better_trans by (cases "foldl keep None xs") (auto simp: keep_None keep_Some)
qed simp

end

interpretation scored_fold: best_fold "scored_better cat" for cat
  by unfold_locales (auto simp: scored_better_def)

definition scored_of :: "location_catalog \<Rightarrow> string list \<Rightarrow> nat \<Rightarrow> scored" where
  "scored_of cat query i = (case score_entry cat query i of (sc, sh, _) \<Rightarrow> \<lparr>idx = i, score = sc, shared = sh\<rparr>)"

definition eligible :: "location_catalog \<Rightarrow> string list \<Rightarrow> string option \<Rightarrow> nat \<Rightarrow> bool" where
  "eligible cat query hint i \<longleftrightarrow>
     \<not> system_conflict hint (entries cat ! i) \<and>
     (\<exists>tok \<in> set (entry_tokens cat ! i). tok \<in> set query \<and> is_anchor cat tok)"

lemma score_anchored: "snd (snd (foldl (score_step cat query) (sc, sh, a) toks)) \<longleftrightarrow> a \<or> (\<exists>tok \<in> set toks. tok \<in> set query \<and> is_anchor cat tok)"
  by (induction toks arbitrary: sc sh a) auto

lemma fuzzy_step_keep:
  "fuzzy_step cat query hint best i =
     (if eligible cat query hint i then scored_fold.keep cat best (scored_of cat query i) else best)"
proof -
  obtain sc sh a where s: "score_entry cat query i = (sc, sh, a)" by (metis prod_cases3)
  have "a \<longleftrightarrow> (\<exists>tok \<in> set (entry_tokens cat ! i). tok \<in> set query \<and> is_anchor cat tok)"
    using score_anchored [of cat query 0 0 False "entry_tokens cat ! i"] s by (simp add: score_entry_def)
  then show ?thesis
    by (auto simp: fuzzy_step_def eligible_def scored_fold.keep_def scored_of_def s split: option.split)
qed

lemma fuzzy_fold:
  "foldl (fuzzy_step cat query hint) best is =
     foldl (scored_fold.keep cat) best (map (scored_of cat query) (filter (eligible cat query hint) is))"
  by (induction "is" arbitrary: best) (simp_all add: fuzzy_step_keep)

lemma anchor_indexed: "is_anchor cat tok \<Longrightarrow> df_of cat 0 tok \<le> MAX_INDEX_DF"
proof -
  assume "is_anchor cat tok"
  then have "max 1 (df_of cat 1 tok) \<le> 4" by (simp add: is_anchor_def FUZZY_ANCHOR_DF_def)
  then have "df_of cat 1 tok \<le> 4" by simp
  moreover have "df_of cat 0 tok = df_of cat 1 tok \<or> df_of cat 0 tok = 0" by (simp add: df_of_def split: option.split)
  moreover have "(4 :: u32) \<le> 40" by simp
  ultimately show ?thesis unfolding MAX_INDEX_DF_def by (auto intro: order_trans)
qed

lemma eligible_candidate:
  assumes "i < length (entries (from_entries es))" "eligible (from_entries es) query hint i"
  shows "i \<in> set (candidates_of (from_entries es) query)"
  using assms anchor_indexed by (auto simp: candidates_set from_entries_index eligible_def)

lemma candidate_in_range: "i \<in> set (candidates_of (from_entries es) query) \<Longrightarrow> i < length (entries (from_entries es))"
  by (auto simp: candidates_set from_entries_index)

section \<open>Properties\<close>

text \<open>Lookups: each index returns the last present entry whose key agrees with the query up to ASCII case (for names also up to
  every character that is no ASCII letter or digit), and the token lookup asks them in the order tag, slug, name.\<close>

theorem catalog_lookup:
  "lookup_by_engine_tag (from_entries es) t =
     find (\<lambda>e. is_present e \<and> map_option to_ascii_lowercase (engine_tag e) = Some (to_ascii_lowercase t)) (rev es) \<and>
   lookup_by_slug (from_entries es) t =
     find (\<lambda>e. is_present e \<and> eq_ignore_ascii_case (location_catalog_entry.slug e) t) (rev es) \<and>
   lookup_by_name (from_entries es) t =
     find (\<lambda>e. is_present e \<and> normalize_name (location_catalog_entry.display_name e) = normalize_name t) (rev es) \<and>
   lookup_by_token (from_entries es) t =
     or_else (lookup_by_engine_tag (from_entries es) t)
       (or_else (lookup_by_slug (from_entries es) t) (lookup_by_name (from_entries es) t))"
  by (simp add: lookup_by_engine_tag_def lookup_by_slug_def lookup_by_name_def lookup_by_token_def from_entries_def Let_def
      by_slug_fold by_name_fold by_engine_tag_fold location_catalog_default_def eq_ignore_ascii_case_def)

text \<open>C20. The fuzzy match is the best eligible entry of the whole catalogue: eligible are the entries that share an anchor token
  with the query and do not contradict the system hint; no eligible entry scores higher, shares more tokens at the same score,
  or comes first by slug among equals; and nothing is returned only when nothing is eligible.  The inverted index hides no entry.\<close>

theorem fuzzy_match_best:
  "let cat = from_entries es; q = query_of toks
   in case fuzzy_match cat toks hint of
        None \<Rightarrow> \<forall>i < catalog_len cat. \<not> eligible cat q hint i
      | Some e \<Rightarrow> \<exists>i < catalog_len cat. e = entries cat ! i \<and> eligible cat q hint i \<and>
          (\<forall>j < catalog_len cat. eligible cat q hint j \<longrightarrow> \<not> scored_better cat (scored_of cat q j) (scored_of cat q i))"
proof -
  let ?cat = "from_entries es" and ?q = "query_of toks"
  define xs where "xs = map (scored_of ?cat ?q) (filter (eligible ?cat ?q hint) (candidates_of ?cat ?q))"
  have found: "x \<in> set xs \<longleftrightarrow> (\<exists>i < catalog_len ?cat. eligible ?cat ?q hint i \<and> x = scored_of ?cat ?q i)" for x
    unfolding xs_def using eligible_candidate candidate_in_range by (fastforce simp: catalog_len_def)
  have idx: "idx (scored_of ?cat ?q i) = i" for i by (simp add: scored_of_def split: prod.split)
  have fuzzy: "fuzzy_match ?cat toks hint = map_option (\<lambda>b. entries ?cat ! idx b) (foldl (scored_fold.keep ?cat) None xs)"
    by (auto simp: xs_def fuzzy_match_def Let_def fuzzy_fold candidates_of_def)
  note best = scored_fold.keep_best [where cat = ?cat and xs = xs]
  show ?thesis
  proof (cases "foldl (scored_fold.keep ?cat) None xs")
    case None
    with best have "xs = []" by simp
    with found have "\<not> eligible ?cat ?q hint i" if "i < catalog_len ?cat" for i using that by auto
    with None fuzzy show ?thesis by (simp add: Let_def)
  next
    case (Some b)
    with best have b: "b \<in> set xs" "\<forall>x \<in> set xs. \<not> scored_better ?cat x b" by simp_all
    then obtain i where i: "i < catalog_len ?cat" "eligible ?cat ?q hint i" "b = scored_of ?cat ?q i" using found by blast
    have "\<not> scored_better ?cat (scored_of ?cat ?q j) b" if "j < catalog_len ?cat" "eligible ?cat ?q hint j" for j
      using b(2) found that by blast
    with i Some fuzzy idx show ?thesis by (auto simp: Let_def)
  qed
qed

definition sample_entry :: "string \<Rightarrow> string \<Rightarrow> location_catalog_entry" where
  "sample_entry sl name =
     \<lparr>location_catalog_entry.slug = sl, location_catalog_entry.display_name = name, class_name = [], location_catalog_entry.system = None,
      parent_body = None, engine_tag = None, classification = None, taxonomy = location_taxonomy_default\<rparr>"

theorem fuzzy_match_best_witness:
  "\<exists>i < catalog_len (from_entries [sample_entry ''kaltag'' ''Rayari Kaltag Outpost'', sample_entry ''deltana'' ''Rayari Deltana Outpost'']).
     fuzzy_match (from_entries [sample_entry ''kaltag'' ''Rayari Kaltag Outpost'', sample_entry ''deltana'' ''Rayari Deltana Outpost''])
       [''RayariHydro'', ''Deltana''] None =
     Some (entries (from_entries [sample_entry ''kaltag'' ''Rayari Kaltag Outpost'', sample_entry ''deltana'' ''Rayari Deltana Outpost'']) ! i)"
proof -
  let ?es = "[sample_entry ''kaltag'' ''Rayari Kaltag Outpost'', sample_entry ''deltana'' ''Rayari Deltana Outpost'']"
  have "eligible (from_entries ?es) (query_of [''RayariHydro'', ''Deltana'']) None 1 \<and> 1 < catalog_len (from_entries ?es)"
    by code_simp
  with fuzzy_match_best [of ?es "[''RayariHydro'', ''Deltana'']" None] show ?thesis
    by (cases "fuzzy_match (from_entries ?es) [''RayariHydro'', ''Deltana''] None") (auto simp: Let_def)
qed

end
