(* ===== verification/Location_Classifier.thy ===== *)
theory Location_Classifier
  imports Location_Catalog
begin

text \<open>
  The location classifier (\<open>crates/starstats-core/src/location_classifier.rs\<close>): from the engine's raw string to a display name,
  a tier, a system and, where the catalogue has the place, its slug.  The resolution order is that of \<open>classify\<close>: station aliases,
  synthetic patterns, exact tokens, fuzzy match, system tokens, dictionaries, title case.

  The lemmas show that a link always leads to a catalogued place, which inputs make the classifier panic, and that the iteration
  order of the hash map of systems does not matter.
\<close>

section \<open>Classifications\<close>

record location_classification =
  display_name :: string
  slug :: "string option"
  tier :: location_tier
  subtype :: "string option"
  system :: "string option"
  parent_body :: "string option"
  placement :: "placement option"
  engine_tag :: "string option"
  raw :: string
  operator :: "string option"
  faction :: "string option"
  source :: classification_source

definition resolved_location_from :: "location_classification \<Rightarrow> resolved_location" where
  "resolved_location_from c =
     \<lparr>resolved_location.display_name = location_classification.display_name c,
      resolved_location.slug = location_classification.slug c, resolved_location.system = location_classification.system c,
      resolved_location.tier = location_classification.tier c, resolved_location.source = location_classification.source c\<rparr>"

section \<open>Dictionaries\<close>

definition KNOWN_SYSTEMS :: "(string \<times> string) list" where
  "KNOWN_SYSTEMS =
     [(''stanton'', ''Stanton''), (''pyro'', ''Pyro''), (''nyx'', ''Nyx''), (''castra'', ''Castra''), (''terra'', ''Terra''),
      (''sol'', ''Sol'')]"

record body_short_code_meta =
  body_system :: string
  body_display :: string

definition KNOWN_BODY_SHORT_CODES :: "(string \<times> body_short_code_meta) list" where
  "KNOWN_BODY_SHORT_CODES =
     map (\<lambda>(k, sys, body). (k, \<lparr>body_system = sys, body_display = body\<rparr>))
       [(''hur'', ''Stanton'', ''Hurston''), (''cru'', ''Stanton'', ''Crusader''), (''arc'', ''Stanton'', ''ArcCorp''),
        (''mic'', ''Stanton'', ''microTech''), (''hurdyn'', ''Stanton'', ''Hurston''), (''shubin'', ''Stanton'', ''Shubin Outposts''),
        (''hdms'', ''Stanton'', ''HDMS Outposts''), (''rr'', ''Stanton'', ''Rest Stops''),
        (''stantonstar'', ''Stanton'', ''Stanton''), (''pyrostar'', ''Pyro'', ''Pyro''), (''nyxstar'', ''Nyx'', ''Nyx''),
        (''hurston'', ''Stanton'', ''Hurston''), (''crusader'', ''Stanton'', ''Crusader''), (''arccorp'', ''Stanton'', ''ArcCorp''),
        (''microtech'', ''Stanton'', ''microTech''), (''daymar'', ''Stanton'', ''Daymar''), (''yela'', ''Stanton'', ''Yela''),
        (''cellin'', ''Stanton'', ''Cellin''), (''aberdeen'', ''Stanton'', ''Aberdeen''), (''magda'', ''Stanton'', ''Magda''),
        (''ita'', ''Stanton'', ''Ita''), (''arial'', ''Stanton'', ''Arial''), (''ariel'', ''Stanton'', ''Arial''),
        (''wala'', ''Stanton'', ''Wala''), (''lyria'', ''Stanton'', ''Lyria''), (''calliope'', ''Stanton'', ''Calliope''),
        (''clio'', ''Stanton'', ''Clio''), (''euterpe'', ''Stanton'', ''Euterpe''), (''bloom'', ''Pyro'', ''Bloom''),
        (''monox'', ''Pyro'', ''Monox''), (''terminus'', ''Pyro'', ''Terminus''), (''p1'', ''Pyro'', ''Pyro I''),
        (''p2'', ''Pyro'', ''Monox''), (''p3'', ''Pyro'', ''Bloom''), (''p4'', ''Pyro'', ''Pyro IV''), (''p5'', ''Pyro'', ''Pyro V''),
        (''p6'', ''Pyro'', ''Terminus''), (''delamar'', ''Nyx'', ''Delamar''), (''area18'', ''Stanton'', ''Area18''),
        (''a18'', ''Stanton'', ''Area18''), (''lorville'', ''Stanton'', ''Lorville''), (''newbabbage'', ''Stanton'', ''New Babbage''),
        (''orison'', ''Stanton'', ''Orison'')]"

definition body_short_code_system :: "string \<Rightarrow> string option" where
  "body_short_code_system tok = map_option body_system (map_of KNOWN_BODY_SHORT_CODES (to_ascii_lowercase tok))"

definition canonical_system :: "string \<Rightarrow> string option" where
  "canonical_system name = map_of KNOWN_SYSTEMS (to_ascii_lowercase (trim name))"

definition known_systems :: "string list" where
  "known_systems = sort (map snd KNOWN_SYSTEMS)"

section \<open>Tokens\<close>

definition SKIP_SEGMENTS :: "string list" where
  "SKIP_SEGMENTS =
     [''OOC'', ''LOC'', ''PROC'', ''PAD'', ''NPC'', ''AI'', ''PU'', ''LANDINGAREA'', ''OBJECTCONTAINER'', ''NAVPOINT'', ''MISSION'']"

text \<open>The loop over the keys of a hash map, in the order \<open>ks\<close> that the map happens to yield.\<close>

definition split_system_keys :: "string list \<Rightarrow> string \<Rightarrow> string list" where
  "split_system_keys ks seg =
     (case find_map (\<lambda>sys.
             case strip_prefix sys (to_ascii_lowercase seg) of
               Some (c # _) \<Rightarrow> if is_ascii_digit c then Some [take (length sys) seg, drop (length sys) seg] else None
             | _ \<Rightarrow> None) ks of
        Some ts \<Rightarrow> ts
      | None \<Rightarrow> [seg])"

definition split_system_index :: "string \<Rightarrow> string list" where
  "split_system_index seg = split_system_keys (map fst KNOWN_SYSTEMS) seg"

definition strip_tag :: "string \<Rightarrow> string" where
  "strip_tag s =
     (if starts_with s ''['' then (case split_once '']'' s of Some (_, after) \<Rightarrow> after | None \<Rightarrow> s) else s)"

definition strip_and_split :: "string \<Rightarrow> string list" where
  "strip_and_split rw =
     concat (map (\<lambda>seg0. let seg = trim seg0
                         in if seg = [] \<or> to_ascii_uppercase seg \<in> set SKIP_SEGMENTS then [] else split_system_index seg)
       (split_on (\<lambda>c. c = CHR ''_'') (strip_tag (trim rw))))"

fun title_step :: "unicode \<Rightarrow> string \<times> bool \<Rightarrow> string \<Rightarrow> string \<times> bool" where
  "title_step u (out, next_upper) ch =
     (if ch = ''-'' then (out @ ch, True)
      else if next_upper then (out @ upper u ch, False)
      else (out @ lower u ch, False))"

definition title_case_word :: "unicode \<Rightarrow> string \<Rightarrow> string" where
  "title_case_word u s = fst (foldl (title_step u) ([], True) (utf8_chars s))"

definition title_case_segments :: "unicode \<Rightarrow> string list \<Rightarrow> string" where
  "title_case_segments u parts = join '' '' (map (title_case_word u) parts)"

definition system_hint :: "string list \<Rightarrow> string option" where
  "system_hint parts =
     find_map (\<lambda>p. let k = to_ascii_lowercase p
                   in case map_of KNOWN_BODY_SHORT_CODES k of
                        Some meta \<Rightarrow> Some (body_system meta)
                      | None \<Rightarrow> map_of KNOWN_SYSTEMS k) parts"

section \<open>From a catalogue row\<close>

definition classification_to_tier :: "unicode \<Rightarrow> string option \<Rightarrow> location_tier option" where
  "classification_to_tier u c =
     (case c of
        None \<Rightarrow> None
      | Some s \<Rightarrow>
          let l = str_to_lowercase u s
          in if l \<in> {''solar system'', ''system''} then Some System
             else if l \<in> {''star'', ''planet'', ''moon'', ''planetoid'', ''asteroid belt'', ''nebula''} then Some AstronomicalObject
             else if l \<in> {''landing zone'', ''city''} then Some LandingZone
             else if l \<in> {''space station'', ''station'', ''rest stop'', ''outpost''} then Some SpaceStation
             else if l = ''settlement'' then Some Landmark
             else None)"

definition from_catalog :: "unicode \<Rightarrow> location_catalog_entry \<Rightarrow> string \<Rightarrow> classification_source \<Rightarrow> location_classification" where
  "from_catalog u hit rw src =
     \<lparr>display_name = location_catalog_entry.display_name hit,
      slug = Some (location_catalog_entry.slug hit),
      tier = (case or_else (location_taxonomy.tier (taxonomy hit)) (classification_to_tier u (classification hit)) of
                Some t \<Rightarrow> t
              | None \<Rightarrow> AnonymousPoi),
      subtype = location_taxonomy.subtype (taxonomy hit),
      system = location_catalog_entry.system hit,
      parent_body = location_catalog_entry.parent_body hit,
      placement = location_taxonomy.placement (taxonomy hit),
      engine_tag = location_catalog_entry.engine_tag hit,
      raw = rw,
      operator = location_taxonomy.operator (taxonomy hit),
      faction = location_taxonomy.faction (taxonomy hit),
      source = src\<rparr>"

text \<open>The literals of the code set most fields to \<open>None\<close>; this constructor takes the others.\<close>

definition bare :: "string \<Rightarrow> location_tier \<Rightarrow> string option \<Rightarrow> string option \<Rightarrow> string option \<Rightarrow> string \<Rightarrow> classification_source
    \<Rightarrow> location_classification" where
  "bare display t sub sys body rw src =
     \<lparr>display_name = display, slug = None, tier = t, subtype = sub, system = sys, parent_body = body, placement = None,
      engine_tag = None, raw = rw, operator = None, faction = None, source = src\<rparr>"

definition fallback :: "string \<Rightarrow> string \<Rightarrow> location_classification" where
  "fallback display rw = bare display AnonymousPoi None None None rw Fallback"

definition synthetic :: "string \<Rightarrow> string \<Rightarrow> string option \<Rightarrow> string \<Rightarrow> location_classification" where
  "synthetic display sub sys rw = bare display AnonymousPoi (Some sub) sys None rw Synthetic"

section \<open>Station aliases\<close>

definition pyro_sector_code :: "string \<Rightarrow> string option" where
  "pyro_sector_code index =
     map_of [(''1'', ''P1''), (''2'', ''P2''), (''3'', ''P3''), (''4'', ''P4''), (''5'', ''P5''), (''6'', ''P6'')] index"

definition stanton_station_slug :: "string \<Rightarrow> string \<Rightarrow> string option" where
  "stanton_station_slug sector slot =
     Option.bind (map_of [(''S1'', ''HUR''), (''HUR'', ''HUR''), (''S2'', ''CRU''), (''CRU'', ''CRU''), (''S3'', ''ARC''),
                          (''ARC'', ''ARC''), (''S4'', ''MIC''), (''MIC'', ''MIC'')] (to_ascii_uppercase sector)) (\<lambda>sec.
     Option.bind (map_of [(''LEO'', ''LEO''), (''LEO1'', ''LEO''), (''L1'', ''L1''), (''L2'', ''L2''), (''L3'', ''L3''),
                          (''L4'', ''L4''), (''L5'', ''L5'')] (to_ascii_uppercase slot)) (\<lambda>sl.
     map_of
       [((''HUR'', ''LEO''), ''everus-harbor''), ((''CRU'', ''LEO''), ''seraphim-station''),
        ((''ARC'', ''LEO''), ''baijini-point''), ((''MIC'', ''LEO''), ''port-tressler''),
        ((''HUR'', ''L1''), ''hur-l1-green-glade-station''), ((''HUR'', ''L2''), ''hur-l2-faithful-dream-station''),
        ((''HUR'', ''L3''), ''hur-l3-thundering-express-station''), ((''HUR'', ''L4''), ''hur-l4-melodic-fields-station''),
        ((''HUR'', ''L5''), ''hur-l5-high-course-station''), ((''CRU'', ''L1''), ''cru-l1-ambitious-dream-station''),
        ((''CRU'', ''L4''), ''cru-l4-shallow-fields-station''), ((''CRU'', ''L5''), ''cru-l5-beautiful-glen-station''),
        ((''ARC'', ''L1''), ''arc-l1-wide-forest-station''), ((''ARC'', ''L2''), ''arc-l2-lively-pathway-station''),
        ((''ARC'', ''L3''), ''arc-l3-modern-express-station''), ((''ARC'', ''L4''), ''arc-l4-faint-glen-station''),
        ((''ARC'', ''L5''), ''arc-l5-yellow-core-station''), ((''MIC'', ''L1''), ''mic-l1-shallow-frontier-station''),
        ((''MIC'', ''L2''), ''mic-l2-long-forest-station''), ((''MIC'', ''L3''), ''mic-l3-endless-odyssey-station''),
        ((''MIC'', ''L4''), ''mic-l4-red-crossroads-station''), ((''MIC'', ''L5''), ''mic-l5-modern-icarus-station'')]
       (sec, sl)))"

definition station_catalog_slug :: "string \<Rightarrow> string \<Rightarrow> string option" where
  "station_catalog_slug sector slot =
     or_else (stanton_station_slug sector slot)
       (let sec = to_ascii_uppercase sector; sl = to_ascii_uppercase slot
        in if sec = ''P3'' \<and> sl \<in> {''LEO'', ''LEO1''} then Some ''orbituary''
           else if sec = ''P6'' \<and> sl \<in> {''LEO'', ''LEO1''} then Some ''ruin-station''
           else None)"

definition is_rs_verb :: "string \<Rightarrow> bool" where
  "is_rs_verb t \<longleftrightarrow> to_ascii_lowercase t \<in> {''ext'', ''entry'', ''comm''}"

definition station_alias_parts :: "string list \<Rightarrow> (string \<times> string) option" where
  "station_alias_parts parts =
     (case parts of
        [a, b, c] \<Rightarrow>
          if eq_ignore_ascii_case a ''rr'' then Some (b, c)
          else if eq_ignore_ascii_case a ''rs'' \<and> is_rs_verb b then split_once ''-'' c
          else None
      | _ \<Rightarrow> None)"

definition split_pyro_station_slug :: "string list \<Rightarrow> string option" where
  "split_pyro_station_slug parts =
     (case parts of
        [a, b, c, d, e] \<Rightarrow>
          if \<not> eq_ignore_ascii_case a ''rs'' \<or> \<not> is_rs_verb b \<or> \<not> eq_ignore_ascii_case c ''pyro'' then None
          else Option.bind (pyro_sector_code d) (\<lambda>sector. station_catalog_slug sector e)
      | _ \<Rightarrow> None)"

definition match_station_catalog_alias ::
  "unicode \<Rightarrow> string list \<Rightarrow> string \<Rightarrow> location_catalog \<Rightarrow> location_classification option" where
  "match_station_catalog_alias u parts rw cat =
     Option.bind
       (or_else (Option.bind (station_alias_parts parts) (\<lambda>(sector, slot). station_catalog_slug sector slot))
          (split_pyro_station_slug parts)) (\<lambda>sl.
     Option.bind (lookup_by_token cat sl) (\<lambda>hit.
     Some ((from_catalog u hit rw Catalog)\<lparr>tier := SpaceStation, subtype := Some ''rest_stop''\<rparr>)))"


section \<open>Gateways\<close>

definition gateway_namesake :: "string \<Rightarrow> string option" where
  "gateway_namesake k = or_else (map_of KNOWN_SYSTEMS k) (if k = ''magnus'' then Some ''Magnus'' else None)"

text \<open>The search for the boundary of a fused pair: \<open>split_at\<close> panics inside a character.\<close>

fun split_fused :: "string \<Rightarrow> nat list \<Rightarrow> (string \<times> string) option exec" where
  "split_fused s [] = Done None"
| "split_fused s (i # is) =
     (if \<not> is_char_boundary s i then Panics
      else
        case (map_of KNOWN_SYSTEMS (take i s), gateway_namesake (drop i s)) of
          (Some a, Some b) \<Rightarrow> Done (Some (a, b))
        | _ \<Rightarrow> split_fused s is)"

definition known_system_pair :: "string list \<Rightarrow> (string \<times> string) option exec" where
  "known_system_pair toks =
     (case toks of
        [] \<Rightarrow> Done None
      | t # ts \<Rightarrow>
          let fst' = to_ascii_lowercase t;
              pair = (case ts of
                        [] \<Rightarrow> None
                      | t2 # _ \<Rightarrow>
                          (case (map_of KNOWN_SYSTEMS fst', gateway_namesake (to_ascii_lowercase t2)) of
                             (Some a, Some b) \<Rightarrow> Some (a, b)
                           | _ \<Rightarrow> None))
          in case pair of
               Some ab \<Rightarrow> Done (Some ab)
             | None \<Rightarrow> split_fused fst' [1..<length fst'])"

definition match_gateway :: "string list \<Rightarrow> string \<Rightarrow> location_classification option exec" where
  "match_gateway parts rw =
     (if parts = [] then Done None
      else
        case (if eq_ignore_ascii_case (hd parts) ''rr'' then tl parts else parts) of
          [] \<Rightarrow> Done None
        | j # rest \<Rightarrow>
            if \<not> eq_ignore_ascii_case j ''jp'' then Done None
            else
              case known_system_pair rest of
                Panics \<Rightarrow> Panics
              | Done None \<Rightarrow> Done None
              | Done (Some (sys_a, sys_b)) \<Rightarrow>
                  Done (Some (bare (sys_b @ '' Gateway'') SpaceStation (Some ''gateway'') (Some sys_a) None rw Synthetic)))"

definition strip_suffix :: "string \<Rightarrow> string \<Rightarrow> string option" where
  "strip_suffix suf s = (if suffix suf s then Some (take (length s - length suf) s) else None)"

definition gateway_slug :: "location_classification \<Rightarrow> location_catalog \<Rightarrow> string option" where
  "gateway_slug c cat =
     Option.bind (strip_suffix '' Gateway'' (display_name c)) (\<lambda>d.
     Option.bind (system c) (\<lambda>sys.
     let dest = to_ascii_lowercase d
     in find (\<lambda>sl. case lookup_by_slug cat sl of
                     Some e \<Rightarrow> location_catalog_entry.system e = Some sys
                   | None \<Rightarrow> False) [dest @ ''-gateway'', dest @ ''-gateway-2'']))"

section \<open>Jump points\<close>

definition is_jp_keyword :: "string \<Rightarrow> bool" where
  "is_jp_keyword t \<longleftrightarrow> to_ascii_lowercase t \<in> {''rs'', ''ext'', ''entry'', ''comm''}"

definition DOUBLE_ARROW :: string where
  "DOUBLE_ARROW = [CHR 0xE2, CHR 0x86, CHR 0x94]"

definition jp_token :: "string \<Rightarrow> int option" where
  "jp_token p = Option.bind (strip_prefix ''jp'' (to_ascii_lowercase p)) (parse_unsigned 32)"

text \<open>The index and the position of the \<open>jp\<close> token are found together, so the arms of the code for a position without an index
  are never taken.\<close>

definition jp_endpoints :: "unicode \<Rightarrow> string list \<Rightarrow> nat \<Rightarrow> (string \<times> string) option" where
  "jp_endpoints u parts jp_pos =
     or_else
       (find_map (\<lambda>p. case split_once ''-'' p of
                        Some (a, b) \<Rightarrow> if a \<noteq> [] \<and> b \<noteq> [] then Some (title_case_word u a, title_case_word u b) else None
                      | None \<Rightarrow> None) (take jp_pos parts))
       (if 2 \<le> jp_pos then
          let a = parts ! (jp_pos - 2); b = parts ! (jp_pos - 1)
          in if \<not> is_jp_keyword a \<and> \<not> is_jp_keyword b then Some (title_case_word u a, title_case_word u b) else None
        else None)"

definition jp_origin :: "unicode \<Rightarrow> string list \<Rightarrow> nat \<Rightarrow> string option" where
  "jp_origin u parts jp_pos =
     (if 1 \<le> jp_pos \<and> \<not> is_jp_keyword (parts ! (jp_pos - 1)) then Some (title_case_word u (parts ! (jp_pos - 1))) else None)"

definition match_jump_point :: "unicode \<Rightarrow> string list \<Rightarrow> string \<Rightarrow> location_classification option" where
  "match_jump_point u parts rw =
     map_option (\<lambda>(jp_pos, num).
       let no = '' jump point #'' @ show_nat (nat num)
       in case jp_endpoints u parts jp_pos of
            Some (a, b) \<Rightarrow> synthetic (a @ '' '' @ DOUBLE_ARROW @ '' '' @ b @ no) ''jump_point'' (Some a) rw
          | None \<Rightarrow>
              (case jp_origin u parts jp_pos of
                 Some origin \<Rightarrow> synthetic (origin @ no) ''jump_point'' (Some origin) rw
               | None \<Rightarrow> synthetic ''Jump point'' ''jump_point'' None rw))
       (find_map (\<lambda>(i, p). map_option (Pair i) (jp_token p)) (enumerate 0 parts))"

section \<open>Sites known by a word\<close>

definition match_nyx_qv_extraction_station :: "string list \<Rightarrow> string \<Rightarrow> location_classification option" where
  "match_nyx_qv_extraction_station parts rw =
     (if \<not> list_ex (\<lambda>p. eq_ignore_ascii_case p ''nyx'') parts \<or> \<not> list_ex (\<lambda>p. eq_ignore_ascii_case p ''qvextractionstation'') parts
      then None
      else Some (bare ''QV Breaker Station'' SpaceStation (Some ''breaker_station'') (Some ''Nyx'') (Some ''Nyx'') rw Synthetic))"

definition match_comm_array :: "string list \<Rightarrow> string \<Rightarrow> location_classification option" where
  "match_comm_array parts rw =
     (let l = to_ascii_lowercase rw
      in if \<not> contains_str l ''comm_array'' \<and> \<not> contains_str l ''commarray'' then None
         else Some (synthetic (''Comm array ('' @ (if parts = [] then [] else last parts) @ '')'') ''comm_array''
                (find_map (\<lambda>p. body_short_code_system (hd (split_on (\<lambda>c. c = CHR ''-'') p))) parts) rw))"

definition match_crash_site :: "unicode \<Rightarrow> string list \<Rightarrow> string \<Rightarrow> location_classification option" where
  "match_crash_site u parts rw =
     (let l = to_ascii_lowercase rw
      in if \<not> contains_str l ''crash_site'' \<and> \<not> contains_str l ''crashsite'' then None
         else Some (synthetic (title_case_segments u parts) ''crash_site'' None rw))"

definition match_cave :: "unicode \<Rightarrow> string list \<Rightarrow> string \<Rightarrow> location_classification option" where
  "match_cave u parts rw =
     (let l = to_ascii_lowercase rw;
          any_cave = list_ex (\<lambda>p. eq_ignore_ascii_case p ''cave'' \<or> eq_ignore_ascii_case p ''caverns'') parts
      in if \<not> any_cave \<and> \<not> contains_str l ''cave'' then None
         else Some (synthetic (title_case_segments u parts) ''cave'' None rw))"

definition match_bunker :: "unicode \<Rightarrow> string list \<Rightarrow> string \<Rightarrow> location_classification option" where
  "match_bunker u parts rw =
     (if \<not> list_ex (\<lambda>p. eq_ignore_ascii_case p ''bunker'') parts then None
      else Some (synthetic (title_case_segments u parts) ''bunker'' None rw))"

definition match_derelict :: "unicode \<Rightarrow> string list \<Rightarrow> string \<Rightarrow> location_classification option" where
  "match_derelict u parts rw =
     (let l = to_ascii_lowercase rw
      in if \<not> contains_str l ''derelict'' \<and> \<not> contains_str l ''salvage_yard'' then None
         else Some (synthetic (title_case_segments u parts) ''derelict_ship'' None rw))"

section \<open>Rest stops and orbital markers\<close>

definition stanton_sector :: "string \<Rightarrow> string option" where
  "stanton_sector context =
     map_of [(''s1'', ''Hurston''), (''s2'', ''Crusader''), (''s3'', ''ArcCorp''), (''s4'', ''microTech'')] context"

definition rest_stop_code :: "string option \<times> string option \<Rightarrow> string \<Rightarrow> string option \<times> string option" where
  "rest_stop_code sb context =
     (case map_of KNOWN_BODY_SHORT_CODES context of
        None \<Rightarrow> sb
      | Some meta \<Rightarrow> (or_else (fst sb) (Some (body_system meta)), or_else (snd sb) (Some (body_display meta))))"

text \<open>One token of the tail: the state is the system and the parent body found so far.\<close>

definition rest_stop_step :: "string list \<Rightarrow> string option \<times> string option \<Rightarrow> nat \<times> string \<Rightarrow> string option \<times> string option" where
  "rest_stop_step tail' sb ip =
     (let l = to_ascii_lowercase (snd ip);
          context = (case split_once ''-'' l of Some (h, _) \<Rightarrow> h | None \<Rightarrow> l)
      in if fst sb \<noteq> None then rest_stop_code sb context
         else
           case map_of KNOWN_SYSTEMS context of
             Some canon \<Rightarrow>
               (Some canon,
                if canon = ''Pyro'' then
                  Option.bind (if fst ip + 1 < length tail' then Some (tail' ! (fst ip + 1)) else None) (\<lambda>nx.
                  Option.bind (pyro_sector_code nx) (\<lambda>code.
                  map_option body_display (map_of KNOWN_BODY_SHORT_CODES (to_ascii_lowercase code))))
                else snd sb)
           | None \<Rightarrow>
               (case stanton_sector context of
                  Some body \<Rightarrow> (Some ''Stanton'', Some body)
                | None \<Rightarrow> rest_stop_code sb context))"

definition rest_stop_tail :: "string list \<Rightarrow> string list option" where
  "rest_stop_tail parts =
     (if list_ex (\<lambda>p. eq_ignore_ascii_case p ''rr'') parts then Some (tl (dropWhile (\<lambda>p. \<not> eq_ignore_ascii_case p ''rr'') parts))
      else if 3 \<le> length parts \<and> eq_ignore_ascii_case (parts ! 0) ''rs'' \<and> is_rs_verb (parts ! 1) then Some (drop 2 parts)
      else None)"

definition match_rest_stop_engine :: "unicode \<Rightarrow> string list \<Rightarrow> string \<Rightarrow> location_classification option" where
  "match_rest_stop_engine u parts rw =
     map_option (\<lambda>tail'.
       let (sys, body) = foldl (rest_stop_step tail') (None, None) (enumerate 0 tail')
       in bare (if tail' = [] then ''Rest Stop'' else ''Rest Stop ('' @ title_case_segments u tail' @ '')'') SpaceStation
            (Some ''rest_stop'') sys body rw Synthetic)
       (rest_stop_tail parts)"

definition match_rest_stop_generic :: "string list \<Rightarrow> string \<Rightarrow> location_classification option" where
  "match_rest_stop_generic parts rw =
     (if \<not> list_ex (\<lambda>p. eq_ignore_ascii_case p ''reststop'' \<or> eq_ignore_ascii_case p ''rest_stop'') parts then None
      else Some (bare ''Rest Stop'' SpaceStation (Some ''rest_stop'') None None rw Synthetic))"

text \<open>The scan for \<open>OM\<close> tokens: whether one was seen, and the last index glued to one.\<close>

definition om_step :: "bool \<times> int option \<Rightarrow> string \<Rightarrow> bool \<times> int option" where
  "om_step st p =
     (let l = to_ascii_lowercase p
      in if l = ''om'' then (True, snd st)
         else
           case or_else (strip_prefix ''om-'' l) (or_else (strip_prefix ''om_'' l)
                  (if starts_with l ''om'' \<and> 2 < length l \<and> is_ascii_digit (l ! 2) then Some (drop 2 l) else None)) of
             None \<Rightarrow> st
           | Some rest \<Rightarrow> (case parse_unsigned 32 rest of Some v \<Rightarrow> (True, Some v) | None \<Rightarrow> st))"

definition match_orbital_marker :: "string list \<Rightarrow> string \<Rightarrow> location_classification option" where
  "match_orbital_marker parts rw =
     (let (saw_om, glued) = foldl om_step (False, None) parts
      in if \<not> saw_om then None
         else
           let om_index = or_else glued
                 (find_map (\<lambda>p. case parse_unsigned 32 p of Some v \<Rightarrow> if 1 \<le> v \<and> v \<le> 99 then Some v else None | None \<Rightarrow> None) parts);
               body_meta = find_map (\<lambda>p. map_of KNOWN_BODY_SHORT_CODES (to_ascii_lowercase p)) parts;
               display = (case (body_meta, om_index) of
                            (Some meta, Some v) \<Rightarrow> body_display meta @ '' OM-'' @ show_nat (nat v)
                          | (Some meta, None) \<Rightarrow> body_display meta @ '' orbital marker''
                          | (None, Some v) \<Rightarrow> ''OM-'' @ show_nat (nat v)
                          | (None, None) \<Rightarrow> ''Orbital marker'')
           in Some ((bare display AnonymousPoi (Some ''orbital_marker'') (map_option body_system body_meta)
                       (map_option body_display body_meta) rw Synthetic)
                    \<lparr>placement := map_option (\<lambda>m. OrbitsBody (body_display m)) body_meta\<rparr>))"

section \<open>Engine noise\<close>

definition match_dynamic_marker :: "string list \<Rightarrow> string \<Rightarrow> location_classification option" where
  "match_dynamic_marker parts rw =
     (let l = to_ascii_lowercase rw
      in if contains_str l ''navpoint_dynamic'' \<or> contains_str l ''dynamic_navpoint''
         then Some (synthetic ''Dynamic nav point'' ''nav_marker'' None rw)
         else if contains_str l ''mission_qt'' \<or> contains_str l ''quantum_beacon''
         then Some (synthetic ''Mission marker'' ''mission_marker'' None rw)
         else None)"

definition match_procedural_node :: "string list \<Rightarrow> string \<Rightarrow> location_classification option" where
  "match_procedural_node parts rw =
     (let l = to_ascii_lowercase rw;
          node = (\<lambda>display sub. Some (synthetic display sub (system_hint parts) rw))
      in if contains_str l ''ab_mine'' then node ''Asteroid mining node'' ''mining_node''
         else if contains_str l ''ab_collector'' then node ''Gas collection node'' ''gas_node''
         else if contains_str l ''_cluster_'' \<or> suffix ''.socpak'' l then node ''Asteroid cluster'' ''asteroid_cluster''
         else if contains_str l ''racing_static'' then node ''Race track'' ''race_track''
         else None)"

text \<open>The matchers in the order of the table; only the first can panic.\<close>

definition SYNTHETIC_MATCHERS :: "unicode \<Rightarrow> (string list \<Rightarrow> string \<Rightarrow> location_classification option) list" where
  "SYNTHETIC_MATCHERS u =
     [match_jump_point u, match_nyx_qv_extraction_station, match_comm_array, match_crash_site u, match_cave u, match_bunker u,
      match_derelict u, match_rest_stop_engine u, match_rest_stop_generic, match_orbital_marker, match_dynamic_marker,
      match_procedural_node]"

definition match_synthetic :: "unicode \<Rightarrow> string list \<Rightarrow> string \<Rightarrow> location_classification option exec" where
  "match_synthetic u parts rw =
     (case match_gateway parts rw of
        Panics \<Rightarrow> Panics
      | Done (Some c) \<Rightarrow> Done (Some c)
      | Done None \<Rightarrow> Done (find_map (\<lambda>m. m parts rw) (SYNTHETIC_MATCHERS u)))"

section \<open>Classification\<close>

definition system_or_body_heuristic :: "unicode \<Rightarrow> string list \<Rightarrow> string \<Rightarrow> location_classification option" where
  "system_or_body_heuristic u parts rw =
     or_else
       (find_map (\<lambda>p. map_option (\<lambda>meta. bare (body_display meta) AstronomicalObject None (Some (body_system meta)) None rw Heuristic)
          (map_of KNOWN_BODY_SHORT_CODES (to_ascii_lowercase p))) parts)
       (find_map (\<lambda>p. map_option (\<lambda>sys. bare (title_case_segments u parts) AnonymousPoi None (Some sys) None rw Heuristic)
          (map_of KNOWN_SYSTEMS (to_ascii_lowercase p))) parts)"

text \<open>The steps after the synthetic patterns: joined form, tokens without the systems, fuzzy match, all tokens, dictionaries.\<close>

definition classify_by_catalog :: "unicode \<Rightarrow> string list \<Rightarrow> string \<Rightarrow> location_catalog \<Rightarrow> location_classification option" where
  "classify_by_catalog u parts rw cat =
     or_else (map_option (\<lambda>hit. from_catalog u hit rw Catalog) (lookup_by_token cat (concat parts)))
     (or_else (map_option (\<lambda>hit. from_catalog u hit rw Catalog)
        (find_map (\<lambda>t. if map_of KNOWN_SYSTEMS (to_ascii_lowercase t) \<noteq> None then None else lookup_by_token cat t) parts))
     (or_else (map_option (\<lambda>hit. from_catalog u hit rw Fuzzy) (fuzzy_match cat parts (system_hint parts)))
        (map_option (\<lambda>hit. from_catalog u hit rw Catalog) (find_map (lookup_by_token cat) parts))))"

definition location_classify :: "unicode \<Rightarrow> string \<Rightarrow> location_catalog \<Rightarrow> location_classification exec" where
  "location_classify u rw cat =
     (let parts = strip_and_split rw
      in if parts = [] then Done (fallback rw rw)
         else
           case match_station_catalog_alias u parts rw cat of
             Some c \<Rightarrow> Done c
           | None \<Rightarrow>
               (case match_synthetic u parts rw of
                  Panics \<Rightarrow> Panics
                | Done (Some c) \<Rightarrow> Done (if subtype c = Some ''gateway'' then c\<lparr>slug := gateway_slug c cat\<rparr> else c)
                | Done None \<Rightarrow>
                    (case classify_by_catalog u parts rw cat of
                       Some c \<Rightarrow> Done c
                     | None \<Rightarrow>
                         (case system_or_body_heuristic u parts rw of
                            Some c \<Rightarrow> Done c
                          | None \<Rightarrow> Done (fallback (title_case_segments u parts) rw)))))"


section \<open>What the catalogue returns\<close>

lemma entries_fold: "entries (foldl add_entry cat es) = entries cat @ filter is_present es"
  by (induction es arbitrary: cat) (auto simp: add_entry_def Let_def)

lemma entries_from_entries: "entries (from_entries es) = filter is_present es"
  by (simp add: from_entries_def Let_def entries_fold location_catalog_default_def)

lemma find_rev_present: "find (\<lambda>e. is_present e \<and> P e) (rev es) = Some e \<Longrightarrow> e \<in> set es \<and> is_present e \<and> P e"
  by (auto simp: find_Some_iff rev_nth)

lemma lookup_by_slug_present:
  "lookup_by_slug (from_entries es) t = Some e \<Longrightarrow>
     e \<in> set es \<and> is_present e \<and> eq_ignore_ascii_case (location_catalog_entry.slug e) t"
  by (auto simp: lookup_by_slug_def from_entries_def Let_def by_slug_fold location_catalog_default_def eq_ignore_ascii_case_def
      dest!: find_rev_present)

lemma lookup_by_token_present: "lookup_by_token (from_entries es) t = Some e \<Longrightarrow> e \<in> set es \<and> is_present e"
  by (auto simp: lookup_by_token_def or_else_def lookup_by_engine_tag_def lookup_by_slug_def lookup_by_name_def from_entries_def
      Let_def by_slug_fold by_name_fold by_engine_tag_fold location_catalog_default_def
      dest!: find_rev_present split: option.splits)

lemma fuzzy_match_present:
  assumes "fuzzy_match (from_entries es) toks hint = Some e"
  shows "e \<in> set es \<and> is_present e \<and> \<not> system_conflict hint e"
proof -
  let ?cat = "from_entries es" and ?q = "query_of toks"
  let ?xs = "map (scored_of ?cat ?q) (filter (eligible ?cat ?q hint) (candidates_of ?cat ?q))"
  obtain b where b: "foldl (scored_fold.keep ?cat) None ?xs = Some b" "e = entries ?cat ! idx b"
    using assms by (auto simp: fuzzy_match_def Let_def fuzzy_fold split: if_splits)
  then have "b \<in> set ?xs" using scored_fold.keep_best [where cat = ?cat and xs = ?xs] by simp
  then obtain i where i: "i \<in> set (candidates_of ?cat ?q)" "eligible ?cat ?q hint i" "b = scored_of ?cat ?q i" by auto
  then have "idx b = i" by (simp add: scored_of_def split: prod.split)
  moreover have "i < length (entries ?cat)" by (rule candidate_in_range [OF i(1)])
  ultimately have "e \<in> set (entries ?cat)" using b(2) by simp
  with i(2) b(2) \<open>idx b = i\<close> show ?thesis by (simp add: entries_from_entries eligible_def)
qed

lemma find_map_Some: "find_map f xs = Some y \<Longrightarrow> \<exists>x \<in> set xs. f x = Some y"
  by (induction xs) (auto split: option.splits)

section \<open>Synthetic classifications\<close>

definition synthetic_ok :: "string \<Rightarrow> location_classification \<Rightarrow> bool" where
  "synthetic_ok rw c \<longleftrightarrow> source c = Synthetic \<and> raw c = rw \<and> slug c = None"

lemma synthetic_ok_bare [simp]: "synthetic_ok rw (bare d t sub sys body rw src) \<longleftrightarrow> src = Synthetic"
  by (simp add: synthetic_ok_def bare_def)

lemma synthetic_ok_synthetic [simp]: "synthetic_ok rw (synthetic d sub sys rw)"
  by (simp add: synthetic_def)

lemma synthetic_ok_placement [simp]: "synthetic_ok rw (c\<lparr>placement := x\<rparr>) = synthetic_ok rw c"
  by (simp add: synthetic_ok_def)

lemma matcher_ok:
  assumes "m \<in> set (SYNTHETIC_MATCHERS u)" "m parts rw = Some c"
  shows "synthetic_ok rw c"
proof -
  have "match_jump_point u parts rw = Some c \<Longrightarrow> ?thesis"
    by (auto simp: match_jump_point_def Let_def split: option.splits)
  moreover have "match_nyx_qv_extraction_station parts rw = Some c \<Longrightarrow> ?thesis"
    by (auto simp: match_nyx_qv_extraction_station_def split: if_splits)
  moreover have "match_comm_array parts rw = Some c \<Longrightarrow> ?thesis"
    by (auto simp: match_comm_array_def Let_def split: if_split_asm)
  moreover have "match_crash_site u parts rw = Some c \<Longrightarrow> ?thesis" "match_cave u parts rw = Some c \<Longrightarrow> ?thesis"
    "match_bunker u parts rw = Some c \<Longrightarrow> ?thesis" "match_derelict u parts rw = Some c \<Longrightarrow> ?thesis"
    by (auto simp: match_crash_site_def match_cave_def match_bunker_def match_derelict_def Let_def split: if_splits)
  moreover have "match_rest_stop_engine u parts rw = Some c \<Longrightarrow> ?thesis"
    by (auto simp: match_rest_stop_engine_def split_def Let_def)
  moreover have "match_rest_stop_generic parts rw = Some c \<Longrightarrow> ?thesis"
    by (auto simp: match_rest_stop_generic_def split: if_splits)
  moreover have "match_orbital_marker parts rw = Some c \<Longrightarrow> ?thesis"
    by (auto simp: match_orbital_marker_def Let_def split: prod.splits if_splits)
  moreover have "match_dynamic_marker parts rw = Some c \<Longrightarrow> ?thesis"
    by (auto simp: match_dynamic_marker_def Let_def split: if_splits)
  moreover have "match_procedural_node parts rw = Some c \<Longrightarrow> ?thesis"
    by (auto simp: match_procedural_node_def Let_def split: if_splits)
  ultimately show ?thesis using assms by (simp add: SYNTHETIC_MATCHERS_def) metis
qed

lemma match_synthetic_ok: "match_synthetic u parts rw = Done (Some c) \<Longrightarrow> synthetic_ok rw c"
  by (auto simp: match_synthetic_def match_gateway_def split: exec.splits option.splits list.splits if_splits prod.splits
      dest!: find_map_Some intro: matcher_ok)


section \<open>Where the code can panic\<close>

lemma set_strip_while: "set (strip_while es s) \<subseteq> set s"
proof (induction es s rule: strip_while.induct)
  case (1 es s)
  then show ?case
    by (subst strip_while.simps) (auto split: option.splits dest!: in_set_dropD subsetD)
qed

lemma set_trim: "set (trim s) \<subseteq> set s"
  using set_strip_while unfolding trim_def trim_end_def trim_start_def by (metis set_rev subset_trans)

lemma set_strip_tag: "set (strip_tag s) \<subseteq> set s"
  by (auto simp: strip_tag_def split: option.splits dest!: split_once_Some)

lemma set_split_on: "w \<in> set (split_on (\<lambda>c. c = sep) s) \<Longrightarrow> set w \<subseteq> set s"
  using join_member [of w "split_on (\<lambda>c. c = sep) s" "[sep]"] by (simp add: join_split_on)

lemma set_split_system_index: "w \<in> set (split_system_index s) \<Longrightarrow> set w \<subseteq> set s"
  by (auto simp: split_system_index_def split_system_keys_def split: option.splits list.splits if_splits
      dest!: find_map_Some) (meson in_set_takeD in_set_dropD)+

lemma set_strip_and_split:
  assumes "w \<in> set (strip_and_split rw)"
  shows "set w \<subseteq> set rw"
proof -
  obtain seg where seg: "seg \<in> set (split_on (\<lambda>c. c = CHR ''_'') (strip_tag (trim rw)))" "w \<in> set (split_system_index (trim seg))"
    using assms by (auto simp: strip_and_split_def Let_def split: if_splits)
  have "set w \<subseteq> set (trim seg)" by (rule set_split_system_index [OF seg(2)])
  also have "\<dots> \<subseteq> set seg" by (rule set_trim)
  also have "\<dots> \<subseteq> set (strip_tag (trim rw))" by (rule set_split_on [OF seg(1)])
  also have "\<dots> \<subseteq> set rw" using set_strip_tag set_trim by (metis subset_trans)
  finally show ?thesis .
qed

lemma ascii_boundary: "list_all is_ascii s \<Longrightarrow> i < length s \<Longrightarrow> is_char_boundary s i"
  by (auto simp: is_char_boundary_def is_continuation_def is_ascii_def list_all_length)

lemma ascii_lowercase: "list_all is_ascii s \<Longrightarrow> list_all is_ascii (to_ascii_lowercase s)"
  by (auto simp: list_all_iff to_ascii_lowercase_def char_to_ascii_lowercase_def is_ascii_def is_ascii_uppercase_def less_eq_char_def)

lemma split_fused_safe: "\<forall>i \<in> set is. is_char_boundary s i \<Longrightarrow> split_fused s is \<noteq> Panics"
  by (induction "is") (auto split: option.split)

lemma known_system_pair_safe: "\<forall>t \<in> set toks. list_all is_ascii t \<Longrightarrow> known_system_pair toks \<noteq> Panics"
  using split_fused_safe [of _ "to_ascii_lowercase (hd toks)"] ascii_boundary [OF ascii_lowercase [of "hd toks"]]
  by (cases toks) (auto simp: known_system_pair_def Let_def split: option.split list.split)

lemma match_gateway_safe: "\<forall>t \<in> set parts. list_all is_ascii t \<Longrightarrow> match_gateway parts rw \<noteq> Panics"
  using known_system_pair_safe [of "tl parts"] known_system_pair_safe [of "tl (tl parts)"]
  by (auto simp: match_gateway_def split: list.split exec.split option.split)


section \<open>The order of the systems\<close>

lemma find_map_unique: "x \<in> set xs \<Longrightarrow> f x = Some y \<Longrightarrow> \<forall>z \<in> set xs. z \<noteq> x \<longrightarrow> f z = None \<Longrightarrow> find_map f xs = Some y"
proof (induction xs)
  case (Cons a xs)
  then show ?case by (cases "a = x"; cases "f a") simp_all
qed simp

lemma find_map_set:
  assumes "set xs = set ys" and "\<And>x y. x \<in> set xs \<Longrightarrow> y \<in> set xs \<Longrightarrow> f x \<noteq> None \<Longrightarrow> f y \<noteq> None \<Longrightarrow> x = y"
  shows "find_map f xs = find_map f ys"
proof (cases "\<exists>x \<in> set xs. f x \<noteq> None")
  case True
  then obtain x y where x: "x \<in> set xs" "f x = Some y" by auto
  have only: "\<forall>z \<in> set xs. z \<noteq> x \<longrightarrow> f z = None" using assms(2) x by blast
  have "find_map f xs = Some y" by (rule find_map_unique [OF x only])
  moreover have "find_map f ys = Some y" by (rule find_map_unique [of x]) (use x only assms(1) in simp_all)
  ultimately show ?thesis by simp
next
  case False
  with assms(1) show ?thesis by (metis find_map_None)
qed

lemma systems_prefix_free: "\<forall>k \<in> set (map fst KNOWN_SYSTEMS). \<forall>k' \<in> set (map fst KNOWN_SYSTEMS). prefix k k' \<longrightarrow> k = k'"
  by code_simp

text \<open>A hash map yields its keys in any order; no system's name is a prefix of another's, so at most one key can match.\<close>

lemma split_system_order:
  assumes "set ks = set (map fst KNOWN_SYSTEMS)"
  shows "split_system_keys ks seg = split_system_index seg"
proof -
  have "x = y"
    if "x \<in> set ks" "y \<in> set ks" "strip_prefix x s \<noteq> None" "strip_prefix y s \<noteq> None" for x y s
    using that systems_prefix_free prefix_same_cases [of x s y] unfolding assms strip_prefix_def by (metis (no_types, lifting))
  then show ?thesis unfolding split_system_index_def split_system_keys_def
    by (subst find_map_set [OF assms]) (auto split: option.splits)
qed

section \<open>Properties\<close>

text \<open>A classification is grounded in the rows \<open>es\<close>: what it may say, and which row backs it, depends on its source.\<close>

definition copies_row :: "location_classification \<Rightarrow> location_catalog_entry \<Rightarrow> bool" where
  "copies_row c e \<longleftrightarrow> is_present e \<and> display_name c = location_catalog_entry.display_name e \<and>
     slug c = Some (location_catalog_entry.slug e) \<and> system c = location_catalog_entry.system e"

definition grounded :: "location_catalog_entry list \<Rightarrow> string \<Rightarrow> location_classification \<Rightarrow> bool" where
  "grounded es rw c \<longleftrightarrow> raw c = rw \<and>
     (case source c of
        Catalog \<Rightarrow> \<exists>e \<in> set es. copies_row c e
      | Fuzzy \<Rightarrow> \<exists>e \<in> set es. copies_row c e \<and> \<not> system_conflict (system_hint (strip_and_split rw)) e
      | Synthetic \<Rightarrow> slug c = None \<or> subtype c = Some ''gateway'' \<and>
          (\<exists>e \<in> set es. is_present e \<and> eq_ignore_ascii_case (location_catalog_entry.slug e) (the (slug c)) \<and>
             location_catalog_entry.system e = system c)
      | Heuristic \<Rightarrow> slug c = None \<and> system c \<noteq> None
      | Fallback \<Rightarrow> slug c = None \<and> system c = None)"

lemma grounded_hit: "lookup_by_token (from_entries es) t = Some e \<Longrightarrow> grounded es rw (from_catalog u e rw Catalog)"
  by (auto simp: grounded_def copies_row_def from_catalog_def dest!: lookup_by_token_present)

lemma grounded_alias:
  "match_station_catalog_alias u parts rw (from_entries es) = Some c \<Longrightarrow> grounded es rw c"
  by (auto simp: match_station_catalog_alias_def from_catalog_def grounded_def copies_row_def
      dest!: lookup_by_token_present split: bind_splits)

lemma gateway_slug_row:
  assumes "gateway_slug c (from_entries es) = Some s"
  shows "\<exists>e \<in> set es. is_present e \<and> eq_ignore_ascii_case (location_catalog_entry.slug e) s \<and>
    location_catalog_entry.system e = system c"
proof -
  obtain e where "lookup_by_slug (from_entries es) s = Some e" "location_catalog_entry.system e = system c"
    using assms by (auto simp: gateway_slug_def Let_def split: bind_splits option.splits if_splits)
  then show ?thesis using lookup_by_slug_present by blast
qed

lemma grounded_synthetic:
  assumes "synthetic_ok rw c"
  shows "grounded es rw (if subtype c = Some ''gateway'' then c\<lparr>slug := gateway_slug c (from_entries es)\<rparr> else c)"
  using assms gateway_slug_row [of c es] by (cases "gateway_slug c (from_entries es)") (auto simp: synthetic_ok_def grounded_def)

lemma grounded_catalog: "classify_by_catalog u (strip_and_split rw) rw (from_entries es) = Some c \<Longrightarrow> grounded es rw c"
proof -
  have "grounded es rw (from_catalog u e rw Fuzzy)"
    if "fuzzy_match (from_entries es) (strip_and_split rw) (system_hint (strip_and_split rw)) = Some e" for e
    using fuzzy_match_present [OF that] by (auto simp: grounded_def copies_row_def from_catalog_def)
  then show "classify_by_catalog u (strip_and_split rw) rw (from_entries es) = Some c \<Longrightarrow> ?thesis"
    by (auto simp: classify_by_catalog_def or_else_def intro: grounded_hit
        split: option.splits if_splits dest!: find_map_Some)
qed

lemma grounded_heuristic: "system_or_body_heuristic u parts rw = Some c \<Longrightarrow> grounded es rw c"
  by (auto simp: system_or_body_heuristic_def or_else_def bare_def grounded_def split: option.splits dest!: find_map_Some)

lemma grounded_fallback: "grounded es rw (fallback d rw)"
  by (simp add: fallback_def bare_def grounded_def)

text \<open>C23. A classification is grounded: it keeps the raw string; from the catalogue it takes name, slug and system of one present
  row, which for a fuzzy match does not contradict the system read from the string; a synthetic one links only a gateway, to a row
  that stands in the gateway's own system; the dictionaries and the fallback never invent a link.\<close>

theorem classification_grounded:
  assumes "location_classify u rw (from_entries es) = Done c"
  shows "grounded es rw c"
proof -
  let ?parts = "strip_and_split rw" and ?cat = "from_entries es"
  consider "c = fallback rw rw" | "match_station_catalog_alias u ?parts rw ?cat = Some c"
    | c' where "match_synthetic u ?parts rw = Done (Some c')"
        "c = (if subtype c' = Some ''gateway'' then c'\<lparr>slug := gateway_slug c' ?cat\<rparr> else c')"
    | "classify_by_catalog u ?parts rw ?cat = Some c" | "system_or_body_heuristic u ?parts rw = Some c"
    | "c = fallback (title_case_segments u ?parts) rw"
    using assms unfolding location_classify_def Let_def
    by (auto split: if_split_asm option.split_asm exec.split_asm)
  then show ?thesis
  proof cases
    case 3
    show ?thesis unfolding 3(2) by (rule grounded_synthetic [OF match_synthetic_ok [OF 3(1)]])
  qed (auto intro: grounded_fallback grounded_alias grounded_catalog grounded_heuristic)
qed

definition gateway_row :: location_catalog_entry where
  "gateway_row =
     \<lparr>location_catalog_entry.slug = ''pyro-gateway'', location_catalog_entry.display_name = ''Pyro Gateway'', class_name = [],
      location_catalog_entry.system = Some ''Stanton'', location_catalog_entry.parent_body = None,
      location_catalog_entry.engine_tag = None, classification = None, taxonomy = location_taxonomy_default\<rparr>"

theorem classification_grounded_witness:
  "\<exists>c. location_classify \<lparr>alphanumeric = (\<lambda>_. True), lower = to_ascii_lowercase, upper = to_ascii_uppercase\<rparr>
         ''RR_JP_StantonPyro'' (from_entries [gateway_row]) = Done c \<and>
     slug c = Some ''pyro-gateway'' \<and> grounded [gateway_row] ''RR_JP_StantonPyro'' c"
proof -
  let ?u = "\<lparr>alphanumeric = (\<lambda>_. True), lower = to_ascii_lowercase, upper = to_ascii_uppercase\<rparr>"
  let ?c = "(bare ''Pyro Gateway'' SpaceStation (Some ''gateway'') (Some ''Stanton'') None ''RR_JP_StantonPyro'' Synthetic)
    \<lparr>slug := Some ''pyro-gateway''\<rparr>"
  have "location_classify ?u ''RR_JP_StantonPyro'' (from_entries [gateway_row]) = Done ?c" by code_simp
  with classification_grounded [of ?u "''RR_JP_StantonPyro''" "[gateway_row]" ?c] show ?thesis by auto
qed

text \<open>The classifier is total on ASCII input.  It is not on others: the search for two fused system names behind \<open>JP\<close> cuts the token at
  every byte, and a cut inside a character panics, as for the token of one accented letter.\<close>

lemma classify_ascii:
  assumes "list_all is_ascii rw"
  shows "location_classify u rw cat \<noteq> Panics"
proof -
  have "match_gateway (strip_and_split rw) rw \<noteq> Panics"
    using assms set_strip_and_split [of _ rw] by (intro match_gateway_safe) (auto simp: list_all_iff)
  then show ?thesis
    by (auto simp: location_classify_def Let_def match_synthetic_def split: option.split exec.split)
qed

text \<open>No name of a system holds a byte of a multi-byte character, so the search for a fused pair runs into the first boundary that is none.\<close>

lemma known_system_ascii: "map_of KNOWN_SYSTEMS k = Some x \<Longrightarrow> \<not> list_ex is_continuation k"
proof -
  have "list_all (\<lambda>(k, x). \<not> list_ex is_continuation k) KNOWN_SYSTEMS" by code_simp
  then show "map_of KNOWN_SYSTEMS k = Some x \<Longrightarrow> \<not> list_ex is_continuation k" by (auto simp: list_all_iff dest: map_of_SomeD)
qed

lemma namesake_ascii: "gateway_namesake k = Some x \<Longrightarrow> \<not> list_ex is_continuation k"
proof -
  have "\<not> list_ex is_continuation ''magnus''" by code_simp
  then show "gateway_namesake k = Some x \<Longrightarrow> \<not> list_ex is_continuation k"
    by (auto simp: gateway_namesake_def or_else_def dest: known_system_ascii split: option.splits if_splits)
qed

lemma continuation_lowercase: "is_continuation (char_to_ascii_lowercase c) = is_continuation c"
  by (auto simp: is_continuation_def char_to_ascii_lowercase_def is_ascii_uppercase_def less_eq_char_def)

lemma split_fused_panics:
  assumes "list_ex is_continuation s" "\<not> list_all (is_char_boundary s) is"
  shows "split_fused s is = Panics"
proof -
  have "map_of KNOWN_SYSTEMS (take i s) = None \<or> gateway_namesake (drop i s) = None" for i
  proof (rule ccontr)
    assume "\<not> ?thesis"
    then have "\<not> list_ex is_continuation (take i s @ drop i s)" using known_system_ascii namesake_ascii by (auto simp del: append_take_drop_id)
    then show False using assms(1) by simp
  qed
  note none = this
  show ?thesis using assms(2)
  proof (induction "is")
    case (Cons i js)
    then show ?case using none [of i] by (auto split: option.splits)
  qed simp
qed

lemma known_system_pair_panics:
  assumes "0 < i" "i < length t" "is_continuation (t ! i)"
  shows "known_system_pair (t # ts) = Panics"
proof -
  let ?s = "to_ascii_lowercase t"
  have at: "i < length ?s" "is_continuation (?s ! i)" using assms by (simp_all add: to_ascii_lowercase_def continuation_lowercase)
  then have ex: "list_ex is_continuation ?s" by (auto simp: list_ex_iff)
  then have "map_of KNOWN_SYSTEMS ?s = None" using known_system_ascii by (cases "map_of KNOWN_SYSTEMS ?s") auto
  moreover have "\<not> is_char_boundary ?s i" using at by (simp add: is_char_boundary_def)
  then have "\<not> list_all (is_char_boundary ?s) [1..<length ?s]" using at(1) assms(1) by (auto simp: list_all_iff)
  ultimately show ?thesis using split_fused_panics [OF ex] by (auto simp: known_system_pair_def Let_def split: list.split)
qed

lemma classify_accent:
  assumes "strip_and_split loc = j # t # ts" "eq_ignore_ascii_case j ''jp''" "0 < i" "i < length t" "is_continuation (t ! i)"
  shows "location_classify u loc cat = Panics"
proof -
  have "\<not> eq_ignore_ascii_case ''jp'' ''rr'' \<and> \<not> eq_ignore_ascii_case ''jp'' ''rs''" by code_simp
  then have j: "\<not> eq_ignore_ascii_case j ''rr'' \<and> \<not> eq_ignore_ascii_case j ''rs''" using assms(2) by (auto simp: eq_ignore_ascii_case_def)
  then have "match_gateway (j # t # ts) loc = Panics" using known_system_pair_panics [OF assms(3-5)] assms(2) by (simp add: match_gateway_def)
  moreover have "match_station_catalog_alias u (j # t # ts) loc cat = None" using j
    by (auto simp: match_station_catalog_alias_def station_alias_parts_def split_pyro_station_slug_def or_else_def split: list.split)
  ultimately show ?thesis by (simp add: location_classify_def assms(1) match_synthetic_def)
qed

end
