(* ===== verification/Sync.thy ===== *)
theory Sync
  imports Local_Store Location_Classifier
begin

text \<open>
  The sync worker of the tray client (\<open>crates/starstats-client/src/sync.rs\<close>): batches of stored events, the poison-pill
  isolation that bisects a rejected batch, cadence and backoff, and the tick of a lane.  The HTTP exchange with the server is a
  parameter that maps a request and the state of the server to a response; serde, the version-5 hash, the text of an error and the clock are parameters as well.
  Of the configuration on disk the state keeps what the worker changes, the device's handle and token.  SQLite and the configuration file
  do not fail in this model, and the pull of preferences that the bulk lane does at the end of a tick is left out.

  The lemmas show that the bisection always ends, and the bounds of chunks and delays; the theory Delivery shows what the drain does
  to the rows of the outbox.
\<close>

section \<open>Cadence\<close>

text \<open>Durations are counted in milliseconds.\<close>

definition MAX_BACKOFF :: nat where
  "MAX_BACKOFF = 300000"

definition CATCH_UP_DELAY_IDLE :: nat where
  "CATCH_UP_DELAY_IDLE = 250"

definition CATCH_UP_DELAY_IN_GAME :: nat where
  "CATCH_UP_DELAY_IN_GAME = 2000"

definition HEARTBEAT_MIN_INTERVAL :: nat where
  "HEARTBEAT_MIN_INTERVAL = 60000"

definition TAG_REPORT_MIN_INTERVAL :: nat where
  "TAG_REPORT_MIN_INTERVAL = 6 * 3600 * 1000"

text \<open>\<open>checked_mul\<close> fails when the seconds do not fit 64 bits.\<close>

definition checked_mul :: "nat \<Rightarrow> nat \<Rightarrow> nat option" where
  "checked_mul d k = (if d * k < 2 ^ 64 * 1000 then Some (d * k) else None)"

definition backoff_delay :: "nat \<Rightarrow> u32 \<Rightarrow> nat" where
  "backoff_delay interval failures =
     (if failures = 0 then interval
      else
        let sh = min (unat (failures - 1)) 20
        in min (case checked_mul interval (2 ^ sh) of Some d \<Rightarrow> d | None \<Rightarrow> MAX_BACKOFF) MAX_BACKOFF)"

record remote_sync_config =
  cfg_batch_size :: nat
  cfg_catch_up_batch_size :: nat
  cfg_max_batch_bytes :: nat
  cfg_catch_up_enabled :: bool

record drain_tuning =
  batch_size :: nat
  catch_up_batch_size :: nat
  max_batch_bytes :: nat
  catch_up_enabled :: bool

definition tuning_from_config :: "remote_sync_config \<Rightarrow> drain_tuning" where
  "tuning_from_config cfg =
     (let size = max (cfg_batch_size cfg) 1
      in \<lparr>batch_size = size, catch_up_batch_size = max (cfg_catch_up_batch_size cfg) size,
          max_batch_bytes = max (cfg_max_batch_bytes cfg) (64 * 1024), catch_up_enabled = cfg_catch_up_enabled cfg\<rparr>)"

definition page_size :: "drain_tuning \<Rightarrow> bool \<Rightarrow> bool \<Rightarrow> nat" where
  "page_size t catching_up game_running =
     (if catching_up \<and> catch_up_enabled t \<and> \<not> game_running then catch_up_batch_size t else batch_size t)"

definition lane_delay :: "drain_tuning \<Rightarrow> bool \<Rightarrow> bool \<Rightarrow> nat \<Rightarrow> u32 \<Rightarrow> nat" where
  "lane_delay t catching_up game_running interval failures =
     (if catching_up \<and> catch_up_enabled t \<and> failures = 0
      then (if game_running then CATCH_UP_DELAY_IN_GAME else CATCH_UP_DELAY_IDLE)
      else backoff_delay interval failures)"

definition heartbeat_due :: "nat option \<Rightarrow> nat \<Rightarrow> bool" where
  "heartbeat_due prev now = (case prev of None \<Rightarrow> True | Some t \<Rightarrow> HEARTBEAT_MIN_INTERVAL \<le> now - t)"

definition tag_report_due :: "nat option \<Rightarrow> nat \<Rightarrow> bool" where
  "tag_report_due prev now = (case prev of None \<Rightarrow> True | Some t \<Rightarrow> TAG_REPORT_MIN_INTERVAL \<le> now - t)"

text \<open>Control characters are those below space, delete, and the two-byte encodings of U+0080 to U+009F.\<close>

definition is_control :: "string \<Rightarrow> bool" where
  "is_control ch =
     (case ch of
        [c] \<Rightarrow> (of_char c :: nat) < 32 \<or> c = CHR 0x7F
      | [c, d] \<Rightarrow> c = CHR 0xC2 \<and> (of_char d :: nat) < 160
      | _ \<Rightarrow> False)"

definition tag_is_reportable :: "string \<Rightarrow> bool" where
  "tag_is_reportable s \<longleftrightarrow>
     s \<noteq> [] \<and> length s \<le> 200 \<and>
     \<not> list_ex (\<lambda>ch. is_control ch \<or> ch \<in> {''['', '']'', ''{'', ''}'', ''<'', ''>'', [CHR 0x22], [CHR 0x27], [CHR 0x5C], ''|''}) (utf8_chars s) \<and>
     list_ex is_ascii_alphanumeric s"

definition is_sync_disabled_rejection :: "string \<Rightarrow> bool" where
  "is_sync_disabled_rejection b = contains_str b ''device_sync_disabled''"

section \<open>Batches\<close>

record source_range =
  range_source :: log_source
  start_offset :: u64
  end_offset :: u64

record ingest_batch =
  schema_version :: u16
  batch_id :: string
  batch_build :: "string option"
  collector_version :: "string option"
  parser_version :: "u32 option"
  batch_sequence :: "nat option"
  content_hash :: "string option"
  batch_range :: "source_range option"
  batch_handle :: string
  batch_events :: "event_envelope list"

definition CURRENT_SCHEMA_VERSION :: u16 where
  "CURRENT_SCHEMA_VERSION = 2"

definition parse_source :: "string \<Rightarrow> log_source" where
  "parse_source s =
     (if s = ''live'' then Live else if s = ''ptu'' then Ptu else if s = ''eptu'' then Eptu
      else if s = ''hotfix'' then Hotfix else if s = ''tech'' then Tech else Other)"

definition compute_content_hash :: "(string \<Rightarrow> string) \<Rightarrow> unsent_event list \<Rightarrow> string" where
  "compute_content_hash hsh evs = hsh (join [CHR 0x0A] (sort (map unsent_key evs)))"

definition compute_source_range :: "unsent_event list \<Rightarrow> source_range option" where
  "compute_source_range evs =
     (case evs of
        [] \<Rightarrow> None
      | e0 # _ \<Rightarrow>
          let src = parse_source (unsent_source e0)
          in if list_ex (\<lambda>e. parse_source (unsent_source e) \<noteq> src) evs then None
             else Some \<lparr>range_source = src, start_offset = foldl (\<lambda>m e. min m (unsent_offset e)) (unsent_offset e0) evs,
                        end_offset = foldl (\<lambda>m e. max m (unsent_offset e)) (unsent_offset e0) evs\<rparr>)"

definition estimated_envelope_bytes :: "unsent_event \<Rightarrow> nat" where
  "estimated_envelope_bytes e =
     length (unsent_key e) + length (unsent_raw e) + length (payload_json e) + length (unsent_source e) + 384"

fun chunk_step :: "nat \<Rightarrow> unsent_event list list \<times> unsent_event list \<times> nat \<Rightarrow> unsent_event
    \<Rightarrow> unsent_event list list \<times> unsent_event list \<times> nat" where
  "chunk_step max_bytes (cks, cur, cur_bytes) e =
     (let size = estimated_envelope_bytes e
      in if cur \<noteq> [] \<and> max_bytes < cur_bytes + size then (cks @ [cur], [e], size)
         else (cks, cur @ [e], cur_bytes + size))"

definition chunk_by_bytes :: "unsent_event list \<Rightarrow> nat \<Rightarrow> unsent_event list list" where
  "chunk_by_bytes evs max_bytes =
     (let (cks, cur, _) = foldl (chunk_step max_bytes) ([], [], 0) evs in if cur = [] then cks else cks @ [cur])"

text \<open>What a batch needs from outside: serde's reading of a stored payload, the hash, a fresh batch id, the crate's version,
  Unicode's tables, and the catalogue.\<close>

record batch_env =
  from_json :: "string \<Rightarrow> game_event option"
  hash_keys :: "string \<Rightarrow> string"
  fresh_batch_id :: string
  pkg_version :: string
  unicode_tables :: unicode
  catalog :: location_catalog

definition build_envelope :: "batch_env \<Rightarrow> unsent_event \<Rightarrow> event_envelope exec" where
  "build_envelope env e =
     (let ev = from_json env (payload_json e);
          mk = (\<lambda>loc. \<lparr>idempotency_key = unsent_key e, event_envelope.raw_line = unsent_raw e, event_envelope.event = ev,
                      event_envelope.source = parse_source (unsent_source e), source_offset = unsent_offset e,
                      event_envelope.metadata = None, resolved_location = loc\<rparr>)
      in case Option.bind ev location_raw of
           None \<Rightarrow> Done (mk None)
         | Some rw \<Rightarrow>
             (case location_classify (unicode_tables env) rw (catalog env) of
                Panics \<Rightarrow> Panics
              | Done c \<Rightarrow> Done (mk (Some (resolved_location_from c)))))"

fun collect_exec :: "'a exec list \<Rightarrow> 'a list exec" where
  "collect_exec [] = Done []"
| "collect_exec (Panics # xs) = Panics"
| "collect_exec (Done x # xs) = (case collect_exec xs of Panics \<Rightarrow> Panics | Done ys \<Rightarrow> Done (x # ys))"

definition build_batch :: "batch_env \<Rightarrow> string \<Rightarrow> unsent_event list \<Rightarrow> u32 option \<Rightarrow> nat option \<Rightarrow> ingest_batch exec" where
  "build_batch env hdl evs pv sq =
     (case collect_exec (map (build_envelope env) evs) of
        Panics \<Rightarrow> Panics
      | Done envs \<Rightarrow>
          Done \<lparr>schema_version = CURRENT_SCHEMA_VERSION, batch_id = fresh_batch_id env, batch_build = None,
                collector_version = Some (pkg_version env), parser_version = pv, batch_sequence = sq,
                content_hash = Some (compute_content_hash (hash_keys env) evs), batch_range = compute_source_range evs,
                batch_handle = hdl, batch_events = envs\<rparr>)"

section \<open>Sending\<close>

record handle_changed =
  new_handle :: string
  device_token :: "string option"

record ingest_response =
  response_batch_id :: string
  accepted :: u32
  duplicate :: u32
  rejected :: u32
  response_handle_changed :: "handle_changed option"

text \<open>The outcome of one POST: a network error, or a status with its body; the body as JSON is \<open>None\<close> when it does not parse.\<close>

datatype http_outcome = NetworkError | Http (http_status: nat) (http_body: string) (http_json: "ingest_response option")

datatype send_result = SendOk ingest_response | SendAuth nat string | SendBadBatch nat string | SendTransient

definition classify_response :: "http_outcome \<Rightarrow> send_result" where
  "classify_response out =
     (case out of
        NetworkError \<Rightarrow> SendTransient
      | Http code bd js \<Rightarrow>
          if code = 401 \<or> code = 403 then SendAuth code bd
          else if 400 \<le> code \<and> code < 500 then SendBadBatch code bd
          else if \<not> (200 \<le> code \<and> code < 300) then SendTransient
          else (case js of Some r \<Rightarrow> SendOk r | None \<Rightarrow> SendTransient))"

definition try_send_batch ::
  "batch_env \<Rightarrow> (ingest_batch \<Rightarrow> 'srv \<Rightarrow> http_outcome \<times> 'srv) \<Rightarrow> string \<Rightarrow> unsent_event list \<Rightarrow> u32 option \<Rightarrow> nat option \<Rightarrow> 'srv
    \<Rightarrow> (send_result \<times> 'srv) exec" where
  "try_send_batch env post hdl evs pv sq srv =
     (case build_batch env hdl evs pv sq of
        Panics \<Rightarrow> Panics
      | Done b \<Rightarrow> (case post b srv of (out, srv') \<Rightarrow> Done (classify_response out, srv')))"


section \<open>Draining\<close>

record sync_stats =
  last_attempt_at :: "string option"
  last_success_at :: "string option"
  last_error :: "string option"
  batches_sent :: nat
  events_accepted :: nat
  events_duplicate :: nat
  events_rejected :: nat
  events_quarantined :: nat

record 'srv sync_state =
  ss_store :: local_store
  ss_server :: 'srv
  ss_handle :: "string option"
  ss_token :: "string option"
  ss_auth_lost :: bool
  ss_stats :: sync_stats

record drain_totals =
  total_sent :: nat
  total_accepted :: u32
  total_duplicate :: u32
  total_rejected :: u32
  total_quarantined :: nat
  adopted :: "handle_changed option"

definition no_totals :: drain_totals where
  "no_totals =
     \<lparr>total_sent = 0, total_accepted = 0, total_duplicate = 0, total_rejected = 0, total_quarantined = 0, adopted = None\<rparr>"

datatype drain_error = SyncDisabled | AuthLost nat | HeartbeatAuthLost | QuarantineCap | SendFailed

definition MAX_QUARANTINES_PER_DRAIN :: nat where
  "MAX_QUARANTINES_PER_DRAIN = 10"

definition apply_handle_change :: "handle_changed \<Rightarrow> 'srv sync_state \<Rightarrow> 'srv sync_state" where
  "apply_handle_change hc st =
     st\<lparr>ss_handle := Some (new_handle hc),
        ss_token := (case device_token hc of Some t \<Rightarrow> Some t | None \<Rightarrow> ss_token st)\<rparr>"

definition clear_persisted_device_token :: "'srv sync_state \<Rightarrow> 'srv sync_state" where
  "clear_persisted_device_token st = st\<lparr>ss_handle := None, ss_token := None\<rparr>"

definition lose_auth :: "'srv sync_state \<Rightarrow> 'srv sync_state" where
  "lose_auth st = (clear_persisted_device_token st)\<lparr>ss_auth_lost := True\<rparr>"

datatype 'srv drain_next =
    Continue "unsent_event list list" drain_totals "'srv sync_state"
  | Stop drain_error "'srv sync_state"

definition batch_delivered :: "string \<Rightarrow> nat \<Rightarrow> unsent_event list \<Rightarrow> ingest_response \<Rightarrow> drain_totals \<Rightarrow> 'srv sync_state
    \<Rightarrow> drain_totals \<times> 'srv sync_state" where
  "batch_delivered now sq sub r tot st =
     (let ids = map unsent_id sub;
          st1 = st\<lparr>ss_store := commit_batch_sequence sq (mark_sent now ids (ss_store st))\<rparr>;
          tot1 = tot\<lparr>total_sent := total_sent tot + length ids, total_accepted := total_accepted tot + accepted r,
                     total_duplicate := total_duplicate tot + duplicate r, total_rejected := total_rejected tot + rejected r\<rparr>
      in case response_handle_changed r of
           Some hc \<Rightarrow> if adopted tot = None then (tot1\<lparr>adopted := Some hc\<rparr>, apply_handle_change hc st1) else (tot1, st1)
         | None \<Rightarrow> (tot1, st1))"

text \<open>One turn of the loop: the sub-batch on top of the stack is sent, split, shelved, or ends the drain.\<close>

definition drain_step ::
  "batch_env \<Rightarrow> (ingest_batch \<Rightarrow> 'srv \<Rightarrow> http_outcome \<times> 'srv) \<Rightarrow> string \<Rightarrow> string \<Rightarrow> u32 option \<Rightarrow> unsent_event list
    \<Rightarrow> unsent_event list list \<Rightarrow> drain_totals \<Rightarrow> 'srv sync_state \<Rightarrow> 'srv drain_next exec" where
  "drain_step env post now hdl pv sub rest tot st =
     (let sq = peek_next_batch_sequence (ss_store st)
      in case try_send_batch env post hdl sub pv (Some sq) (ss_server st) of
           Panics \<Rightarrow> Panics
         | Done (res, srv) \<Rightarrow>
             Done (let st1 = st\<lparr>ss_server := srv\<rparr>
                   in case res of
                        SendOk r \<Rightarrow> (case batch_delivered now sq sub r tot st1 of (tot', st') \<Rightarrow> Continue rest tot' st')
                      | SendAuth code bd \<Rightarrow>
                          if is_sync_disabled_rejection bd then Stop SyncDisabled st1 else Stop (AuthLost code) (lose_auth st1)
                      | SendBadBatch code bd \<Rightarrow>
                          if length sub = 1 then
                            if MAX_QUARANTINES_PER_DRAIN \<le> total_quarantined tot then Stop QuarantineCap st1
                            else Continue rest (tot\<lparr>total_quarantined := total_quarantined tot + 1\<rparr>)
                                   (st1\<lparr>ss_store := mark_quarantined now [unsent_id (hd sub)] (ss_store st1)\<rparr>)
                          else
                            let mid = length sub div 2
                            in Continue (take mid sub # drop mid sub # rest) tot st1
                      | SendTransient \<Rightarrow> Stop SendFailed st1))"

partial_function (option) drain_loop ::
  "batch_env \<Rightarrow> (ingest_batch \<Rightarrow> 'srv \<Rightarrow> http_outcome \<times> 'srv) \<Rightarrow> string \<Rightarrow> string \<Rightarrow> u32 option
    \<Rightarrow> unsent_event list list \<Rightarrow> drain_totals \<Rightarrow> 'srv sync_state
    \<Rightarrow> ((drain_error + drain_totals) \<times> 'srv sync_state) exec option" where
  "drain_loop env post now hdl pv stack tot st =
     (case stack of
        [] \<Rightarrow> Some (Done (Inr tot, st))
      | sub # rest \<Rightarrow>
          (case drain_step env post now hdl pv sub rest tot st of
             Panics \<Rightarrow> Some Panics
           | Done (Stop e st') \<Rightarrow> Some (Done (Inl e, st'))
           | Done (Continue stack' tot' st') \<Rightarrow> drain_loop env post now hdl pv stack' tot' st'))"

datatype lane = Priority | Bulk

definition lane_label :: "lane \<Rightarrow> string" where
  "lane_label lane = (case lane of Priority \<Rightarrow> ''priority'' | Bulk \<Rightarrow> ''bulk'')"

datatype me_outcome = MeOk | MeRejected | MeFailed

record lane_env =
  lane_clock :: nat
  now_text :: string
  opted_in :: bool
  fetch_me :: me_outcome
  error_text :: "drain_error \<Rightarrow> string"

record lane_timers =
  last_heartbeat :: "nat option"
  last_tag_report :: "nat option"

text \<open>The drain of an empty queue: the bulk lane's report of unknown tags and its heartbeat, each at most once per interval.\<close>

definition idle_drain :: "lane \<Rightarrow> lane_env \<Rightarrow> lane_timers \<Rightarrow> 'srv sync_state \<Rightarrow> (drain_error option \<times> lane_timers) \<times> 'srv sync_state" where
  "idle_drain lane le tm st =
     (let tm1 = (if lane = Bulk \<and> tag_report_due (last_tag_report tm) (lane_clock le) \<and> opted_in le
                 then tm\<lparr>last_tag_report := Some (lane_clock le)\<rparr> else tm)
      in if lane = Bulk \<and> heartbeat_due (last_heartbeat tm1) (lane_clock le) then
           let tm2 = tm1\<lparr>last_heartbeat := Some (lane_clock le)\<rparr>;
               st1 = (if fetch_me le = MeRejected then lose_auth st else st);
               st2 = st1\<lparr>ss_stats := (ss_stats st1)\<lparr>last_attempt_at := Some (now_text le)\<rparr>\<rparr>
           in ((if fetch_me le = MeRejected then Some HeartbeatAuthLost else None, tm2), st2)
         else ((None, tm1), st))"

record drain_outcome =
  page_was_full :: bool
  outcome_handle :: "handle_changed option"

definition count_drain :: "string \<Rightarrow> drain_totals \<Rightarrow> sync_stats \<Rightarrow> sync_stats" where
  "count_drain now tot s =
     s\<lparr>last_success_at := Some now, last_error := None, batches_sent := batches_sent s + 1,
       events_accepted := events_accepted s + unat (total_accepted tot),
       events_duplicate := events_duplicate s + unat (total_duplicate tot),
       events_rejected := events_rejected s + unat (total_rejected tot),
       events_quarantined := events_quarantined s + total_quarantined tot\<rparr>"

definition drain_lane ::
  "lane \<Rightarrow> batch_env \<Rightarrow> (ingest_batch \<Rightarrow> 'srv \<Rightarrow> http_outcome \<times> 'srv) \<Rightarrow> lane_env \<Rightarrow> string \<Rightarrow> string list \<Rightarrow> nat \<Rightarrow> nat
    \<Rightarrow> lane_timers \<Rightarrow> 'srv sync_state \<Rightarrow> ((drain_error + drain_outcome) \<times> lane_timers \<times> 'srv sync_state) exec option" where
  "drain_lane lane env post le hdl priority_types page max_bytes tm st =
     (let pending = read_unsent_filtered priority_types (lane = Priority) page (ss_store st);
          full = (page \<le> length pending)
      in if pending = [] then
           (case idle_drain lane le tm st of
              ((Some e, tm'), st') \<Rightarrow> Some (Done (Inl e, tm', st'))
            | ((None, tm'), st') \<Rightarrow> Some (Done (Inr \<lparr>page_was_full = False, outcome_handle = None\<rparr>, tm', st')))
         else
           let st0 = st\<lparr>ss_stats := (ss_stats st)\<lparr>last_attempt_at := Some (now_text le)\<rparr>\<rparr>
           in map_option (\<lambda>out.
                case out of
                  Panics \<Rightarrow> Panics
                | Done (Inl e, st') \<Rightarrow> Done (Inl e, tm, st')
                | Done (Inr tot, st') \<Rightarrow>
                    Done (Inr \<lparr>page_was_full = full, outcome_handle = adopted tot\<rparr>, tm,
                          st'\<lparr>ss_stats := count_drain (now_text le) tot (ss_stats st')\<rparr>))
                (drain_loop env post (now_text le) hdl (read_parser_def_manifest_version (ss_store st))
                   (chunk_by_bytes pending max_bytes) no_totals st0))"

section \<open>The lane\<close>

record lane_state =
  lane_handle :: string
  lane_token :: string
  consecutive_failures :: u32
  catching_up :: bool
  timers :: lane_timers

datatype 'srv lane_next = Exit | Sleep nat lane_state "'srv sync_state"

definition saturating_inc :: "u32 \<Rightarrow> u32" where
  "saturating_inc x = (if x = - 1 then x else x + 1)"

text \<open>One turn of a lane's loop up to its sleep; \<open>None\<close> stands for a drain that does not return, and a panic ends the task.\<close>

definition lane_tick ::
  "lane \<Rightarrow> drain_tuning \<Rightarrow> nat \<Rightarrow> batch_env \<Rightarrow> (string \<Rightarrow> ingest_batch \<Rightarrow> 'srv \<Rightarrow> http_outcome \<times> 'srv) \<Rightarrow> lane_env \<Rightarrow> string list \<Rightarrow> bool
    \<Rightarrow> lane_state \<Rightarrow> 'srv sync_state \<Rightarrow> 'srv lane_next exec option" where
  "lane_tick lane t interval env post le priority_types game_running ls st =
     (if ss_auth_lost st then Some (Done Exit)
      else
        let probed = (catching_up ls \<and> catch_up_enabled t \<and> game_running);
            page = page_size t (catching_up ls) probed
        in map_option (\<lambda>out.
             case out of
               Panics \<Rightarrow> Panics
             | Done (r, tm', st') \<Rightarrow>
                 Done (let ls1 = ls\<lparr>timers := tm'\<rparr>;
                           (ls2, st2) =
                             (case r of
                                Inr dout \<Rightarrow>
                                  (let ls3 = (case outcome_handle dout of
                                                Some hc \<Rightarrow> ls1\<lparr>lane_handle := new_handle hc,
                                                              lane_token := (case device_token hc of Some d \<Rightarrow> d | None \<Rightarrow> lane_token ls1)\<rparr>
                                              | None \<Rightarrow> ls1)
                                   in (ls3\<lparr>consecutive_failures := 0, catching_up := page_was_full dout\<rparr>, st'))
                              | Inl e \<Rightarrow>
                                  (ls1\<lparr>consecutive_failures := saturating_inc (consecutive_failures ls1), catching_up := False\<rparr>,
                                   st'\<lparr>ss_stats := (ss_stats st')\<lparr>last_error := Some (lane_label lane @ '': '' @ error_text le e)\<rparr>\<rparr>));
                           game_now = (catching_up ls2 \<and> catch_up_enabled t \<and> game_running)
                       in Sleep (lane_delay t (catching_up ls2) game_now interval (consecutive_failures ls2)) ls2 st2))
             (drain_lane lane env (post (lane_token ls)) le (lane_handle ls) priority_types page (max_batch_bytes t) (timers ls) st))"

text \<open>The lane's loop for a finite number of turns, with what each turn meets; the flag tells whether the worker has left the loop.\<close>

fun lane_loop ::
  "lane \<Rightarrow> drain_tuning \<Rightarrow> nat \<Rightarrow> batch_env \<Rightarrow> (string \<Rightarrow> ingest_batch \<Rightarrow> 'srv \<Rightarrow> http_outcome \<times> 'srv) \<Rightarrow> string list
    \<Rightarrow> (lane_env \<times> bool) list \<Rightarrow> lane_state \<Rightarrow> 'srv sync_state \<Rightarrow> (bool \<times> lane_state \<times> 'srv sync_state) exec option" where
  "lane_loop lane t interval env post priority_types [] ls st = Some (Done (False, ls, st))"
| "lane_loop lane t interval env post priority_types ((le, game_running) # ticks) ls st =
     (case lane_tick lane t interval env post le priority_types game_running ls st of
        None \<Rightarrow> None
      | Some Panics \<Rightarrow> Some Panics
      | Some (Done Exit) \<Rightarrow> Some (Done (True, ls, st))
      | Some (Done (Sleep _ ls' st')) \<Rightarrow> lane_loop lane t interval env post priority_types ticks ls' st')"

section \<open>Helpers\<close>

lemma foldl_chunk_step:
  assumes "foldl (chunk_step m) (cks, cur, b) evs = (cks', cur', b')"
  shows "concat cks' @ cur' = concat cks @ cur @ evs" and "[] \<notin> set cks \<Longrightarrow> [] \<notin> set cks'"
  using assms
proof (induction evs arbitrary: cks cur b)
  case (Cons e evs)
  {
    case 1
    then show ?case by (auto simp: Let_def split: if_splits dest!: Cons.IH(1))
  next
    case 2
    then show ?case by (auto simp: Let_def split: if_splits dest: Cons.IH(2) [rotated])
  }
qed auto

lemma chunk_by_bytes_fold:
  obtains cks cur b where "foldl (chunk_step m) ([], [], 0) evs = (cks, cur, b)"
    and "chunk_by_bytes evs m = (if cur = [] then cks else cks @ [cur])"
  by (cases "foldl (chunk_step m) ([], [], 0) evs") (auto simp: chunk_by_bytes_def)

lemma chunk_by_bytes_concat: "concat (chunk_by_bytes evs m) = evs"
  by (rule chunk_by_bytes_fold [of m evs], drule foldl_chunk_step(1)) (auto split: if_splits)

lemma chunk_by_bytes_nonempty: "[] \<notin> set (chunk_by_bytes evs m)"
  by (rule chunk_by_bytes_fold [of m evs], drule foldl_chunk_step(2)) (auto split: if_splits)

abbreviation batch_bytes :: "unsent_event list \<Rightarrow> nat" where
  "batch_bytes c \<equiv> sum_list (map estimated_envelope_bytes c)"

lemma foldl_chunk_bytes:
  "foldl (chunk_step m) (cks, cur, batch_bytes cur) evs = (cks', cur', b') \<Longrightarrow>
     (\<forall>c\<in>set (cur # cks). batch_bytes c \<le> m \<or> length c = 1 \<or> c = []) \<Longrightarrow>
     \<forall>c\<in>set (cur' # cks'). batch_bytes c \<le> m \<or> length c = 1 \<or> c = []"
proof (induction evs arbitrary: cks cur)
  case (Cons e evs)
  show ?case
  proof (cases "cur \<noteq> [] \<and> m < batch_bytes cur + estimated_envelope_bytes e")
    case True
    then show ?thesis using Cons.IH [of "cks @ [cur]" "[e]"] Cons.prems by (auto simp: Let_def)
  next
    case False
    then show ?thesis using Cons.IH [of cks "cur @ [e]"] Cons.prems by (cases cur) (auto simp: Let_def add.assoc)
  qed
qed auto

lemma chunk_by_bytes_bounded: "c \<in> set (chunk_by_bytes evs m) \<Longrightarrow> batch_bytes c \<le> m \<or> length c = 1"
  by (rule chunk_by_bytes_fold [of m evs], drule foldl_chunk_bytes [of m "[]" "[]", simplified])
    (use chunk_by_bytes_nonempty [of evs m] in \<open>auto split: if_splits\<close>)

lemma collect_exec_map [simp]: "collect_exec (map Done ys) = Done ys"
  by (induction ys) auto

lemma collect_exec_Done: "collect_exec xs = Done ys \<longleftrightarrow> xs = map Done ys"
  by (induction xs arbitrary: ys rule: collect_exec.induct)
    (auto split: exec.splits simp: inj_map_eq_map inj_def)

lemma build_envelope_key: "build_envelope env e = Done v \<Longrightarrow> idempotency_key v = unsent_key e"
  by (auto simp: build_envelope_def Let_def split: option.splits exec.splits)

lemma build_batch_keys:
  assumes "build_batch env hdl evs pv sq = Done b"
  shows "map idempotency_key (batch_events b) = map unsent_key evs"
proof -
  have "map (build_envelope env) evs = map Done (batch_events b)"
    using assms by (auto simp: build_batch_def collect_exec_Done [symmetric] split: exec.splits)
  then show ?thesis
    by (auto simp: list_eq_iff_nth_eq build_envelope_key)
qed

text \<open>One turn consumes the sub-batch or halves it.\<close>

definition stack_weight :: "unsent_event list list \<Rightarrow> nat" where
  "stack_weight stack = sum_list (map (\<lambda>b. 2 * length b - 1) stack)"

lemma drain_step_stack:
  assumes "drain_step env post now hdl pv sub rest tot st = Done (Continue stack' tot' st')" "sub \<noteq> []"
  shows "stack' = rest \<or> 2 \<le> length sub \<and> stack' = take (length sub div 2) sub # drop (length sub div 2) sub # rest"
proof -
  have "1 \<le> length sub" using assms(2) by (cases sub) auto
  then show ?thesis using assms(1)
    by (auto simp: drain_step_def Let_def split: exec.splits prod.splits send_result.splits if_splits)
qed

lemma drain_step_weight:
  assumes "drain_step env post now hdl pv sub rest tot st = Done (Continue stack' tot' st')" "[] \<notin> set (sub # rest)"
  shows "stack_weight stack' < stack_weight (sub # rest) \<and> [] \<notin> set stack' \<and> set (concat stack') \<subseteq> set (concat (sub # rest))"
proof -
  consider "stack' = rest" | "2 \<le> length sub" "stack' = take (length sub div 2) sub # drop (length sub div 2) sub # rest"
    using drain_step_stack [OF assms(1)] assms(2) by auto
  then show ?thesis
  proof cases
    case 1
    then show ?thesis using assms(2) by (cases sub) (auto simp: stack_weight_def)
  next
    case 2
    then show ?thesis using assms(2)
      by (auto simp: stack_weight_def dest: in_set_takeD in_set_dropD)
  qed
qed

lemma drain_loop_returns: "[] \<notin> set stack \<Longrightarrow> \<exists>r. drain_loop env post now hdl pv stack tot st = Some r"
proof (induction "stack_weight stack" arbitrary: stack tot st rule: less_induct)
  case less
  then show ?case
  proof (cases stack)
    case (Cons sub rest)
    then show ?thesis using less drain_step_weight [of env post now hdl pv sub rest tot st]
      by (subst drain_loop.simps) (fastforce split: exec.splits drain_next.splits)
  qed (subst drain_loop.simps, simp)
qed

text \<open>An invariant of the loop carries over to what it returns.\<close>

lemma drain_loop_rule:
  assumes "\<And>sub rest tot st stack' tot' st'. P (sub # rest) tot st \<Longrightarrow>
      drain_step env post now hdl pv sub rest tot st = Done (Continue stack' tot' st') \<Longrightarrow> P stack' tot' st'"
    and "\<And>sub rest tot st e st'. P (sub # rest) tot st \<Longrightarrow>
      drain_step env post now hdl pv sub rest tot st = Done (Stop e st') \<Longrightarrow> Q (Inl e) st'"
    and "\<And>tot st. P [] tot st \<Longrightarrow> Q (Inr tot) st"
    and "P stack tot st" "[] \<notin> set stack" "drain_loop env post now hdl pv stack tot st = Some (Done (r, st'))"
  shows "Q r st'"
  using assms(4-)
proof (induction "stack_weight stack" arbitrary: stack tot st rule: less_induct)
  case less
  show ?case
  proof (cases stack)
    case Nil
    then show ?thesis using less.prems assms(3) by (subst (asm) drain_loop.simps) auto
  next
    case (Cons sub rest)
    then have out: "case drain_step env post now hdl pv sub rest tot st of
        Panics \<Rightarrow> False
      | Done (Stop e st'') \<Rightarrow> r = Inl e \<and> st' = st''
      | Done (Continue stack' tot' st'') \<Rightarrow> drain_loop env post now hdl pv stack' tot' st'' = Some (Done (r, st'))"
      using less.prems(3) by (subst (asm) drain_loop.simps) (auto split: exec.splits drain_next.splits)
    show ?thesis
    proof (cases "drain_step env post now hdl pv sub rest tot st")
      case (Done nx)
      show ?thesis
      proof (cases nx)
        case (Continue stack' tot' st'')
        with Done Cons less.prems have "stack_weight stack' < stack_weight stack" "[] \<notin> set stack'" "P stack' tot' st''"
          using drain_step_weight [of env post now hdl pv sub rest tot st] assms(1) by auto
        then show ?thesis using less.hyps out Done Continue by auto
      next
        case (Stop e st'')
        then show ?thesis using assms(2) Done Cons less.prems out by auto
      qed
    qed (use out in simp)
  qed
qed

lemma backoff_delay_capped:
  "backoff_delay interval f = (if f = 0 then interval else min MAX_BACKOFF (interval * 2 ^ min (unat (f - 1)) 20))"
  by (auto simp: backoff_delay_def checked_mul_def MAX_BACKOFF_def Let_def min_def)

lemma shift_limit: "min MAX_BACKOFF (interval * 2 ^ min n 20) = min MAX_BACKOFF (interval * 2 ^ n)"
proof (cases "n \<le> 20 \<or> interval = 0")
  case False
  then have "(2 :: nat) ^ 20 \<le> 2 ^ n" by (intro power_increasing) auto
  moreover have "MAX_BACKOFF \<le> 2 ^ 20" by (simp add: MAX_BACKOFF_def)
  moreover have "2 ^ n \<le> interval * 2 ^ n" "2 ^ 20 \<le> interval * 2 ^ 20" using False by simp_all
  ultimately have "MAX_BACKOFF \<le> interval * 2 ^ n" "MAX_BACKOFF \<le> interval * 2 ^ 20" by linarith+
  then show ?thesis using False by (simp add: min_def)
qed (auto simp: min_def)

section \<open>Properties\<close>

text \<open>C19. A drain always returns, whatever the server answers: every turn of the bisection delivers, shelves or halves a batch.\<close>

theorem drain_lane_returns:
  "\<exists>r. drain_lane lane env post le hdl types page max_bytes tm st = Some r"
proof -
  have "\<exists>r. drain_loop env post now hdl' pv (chunk_by_bytes evs max_bytes) tot st = Some r" for now hdl' pv evs tot and st :: "'a sync_state"
    by (rule drain_loop_returns [OF chunk_by_bytes_nonempty])
  then show ?thesis
    by (auto simp: drain_lane_def Let_def split: prod.splits option.splits)
qed

text \<open>The sub-batches of a page are the page in order, none is empty, and each respects the byte limit or holds a single event.\<close>

theorem chunk_by_bytes_partition:
  "concat (chunk_by_bytes evs max_bytes) = evs \<and>
   list_all (\<lambda>c. c \<noteq> [] \<and> (batch_bytes c \<le> max_bytes \<or> length c = 1)) (chunk_by_bytes evs max_bytes)"
  using chunk_by_bytes_nonempty [of evs max_bytes]
  by (auto simp: chunk_by_bytes_concat list_all_iff dest: chunk_by_bytes_bounded)

text \<open>C33. Backoff never overflows and is exactly exponential: after the first failure the lane waits for its interval, and every further failure doubles the
  wait up to five minutes; the limit of the shift never shows.  A lane with any interval waits for five minutes from the twentieth failure on.  For an interval of at
  most five minutes the wait is never shorter than the interval; a longer interval is cut short by a failure.\<close>

theorem backoff_delay_exact:
  "backoff_delay interval f = (if f = 0 then interval else min MAX_BACKOFF (interval * 2 ^ (unat f - 1))) \<and>
   (interval \<le> MAX_BACKOFF \<longrightarrow> interval \<le> backoff_delay interval f \<and> backoff_delay interval f \<le> MAX_BACKOFF) \<and>
   (0 < interval \<longrightarrow> 20 \<le> f \<longrightarrow> backoff_delay interval f = MAX_BACKOFF) \<and>
   (MAX_BACKOFF < interval \<longrightarrow> 0 < f \<longrightarrow> backoff_delay interval f = MAX_BACKOFF)"
proof -
  have form: "backoff_delay interval f = (if f = 0 then interval else min MAX_BACKOFF (interval * 2 ^ (unat f - 1)))"
    by (simp add: backoff_delay_capped shift_limit unat_minus_one)
  have "interval \<le> interval * 2 ^ (unat f - 1)" by simp
  then have "MAX_BACKOFF \<le> interval * 2 ^ (unat f - 1)" if "MAX_BACKOFF < interval" using that by linarith
  moreover have "MAX_BACKOFF \<le> interval * 2 ^ (unat f - 1)" if "0 < interval" "20 \<le> f"
  proof -
    have "19 \<le> unat f - 1" using that(2) by (simp add: word_le_nat_alt)
    then have "(2 :: nat) ^ 19 \<le> 2 ^ (unat f - 1)" by (rule power_increasing) simp
    also have "\<dots> \<le> interval * 2 ^ (unat f - 1)" using that(1) by simp
    finally show ?thesis by (simp add: MAX_BACKOFF_def)
  qed
  moreover have "f \<noteq> 0" if "20 \<le> f" using that by auto
  ultimately show ?thesis using form by (auto simp: word_gt_0)
qed

theorem backoff_delay_exact_witness:
  "backoff_delay 5000 3 = 20000 \<and> 5000 \<le> backoff_delay 5000 3 \<and> backoff_delay 1 20 = 300000 \<and> backoff_delay 600000 1 = 300000"
  using backoff_delay_exact [of 5000 3] backoff_delay_exact [of 1 20] backoff_delay_exact [of 600000 1] by (simp add: MAX_BACKOFF_def)

end
