(* ===== verification/Delivery.thy ===== *)
theory Delivery
  imports Sync
begin

text \<open>
  What the sync worker achieves with the outbox: the properties of the drain and the lane of \<open>crates/starstats-client/src/sync.rs\<close> over
  the rows of \<open>storage.rs\<close>.  The drain knows the outbox through the locale \<open>outbox\<close>, which the store's operations satisfy.  Two kinds of
  server stand for the other side: one that refuses exactly the batches with a bad event (\<open>isolating\<close>), and one that answers as it likes and
  keeps a log (\<open>logging\<close>).

  The lemmas show that bisection settles its page up to the cap, that every change of a row has an answer of the server behind it, and that
  a lane empties its part of the outbox.
\<close>

section \<open>Settling rows\<close>

text \<open>What a drain does to a row when the server refuses exactly the batches that hold a bad key.\<close>

definition settle :: "(string \<Rightarrow> bool) \<Rightarrow> string \<Rightarrow> unsent_event list \<Rightarrow> event_row \<Rightarrow> event_row" where
  "settle bad now evs r =
     (if sent_at r \<noteq> None then r
      else
        case find (\<lambda>e. unsent_id e = row_id r) evs of
          Some e \<Rightarrow> r\<lparr>sent_at := Some (if bad (unsent_key e) then QUARANTINE_PREFIX @ now else now)\<rparr>
        | None \<Rightarrow> r)"

lemma find_append: "find P (xs @ ys) = (case find P xs of Some x \<Rightarrow> Some x | None \<Rightarrow> find P ys)"
  by (induction xs) auto

lemma find_SomeD: "find P xs = Some x \<Longrightarrow> x \<in> set xs \<and> P x"
  by (induction xs) (auto split: if_splits)

lemma find_id_None: "find (\<lambda>e. f e = y) xs = None \<longleftrightarrow> y \<notin> f ` set xs"
  by (auto simp: find_None_iff)

lemma settle_nil [simp]: "settle bad now [] = Fun.id"
  by (auto simp: settle_def fun_eq_iff)

lemma settle_append: "settle bad now (xs @ ys) r = settle bad now ys (settle bad now xs r)"
  by (auto simp: settle_def find_append split: option.splits)

text \<open>What the drain relies on of the outbox: a stamp reaches exactly the pending rows of the ids.\<close>

locale outbox =
  fixes rows_of :: "'st \<Rightarrow> event_row list"
    and sent :: "string \<Rightarrow> int list \<Rightarrow> 'st \<Rightarrow> 'st"
    and shelve :: "string \<Rightarrow> int list \<Rightarrow> 'st \<Rightarrow> 'st"
  assumes sent_rows: "rows_of (sent now ids st) =
      map (\<lambda>r. if sent_at r = None \<and> row_id r \<in> set ids then r\<lparr>sent_at := Some now\<rparr> else r) (rows_of st)"
    and shelve_rows: "rows_of (shelve now ids st) =
      map (\<lambda>r. if sent_at r = None \<and> row_id r \<in> set ids then r\<lparr>sent_at := Some (QUARANTINE_PREFIX @ now)\<rparr> else r) (rows_of st)"
begin

lemma settle_good:
  assumes "\<And>e. e \<in> set evs \<Longrightarrow> \<not> bad (unsent_key e)"
  shows "rows_of (sent now (map unsent_id evs) st) = map (settle bad now evs) (rows_of st)"
proof -
  have "(if sent_at r = None \<and> row_id r \<in> unsent_id ` set evs then r\<lparr>sent_at := Some now\<rparr> else r) = settle bad now evs r" for r
    using assms by (auto simp: settle_def find_id_None split: option.splits dest!: find_SomeD)
  then show ?thesis by (simp add: sent_rows)
qed

lemma settle_bad:
  assumes "bad (unsent_key e)"
  shows "rows_of (shelve now [unsent_id e] st) = map (settle bad now [e]) (rows_of st)"
  using assms by (auto simp: shelve_rows settle_def)

text \<open>Ids that no row carries, or only rows already stamped, change nothing.\<close>

lemma sent_unknown: "(\<And>r. r \<in> set (rows_of st) \<Longrightarrow> sent_at r = None \<Longrightarrow> row_id r \<notin> set ids) \<Longrightarrow> rows_of (sent now ids st) = rows_of st"
  by (auto simp: sent_rows intro!: map_idI)

lemma sent_twice: "rows_of (sent now' ids (sent now ids st)) = rows_of (sent now ids st)"
  by (rule sent_unknown) (auto simp: sent_rows split: if_splits)

end

interpretation ob: outbox ls_events mark_sent mark_quarantined
  by unfold_locales (simp_all add: mark_sent_stamp mark_quarantined_stamp stamp_ids_def)

lemma batch_delivered_store:
  assumes "batch_delivered now sq sub r tot st = (tot', st')"
  shows "ls_events (ss_store st') = ls_events (mark_sent now (map unsent_id sub) (ss_store st))"
    "total_quarantined tot' = total_quarantined tot" "total_sent tot' = total_sent tot + length sub" "ss_server st' = ss_server st"
    "ss_auth_lost st' = ss_auth_lost st"
  using assms
  by (auto simp: batch_delivered_def Let_def commit_batch_sequence_def apply_handle_change_def split: option.splits if_splits)

text \<open>The server of the poison-pill argument, whatever its state and its wording.\<close>

definition isolating :: "(ingest_batch \<Rightarrow> 'srv \<Rightarrow> http_outcome \<times> 'srv) \<Rightarrow> (string \<Rightarrow> bool) \<Rightarrow> bool" where
  "isolating post bad \<longleftrightarrow>
     (\<forall>b srv. case classify_response (fst (post b srv)) of
                SendOk _ \<Rightarrow> \<not> list_ex (\<lambda>e. bad (idempotency_key e)) (batch_events b)
              | SendBadBatch _ _ \<Rightarrow> list_ex (\<lambda>e. bad (idempotency_key e)) (batch_events b)
              | _ \<Rightarrow> False)"

abbreviation bad_of :: "(string \<Rightarrow> bool) \<Rightarrow> unsent_event list \<Rightarrow> unsent_event list" where
  "bad_of bad evs \<equiv> filter (\<lambda>e. bad (unsent_key e)) evs"

lemma build_batch_Done:
  assumes "\<And>e. e \<in> set evs \<Longrightarrow> build_envelope env e \<noteq> Panics"
  shows "\<exists>b. build_batch env hdl evs pv sq = Done b"
proof -
  have "\<exists>vs. map (build_envelope env) evs = map Done vs"
    using assms
  proof (induction evs)
    case (Cons e evs)
    then obtain v vs where "build_envelope env e = Done v" "map (build_envelope env) evs = map Done vs"
      by (metis exec.exhaust list.set_intros)
    then show ?case by (intro exI [of _ "v # vs"]) simp
  qed simp
  then show ?thesis by (auto simp: build_batch_def)
qed

lemma isolating_send:
  assumes "isolating post bad" "\<And>e. e \<in> set evs \<Longrightarrow> build_envelope env e \<noteq> Panics"
  shows "\<exists>res srv'. try_send_batch env post hdl evs pv sq srv = Done (res, srv') \<and>
           (case res of SendOk _ \<Rightarrow> bad_of bad evs = [] | SendBadBatch _ _ \<Rightarrow> bad_of bad evs \<noteq> [] | _ \<Rightarrow> False)"
proof -
  obtain b where b: "build_batch env hdl evs pv sq = Done b" using build_batch_Done assms(2) by blast
  have keys: "list_ex (\<lambda>e. bad (idempotency_key e)) (batch_events b) \<longleftrightarrow> bad_of bad evs \<noteq> []"
    using arg_cong [OF build_batch_keys [OF b], of "\<lambda>ks. list_ex bad ks"]
    by (auto simp: list_ex_iff filter_empty_conv dest: arg_cong [of _ _ set])
  have "case classify_response (fst (post b srv)) of
           SendOk _ \<Rightarrow> bad_of bad evs = [] | SendBadBatch _ _ \<Rightarrow> bad_of bad evs \<noteq> [] | _ \<Rightarrow> False"
    using assms(1) [unfolded isolating_def, rule_format, of b srv] keys by (cases "classify_response (fst (post b srv))") auto
  then show ?thesis using b by (cases "post b srv") (simp add: try_send_batch_def)
qed

text \<open>A turn on a batch delivers it, shelves its only event, halves it, or stops at the cap.\<close>

lemma isolating_step:
  fixes st :: "'srv sync_state"
  assumes "isolating post bad" "\<And>e. e \<in> set sub \<Longrightarrow> build_envelope env e \<noteq> Panics" "sub \<noteq> []"
  obtains (settled) tot' st' where "drain_step env post now hdl pv sub rest tot st = Done (Continue rest tot' st')"
      "ls_events (ss_store st') = map (settle bad now sub) (ls_events (ss_store st))" "ss_auth_lost st' = ss_auth_lost st"
      "total_quarantined tot' = total_quarantined tot + length (bad_of bad sub)"
    | (halved) st' where "drain_step env post now hdl pv sub rest tot st =
        Done (Continue (take (length sub div 2) sub # drop (length sub div 2) sub # rest) tot st')"
      "ss_store st' = ss_store st" "ss_auth_lost st' = ss_auth_lost st"
    | (capped) st' where "drain_step env post now hdl pv sub rest tot st = Done (Stop QuarantineCap st')"
      "ss_store st' = ss_store st" "ss_auth_lost st' = ss_auth_lost st"
      "MAX_QUARANTINES_PER_DRAIN \<le> total_quarantined tot" "bad (unsent_key (hd sub))"
proof -
  obtain res srv' where send: "try_send_batch env post hdl sub pv (Some (peek_next_batch_sequence (ss_store st))) (ss_server st) = Done (res, srv')"
    and res: "case res of SendOk _ \<Rightarrow> bad_of bad sub = [] | SendBadBatch _ _ \<Rightarrow> bad_of bad sub \<noteq> [] | _ \<Rightarrow> False"
    using isolating_send [OF assms(1,2)] by blast
  show ?thesis
  proof (cases res)
    case (SendOk r)
    then have good: "\<And>e. e \<in> set sub \<Longrightarrow> \<not> bad (unsent_key e)" using res by (simp add: filter_empty_conv)
    obtain tot' st' where "batch_delivered now (peek_next_batch_sequence (ss_store st)) sub r tot (st\<lparr>ss_server := srv'\<rparr>) = (tot', st')"
      by (cases "batch_delivered now (peek_next_batch_sequence (ss_store st)) sub r tot (st\<lparr>ss_server := srv'\<rparr>)")
    with SendOk send res good show ?thesis
      by (intro settled [of tot' st']) (auto simp: drain_step_def batch_delivered_store ob.settle_good)
  next
    case (SendBadBatch c bd)
    show ?thesis
    proof (cases "length sub = 1")
      case True
      then obtain e where "sub = [e]" "bad (unsent_key e)" using res SendBadBatch by (cases sub) (auto split: if_splits)
      then show ?thesis using SendBadBatch send
        by (cases "MAX_QUARANTINES_PER_DRAIN \<le> total_quarantined tot")
          (auto simp: drain_step_def ob.settle_bad [where bad = bad] intro: settled capped)
    next
      case False
      then show ?thesis using SendBadBatch send by (intro halved [of "st\<lparr>ss_server := srv'\<rparr>"]) (auto simp: drain_step_def Let_def)
    qed
  qed (use res in auto)
qed

text \<open>The loop settles a prefix of its events: all of them, or, when it meets one bad event too many, those before it.\<close>

lemma isolating_loop:
  fixes st :: "'srv sync_state"
  assumes "isolating post bad" "[] \<notin> set stack" "\<And>e. e \<in> set (concat stack) \<Longrightarrow> build_envelope env e \<noteq> Panics"
  shows "\<exists>pre suf res st'. concat stack = pre @ suf \<and> drain_loop env post now hdl pv stack tot st = Some (Done (res, st')) \<and>
           ls_events (ss_store st') = map (settle bad now pre) (ls_events (ss_store st)) \<and> ss_auth_lost st' = ss_auth_lost st \<and>
           ((\<exists>tot'. res = Inr tot' \<and> suf = []) \<or>
            res = Inl QuarantineCap \<and> MAX_QUARANTINES_PER_DRAIN \<le> total_quarantined tot + length (bad_of bad pre) \<and>
            suf \<noteq> [] \<and> bad (unsent_key (hd suf)))"
    (is "?goal stack tot st")
  using assms(2-)
proof (induction "stack_weight stack" arbitrary: stack tot st rule: less_induct)
  case less
  show ?case
  proof (cases stack)
    case Nil
    then show ?thesis by (subst drain_loop.simps) auto
  next
    case (Cons sub rest)
    have turn: "drain_loop env post now hdl pv stack tot st = drain_loop env post now hdl pv stack' tot' st'"
      if "drain_step env post now hdl pv sub rest tot st = Done (Continue stack' tot' st')" for stack' tot' st'
      using Cons that by (subst drain_loop.simps) auto
    have small: "stack_weight stack' < stack_weight stack" "[] \<notin> set stack'"
      if "drain_step env post now hdl pv sub rest tot st = Done (Continue stack' tot' st')" for stack' tot' st'
      using Cons drain_step_weight [OF that] less.prems(1) by auto
    have ne: "sub \<noteq> []" and safe: "\<And>e. e \<in> set sub \<Longrightarrow> build_envelope env e \<noteq> Panics" using less.prems Cons by auto
    show ?thesis
    proof (rule isolating_step [OF assms(1) safe ne, where now = now and hdl = hdl and pv = pv and rest = rest and tot = tot and st = st])
      fix tot' st'
      assume step: "drain_step env post now hdl pv sub rest tot st = Done (Continue rest tot' st')"
        and *: "ls_events (ss_store st') = map (settle bad now sub) (ls_events (ss_store st))" "ss_auth_lost st' = ss_auth_lost st"
          "total_quarantined tot' = total_quarantined tot + length (bad_of bad sub)"
      have "?goal rest tot' st'" using less.hyps [OF small [OF step]] less.prems(2) Cons by simp
      then obtain pre suf res st'' where "concat rest = pre @ suf" "drain_loop env post now hdl pv rest tot' st' = Some (Done (res, st''))"
        "ls_events (ss_store st'') = map (settle bad now pre) (ls_events (ss_store st'))" "ss_auth_lost st'' = ss_auth_lost st'"
        "(\<exists>tot''. res = Inr tot'' \<and> suf = []) \<or>
            res = Inl QuarantineCap \<and> MAX_QUARANTINES_PER_DRAIN \<le> total_quarantined tot' + length (bad_of bad pre) \<and>
            suf \<noteq> [] \<and> bad (unsent_key (hd suf))"
        by blast
      then show ?thesis using * turn [OF step] Cons
        by (intro exI [of _ "sub @ pre"] exI [of _ suf] exI [of _ res] exI [of _ st'']) (auto simp: settle_append)
    next
      fix st'
      let ?stack = "take (length sub div 2) sub # drop (length sub div 2) sub # rest"
      assume step: "drain_step env post now hdl pv sub rest tot st = Done (Continue ?stack tot st')"
        and *: "ss_store st' = ss_store st" "ss_auth_lost st' = ss_auth_lost st"
      have whole: "concat ?stack = concat stack" using Cons by (metis append.assoc append_take_drop_id concat.simps(2))
      from less.hyps [OF small [OF step], unfolded whole, OF less.prems(2), of tot st'] show ?thesis
        unfolding turn [OF step] * .
    next
      fix st'
      assume step: "drain_step env post now hdl pv sub rest tot st = Done (Stop QuarantineCap st')"
        and *: "ss_store st' = ss_store st" "ss_auth_lost st' = ss_auth_lost st"
          "MAX_QUARANTINES_PER_DRAIN \<le> total_quarantined tot" "bad (unsent_key (hd sub))"
      have "drain_loop env post now hdl pv stack tot st = Some (Done (Inl QuarantineCap, st'))"
        using Cons step by (subst drain_loop.simps) simp
      then show ?thesis using * Cons ne
        by (intro exI [of _ "[]"] exI [of _ "concat stack"] exI [of _ "Inl QuarantineCap"] exI [of _ st']) auto
    qed
  qed
qed

section \<open>Drains and lanes over an isolating server\<close>

definition page_rows :: "string list \<Rightarrow> bool \<Rightarrow> nat \<Rightarrow> local_store \<Rightarrow> event_row list" where
  "page_rows types only limit st = take limit (filter (\<lambda>r. sent_at r = None \<and> in_lane types only r) (ls_events st))"

lemma read_unsent_page: "read_unsent_filtered types only limit st = map map_unsent_row (page_rows types only limit st)"
  by (simp add: read_unsent_filtered_def page_rows_def)

lemma page_rows_sub: "r \<in> set (page_rows types only limit st) \<Longrightarrow> r \<in> set (ls_events st) \<and> sent_at r = None \<and> in_lane types only r"
  by (auto simp: page_rows_def dest!: in_set_takeD)

lemma same_id_same_row:
  "distinct (map row_id rows) \<Longrightarrow> r \<in> set rows \<Longrightarrow> q \<in> set rows \<Longrightarrow> row_id q = row_id r \<Longrightarrow> q = r"
  by (auto simp: distinct_map inj_on_def)

definition stamped :: "(string \<Rightarrow> bool) \<Rightarrow> string \<Rightarrow> event_row \<Rightarrow> event_row" where
  "stamped bad now r = r\<lparr>sent_at := Some (if bad (row_key r) then QUARANTINE_PREFIX @ now else now)\<rparr>"

lemma settle_rows:
  assumes "distinct (map row_id rows)" "r \<in> set rows" "set pre \<subseteq> set rows" "\<And>q. q \<in> set pre \<Longrightarrow> sent_at q = None"
  shows "settle bad now (map map_unsent_row pre) r = (if r \<in> set pre then stamped bad now r else r)"
proof (cases "find (\<lambda>e. unsent_id e = row_id r) (map map_unsent_row pre)")
  case None
  then have "r \<notin> set pre" by (auto simp: find_None_iff map_unsent_row_def)
  then show ?thesis using None by (simp add: settle_def)
next
  case (Some e)
  then obtain q where "q \<in> set pre" "e = map_unsent_row q" "row_id q = row_id r"
    by (auto dest!: find_SomeD simp: map_unsent_row_def)
  then have "q = r" using same_id_same_row assms(1-3) by blast
  with \<open>q \<in> set pre\<close> \<open>e = map_unsent_row q\<close> Some assms(4) show ?thesis
    by (auto simp: settle_def stamped_def map_unsent_row_def)
qed

lemma no_totals_quarantined [simp]: "total_quarantined no_totals = 0"
  by (simp add: no_totals_def)

text \<open>A drain settles its page, or its page up to a bad row after ten bad ones.\<close>

lemma isolating_drain:
  fixes st :: "'srv sync_state"
  assumes "isolating post bad" "distinct (map row_id (ls_events (ss_store st)))" "fetch_me le \<noteq> MeRejected"
    and "\<forall>r\<in>set (page_rows types (lane = Priority) page (ss_store st)). build_envelope env (map_unsent_row r) \<noteq> Panics"
  shows "\<exists>pre suf res tm' st'. page_rows types (lane = Priority) page (ss_store st) = pre @ suf \<and>
           drain_lane lane env post le hdl types page max_bytes tm st = Some (Done (res, tm', st')) \<and>
           ls_events (ss_store st') = map (\<lambda>r. if r \<in> set pre then stamped bad (now_text le) r else r) (ls_events (ss_store st)) \<and>
           ss_auth_lost st' = ss_auth_lost st \<and>
           ((\<exists>dout. res = Inr dout) \<and> suf = [] \<or>
            res = Inl QuarantineCap \<and> suf \<noteq> [] \<and> bad (row_key (hd suf)) \<and>
              MAX_QUARANTINES_PER_DRAIN \<le> length (filter (\<lambda>r. bad (row_key r)) pre))"
proof (cases "page_rows types (lane = Priority) page (ss_store st) = []")
  case True
  then show ?thesis using assms(3)
    by (auto simp: drain_lane_def read_unsent_page idle_drain_def Let_def)
next
  case False
  let ?rows = "page_rows types (lane = Priority) page (ss_store st)"
  let ?stack = "chunk_by_bytes (map map_unsent_row ?rows) max_bytes"
  let ?st0 = "st\<lparr>ss_stats := (ss_stats st)\<lparr>last_attempt_at := Some (now_text le)\<rparr>\<rparr>"
  have safe: "\<And>e. e \<in> set (concat ?stack) \<Longrightarrow> build_envelope env e \<noteq> Panics"
    using assms(4) by (auto simp: chunk_by_bytes_concat)
  have "\<exists>pre suf res st'. map map_unsent_row ?rows = pre @ suf \<and>
      drain_loop env post (now_text le) hdl (read_parser_def_manifest_version (ss_store st)) ?stack no_totals ?st0 = Some (Done (res, st')) \<and>
      ls_events (ss_store st') = map (settle bad (now_text le) pre) (ls_events (ss_store st)) \<and> ss_auth_lost st' = ss_auth_lost st \<and>
      ((\<exists>tot'. res = Inr tot' \<and> suf = []) \<or>
       res = Inl QuarantineCap \<and> MAX_QUARANTINES_PER_DRAIN \<le> length (bad_of bad pre) \<and> suf \<noteq> [] \<and> bad (unsent_key (hd suf)))"
    using isolating_loop [OF assms(1) chunk_by_bytes_nonempty [of "map map_unsent_row ?rows" max_bytes] safe,
        where now = "now_text le" and hdl = hdl and pv = "read_parser_def_manifest_version (ss_store st)" and tot = no_totals and st = ?st0]
    unfolding chunk_by_bytes_concat by simp
  then obtain pre suf res st' where loop: "map map_unsent_row ?rows = pre @ suf"
      "drain_loop env post (now_text le) hdl (read_parser_def_manifest_version (ss_store st)) ?stack no_totals ?st0 = Some (Done (res, st'))"
      "ls_events (ss_store st') = map (settle bad (now_text le) pre) (ls_events (ss_store st))" "ss_auth_lost st' = ss_auth_lost st"
      "(\<exists>tot'. res = Inr tot' \<and> suf = []) \<or>
       res = Inl QuarantineCap \<and> MAX_QUARANTINES_PER_DRAIN \<le> length (bad_of bad pre) \<and> suf \<noteq> [] \<and> bad (unsent_key (hd suf))"
    by blast
  then obtain pre' suf' where split: "?rows = pre' @ suf'" "pre = map map_unsent_row pre'" "suf = map map_unsent_row suf'"
    by (auto simp: map_eq_append_conv)
  have "set pre' \<subseteq> set (ls_events (ss_store st))" "\<And>q. q \<in> set pre' \<Longrightarrow> sent_at q = None"
    using page_rows_sub [of _ types "lane = Priority" page "ss_store st"] split(1) by auto
  then have "ls_events (ss_store st') = map (\<lambda>r. if r \<in> set pre' then stamped bad (now_text le) r else r) (ls_events (ss_store st))"
    using settle_rows [OF assms(2)] by (simp add: loop(3) split(2))
  moreover have "length (bad_of bad pre) = length (filter (\<lambda>r. bad (row_key r)) pre')"
    by (simp add: split(2) filter_map comp_def map_unsent_row_def)
  moreover have "suf' \<noteq> [] \<Longrightarrow> unsent_key (hd suf) = row_key (hd suf')"
    by (simp add: split(3) hd_map map_unsent_row_def)
  ultimately show ?thesis using loop split False
    by (intro exI [of _ pre'] exI [of _ suf'])
      (auto simp: drain_lane_def read_unsent_page Let_def split: option.splits)
qed

text \<open>Turns of a lane until its part of the outbox is empty.\<close>

lemma page_size_pos [simp]: "page_size (tuning_from_config cfg) c g \<noteq> 0"
  by (auto simp: page_size_def tuning_from_config_def Let_def)

lemma filter_map_le: "(\<And>x. P (f x) \<Longrightarrow> P x) \<Longrightarrow> length (filter P (map f xs)) \<le> length (filter P xs)"
  by (induction xs) auto

lemma filter_map_less:
  "(\<And>x. P (f x) \<Longrightarrow> P x) \<Longrightarrow> x \<in> set xs \<Longrightarrow> P x \<Longrightarrow> \<not> P (f x) \<Longrightarrow> length (filter P (map f xs)) < length (filter P xs)"
proof (induction xs)
  case (Cons y xs)
  then show ?case using filter_map_le [of P f xs] by (cases "x = y") (auto simp: less_Suc_eq_le)
qed simp

abbreviation lane_pending :: "string list \<Rightarrow> lane \<Rightarrow> event_row \<Rightarrow> bool" where
  "lane_pending types lane r \<equiv> sent_at r = None \<and> in_lane types (lane = Priority) r"

definition lane_settled :: "(string \<Rightarrow> bool) \<Rightarrow> string list \<Rightarrow> lane \<Rightarrow> string set \<Rightarrow> event_row \<Rightarrow> event_row \<Rightarrow> bool" where
  "lane_settled bad types lane stamps r r' \<longleftrightarrow>
     (if lane_pending types lane r then \<exists>tm\<in>stamps. r' = stamped bad tm r else r' = r)"

lemma isolating_tick:
  fixes st :: "'srv sync_state"
  assumes "\<forall>tok. isolating (post tok) bad" "distinct (map row_id (ls_events (ss_store st)))" "fetch_me le \<noteq> MeRejected" "\<not> ss_auth_lost st"
    and "\<forall>r\<in>set (ls_events (ss_store st)). lane_pending types lane r \<longrightarrow> build_envelope env (map_unsent_row r) \<noteq> Panics"
  shows "\<exists>pre d ls' st'. set pre \<subseteq> {r \<in> set (ls_events (ss_store st)). lane_pending types lane r} \<and>
           (pre = [] \<longrightarrow> filter (lane_pending types lane) (ls_events (ss_store st)) = []) \<and>
           lane_tick lane (tuning_from_config cfg) interval env post le types game_running ls st = Some (Done (Sleep d ls' st')) \<and>
           ls_events (ss_store st') = map (\<lambda>r. if r \<in> set pre then stamped bad (now_text le) r else r) (ls_events (ss_store st)) \<and>
           \<not> ss_auth_lost st'"
proof -
  let ?t = "tuning_from_config cfg"
  let ?page = "page_size ?t (catching_up ls) (catching_up ls \<and> catch_up_enabled ?t \<and> game_running)"
  let ?rows = "page_rows types (lane = Priority) ?page (ss_store st)"
  have "\<exists>pre suf res tm' st'. ?rows = pre @ suf \<and>
      drain_lane lane env (post (lane_token ls)) le (lane_handle ls) types ?page (max_batch_bytes ?t) (timers ls) st = Some (Done (res, tm', st')) \<and>
      ls_events (ss_store st') = map (\<lambda>r. if r \<in> set pre then stamped bad (now_text le) r else r) (ls_events (ss_store st)) \<and>
      ss_auth_lost st' = ss_auth_lost st \<and>
      ((\<exists>dout. res = Inr dout) \<and> suf = [] \<or>
       res = Inl QuarantineCap \<and> suf \<noteq> [] \<and> bad (row_key (hd suf)) \<and>
         MAX_QUARANTINES_PER_DRAIN \<le> length (filter (\<lambda>r. bad (row_key r)) pre))"
    using assms(5) by (intro isolating_drain assms(1) [rule_format] assms(2,3)) (auto dest: page_rows_sub)
  then obtain pre suf res tm' st' where drain: "?rows = pre @ suf"
      "drain_lane lane env (post (lane_token ls)) le (lane_handle ls) types ?page (max_batch_bytes ?t) (timers ls) st = Some (Done (res, tm', st'))"
      "ls_events (ss_store st') = map (\<lambda>r. if r \<in> set pre then stamped bad (now_text le) r else r) (ls_events (ss_store st))"
      "ss_auth_lost st' = ss_auth_lost st"
      "(\<exists>dout. res = Inr dout) \<and> suf = [] \<or>
       res = Inl QuarantineCap \<and> suf \<noteq> [] \<and> bad (row_key (hd suf)) \<and>
         MAX_QUARANTINES_PER_DRAIN \<le> length (filter (\<lambda>r. bad (row_key r)) pre)"
    by blast
  have "set pre \<subseteq> {r \<in> set (ls_events (ss_store st)). lane_pending types lane r}"
    using page_rows_sub [of _ types "lane = Priority" ?page "ss_store st"] drain(1) by auto
  moreover have "pre = [] \<longrightarrow> filter (lane_pending types lane) (ls_events (ss_store st)) = []"
    using drain(1,5) by (auto simp: page_rows_def MAX_QUARANTINES_PER_DRAIN_def)
  moreover obtain d ls' st'' where "lane_tick lane ?t interval env post le types game_running ls st = Some (Done (Sleep d ls' st''))"
      "ls_events (ss_store st'') = ls_events (ss_store st')" "ss_auth_lost st'' = ss_auth_lost st'"
    using drain(2) assms(4) by (cases res) (simp_all add: lane_tick_def Let_def)
  ultimately show ?thesis using drain(3,4) assms(4) by (intro exI [of _ pre] exI [of _ d] exI [of _ ls'] exI [of _ st'']) simp
qed

lemma lane_settled_step:
  assumes "lane_settled bad types lane T (if r \<in> pre then stamped bad now r else r) r'" "r \<in> pre \<Longrightarrow> lane_pending types lane r"
    and "T \<subseteq> T'" "now \<in> T'"
  shows "lane_settled bad types lane T' r r'"
proof (cases "r \<in> pre")
  case True
  then have "r' = stamped bad now r" using assms(1) by (simp add: lane_settled_def stamped_def)
  then show ?thesis using assms(2,4) True by (auto simp: lane_settled_def)
next
  case False
  then show ?thesis using assms(1,3) by (auto simp: lane_settled_def split: if_splits)
qed

lemma isolating_lane:
  fixes st :: "'srv sync_state"
  assumes "\<forall>tok. isolating (post tok) bad"
    and "\<forall>tick\<in>set ticks. fetch_me (fst tick) \<noteq> MeRejected"
    and "distinct (map row_id (ls_events (ss_store st)))" "\<not> ss_auth_lost st"
    and "\<forall>r\<in>set (ls_events (ss_store st)). lane_pending types lane r \<longrightarrow> build_envelope env (map_unsent_row r) \<noteq> Panics"
    and "length (filter (lane_pending types lane) (ls_events (ss_store st))) \<le> length ticks"
  shows "\<exists>ls' st'. lane_loop lane (tuning_from_config cfg) interval env post types ticks ls st = Some (Done (False, ls', st')) \<and> \<not> ss_auth_lost st' \<and>
           list_all2 (lane_settled bad types lane ((\<lambda>(le, g). now_text le) ` set ticks)) (ls_events (ss_store st)) (ls_events (ss_store st'))"
  using assms(2-)
proof (induction ticks arbitrary: ls st)
  case Nil
  then show ?case by (auto simp: lane_settled_def filter_empty_conv intro: list.rel_refl_strong)
next
  case (Cons tick ticks)
  obtain le g where tick: "tick = (le, g)" by (cases tick)
  have alive: "fetch_me le \<noteq> MeRejected" using Cons.prems(1) tick by auto
  obtain pre d ls1 st1 where step: "set pre \<subseteq> {r \<in> set (ls_events (ss_store st)). lane_pending types lane r}"
      "pre = [] \<Longrightarrow> filter (lane_pending types lane) (ls_events (ss_store st)) = []"
      "lane_tick lane (tuning_from_config cfg) interval env post le types g ls st = Some (Done (Sleep d ls1 st1))"
      "ls_events (ss_store st1) = map (\<lambda>r. if r \<in> set pre then stamped bad (now_text le) r else r) (ls_events (ss_store st))"
      "\<not> ss_auth_lost st1"
    using isolating_tick [OF assms(1) Cons.prems(2) alive Cons.prems(3,4),
        where cfg = cfg and interval = interval and game_running = g and ls = ls] by blast
  let ?f = "\<lambda>r. if r \<in> set pre then stamped bad (now_text le) r else r"
  have fewer: "length (filter (lane_pending types lane) (map ?f (ls_events (ss_store st)))) \<le> length ticks"
  proof (cases pre)
    case Nil
    then show ?thesis using step(2) by simp
  next
    case (Cons r rs)
    then have "length (filter (lane_pending types lane) (map ?f (ls_events (ss_store st))))
        < length (filter (lane_pending types lane) (ls_events (ss_store st)))"
      using step(1) by (intro filter_map_less [of _ _ r]) (auto simp: stamped_def split: if_splits)
    then show ?thesis using Cons.prems(5) by simp
  qed
  have ids: "distinct (map row_id (ls_events (ss_store st1)))"
    using Cons.prems(2) step(4) by (simp add: stamped_def comp_def if_distrib cong: if_cong)
  have safe: "\<forall>r\<in>set (ls_events (ss_store st1)). lane_pending types lane r \<longrightarrow> build_envelope env (map_unsent_row r) \<noteq> Panics"
    using Cons.prems(4) step(4) by (auto simp: stamped_def split: if_splits)
  have ticks: "\<forall>tick\<in>set ticks. fetch_me (fst tick) \<noteq> MeRejected" using Cons.prems(1) by auto
  from Cons.IH [OF ticks ids step(5) safe fewer [folded step(4)], of ls1, unfolded step(4)]
  obtain ls' st' where rest:
      "lane_loop lane (tuning_from_config cfg) interval env post types ticks ls1 st1 = Some (Done (False, ls', st'))" "\<not> ss_auth_lost st'"
      "list_all2 (lane_settled bad types lane ((\<lambda>(le, g). now_text le) ` set ticks)) (map ?f (ls_events (ss_store st))) (ls_events (ss_store st'))"
    by blast
  have "list_all2 (lane_settled bad types lane ((\<lambda>(le, g). now_text le) ` set (tick # ticks))) (ls_events (ss_store st)) (ls_events (ss_store st'))"
    using rest(3) unfolding list_all2_map1
    by (rule list.rel_mono_strong, elim lane_settled_step) (use step(1) tick in auto)
  then show ?case using rest(1,2) step(3) tick by auto
qed

text \<open>One lane after the other: with a server that takes everything both loops end and no row is left pending.\<close>

lemma lane_settled_id: "list_all2 (lane_settled bad types lane stamps) rows rows' \<Longrightarrow> map row_id rows' = map row_id rows"
  by (induction rule: list_all2_induct) (auto simp: lane_settled_def stamped_def split: if_splits)

lemma lane_settled_pending: "lane_settled bad types lane stamps r r' \<Longrightarrow> sent_at r' = None \<Longrightarrow> r' = r"
  by (auto simp: lane_settled_def stamped_def split: if_splits)

lemma same_stamp [simp]: "\<exists>tm. r = r\<lparr>sent_at := tm\<rparr>" for r :: event_row
  by (rule exI [of _ "sent_at r"]) simp

lemma both_lanes:
  fixes st :: "'srv sync_state"
  assumes "\<forall>tok. isolating (post tok) (\<lambda>_. False)" "\<forall>tick\<in>set ticks. fetch_me (fst tick) \<noteq> MeRejected"
    and "distinct (map row_id (ls_events (ss_store st)))" "\<not> ss_auth_lost st"
    and "\<forall>r\<in>set (ls_events (ss_store st)). build_envelope env (map_unsent_row r) \<noteq> Panics" "length (ls_events (ss_store st)) \<le> length ticks"
  shows "\<exists>lp st1 lb st2. lane_loop Priority (tuning_from_config cfg) interval env post types ticks ls st = Some (Done (False, lp, st1)) \<and>
    lane_loop Bulk (tuning_from_config cfg) interval env post types ticks ls2 st1 = Some (Done (False, lb, st2)) \<and>
    list_all2 (\<lambda>r r'. sent_at r' \<noteq> None \<and> (\<exists>tm. r' = r\<lparr>sent_at := tm\<rparr>)) (ls_events (ss_store st)) (ls_events (ss_store st2))"
proof -
  note short = order_trans [OF length_filter_le assms(6)]
  obtain lp st1 where p: "lane_loop Priority (tuning_from_config cfg) interval env post types ticks ls st = Some (Done (False, lp, st1))"
      "\<not> ss_auth_lost st1"
      "list_all2 (lane_settled (\<lambda>_. False) types Priority ((\<lambda>(le, g). now_text le) ` set ticks)) (ls_events (ss_store st)) (ls_events (ss_store st1))"
    using isolating_lane [OF assms(1-4) _ short, of types Priority env cfg interval ls] assms(5) by blast
  have same: "length (ls_events (ss_store st1)) = length (ls_events (ss_store st))" "distinct (map row_id (ls_events (ss_store st1)))"
    using p(3) assms(3) by (auto simp: list_all2_lengthD lane_settled_id)
  have pend: "\<forall>r\<in>set (ls_events (ss_store st1)). lane_pending types Bulk r \<longrightarrow> build_envelope env (map_unsent_row r) \<noteq> Panics"
  proof (clarify)
    fix r'
    assume "r' \<in> set (ls_events (ss_store st1))" "sent_at r' = None" and panic: "build_envelope env (map_unsent_row r') = Panics"
    then obtain i where i: "i < length (ls_events (ss_store st1))" "r' = ls_events (ss_store st1) ! i" by (auto simp: in_set_conv_nth)
    have "r' = ls_events (ss_store st) ! i"
      using lane_settled_pending [OF list_all2_nthD2 [OF p(3) i(1)]] i(2) \<open>sent_at r' = None\<close> by simp
    then have "r' \<in> set (ls_events (ss_store st))" using i(1) same(1) by simp
    with panic assms(5) show False by blast
  qed
  obtain lb st2 where b: "lane_loop Bulk (tuning_from_config cfg) interval env post types ticks ls2 st1 = Some (Done (False, lb, st2))"
      "list_all2 (lane_settled (\<lambda>_. False) types Bulk ((\<lambda>(le, g). now_text le) ` set ticks)) (ls_events (ss_store st1)) (ls_events (ss_store st2))"
    using isolating_lane [OF assms(1,2) same(2) p(2) pend order_trans [OF length_filter_le assms(6) [folded same(1)]], of cfg interval ls2] by blast
  have "list_all2 (\<lambda>r r'. sent_at r' \<noteq> None \<and> (\<exists>tm. r' = r\<lparr>sent_at := tm\<rparr>)) (ls_events (ss_store st)) (ls_events (ss_store st2))"
    by (rule list_all2_trans [OF _ p(3) b(2)]) (auto simp: lane_settled_def stamped_def in_lane_def split: if_splits)
  with p(1) b(1) show ?thesis by blast
qed

text \<open>A location in ASCII never stops a drain.\<close>

definition plain_location :: "batch_env \<Rightarrow> event_row \<Rightarrow> bool" where
  "plain_location env r =
     (case Option.bind (from_json env (row_payload r)) location_raw of Some rw \<Rightarrow> list_all is_ascii rw | None \<Rightarrow> True)"

lemma plain_location_builds: "plain_location env r \<Longrightarrow> build_envelope env (map_unsent_row r) \<noteq> Panics"
  by (auto simp: plain_location_def build_envelope_def map_unsent_row_def Let_def classify_ascii split: option.splits exec.splits)

text \<open>A server that answers as it likes and keeps a log of what it was sent and what it answered.\<close>

definition logging :: "(ingest_batch \<Rightarrow> (ingest_batch \<times> http_outcome) list \<Rightarrow> http_outcome) \<Rightarrow> ingest_batch
    \<Rightarrow> (ingest_batch \<times> http_outcome) list \<Rightarrow> http_outcome \<times> (ingest_batch \<times> http_outcome) list" where
  "logging answer b hist = (answer b hist, hist @ [(b, answer b hist)])"

abbreviation batch_keys :: "ingest_batch \<Rightarrow> string list" where
  "batch_keys b \<equiv> map idempotency_key (batch_events b)"

definition acknowledged :: "(ingest_batch \<times> http_outcome) list \<Rightarrow> string \<Rightarrow> bool" where
  "acknowledged hist k =
     list_ex (\<lambda>(b, out). (case classify_response out of SendOk _ \<Rightarrow> True | _ \<Rightarrow> False) \<and> List.member (batch_keys b) k) hist"

definition refused_alone :: "(ingest_batch \<times> http_outcome) list \<Rightarrow> string \<Rightarrow> bool" where
  "refused_alone hist k =
     list_ex (\<lambda>(b, out). (case classify_response out of SendBadBatch _ _ \<Rightarrow> True | _ \<Rightarrow> False) \<and> batch_keys b = [k]) hist"

text \<open>What may become of a row, and the answer of the server that justifies it.\<close>

definition justified :: "string \<Rightarrow> event_row set \<Rightarrow> (ingest_batch \<times> http_outcome) list \<Rightarrow> event_row \<Rightarrow> event_row \<Rightarrow> bool" where
  "justified now rows hist r r' \<longleftrightarrow>
     r' = r \<or>
     r \<in> rows \<and> (r' = r\<lparr>sent_at := Some now\<rparr> \<and> acknowledged hist (row_key r) \<or>
                 r' = r\<lparr>sent_at := Some (QUARANTINE_PREFIX @ now)\<rparr> \<and> refused_alone hist (row_key r))"

lemma acknowledged_append: "acknowledged hist k \<Longrightarrow> acknowledged (hist @ hist') k"
  by (simp add: acknowledged_def)

lemma refused_alone_append: "refused_alone hist k \<Longrightarrow> refused_alone (hist @ hist') k"
  by (simp add: refused_alone_def)

lemma justified_append: "justified now rows hist r r' \<Longrightarrow> justified now rows (hist @ hist') r r'"
  by (auto simp: justified_def acknowledged_append refused_alone_append)

lemma justified_pending: "justified now rows hist r r' \<Longrightarrow> sent_at r' = None \<Longrightarrow> r' = r"
  by (auto simp: justified_def)

text \<open>Stamping the rows of some events of the page, once the hist justifies the stamp for each of them.\<close>

lemma justified_stamp:
  assumes "list_all2 (justified now (set rows) hist) all (ls_events st)"
    and "distinct (map row_id all)" "set rows \<subseteq> set all" "set evs \<subseteq> map_unsent_row ` set rows"
    and "\<And>e. e \<in> set evs \<Longrightarrow> tm = now \<and> acknowledged hist (unsent_key e) \<or>
               tm = QUARANTINE_PREFIX @ now \<and> refused_alone hist (unsent_key e)"
  shows "list_all2 (justified now (set rows) hist) all (ls_events (stamp_ids tm (unsent_id ` set evs) st))"
proof -
  have one: "justified now (set rows) hist r (if sent_at r' = None \<and> row_id r' \<in> unsent_id ` set evs then r'\<lparr>sent_at := Some tm\<rparr> else r')"
    if r: "justified now (set rows) hist r r'" "r \<in> set all" for r r'
  proof (cases "sent_at r' = None \<and> row_id r' \<in> unsent_id ` set evs")
    case True
    then have "r' = r" using justified_pending r(1) by blast
    with True obtain e q where "e \<in> set evs" "q \<in> set rows" "e = map_unsent_row q" "row_id q = row_id r"
      using assms(4) by (force simp: map_unsent_row_def)
    moreover from this have "q = r" using same_id_same_row [OF assms(2) r(2)] assms(3) by blast
    ultimately show ?thesis using assms(5) [of e] True \<open>r' = r\<close>
      by (auto simp: justified_def map_unsent_row_def)
  qed (use r in auto)
  show ?thesis
    unfolding stamp_ids_def update_rows_events list_all2_map2 by (rule list.rel_mono_strong [OF assms(1)]) (rule one)
qed

lemma try_send_logging:
  assumes "try_send_batch env (logging answer) hdl sub pv sq hist = Done (res, hist')"
  obtains b where "hist' = hist @ [(b, answer b hist)]" "res = classify_response (answer b hist)" "batch_keys b = map unsent_key sub"
  using assms that build_batch_keys [of env hdl sub pv sq]
  by (auto simp: try_send_batch_def logging_def split: exec.splits)

lemma drain_step_justified:
  assumes "list_all2 (justified now (set rows) (ss_server st)) all (ls_events (ss_store st))"
    and "distinct (map row_id all)" "set rows \<subseteq> set all" "set sub \<subseteq> map_unsent_row ` set rows"
    and "drain_step env (logging answer) now hdl pv sub rest tot st = Done nx"
    and "case nx of Continue stack' tot' st'' \<Rightarrow> st'' = st' | Stop e st'' \<Rightarrow> st'' = st'"
  shows "list_all2 (justified now (set rows) (ss_server st')) all (ls_events (ss_store st'))"
proof -
  let ?sq = "peek_next_batch_sequence (ss_store st)"
  obtain res hist' where send: "try_send_batch env (logging answer) hdl sub pv (Some ?sq) (ss_server st) = Done (res, hist')"
    using assms(5) by (auto simp: drain_step_def Let_def split: exec.splits)
  then obtain b where b: "hist' = ss_server st @ [(b, answer b (ss_server st))]" "res = classify_response (answer b (ss_server st))"
      "batch_keys b = map unsent_key sub"
    by (rule try_send_logging)
  let ?st1 = "st\<lparr>ss_server := hist'\<rparr>"
  have kept: "list_all2 (justified now (set rows) hist') all (ls_events (ss_store st))"
    using assms(1) unfolding b(1) by (rule list_all2_mono) (rule justified_append)
  note stamp = justified_stamp [OF kept assms(2,3)]
  show ?thesis
  proof (cases res)
    case (SendOk r)
    obtain tot' st'' where del: "batch_delivered now ?sq sub r tot ?st1 = (tot', st'')" by (cases "batch_delivered now ?sq sub r tot ?st1")
    then have "st' = st''" using SendOk send assms(5,6) by (auto simp: drain_step_def)
    moreover have "acknowledged hist' (unsent_key e)" if "e \<in> set sub" for e
      using that b(1) arg_cong [OF b(3), of set] SendOk by (simp add: acknowledged_def flip: b(2))
    ultimately show ?thesis using stamp [OF assms(4), of now] batch_delivered_store [OF del] by (simp add: mark_sent_stamp)
  next
    case (SendBadBatch c bd)
    show ?thesis
    proof (cases "length sub = 1 \<and> total_quarantined tot < MAX_QUARANTINES_PER_DRAIN")
      case True
      then obtain e where e: "sub = [e]" by (cases sub) auto
      have "refused_alone hist' (unsent_key e)" using b(1,3) SendBadBatch e by (simp add: refused_alone_def flip: b(2))
      moreover have "st' = ?st1\<lparr>ss_store := mark_quarantined now [unsent_id e] (ss_store st)\<rparr>"
        using SendBadBatch send assms(5,6) True e by (auto simp: drain_step_def)
      ultimately show ?thesis using stamp [of "[e]" "QUARANTINE_PREFIX @ now"] assms(4) e by (simp add: mark_quarantined_stamp)
    next
      case False
      then have "st' = ?st1" using SendBadBatch send assms(5,6) by (auto simp: drain_step_def Let_def split: if_splits)
      then show ?thesis using kept by simp
    qed
  qed (use send assms(5,6) kept in \<open>auto simp: drain_step_def Let_def lose_auth_def clear_persisted_device_token_def split: if_splits\<close>)
qed

lemma store_ok_ids: "store_ok st \<Longrightarrow> distinct (map row_id (ls_events st))"
  by (simp add: store_ok_def rows_ok_def strict_sorted_iff)

text \<open>The same for a whole drain.\<close>

lemma drain_loop_justified:
  assumes "list_all2 (justified now (set rows) (ss_server st)) all (ls_events (ss_store st))"
    and "distinct (map row_id all)" "set rows \<subseteq> set all" "set (concat stack) \<subseteq> map_unsent_row ` set rows" "[] \<notin> set stack"
    and "drain_loop env (logging answer) now hdl pv stack tot st = Some (Done (res, st'))"
  shows "list_all2 (justified now (set rows) (ss_server st')) all (ls_events (ss_store st'))"
proof (rule drain_loop_rule [where P = "\<lambda>stack tot st. [] \<notin> set stack \<and> set (concat stack) \<subseteq> map_unsent_row ` set rows \<and>
        list_all2 (justified now (set rows) (ss_server st)) all (ls_events (ss_store st))"
      and Q = "\<lambda>r st. list_all2 (justified now (set rows) (ss_server st)) all (ls_events (ss_store st))"])
  fix sub rest tot st stack' tot' st''
  assume P: "[] \<notin> set (sub # rest) \<and> set (concat (sub # rest)) \<subseteq> map_unsent_row ` set rows \<and>
      list_all2 (justified now (set rows) (ss_server st)) all (ls_events (ss_store st))"
    and step: "drain_step env (logging answer) now hdl pv sub rest tot st = Done (Continue stack' tot' st'')"
  show "[] \<notin> set stack' \<and> set (concat stack') \<subseteq> map_unsent_row ` set rows \<and>
      list_all2 (justified now (set rows) (ss_server st'')) all (ls_events (ss_store st''))"
    using drain_step_weight [OF step] P drain_step_justified [OF _ assms(2,3) _ step] by (auto simp del: set_concat)
next
  fix sub rest tot st e st''
  assume P: "[] \<notin> set (sub # rest) \<and> set (concat (sub # rest)) \<subseteq> map_unsent_row ` set rows \<and>
      list_all2 (justified now (set rows) (ss_server st)) all (ls_events (ss_store st))"
    and step: "drain_step env (logging answer) now hdl pv sub rest tot st = Done (Stop e st'')"
  show "list_all2 (justified now (set rows) (ss_server st'')) all (ls_events (ss_store st''))"
    using P drain_step_justified [OF _ assms(2,3) _ step] by auto
qed (use assms in auto)

lemma justified_refl: "list_all2 (justified now rows hist) xs xs"
  by (simp add: justified_def list.rel_refl)

lemma idle_drain_store: "idle_drain lane le tm st = (r, st') \<Longrightarrow> ss_store st' = ss_store st \<and> ss_server st' = ss_server st"
  by (auto simp: idle_drain_def Let_def lose_auth_def clear_persisted_device_token_def split: if_splits)

text \<open>An outbox of three events, the second of them poisoned, and a server that refuses it.\<close>

definition sample_store :: local_store where
  "sample_store =
     snd (insert_event Fun.id ''k3'' ''location_inventory_requested'' ''t'' ''c'' ''p3'' ''live'' 30
     (snd (insert_event Fun.id ''k2'' ''location_inventory_requested'' ''t'' ''b'' ''p2'' ''live'' 20
     (snd (insert_event Fun.id ''k1'' ''location_inventory_requested'' ''t'' ''a'' ''p1'' ''live'' 10 empty_store)))))"

definition sample_state :: "'srv \<Rightarrow> 'srv sync_state" where
  "sample_state srv =
     \<lparr>ss_store = sample_store, ss_server = srv, ss_handle = Some ''me'', ss_token = Some ''tok'', ss_auth_lost = False,
      ss_stats = \<lparr>last_attempt_at = None, last_success_at = None, last_error = None, batches_sent = 0, events_accepted = 0,
                  events_duplicate = 0, events_rejected = 0, events_quarantined = 0\<rparr>\<rparr>"

definition sample_env :: "string \<Rightarrow> batch_env" where
  "sample_env place =
     \<lparr>from_json = (\<lambda>_. Some (LocationInventoryRequested \<lparr>location_inventory_requested.timestamp = ''t'',
                            location_inventory_requested.player = ''me'', location_inventory_requested.location = place\<rparr>)),
      hash_keys = Fun.id, fresh_batch_id = ''batch'', pkg_version = ''1.0'',
      unicode_tables = \<lparr>alphanumeric = (\<lambda>_. False), lower = to_ascii_lowercase, upper = to_ascii_uppercase\<rparr>, catalog = from_entries []\<rparr>"

definition sample_lane_env :: lane_env where
  "sample_lane_env =
     \<lparr>lane_clock = 0, now_text = ''2026-01-01'', opted_in = False, fetch_me = MeOk, error_text = (\<lambda>_. [])\<rparr>"

definition sample_answer :: "(string \<Rightarrow> bool) \<Rightarrow> ingest_batch \<Rightarrow> http_outcome" where
  "sample_answer bad b =
     (if list_ex (\<lambda>e. bad (idempotency_key e)) (batch_events b) then Http 422 [] None
      else Http 200 [] (Some \<lparr>response_batch_id = batch_id b, accepted = of_nat (length (batch_events b)), duplicate = 0, rejected = 0, response_handle_changed = None\<rparr>))"

definition sample_cfg :: remote_sync_config where
  "sample_cfg = \<lparr>cfg_batch_size = 2, cfg_catch_up_batch_size = 2, cfg_max_batch_bytes = 65536, cfg_catch_up_enabled = True\<rparr>"

lemma sample_store_ok: "store_ok sample_store"
proof -
  have "store_ok empty_store" by code_simp
  then show ?thesis unfolding sample_store_def by (intro store_ok_insert)
qed

lemma sample_pending: "filter (lane_pending [] Bulk) (ls_events sample_store) = ls_events sample_store" "length (ls_events sample_store) = 3"
  by code_simp+

lemma sample_isolating: "isolating (\<lambda>b srv. (sample_answer bad b, f b srv)) bad"
  by (auto simp: isolating_def sample_answer_def classify_response_def split: send_result.splits)

lemma sample_plain: "plain_location (sample_env ''OOC_Stanton_1'') r"
proof -
  have "list_all is_ascii ''OOC_Stanton_1''" by code_simp
  then show ?thesis by (simp add: plain_location_def sample_env_def location_raw_def)
qed

lemma chunk_by_bytes_first:
  obtains c cks where "chunk_by_bytes (e # es) m = (e # c) # cks"
proof -
  have "concat (chunk_by_bytes (e # es) m) = e # es" "[] \<notin> set (chunk_by_bytes (e # es) m)"
    by (rule chunk_by_bytes_concat chunk_by_bytes_nonempty)+
  then obtain b cks where "chunk_by_bytes (e # es) m = b # cks" "b \<noteq> []" "concat (b # cks) = e # es"
    by (cases "chunk_by_bytes (e # es) m") auto
  then show ?thesis using that by (cases b) auto
qed

section \<open>Properties\<close>

text \<open>C12. No row changes without the server's word.  After a drain, whatever the server answers and whenever it stops, every row is as
  before, or it was pending in the lane's page and is marked sent after the server accepted a batch with its key, or it is quarantined
  after the server refused it alone.\<close>

theorem drain_lane_justified:
  assumes "store_ok (ss_store st)"
    and "drain_lane lane env (logging answer) le hdl types page max_bytes tm st = Some (Done (res, tm', st'))"
  shows "list_all2 (justified (now_text le) (set (page_rows types (lane = Priority) page (ss_store st))) (ss_server st'))
           (ls_events (ss_store st)) (ls_events (ss_store st'))"
proof (cases "page_rows types (lane = Priority) page (ss_store st) = []")
  case True
  then have "ss_store st' = ss_store st"
    using assms(2) by (auto simp: drain_lane_def read_unsent_page dest: idle_drain_store split: prod.splits option.splits)
  then show ?thesis by (simp add: justified_refl)
next
  case False
  let ?rows = "page_rows types (lane = Priority) page (ss_store st)"
  let ?st0 = "st\<lparr>ss_stats := (ss_stats st)\<lparr>last_attempt_at := Some (now_text le)\<rparr>\<rparr>"
  obtain z where z: "drain_loop env (logging answer) (now_text le) hdl (read_parser_def_manifest_version (ss_store st))
      (chunk_by_bytes (map map_unsent_row ?rows) max_bytes) no_totals ?st0 = Some z"
    using drain_loop_returns [OF chunk_by_bytes_nonempty] by blast
  obtain r st'' where out: "z = Done (r, st'')"
    using assms(2) False z by (cases z) (auto simp: drain_lane_def read_unsent_page Let_def)
  note loop = z [unfolded out]
  have same: "ss_store st' = ss_store st''" "ss_server st' = ss_server st''"
    using assms(2) False loop by (cases r; auto simp: drain_lane_def read_unsent_page Let_def)+
  have "list_all2 (justified (now_text le) (set ?rows) (ss_server st'')) (ls_events (ss_store st)) (ls_events (ss_store st''))"
    by (rule drain_loop_justified [OF _ _ _ _ chunk_by_bytes_nonempty loop])
      (use assms(1) page_rows_sub in \<open>auto simp: justified_refl chunk_by_bytes_concat store_ok_ids\<close>)
  then show ?thesis using same by simp
qed

theorem drain_lane_justified_witness:
  "\<exists>res tm' st'. drain_lane Bulk (sample_env ''OOC_Stanton_1'') (logging (\<lambda>b hist. sample_answer (\<lambda>k. k = ''k2'') b)) sample_lane_env ''me'' [] 2 65536
       \<lparr>last_heartbeat = None, last_tag_report = None\<rparr> (sample_state []) = Some (Done (res, tm', st')) \<and>
     list_all2 (justified ''2026-01-01'' (set (page_rows [] False 2 sample_store)) (ss_server st')) (ls_events sample_store) (ls_events (ss_store st'))"
proof -
  let ?tm = "\<lparr>last_heartbeat = None, last_tag_report = None\<rparr>"
  let ?answer = "\<lambda>b (hist :: (ingest_batch \<times> http_outcome) list). sample_answer (\<lambda>k. k = ''k2'') b"
  have iso: "isolating (logging ?answer) (\<lambda>k. k = ''k2'')" unfolding logging_def by (rule sample_isolating)
  have "\<exists>res tm' st'. drain_lane Bulk (sample_env ''OOC_Stanton_1'') (logging ?answer) sample_lane_env ''me'' [] 2 65536 ?tm (sample_state [])
      = Some (Done (res, tm', st'))"
    using isolating_drain [OF iso, of "sample_state []" sample_lane_env "[]" Bulk 2 "sample_env ''OOC_Stanton_1''" "''me''" 65536 ?tm]
      store_ok_ids [OF sample_store_ok] plain_location_builds [OF sample_plain]
    by (auto simp: sample_state_def sample_lane_env_def)
  then obtain res tm' st' where run: "drain_lane Bulk (sample_env ''OOC_Stanton_1'') (logging ?answer) sample_lane_env ''me'' [] 2 65536 ?tm (sample_state [])
      = Some (Done (res, tm', st'))"
    by blast
  have "store_ok (ss_store (sample_state [] :: (ingest_batch \<times> http_outcome) list sync_state))" by (simp add: sample_state_def sample_store_ok)
  from drain_lane_justified [OF this run] have "list_all2 (justified (now_text sample_lane_env) (set (page_rows [] False 2 sample_store)) (ss_server st')) (ls_events sample_store) (ls_events (ss_store st'))"
    by (simp add: sample_state_def)
  then show ?thesis using run by (auto simp: sample_state_def sample_lane_env_def)
qed

text \<open>Poison pills are isolated.  When the server refuses exactly the batches with a bad event and a page has at most ten of them, one
  drain succeeds, marks every good row of the page as sent, quarantines every bad one and leaves the other rows alone.\<close>

theorem poison_pills_isolated:
  assumes "isolating post bad" "store_ok (ss_store st)" "fetch_me le \<noteq> MeRejected"
    and "\<forall>r\<in>set (page_rows types (lane = Priority) page (ss_store st)). plain_location env r"
    and "length (filter (\<lambda>r. bad (row_key r)) (page_rows types (lane = Priority) page (ss_store st))) \<le> 10"
  shows "\<exists>dout tm' st'. drain_lane lane env post le hdl types page max_bytes tm st = Some (Done (Inr dout, tm', st')) \<and>
           ls_events (ss_store st') =
             map (\<lambda>r. if r \<in> set (page_rows types (lane = Priority) page (ss_store st)) then stamped bad (now_text le) r else r)
               (ls_events (ss_store st))"
proof -
  let ?rows = "page_rows types (lane = Priority) page (ss_store st)"
  have safe: "\<forall>r\<in>set ?rows. build_envelope env (map_unsent_row r) \<noteq> Panics" using assms(4) plain_location_builds by blast
  from isolating_drain [OF assms(1) store_ok_ids [OF assms(2)] assms(3) safe, of hdl max_bytes tm]
  obtain pre suf res tm' st' where drain: "?rows = pre @ suf"
      "drain_lane lane env post le hdl types page max_bytes tm st = Some (Done (res, tm', st'))"
      "ls_events (ss_store st') = map (\<lambda>r. if r \<in> set pre then stamped bad (now_text le) r else r) (ls_events (ss_store st))"
      "(\<exists>dout. res = Inr dout) \<and> suf = [] \<or>
       res = Inl QuarantineCap \<and> suf \<noteq> [] \<and> bad (row_key (hd suf)) \<and>
         MAX_QUARANTINES_PER_DRAIN \<le> length (filter (\<lambda>r. bad (row_key r)) pre)"
    by blast
  have "suf = []" using drain(1,4) assms(5) by (cases suf) (auto simp: MAX_QUARANTINES_PER_DRAIN_def)
  then show ?thesis using drain by auto
qed

theorem poison_pills_isolated_witness:
  "\<exists>dout tm' st'. drain_lane Bulk (sample_env ''OOC_Stanton_1'') (\<lambda>b srv. (sample_answer (\<lambda>k. k = ''k2'') b, srv)) sample_lane_env ''me'' [] 3 65536
       \<lparr>last_heartbeat = None, last_tag_report = None\<rparr> (sample_state ()) = Some (Done (Inr dout, tm', st')) \<and>
     map sent_at (ls_events (ss_store st')) = [Some ''2026-01-01'', Some ''__quarantined_2026-01-01'', Some ''2026-01-01'']"
proof -
  let ?st = "sample_state ()"
  have "page_rows [] (Bulk = Priority) 3 sample_store = ls_events sample_store" by code_simp
  moreover have "map sent_at (map (\<lambda>r. if r \<in> set (ls_events sample_store) then stamped (\<lambda>k. k = ''k2'') ''2026-01-01'' r else r) (ls_events sample_store)) =
      [Some ''2026-01-01'', Some ''__quarantined_2026-01-01'', Some ''2026-01-01'']"
    by code_simp
  moreover have "length (filter (\<lambda>r. row_key r = ''k2'') (ls_events sample_store)) \<le> 10" by code_simp
  ultimately show ?thesis
    using poison_pills_isolated [OF sample_isolating [of "\<lambda>k. k = ''k2''" "\<lambda>b srv. srv"], of ?st sample_lane_env "[]" Bulk 3 "sample_env ''OOC_Stanton_1''"
        "''me''" 65536 "\<lparr>last_heartbeat = None, last_tag_report = None\<rparr>"]
      sample_plain sample_store_ok
    by (auto simp: sample_state_def sample_lane_env_def)
qed

text \<open>C11. A lane empties its part of the outbox, when its rows name their locations in ASCII (any other location can make the classifier panic), the worker is not
  logged out and the account lookup is never rejected.  Against a server that refuses exactly the batches with a bad event, however many bad
  events there are, as many turns as the lane has pending rows suffice: every good row of the lane is marked sent, every bad one
  quarantined, at the time of one of the turns, and the rows of the other lane stay as they are.\<close>

theorem lane_empties_outbox:
  assumes "\<forall>tok. isolating (post tok) bad" "store_ok (ss_store st)" "\<not> ss_auth_lost st"
    and "\<forall>tick\<in>set ticks. fetch_me (fst tick) \<noteq> MeRejected"
    and "\<forall>r\<in>set (ls_events (ss_store st)). lane_pending types lane r \<longrightarrow> plain_location env r"
    and "length (filter (lane_pending types lane) (ls_events (ss_store st))) \<le> length ticks"
  shows "\<exists>ls' st'. lane_loop lane (tuning_from_config cfg) interval env post types ticks ls st = Some (Done (False, ls', st')) \<and>
           list_all2 (lane_settled bad types lane ((\<lambda>(le, g). now_text le) ` set ticks)) (ls_events (ss_store st)) (ls_events (ss_store st'))"
  using isolating_lane [OF assms(1,4) store_ok_ids [OF assms(2)] assms(3) _ assms(6), of env cfg interval ls] assms(5) plain_location_builds
  by blast

theorem lane_empties_outbox_witness:
  "\<exists>ls' st'. lane_loop Bulk (tuning_from_config sample_cfg) 5000 (sample_env ''OOC_Stanton_1'') (\<lambda>tok b srv. (sample_answer (\<lambda>k. k = ''k2'') b, srv)) []
       (replicate 3 (sample_lane_env, False))
       \<lparr>lane_handle = ''me'', lane_token = ''tok'', consecutive_failures = 0, catching_up = False,
        timers = \<lparr>last_heartbeat = None, last_tag_report = None\<rparr>\<rparr> (sample_state ()) = Some (Done (False, ls', st')) \<and>
     list_all2 (lane_settled (\<lambda>k. k = ''k2'') [] Bulk {''2026-01-01''}) (ls_events sample_store) (ls_events (ss_store st'))"
  using lane_empties_outbox [of "\<lambda>tok b srv. (sample_answer (\<lambda>k. k = ''k2'') b, srv)" "\<lambda>k. k = ''k2''" "sample_state ()"
      "replicate 3 (sample_lane_env, False)" "[]" Bulk "sample_env ''OOC_Stanton_1''" sample_cfg 5000
      "\<lparr>lane_handle = ''me'', lane_token = ''tok'', consecutive_failures = 0, catching_up = False,
        timers = \<lparr>last_heartbeat = None, last_tag_report = None\<rparr>\<rparr>"]
    sample_isolating [of "\<lambda>k. k = ''k2''" "\<lambda>b srv. srv"] sample_plain sample_store_ok sample_pending
  by (simp add: sample_state_def sample_lane_env_def)

text \<open>C34. A pending row whose location has the tokens \<open>JP\<close> and a second one with a multi-byte character stops its lane: as soon as the row is the oldest that is
  pending in the lane, the classifier panics while the first batch is built, at every turn, whatever the server would answer, and nothing is sent.\<close>

theorem accented_location_stops_lane:
  assumes "\<not> ss_auth_lost st" "filter (lane_pending types lane) (ls_events (ss_store st)) = r # rest"
    and "Option.bind (from_json env (row_payload r)) location_raw = Some loc" "strip_and_split loc = j # t # ts" "eq_ignore_ascii_case j ''jp''"
    and "0 < i" "i < length t" "is_continuation (t ! i)"
  shows "lane_tick lane (tuning_from_config cfg) interval env post le types game_running ls st = Some Panics"
proof -
  have "build_envelope env (map_unsent_row r) = Panics"
    using assms(3) classify_accent [OF assms(4-8)] by (simp add: build_envelope_def map_unsent_row_def Let_def)
  then have step: "drain_step env p now hdl pv (map_unsent_row r # c) cks tot st' = Panics" for p now hdl pv c cks tot and st' :: "'a sync_state"
    by (simp add: drain_step_def try_send_batch_def build_batch_def)
  have drain: "drain_lane lane env p le hdl types page m tm st = Some Panics" if page: "page \<noteq> 0" for p hdl page m tm
  proof -
    obtain es where "read_unsent_filtered types (lane = Priority) page (ss_store st) = map_unsent_row r # es"
      using assms(2) page by (cases page) (auto simp: read_unsent_filtered_def)
    moreover obtain c cks where "chunk_by_bytes (map_unsent_row r # es) m = (map_unsent_row r # c) # cks" by (rule chunk_by_bytes_first)
    ultimately show ?thesis by (simp add: drain_lane_def Let_def step drain_loop.simps)
  qed
  show ?thesis using assms(1) by (simp add: lane_tick_def Let_def drain)
qed

theorem accented_location_stops_lane_witness:
  "lane_tick Bulk (tuning_from_config sample_cfg) 5000 (sample_env (''JP_'' @ [CHR 0xC3, CHR 0x89])) (\<lambda>tok b srv. (NetworkError, srv))
     sample_lane_env [] False \<lparr>lane_handle = ''me'', lane_token = ''tok'', consecutive_failures = 0, catching_up = False,
        timers = \<lparr>last_heartbeat = None, last_tag_report = None\<rparr>\<rparr> (sample_state ()) = Some Panics"
proof (rule accented_location_stops_lane)
  show "filter (lane_pending [] Bulk) (ls_events (ss_store (sample_state ()))) = hd (ls_events sample_store) # tl (ls_events sample_store)"
    unfolding sample_state_def sync_state.select_convs sample_pending(1) using sample_pending(2) by (cases "ls_events sample_store") auto
  show "strip_and_split (''JP_'' @ [CHR 0xC3, CHR 0x89]) = ''JP'' # [CHR 0xC3, CHR 0x89] # []" "eq_ignore_ascii_case ''JP'' ''jp''"
      "is_continuation ([CHR 0xC3, CHR 0x89] ! 1)" by code_simp+
qed (simp_all add: sample_state_def sample_env_def location_raw_def)

end
