(* ===== verification/Server_Ingest.thy ===== *)
theory Server_Ingest
  imports Server_Store Server_Accounts Audit_Log Delivery
begin

text \<open>
  The upload endpoint \<open>POST /v1/ingest\<close> of the server (\<open>crates/starstats-server/src/ingest.rs\<close>) over the store of \<open>Server_Store\<close>, the authentication of
  \<open>Server_Accounts\<close> and the log of \<open>Audit_Log\<close>, and its composition with the client's sync worker: \<open>ingest_handle\<close> has the type of the
  \<open>post\<close> parameter of the drains of \<open>Sync\<close>, so a drain runs against the real server.

  A request is one step.  Parameters stand for the request's view of the other stores, the JSON rendering of bodies, the signing of tokens,
  fresh UUIDs, the clock, and which database calls fail.  Metrics and log lines that report an anomaly are kept as a list of flags.

  The lemmas show that the tables stay consistent under any sequence of requests, that a request writes only under the handle of
  the authenticated account, that every event of an accepted batch is stored or quarantined, that a repeated upload changes nothing, and what a drain may mark as sent.
\<close>

section \<open>Batch sequences and collector versions\<close>

datatype batch_sequence_observation = FirstSeen | InOrder | Gap int | Regression i64

text \<open>The sums wrap in a release build.\<close>

definition classify_batch_sequence :: "i64 option \<Rightarrow> i64 \<Rightarrow> batch_sequence_observation" where
  "classify_batch_sequence prev sq =
     (case prev of
        None \<Rightarrow> FirstSeen
      | Some p \<Rightarrow>
          if sq = wrap_i64 (p + 1) then InOrder
          else if sq > wrap_i64 (p + 1) then Gap (wrap_u64 (wrap_i64 (wrap_i64 (sq - p) - 1)))
          else Regression p)"

definition parse_semver :: "string \<Rightarrow> (int \<times> int \<times> int) option" where
  "parse_semver v =
     (case split_on (\<lambda>c. c = CHR ''.'') (trim v) of
        a # b # c # _ \<Rightarrow>
          Option.bind (parse_unsigned 32 a) (\<lambda>major.
          Option.bind (parse_unsigned 32 b) (\<lambda>minor.
          Option.bind (parse_unsigned 32 (hd (split_on (\<lambda>ch. \<not> is_ascii_digit ch) c))) (\<lambda>patch.
            Some (major, minor, patch))))
      | _ \<Rightarrow> None)"

fun semver_less :: "int \<times> int \<times> int \<Rightarrow> int \<times> int \<times> int \<Rightarrow> bool" where
  "semver_less (a, b, c) (a', b', c') \<longleftrightarrow> a < a' \<or> a = a' \<and> (b < b' \<or> b = b' \<and> c < c')"

definition collector_below_min :: "int \<times> int \<times> int \<Rightarrow> string option \<Rightarrow> bool" where
  "collector_below_min mn cv = (case Option.bind cv parse_semver of Some v \<Rightarrow> semver_less v mn | None \<Rightarrow> False)"

section \<open>The server's state and what a request sees\<close>

datatype ingest_flag = CollectorOutdated | SequenceGap string int | SequenceRegression string i64

record server_state =
  sv_tables :: ingest_tables
  sv_audit :: audit_log
  sv_drawn :: nat
  sv_flags :: "ingest_flag list"

record ingest_env =
  sv_auth :: auth_env
  sv_store :: store_env
  sv_unicode :: unicode
  fresh_uuid :: "nat \<Rightarrow> string"
  api_error_body :: "string \<Rightarrow> string option \<Rightarrow> string"
  guard_body :: "guard_rejection \<Rightarrow> string"
  response_body :: "ingest_response \<Rightarrow> string"
  sync_enabled_for :: "string \<Rightarrow> string \<Rightarrow> bool option option"
  sign_device :: "(string \<Rightarrow> string \<Rightarrow> string \<Rightarrow> string option) option"
  insert_fails :: "stored_event list \<Rightarrow> bool"
  quarantine_fails :: "quarantined_event \<Rightarrow> bool"
  progress_fails :: bool
  min_collector_var :: "string option"
  sv_now :: int

definition min_collector_version :: "ingest_env \<Rightarrow> (int \<times> int \<times> int) option" where
  "min_collector_version env = Option.bind (min_collector_var env) parse_semver"

section \<open>Gates\<close>

definition reject_sync :: "ingest_env \<Rightarrow> string \<Rightarrow> http_outcome" where
  "reject_sync env detail = Http 403 (api_error_body env ''device_sync_disabled'' (Some detail)) None"

text \<open>The outer option of a lookup is \<open>None\<close> when the lookup fails, the inner one when there is no such device.\<close>

definition sync_disabled_detail :: string where
  "sync_disabled_detail =
     ''this uplink'' @ [CHR 0x27] @ ''s sync is disabled '' @ [CHR 0xE2, CHR 0x80, CHR 0x94] @
     '' re-enable from the Connected Uplinks page or from the tray'' @ [CHR 0x27] @ ''s Cloud sync toggle''"

definition enforce_device_sync_gate :: "ingest_env \<Rightarrow> authenticated_user \<Rightarrow> http_outcome option" where
  "enforce_device_sync_gate env user =
     (if user_token_type user \<noteq> DeviceToken then None
      else case user_device user of
        None \<Rightarrow> Some (reject_sync env ''device token without device_id claim'')
      | Some dev \<Rightarrow>
          (case parse_uuid (sv_auth env) (sub user) of
             None \<Rightarrow> Some (Http 500 (api_error_body env ''bad_subject'' None) None)
           | Some uid \<Rightarrow>
               (case sync_enabled_for env uid dev of
                  Some (Some True) \<Rightarrow> None
                | Some _ \<Rightarrow> Some (reject_sync env sync_disabled_detail)
                | None \<Rightarrow> Some (Http 500 (api_error_body env ''internal'' None) None))))"

text \<open>A batch stamped with a handle the account has renamed away from is taken under the current one.\<close>

definition restamp :: "ingest_env \<Rightarrow> authenticated_user \<Rightarrow> ingest_batch \<Rightarrow> ingest_batch \<times> handle_changed option" where
  "restamp env user b =
     (if eq_ignore_ascii_case (batch_handle b) (preferred_username user) then (b, None)
      else
        case Option.bind (rename_index (sv_auth env)) (\<lambda>m. Option.bind (parse_uuid (sv_auth env) (sub user)) (map_of m)) of
          None \<Rightarrow> (b, None)
        | Some acct \<Rightarrow>
            if list_ex (\<lambda>h. eq_ignore_ascii_case h (batch_handle b)) (previous_handles acct)
            then (b\<lparr>batch_handle := current_handle acct\<rparr>,
                  Some \<lparr>new_handle = current_handle acct,
                        device_token = (case (user_device user, sign_device env) of
                                          (Some dev, Some sign) \<Rightarrow> sign (sub user) (current_handle acct) dev
                                        | _ \<Rightarrow> None)\<rparr>)
            else (b, None))"

section \<open>Storing a batch\<close>

definition stamp_missing :: "string \<Rightarrow> event_envelope \<Rightarrow> event_envelope" where
  "stamp_missing hdl e =
     (case (event_envelope.metadata e, event_envelope.event e) of
        (None, Some ev) \<Rightarrow> e\<lparr>event_envelope.metadata := Some (stamp ev (Some hdl))\<rparr>
      | _ \<Rightarrow> e)"

fun validation_error_text :: "validation_error \<Rightarrow> string" where
  "validation_error_text EmptyTimestamp = ''timestamp is empty''"
| "validation_error_text BadTimestamp = ''timestamp does not look like ISO-8601''"
| "validation_error_text (EmptyField f) = ''required field '' @ f @ '' is empty''"
| "validation_error_text (BadPort p) = ''port '' @ show_nat (unat p) @ '' is out of plausible range''"
| "validation_error_text (InvalidMetadata why) = ''invalid metadata: '' @ why"

definition quarantined_of :: "ingest_env \<Rightarrow> string \<Rightarrow> string \<Rightarrow> event_envelope \<Rightarrow> validation_error \<Rightarrow> quarantined_event" where
  "quarantined_of env uuid hdl e err =
     \<lparr>held_id = uuid, held_key = idempotency_key e, held_handle = hdl, held_reason = ''validation'',
      held_detail = Some (validation_error_text err), held_source = event_envelope.source e,
      held_offset = wrap_i64 (uint (source_offset e)), held_raw = event_envelope.raw_line e,
      held_payload = envelope_payload (sv_store env) e\<rparr>"

fun validate_batch :: "ingest_env \<Rightarrow> string \<Rightarrow> event_envelope list \<Rightarrow> server_state \<Rightarrow> (stored_event list \<times> u32) \<times> server_state" where
  "validate_batch env hdl [] st = (([], 0), st)"
| "validate_batch env hdl (e # es) st =
     (let uuid = fresh_uuid env (sv_drawn st);
          st1 = st\<lparr>sv_drawn := sv_drawn st + 1\<rparr>
      in case validate_event e of
           Inl err \<Rightarrow>
             (case quarantine (quarantine_fails env) (quarantined_of env uuid hdl e err) (sv_tables st1) of
                (_, t) \<Rightarrow>
                  (case validate_batch env hdl es (st1\<lparr>sv_tables := t\<rparr>) of
                     ((ins, rej), st2) \<Rightarrow> ((ins, rej + 1), st2)))
         | Inr _ \<Rightarrow>
             (case validate_batch env hdl es st1 of
                ((ins, rej), st2) \<Rightarrow> ((from_envelope (sv_store env) uuid e hdl # ins, rej), st2)))"

definition tally_outcome :: "insert_outcome \<Rightarrow> insert_outcome list \<Rightarrow> u32" where
  "tally_outcome x outs = foldl (\<lambda>k y. if y = x then k + 1 else k) 0 outs"

text \<open>The counts of accepted, duplicate and rejected events.\<close>

definition store_batch :: "ingest_env \<Rightarrow> string \<Rightarrow> event_envelope list \<Rightarrow> server_state \<Rightarrow> (u32 \<times> u32 \<times> u32) \<times> server_state" where
  "store_batch env hdl evs st =
     (case validate_batch env hdl (map (stamp_missing hdl) evs) st of
        ((to_insert, rejected_validation), st1) \<Rightarrow>
          (case insert_batch (sv_store env) (sv_now env) (insert_fails env) to_insert (sv_tables st1) of
             (Some outs, t) \<Rightarrow>
               ((tally_outcome Inserted outs, tally_outcome Duplicate outs, rejected_validation), st1\<lparr>sv_tables := t\<rparr>)
           | (None, t) \<Rightarrow> ((0, 0, rejected_validation + of_nat (length to_insert)), st1\<lparr>sv_tables := t\<rparr>)))"

definition observe_collector :: "ingest_env \<Rightarrow> ingest_batch \<Rightarrow> server_state \<Rightarrow> server_state" where
  "observe_collector env b st =
     (case min_collector_version env of
        Some mn \<Rightarrow> if collector_below_min mn (collector_version b) then st\<lparr>sv_flags := sv_flags st @ [CollectorOutdated]\<rparr> else st
      | None \<Rightarrow> st)"

definition observe_sequence :: "ingest_env \<Rightarrow> authenticated_user \<Rightarrow> ingest_batch \<Rightarrow> server_state \<Rightarrow> server_state" where
  "observe_sequence env user b st =
     (case (user_device user, batch_sequence b) of
        (Some dev, Some k) \<Rightarrow>
          let sq = wrap_i64 (int k)
          in (case observe_batch_sequence (progress_fails env) dev sq (sv_tables st) of
                (None, t) \<Rightarrow> st\<lparr>sv_tables := t\<rparr>
              | (Some prev, t) \<Rightarrow>
                  st\<lparr>sv_tables := t,
                     sv_flags := sv_flags st @ (case classify_batch_sequence prev sq of
                                                  Gap miss \<Rightarrow> [SequenceGap dev miss]
                                                | Regression p \<Rightarrow> [SequenceRegression dev p]
                                                | _ \<Rightarrow> [])\<rparr>)
      | _ \<Rightarrow> st)"

section \<open>The audit entry\<close>

definition json_object :: "(string \<times> json) list \<Rightarrow> json" where
  "json_object kvs = JObject (foldl (\<lambda>m (k, v). btree_insert k v m) [] kvs)"

definition json_opt :: "('a \<Rightarrow> json) \<Rightarrow> 'a option \<Rightarrow> json" where
  "json_opt f x = (case x of None \<Rightarrow> JNull | Some y \<Rightarrow> f y)"

definition json_int :: "int \<Rightarrow> json" where
  "json_int i = JNumber (JInt i)"

fun log_source_name :: "log_source \<Rightarrow> string" where
  "log_source_name Live = ''live''"
| "log_source_name Ptu = ''ptu''"
| "log_source_name Eptu = ''eptu''"
| "log_source_name Hotfix = ''hotfix''"
| "log_source_name Tech = ''tech''"
| "log_source_name Other = ''other''"

definition source_range_value :: "source_range \<Rightarrow> json" where
  "source_range_value r =
     json_object [(''source'', JString (log_source_name (range_source r))), (''start_offset'', json_int (uint (start_offset r))),
                  (''end_offset'', json_int (uint (end_offset r)))]"

definition batch_audit_entry :: "ingest_env \<Rightarrow> authenticated_user \<Rightarrow> ingest_batch \<Rightarrow> u32 \<times> u32 \<times> u32 \<Rightarrow> audit_entry" where
  "batch_audit_entry env user b counts =
     (case counts of (acc, dup, rej) \<Rightarrow>
        \<lparr>actor_sub = Some (sub user), actor_handle = Some (str_to_lowercase (sv_unicode env) (preferred_username user)),
         audit_action = ''ingest.batch_processed'',
         audit_payload = json_object
           [(''batch_id'', JString (batch_id b)), (''claimed_handle'', JString (batch_handle b)),
            (''game_build'', json_opt JString (batch_build b)), (''collector_version'', json_opt JString (collector_version b)),
            (''parser_version'', json_opt (\<lambda>v. json_int (uint v)) (parser_version b)),
            (''batch_sequence'', json_opt (\<lambda>k. json_int (int k)) (batch_sequence b)),
            (''content_hash'', json_opt JString (content_hash b)), (''source_range'', json_opt source_range_value (batch_range b)),
            (''device_id'', json_opt JString (user_device user)), (''total'', json_int (int (length (batch_events b)))),
            (''accepted'', json_int (uint acc)), (''duplicate'', json_int (uint dup)), (''rejected'', json_int (uint rej))]\<rparr>)"

section \<open>The handler\<close>

definition process_batch :: "ingest_env \<Rightarrow> authenticated_user \<Rightarrow> ingest_batch \<Rightarrow> handle_changed option \<Rightarrow> server_state \<Rightarrow> http_outcome \<times> server_state" where
  "process_batch env user b hc st =
     (let hdl = str_to_lowercase (sv_unicode env) (batch_handle b)
      in case store_batch env hdl (batch_events b) st of
           (counts, st1) \<Rightarrow>
             let st2 = observe_sequence env user b (observe_collector env b st1);
                 st3 = st2\<lparr>sv_audit := audit_append (batch_audit_entry env user b counts) (sv_now env) (sv_audit st2)\<rparr>;
                 r = (case counts of (acc, dup, rej) \<Rightarrow>
                        \<lparr>response_batch_id = batch_id b, accepted = acc, duplicate = dup, rejected = rej, response_handle_changed = hc\<rparr>)
             in (Http 200 (response_body env r) (Some r), st3))"

definition ingest_handle :: "ingest_env \<Rightarrow> string option \<Rightarrow> ingest_batch \<Rightarrow> server_state \<Rightarrow> http_outcome \<times> server_state" where
  "ingest_handle env tok b st =
     (case require_unrestricted CapIngest (sv_auth env) tok of
        Inl g \<Rightarrow> (Http (guard_status g) (guard_body env g) None, st)
      | Inr user \<Rightarrow>
          if schema_version b < 1 \<or> schema_version b > CURRENT_SCHEMA_VERSION
          then (Http 400 (api_error_body env ''unsupported_schema_version''
                  (Some (''got '' @ show_nat (unat (schema_version b)) @ '', server speaks 1..='' @ show_nat (unat CURRENT_SCHEMA_VERSION)))) None, st)
          else if trim (batch_handle b) = [] then (Http 400 (api_error_body env ''missing_claimed_handle'' None) None, st)
          else
            case restamp env user b of
              (b', hc) \<Rightarrow>
                if \<not> eq_ignore_ascii_case (batch_handle b') (preferred_username user)
                then (Http 403 (api_error_body env ''handle_mismatch'' (Some ''claimed_handle does not match authenticated identity'')) None, st)
                else (case enforce_device_sync_gate env user of
                        Some resp \<Rightarrow> (resp, st)
                      | None \<Rightarrow> process_batch env user b' hc st))"

section \<open>Batch sequences\<close>

text \<open>Below the largest ordinal the classification is the arithmetic one; at the largest, which a client can claim, the successor wraps and a repeated ordinal is
  reported as a gap of \<open>2 ^ 64 - 1\<close> batches.\<close>

lemma classify_batch_sequence_arith:
  assumes "- (2 ^ 63) \<le> p" "p < 2 ^ 63 - 1" "- (2 ^ 63) \<le> sq" "sq < 2 ^ 63" "p - 2 ^ 62 \<le> sq" "sq \<le> p + 2 ^ 62"
  shows "classify_batch_sequence (Some p) sq = (if sq = p + 1 then InOrder else if p + 1 < sq then Gap (sq - p - 1) else Regression p)"
  using assms by (auto simp: classify_batch_sequence_def wrap_i64_small wrap_u64_small)

lemma classify_batch_sequence_wraps: "classify_batch_sequence (Some (2 ^ 63 - 1)) (2 ^ 63 - 1) = Gap (2 ^ 64 - 1)"
  by code_simp

section \<open>Validation\<close>

abbreviation valid_event :: "event_envelope \<Rightarrow> bool" where
  "valid_event e \<equiv> validate_event e = Inr ()"

lemma validate_event_cases:
  obtains (valid) "valid_event e" | (invalid) err where "validate_event e = Inl err"
  by (cases "validate_event e") auto

text \<open>Quarantining adds at most the row given.\<close>

lemma quarantine_effect:
  obtains qs where "snd (quarantine fails q t) = t\<lparr>quarantine_table := quarantine_table t @ qs\<rparr>" "set qs \<subseteq> {q}"
proof (cases "snd (quarantine fails q t) = t")
  case True
  then show ?thesis using that [of "[]"] by simp
next
  case False
  then have "snd (quarantine fails q t) = t\<lparr>quarantine_table := quarantine_table t @ [q]\<rparr>"
    by (auto simp: quarantine_def split: if_splits)
  then show ?thesis using that [of "[q]"] by simp
qed

lemma quarantine_holds:
  assumes "\<not> fails q" "\<forall>r\<in>set (quarantine_table t). held_id r \<noteq> held_id q"
  shows "\<exists>r\<in>set (quarantine_table (snd (quarantine fails q t))). held_handle r = held_handle q \<and> held_key r = held_key q"
  using assms by (auto simp: quarantine_def list_ex_iff)

text \<open>One turn of the loop: the row it hands on, and the quarantine row it may add.\<close>

lemma validate_batch_step:
  assumes "validate_batch env hdl (e # es) st = ((ins, rej), st')"
  obtains (valid) ins' where "valid_event e" "validate_batch env hdl es (st\<lparr>sv_drawn := sv_drawn st + 1\<rparr>) = ((ins', rej), st')"
      "ins = from_envelope (sv_store env) (fresh_uuid env (sv_drawn st)) e hdl # ins'"
  | (invalid) err rej' where "validate_event e = Inl err"
      "validate_batch env hdl es (st\<lparr>sv_drawn := sv_drawn st + 1, sv_tables := snd (quarantine (quarantine_fails env)
         (quarantined_of env (fresh_uuid env (sv_drawn st)) hdl e err) (sv_tables st))\<rparr>) = ((ins, rej'), st')" "rej = rej' + 1"
  using assms by (cases rule: validate_event_cases [of e]) (auto simp: Let_def split: prod.splits)

text \<open>What validation hands on, what it rejects, and what it does to the state.\<close>

abbreviation drawn_between :: "ingest_env \<Rightarrow> server_state \<Rightarrow> server_state \<Rightarrow> string set" where
  "drawn_between env st st' \<equiv> fresh_uuid env ` {sv_drawn st..<sv_drawn st'}"

lemma validate_batch_rows:
  "validate_batch env hdl es st = ((ins, rej), st') \<Longrightarrow>
     list_all2 (\<lambda>x e. \<exists>u\<in>drawn_between env st st'. x = from_envelope (sv_store env) u e hdl) ins (filter valid_event es) \<and>
     rej = of_nat (length (filter (\<lambda>e. \<not> valid_event e) es)) \<and> sv_drawn st' = sv_drawn st + length es"
proof (induction es arbitrary: st ins rej)
  case (Cons e es)
  have wider: "list_all2 (\<lambda>x e. \<exists>u\<in>drawn_between env st st'. x = from_envelope (sv_store env) u e hdl) xs ys"
    if "list_all2 (\<lambda>x e. \<exists>u\<in>fresh_uuid env ` {sv_drawn st + 1..<sv_drawn st'}. x = from_envelope (sv_store env) u e hdl) xs ys" for xs ys
    using that by (rule list_all2_mono) auto
  from Cons.prems show ?case
  proof (cases rule: validate_batch_step)
    case (valid ins')
    from Cons.IH [OF this(2)] have "sv_drawn st' = sv_drawn st + 1 + length es" by simp
    then have "fresh_uuid env (sv_drawn st) \<in> drawn_between env st st'" by simp
    then show ?thesis using Cons.IH [OF valid(2)] valid(1,3) wider by auto
  next
    case (invalid err rej')
    then show ?thesis using Cons.IH [OF invalid(2)] wider by auto
  qed
qed simp

lemma list_all2_left: "list_all2 R xs ys \<Longrightarrow> x \<in> set xs \<Longrightarrow> \<exists>y\<in>set ys. R x y"
  by (induction rule: list_all2_induct) auto

lemma list_all2_right: "list_all2 R xs ys \<Longrightarrow> y \<in> set ys \<Longrightarrow> \<exists>x\<in>set xs. R x y"
  by (induction rule: list_all2_induct) auto

lemma validate_batch_handed_on:
  assumes "validate_batch env hdl es st = ((ins, rej), st')" "x \<in> set ins"
  obtains e u where "u \<in> drawn_between env st st'" "x = from_envelope (sv_store env) u e hdl"
  using list_all2_left [of _ ins _ x] validate_batch_rows [OF assms(1)] assms(2) by blast

lemma validate_batch_hands_on:
  assumes "validate_batch env hdl es st = ((ins, rej), st')" "e \<in> set es" "valid_event e"
  obtains u where "u \<in> drawn_between env st st'" "from_envelope (sv_store env) u e hdl \<in> set ins"
proof -
  have "e \<in> set (filter valid_event es)" using assms(2,3) by simp
  then show ?thesis using list_all2_right [OF conjunct1 [OF validate_batch_rows [OF assms(1)]]] that by blast
qed

lemma validate_batch_state:
  assumes "validate_batch env hdl es st = ((ins, rej), st')"
  obtains qs where "st' = st\<lparr>sv_drawn := sv_drawn st + length es,
      sv_tables := (sv_tables st)\<lparr>quarantine_table := quarantine_table (sv_tables st) @ qs\<rparr>\<rparr>"
    "\<forall>q\<in>set qs. held_handle q = hdl \<and> held_id q \<in> drawn_between env st st'"
proof -
  have "\<exists>qs. st' = st\<lparr>sv_drawn := sv_drawn st + length es,
      sv_tables := (sv_tables st)\<lparr>quarantine_table := quarantine_table (sv_tables st) @ qs\<rparr>\<rparr> \<and>
      (\<forall>q\<in>set qs. held_handle q = hdl \<and> held_id q \<in> drawn_between env st st')"
    using assms
  proof (induction es arbitrary: st ins rej)
    case Nil
    then show ?case by (auto intro!: exI [of _ "[]"])
  next
    case (Cons e es)
    from Cons.prems show ?case
    proof (cases rule: validate_batch_step)
      case (valid ins')
      from Cons.IH [OF this(2)] show ?thesis by fastforce
    next
      case (invalid err rej')
      let ?q = "quarantined_of env (fresh_uuid env (sv_drawn st)) hdl e err"
      obtain qs where qs: "snd (quarantine (quarantine_fails env) ?q (sv_tables st)) =
          (sv_tables st)\<lparr>quarantine_table := quarantine_table (sv_tables st) @ qs\<rparr>" "set qs \<subseteq> {?q}"
        by (rule quarantine_effect)
      from Cons.IH [OF invalid(2)] qs(1) obtain qs' where qs': "st' = st\<lparr>sv_drawn := sv_drawn st + 1 + length es,
          sv_tables := (sv_tables st)\<lparr>quarantine_table := quarantine_table (sv_tables st) @ (qs @ qs')\<rparr>\<rparr>"
          "\<forall>q\<in>set qs'. held_handle q = hdl \<and> held_id q \<in> fresh_uuid env ` {sv_drawn st + 1..<sv_drawn st'}"
        by auto
      moreover have "held_handle ?q = hdl" "held_id ?q \<in> drawn_between env st st'"
        using qs'(1) by (auto simp: quarantined_of_def)
      ultimately show ?thesis using qs(2) by (intro exI [of _ "qs @ qs'"]) auto
    qed
  qed
  then show ?thesis using that by blast
qed

lemma validate_batch_ok:
  "validate_batch env hdl es st = ((ins, rej), st') \<Longrightarrow> tables_ok (sv_store env) (sv_tables st) \<Longrightarrow> tables_ok (sv_store env) (sv_tables st')"
proof (induction es arbitrary: st ins rej)
  case (Cons e es)
  from Cons.prems(1) show ?case
  proof (cases rule: validate_batch_step)
    case (valid ins')
    show ?thesis by (rule Cons.IH [OF valid(2)]) (simp add: Cons.prems(2))
  next
    case (invalid err rej')
    show ?thesis by (rule Cons.IH [OF invalid(2)]) (simp add: Cons.prems(2) quarantine_ok)
  qed
qed simp

text \<open>Identifiers drawn so far.\<close>

definition ids_drawn :: "ingest_env \<Rightarrow> server_state \<Rightarrow> bool" where
  "ids_drawn env st \<longleftrightarrow>
     inj (fresh_uuid env) \<and> stored_id ` set (event_table (sv_tables st)) \<subseteq> fresh_uuid env ` {..<sv_drawn st} \<and>
     held_id ` set (quarantine_table (sv_tables st)) \<subseteq> fresh_uuid env ` {..<sv_drawn st}"

lemma fresh_not_drawn: "inj (fresh_uuid env) \<Longrightarrow> u \<in> fresh_uuid env ` {..<k} \<Longrightarrow> v \<in> fresh_uuid env ` {k..<m} \<Longrightarrow> u \<noteq> v"
  by (auto dest: injD)

text \<open>Without failing writes every invalid event has a quarantine row under the handle.\<close>

lemma validate_batch_quarantines:
  assumes "validate_batch env hdl es st = ((ins, rej), st')" "ids_drawn env st" "\<forall>q. \<not> quarantine_fails env q"
    and "e \<in> set es" "\<not> valid_event e"
  shows "\<exists>q\<in>set (quarantine_table (sv_tables st')). held_handle q = hdl \<and> held_key q = idempotency_key e"
  using assms
proof (induction es arbitrary: st ins rej)
  case (Cons e' es)
  from Cons.prems(1) show ?case
  proof (cases rule: validate_batch_step)
    case (valid ins')
    have "ids_drawn env (st\<lparr>sv_drawn := sv_drawn st + 1\<rparr>)" using Cons.prems(2) by (auto simp: ids_drawn_def lessThan_Suc)
    from Cons.IH [OF valid(2) this Cons.prems(3)] show ?thesis using Cons.prems(4,5) valid(1) by auto
  next
    case (invalid err rej')
    let ?q = "quarantined_of env (fresh_uuid env (sv_drawn st)) hdl e' err"
    let ?st = "st\<lparr>sv_drawn := sv_drawn st + 1, sv_tables := snd (quarantine (quarantine_fails env) ?q (sv_tables st))\<rparr>"
    obtain qs where qs: "snd (quarantine (quarantine_fails env) ?q (sv_tables st)) =
        (sv_tables st)\<lparr>quarantine_table := quarantine_table (sv_tables st) @ qs\<rparr>" "set qs \<subseteq> {?q}"
      by (rule quarantine_effect)
    have "ids_drawn env ?st"
      using Cons.prems(2) qs by (auto simp: ids_drawn_def quarantined_of_def lessThan_Suc)
    moreover have "held_id ` set (quarantine_table (sv_tables st)) \<subseteq> fresh_uuid env ` {..<sv_drawn st}" "held_id ?q \<notin> fresh_uuid env ` {..<sv_drawn st}"
      using Cons.prems(2) by (simp_all add: ids_drawn_def quarantined_of_def inj_image_mem_iff)
    then have "\<forall>r\<in>set (quarantine_table (sv_tables st)). held_id r \<noteq> held_id ?q" by (metis image_subset_iff)
    then have "\<exists>q\<in>set (quarantine_table (sv_tables ?st)). held_handle q = hdl \<and> held_key q = idempotency_key e'"
      using quarantine_holds [of "quarantine_fails env" ?q "sv_tables st"] Cons.prems(3) by (simp add: quarantined_of_def)
    moreover obtain qs' where "quarantine_table (sv_tables st') = quarantine_table (sv_tables ?st) @ qs'"
    proof (rule validate_batch_state [OF invalid(2)])
      fix qs'
      assume "st' = ?st\<lparr>sv_drawn := sv_drawn ?st + length es, sv_tables := (sv_tables ?st)\<lparr>quarantine_table := quarantine_table (sv_tables ?st) @ qs'\<rparr>\<rparr>"
      then show ?thesis using that [of qs'] by simp
    qed
    ultimately show ?thesis using Cons.IH [OF invalid(2) _ Cons.prems(3)] Cons.prems(4,5) by auto
  qed
qed simp

section \<open>Storing\<close>

lemma tally_outcome_length: "tally_outcome x outs = of_nat (length (filter (\<lambda>y. y = x) outs))"
proof -
  have "foldl (\<lambda>k y. if y = x then k + 1 else k) k outs = k + of_nat (length (filter (\<lambda>y. y = x) outs))" for k :: u32
    by (induction outs arbitrary: k) (simp_all add: ac_simps)
  then show ?thesis by (simp add: tally_outcome_def)
qed

lemma count_outcomes_sum: "tally_outcome Inserted outs + tally_outcome Duplicate outs = of_nat (length outs)"
proof -
  have "filter (\<lambda>y. y = Duplicate) outs = filter (\<lambda>y. \<not> y = Inserted) outs" by (metis insert_outcome.exhaust insert_outcome.distinct(1))
  then show ?thesis using sum_length_filter_compl [of "\<lambda>y. y = Inserted" outs] by (simp add: tally_outcome_length flip: of_nat_add)
qed

lemma stamp_missing_fields [simp]:
  "idempotency_key (stamp_missing hdl e) = idempotency_key e" "event_envelope.event (stamp_missing hdl e) = event_envelope.event e"
  "event_envelope.raw_line (stamp_missing hdl e) = event_envelope.raw_line e"
  by (auto simp: stamp_missing_def split: option.splits)

lemma bind_row_fields [simp]:
  "stored_id (bind_row env x) = stored_id x" "stored_key (bind_row env x) = stored_key x" "stored_handle (bind_row env x) = stored_handle x"
  by (simp_all add: bind_row_def)

lemma from_envelope_fields [simp]:
  "stored_id (from_envelope env u e hdl) = u" "stored_key (from_envelope env u e hdl) = idempotency_key e"
  "stored_handle (from_envelope env u e hdl) = hdl"
  by (simp_all add: from_envelope_def Let_def split: prod.splits)

text \<open>An insert leaves the other tables alone and appends to \<open>events\<close>.\<close>

lemma insert_batch_cases:
  obtains (failed) "insert_batch env now fails evs t = (None, t)" "fails evs"
  | (inserted) outs t' ins where "insert_batch env now fails evs t = (Some outs, t')" "length outs = length evs"
      "event_table t' = event_table t @ ins" "ins = new_rows env (event_table t) (map (bind_row env) evs)"
      "quarantine_table t' = quarantine_table t" "device_batch_progress t' = device_batch_progress t"
      "outs = map (\<lambda>e. if List.member (map stored_key ins) (stored_key e) then Inserted else Duplicate) evs"
proof (cases "evs = []")
  case True
  then show ?thesis using that(2) [of "[]" t "[]"] by (simp add: insert_batch_def)
next
  case False
  show ?thesis
  proof (cases "fails evs")
    case True
    then show ?thesis using that(1) False by (simp add: insert_batch_def)
  next
    case ok: False
    let ?ins = "new_rows env (event_table t) (map (bind_row env) evs)"
    show ?thesis
      by (rule that(2) [of "map (\<lambda>e. if List.member (map stored_key ?ins) (stored_key e) then Inserted else Duplicate) evs"
            "snd (insert_batch env now fails evs t)" ?ins])
        (use False ok in \<open>simp_all add: insert_batch_def Let_def\<close>)
  qed
qed

lemma ids_drawn_extend:
  assumes "ids_drawn env st" "event_table (sv_tables st') = event_table (sv_tables st) @ rows"
    "quarantine_table (sv_tables st') = quarantine_table (sv_tables st) @ qs" "sv_drawn st \<le> sv_drawn st'"
    "\<forall>r\<in>set rows. stored_id r \<in> drawn_between env st st'" "\<forall>q\<in>set qs. held_id q \<in> drawn_between env st st'"
  shows "ids_drawn env st'"
proof -
  have "{..<sv_drawn st'} = {..<sv_drawn st} \<union> {sv_drawn st..<sv_drawn st'}" using assms(4) by auto
  moreover have "stored_id ` set rows \<subseteq> drawn_between env st st'" "held_id ` set qs \<subseteq> drawn_between env st st'"
    using assms(5,6) unfolding image_subset_iff by blast+
  ultimately show ?thesis using assms(1-3) by (simp add: ids_drawn_def image_Un le_supI1 le_supI2)
qed

text \<open>What a batch adds, and the counts that answer it.\<close>

lemma store_batch_effect:
  assumes "store_batch env hdl evs st = ((acc, dup, rej), st')"
  obtains rows qs where
    "event_table (sv_tables st') = event_table (sv_tables st) @ rows" "\<forall>r\<in>set rows. stored_handle r = hdl"
    "quarantine_table (sv_tables st') = quarantine_table (sv_tables st) @ qs" "\<forall>q\<in>set qs. held_handle q = hdl"
    "sv_audit st' = sv_audit st" "sv_flags st' = sv_flags st" "acc + dup + rej = of_nat (length evs)"
    "ids_drawn env st \<longrightarrow> ids_drawn env st'" "tables_ok (sv_store env) (sv_tables st) \<longrightarrow> tables_ok (sv_store env) (sv_tables st')"
proof -
  let ?evs = "map (stamp_missing hdl) evs"
  obtain ins rv st1 where val: "validate_batch env hdl ?evs st = ((ins, rv), st1)"
    by (cases "validate_batch env hdl ?evs st") auto
  obtain qs where st1: "st1 = st\<lparr>sv_drawn := sv_drawn st + length ?evs,
      sv_tables := (sv_tables st)\<lparr>quarantine_table := quarantine_table (sv_tables st) @ qs\<rparr>\<rparr>"
      "\<forall>q\<in>set qs. held_handle q = hdl \<and> held_id q \<in> drawn_between env st st1"
    by (rule validate_batch_state [OF val])
  note rows = validate_batch_rows [OF val]
  have lens: "of_nat (length ins) + rv = (of_nat (length evs) :: u32)"
    using rows list_all2_lengthD [of _ ins "filter valid_event ?evs"] sum_length_filter_compl [of valid_event ?evs]
    by (auto simp flip: of_nat_add)
  have handles: "stored_handle x = hdl \<and> stored_id x \<in> drawn_between env st st1" if "x \<in> set ins" for x
    using that by (auto elim: validate_batch_handed_on [OF val])
  let ?go = "insert_batch (sv_store env) (sv_now env) (insert_fails env) ins (sv_tables st1)"
  have kept: "tables_ok (sv_store env) (sv_tables st) \<longrightarrow> tables_ok (sv_store env) (snd ?go)"
    using validate_batch_ok [OF val] insert_batch_ok by blast
  show ?thesis
  proof (cases rule: insert_batch_cases [of "sv_store env" "sv_now env" "insert_fails env" ins "sv_tables st1"])
    case failed
    then have st': "st' = st1" "acc + dup + rej = of_nat (length evs)"
      using assms val lens by (auto simp: store_batch_def add.commute)
    have "ids_drawn env st'" if "ids_drawn env st"
      by (rule ids_drawn_extend [OF that, of _ "[]" qs]) (use st1 st'(1) in auto)
    then show ?thesis using that [of "[]" qs] st1 st' kept failed(1) by simp
  next
    case (inserted outs t' new)
    then have st': "st' = st1\<lparr>sv_tables := t'\<rparr>" "acc + dup + rej = of_nat (length evs)"
      using assms val lens count_outcomes_sum [of outs] by (auto simp: store_batch_def add.commute add.left_commute)
    have new: "stored_handle r = hdl \<and> stored_id r \<in> drawn_between env st st1" if "r \<in> set new" for r
      using that inserted(4) new_rows_sub handles by fastforce
    have "ids_drawn env st'" if "ids_drawn env st"
      by (rule ids_drawn_extend [OF that, of _ new qs]) (use st1 st'(1) inserted new in auto)
    then show ?thesis using that [of new qs] st1 new kept inserted st' by simp
  qed
qed

text \<open>An event the server has: a valid one is stored under its key or as the same content, an invalid one stands in quarantine.\<close>

definition server_holds :: "ingest_env \<Rightarrow> string \<Rightarrow> ingest_tables \<Rightarrow> event_envelope \<Rightarrow> bool" where
  "server_holds env hdl t e \<longleftrightarrow>
     (if valid_event (stamp_missing hdl e)
      then list_ex (\<lambda>r. stored_handle r = hdl \<and> (stored_key r = idempotency_key e \<or>
             same_content (sv_store env) (bind_row (sv_store env) (from_envelope (sv_store env) (stored_id r) e hdl)) r)) (event_table t)
      else list_ex (\<lambda>q. held_handle q = hdl \<and> held_key q = idempotency_key e) (quarantine_table t))"

lemma server_holds_mono:
  "server_holds env hdl t e \<Longrightarrow> event_table t' = event_table t @ rows \<Longrightarrow> quarantine_table t' = quarantine_table t @ qs \<Longrightarrow> server_holds env hdl t' e"
  by (simp add: server_holds_def split: if_splits)

lemma from_envelope_content:
  "same_content env (bind_row env (from_envelope env u (stamp_missing hdl e) hdl)) r \<longleftrightarrow>
   same_content env (bind_row env (from_envelope env u' e hdl)) r"
  by (simp add: same_content_def bind_row_def from_envelope_def envelope_payload_def Let_def split: prod.splits)

lemma validate_batch_ids:
  "validate_batch env hdl es st = ((ins, rej), st') \<Longrightarrow> inj (fresh_uuid env) \<Longrightarrow> distinct (map stored_id ins)"
proof (induction es arbitrary: st ins rej)
  case (Cons e es)
  from Cons.prems(1) show ?case
  proof (cases rule: validate_batch_step)
    case (valid ins')
    have "stored_id ` set ins' \<subseteq> fresh_uuid env ` {sv_drawn st + 1..<sv_drawn st'}"
      by (auto elim: validate_batch_handed_on [OF valid(2)])
    then have "fresh_uuid env (sv_drawn st) \<notin> stored_id ` set ins'"
      using inj_image_mem_iff [OF Cons.prems(2), of "sv_drawn st" "{sv_drawn st + 1..<sv_drawn st'}"] by auto
    then show ?thesis using Cons.IH [OF valid(2) Cons.prems(2)] valid(3) by simp
  next
    case (invalid err rej')
    show ?thesis by (rule Cons.IH [OF invalid(2) Cons.prems(2)])
  qed
qed simp

lemma new_rows_hold:
  assumes "x \<in> set es" "distinct (map stored_id es)" "\<forall>r\<in>set rows. stored_id r \<noteq> stored_id x"
  shows "\<exists>r\<in>set (rows @ new_rows env rows es). stored_handle r = stored_handle x \<and> (stored_key r = stored_key x \<or> same_content env x r)"
proof -
  obtain r where r: "r \<in> set (rows @ new_rows env rows es)" "conflicts env x r" using new_rows_cover [OF assms(1)] by blast
  have "r = x" if "stored_id x = stored_id r"
    using that r(1) assms new_rows_sub [of env rows es] by (auto simp: distinct_map inj_on_def)
  then show ?thesis using r by (auto simp: conflicts_def same_content_def)
qed

lemma store_batch_holds:
  assumes "store_batch env hdl evs st = ((acc, dup, rej), st')" "ids_drawn env st"
    and "\<forall>evs. \<not> insert_fails env evs" "\<forall>q. \<not> quarantine_fails env q" "e \<in> set evs"
  shows "server_holds env hdl (sv_tables st') e"
proof -
  let ?evs = "map (stamp_missing hdl) evs"
  obtain ins rv st1 where val: "validate_batch env hdl ?evs st = ((ins, rv), st1)"
    by (cases "validate_batch env hdl ?evs st") auto
  obtain outs t' new where go: "insert_batch (sv_store env) (sv_now env) (insert_fails env) ins (sv_tables st1) = (Some outs, t')"
      "event_table t' = event_table (sv_tables st1) @ new" "new = new_rows (sv_store env) (event_table (sv_tables st1)) (map (bind_row (sv_store env)) ins)"
      "quarantine_table t' = quarantine_table (sv_tables st1)"
    by (cases rule: insert_batch_cases [of "sv_store env" "sv_now env" "insert_fails env" ins "sv_tables st1"]) (use assms(3) in auto)
  then have st': "sv_tables st' = t'" using assms(1) val by (simp add: store_batch_def split: prod.splits) force
  show ?thesis
  proof (cases "valid_event (stamp_missing hdl e)")
    case False
    then show ?thesis using validate_batch_quarantines [OF val assms(2,4), of "stamp_missing hdl e"] assms(5) st' go(4)
      by (auto simp: server_holds_def list_ex_iff)
  next
    case True
    obtain u where u: "u \<in> drawn_between env st st1" "from_envelope (sv_store env) u (stamp_missing hdl e) hdl \<in> set ins"
      by (rule validate_batch_hands_on [OF val, of "stamp_missing hdl e"]) (use True assms(5) in auto)
    let ?x = "from_envelope (sv_store env) u (stamp_missing hdl e) hdl"
    have "event_table (sv_tables st1) = event_table (sv_tables st)"
      by (rule validate_batch_state [OF val]) simp
    then have old: "\<forall>r\<in>set (event_table (sv_tables st1)). stored_id r \<noteq> u"
      using assms(2) u(1) fresh_not_drawn [of env _ "sv_drawn st" u "sv_drawn st1"] by (simp add: ids_drawn_def image_subset_iff)
    have ids: "distinct (map stored_id (map (bind_row (sv_store env)) ins))"
      using validate_batch_ids [OF val] assms(2) by (simp add: ids_drawn_def comp_def)
    have "\<exists>r\<in>set (event_table t'). stored_handle r = hdl \<and> (stored_key r = idempotency_key e \<or> same_content (sv_store env) (bind_row (sv_store env) ?x) r)"
      using new_rows_hold [OF _ ids, of "bind_row (sv_store env) ?x" "event_table (sv_tables st1)" "sv_store env"] u(2) old go(2,3) by simp
    then obtain r where "r \<in> set (event_table t')" "stored_handle r = hdl"
        "stored_key r = idempotency_key e \<or> same_content (sv_store env) (bind_row (sv_store env) ?x) r"
      by blast
    then show ?thesis using True st' from_envelope_content [of "sv_store env" u hdl e r "stored_id r"]
      by (auto simp: server_holds_def list_ex_iff)
  qed
qed

section \<open>Requests\<close>

lemma restamp_events [simp]: "restamp env user b = (b', hc) \<Longrightarrow> batch_events b' = batch_events b"
  by (auto simp: restamp_def split: if_splits option.splits)

text \<open>A request is refused without a trace, or it is processed under the handle of its account.\<close>

lemma gate_refuses: "enforce_device_sync_gate env user = Some resp \<Longrightarrow> \<exists>code bd. resp = Http code bd None"
  by (auto simp: enforce_device_sync_gate_def reject_sync_def split: if_splits option.splits bool.splits)

lemma ingest_handle_cases:
  obtains (refused) code bd where "ingest_handle env tok b st = (Http code bd None, st)"
  | (processed) user b' hc where "require_unrestricted CapIngest (sv_auth env) tok = Inr user" "restamp env user b = (b', hc)"
      "eq_ignore_ascii_case (batch_handle b') (preferred_username user)" "enforce_device_sync_gate env user = None"
      "ingest_handle env tok b st = process_batch env user b' hc st" "\<forall>st. ingest_handle env tok b st = process_batch env user b' hc st"
proof (cases "require_unrestricted CapIngest (sv_auth env) tok")
  case (Inl g)
  then show ?thesis using that(1) by (simp add: ingest_handle_def)
next
  case (Inr user)
  obtain b' hc where rs: "restamp env user b = (b', hc)" by fastforce
  show ?thesis
  proof (cases "enforce_device_sync_gate env user")
    case (Some resp)
    then obtain code bd where "resp = Http code bd None" using gate_refuses by blast
    then have "\<exists>code bd. ingest_handle env tok b st = (Http code bd None, st)" using Inr rs Some by (simp add: ingest_handle_def)
    then show ?thesis using that(1) by blast
  next
    case None
    show ?thesis
    proof (cases "schema_version b < 1 \<or> schema_version b > CURRENT_SCHEMA_VERSION \<or> trim (batch_handle b) = [] \<or>
        \<not> eq_ignore_ascii_case (batch_handle b') (preferred_username user)")
      case True
      then have "\<exists>code bd. ingest_handle env tok b st = (Http code bd None, st)" using Inr rs by (auto simp: ingest_handle_def)
      then show ?thesis using that(1) by blast
    next
      case False
      then show ?thesis using that(2) [OF Inr rs] Inr rs None by (simp add: ingest_handle_def)
    qed
  qed
qed

lemma observe_tables:
  "event_table (sv_tables (observe_sequence env user b st)) = event_table (sv_tables st)"
  "quarantine_table (sv_tables (observe_sequence env user b st)) = quarantine_table (sv_tables st)"
  "stat_event_counts (sv_tables (observe_sequence env user b st)) = stat_event_counts (sv_tables st)"
  "stat_rollup_state (sv_tables (observe_sequence env user b st)) = stat_rollup_state (sv_tables st)"
  "sv_drawn (observe_sequence env user b st) = sv_drawn st" "sv_audit (observe_sequence env user b st) = sv_audit st"
  by (auto simp: observe_sequence_def observe_batch_sequence_def Let_def split: option.splits)

lemma observe_tables_ok: "tables_ok senv (sv_tables st) \<Longrightarrow> tables_ok senv (sv_tables (observe_sequence env user b st))"
  by (simp add: tables_ok_def counts_exact_def observe_tables)

lemma observe_collector_same [simp]:
  "sv_tables (observe_collector env b st) = sv_tables st" "sv_drawn (observe_collector env b st) = sv_drawn st"
  "sv_audit (observe_collector env b st) = sv_audit st"
  by (auto simp: observe_collector_def split: option.splits)

lemma observe_collected:
  "sv_tables (observe_sequence env user b (observe_collector env b' st)) = sv_tables (observe_sequence env user b st)"
  by (simp add: observe_sequence_def Let_def split: option.split prod.split)

lemma observe_again:
  assumes "sv_tables x = sv_tables (observe_sequence env user b y)"
  shows "sv_tables (observe_sequence env user b x) = sv_tables x"
  using assms by (auto simp: observe_sequence_def observe_batch_sequence_def Let_def hmap_insert_def hmap_remove_def split: option.splits)

lemma process_batch_effect:
  assumes "process_batch env user b hc st = (out, st')"
  obtains acc dup rej st1 r where "store_batch env (str_to_lowercase (sv_unicode env) (batch_handle b)) (batch_events b) st = ((acc, dup, rej), st1)"
    "r = \<lparr>response_batch_id = batch_id b, accepted = acc, duplicate = dup, rejected = rej, response_handle_changed = hc\<rparr>" "out = Http 200 (response_body env r) (Some r)"
    "event_table (sv_tables st') = event_table (sv_tables st1)" "quarantine_table (sv_tables st') = quarantine_table (sv_tables st1)"
    "stat_event_counts (sv_tables st') = stat_event_counts (sv_tables st1)" "stat_rollup_state (sv_tables st') = stat_rollup_state (sv_tables st1)"
    "sv_drawn st' = sv_drawn st1" "sv_audit st' = audit_append (batch_audit_entry env user b (acc, dup, rej)) (sv_now env) (sv_audit st1)"
    "tables_ok (sv_store env) (sv_tables st1) \<longrightarrow> tables_ok (sv_store env) (sv_tables st')"
    "sv_tables st' = sv_tables (observe_sequence env user b st1)"
proof -
  obtain acc dup rej st1 where sb: "store_batch env (str_to_lowercase (sv_unicode env) (batch_handle b)) (batch_events b) st = ((acc, dup, rej), st1)"
    by (metis surj_pair)
  show ?thesis
    by (rule that [OF sb refl]) (use assms sb in \<open>auto simp: process_batch_def Let_def observe_tables observe_tables_ok observe_collected\<close>)
qed

text \<open>The handle a request writes under.\<close>

definition account_handle :: "ingest_env \<Rightarrow> string option \<Rightarrow> string" where
  "account_handle env tok =
     (case require_unrestricted CapIngest (sv_auth env) tok of
        Inr user \<Rightarrow> str_to_lowercase (sv_unicode env) (preferred_username user)
      | Inl _ \<Rightarrow> [])"

lemma processed_handle:
  assumes "require_unrestricted CapIngest (sv_auth env) tok = Inr user" "eq_ignore_ascii_case (batch_handle b') (preferred_username user)"
    and "folds_case (str_to_lowercase (sv_unicode env))"
  shows "str_to_lowercase (sv_unicode env) (batch_handle b') = account_handle env tok"
  using assms by (simp add: account_handle_def folds_case_def)

lemma ingest_effect:
  assumes "ingest_handle env tok b st = (out, st')" "folds_case (str_to_lowercase (sv_unicode env))"
  obtains rows qs where "event_table (sv_tables st') = event_table (sv_tables st) @ rows" "\<forall>r\<in>set rows. stored_handle r = account_handle env tok"
    "quarantine_table (sv_tables st') = quarantine_table (sv_tables st) @ qs" "\<forall>q\<in>set qs. held_handle q = account_handle env tok"
    "http_json out = None \<longrightarrow> st' = st"
proof (cases rule: ingest_handle_cases [of env tok b st])
  case (refused code bd)
  then show ?thesis using assms(1) that [of "[]" "[]"] by simp
next
  case (processed user b' hc)
  note h = processed_handle [OF processed(1,3) assms(2)]
  have "process_batch env user b' hc st = (out, st')" using processed(5) assms(1) by simp
  then show ?thesis
  proof (rule process_batch_effect)
    fix acc dup rej st1 r
    assume sb: "store_batch env (str_to_lowercase (sv_unicode env) (batch_handle b')) (batch_events b') st = ((acc, dup, rej), st1)"
      and eff: "event_table (sv_tables st') = event_table (sv_tables st1)" "quarantine_table (sv_tables st') = quarantine_table (sv_tables st1)"
        "out = Http 200 (response_body env r) (Some r)"
    show ?thesis by (rule store_batch_effect [OF sb]) (use that eff h in simp)
  qed
qed

lemma ingest_keeps:
  assumes "ingest_handle env tok b st = (out, st')"
  shows "ids_drawn env st \<Longrightarrow> ids_drawn env st'" "tables_ok (sv_store env) (sv_tables st) \<Longrightarrow> tables_ok (sv_store env) (sv_tables st')"
    "sv_audit st' = sv_audit st \<or> (\<exists>e now. sv_audit st' = audit_append e now (sv_audit st))"
proof -
  have "(ids_drawn env st \<longrightarrow> ids_drawn env st') \<and> (tables_ok (sv_store env) (sv_tables st) \<longrightarrow> tables_ok (sv_store env) (sv_tables st')) \<and>
    (sv_audit st' = sv_audit st \<or> (\<exists>e now. sv_audit st' = audit_append e now (sv_audit st)))"
  proof (cases rule: ingest_handle_cases [of env tok b st])
    case (refused code bd)
    then show ?thesis using assms by simp
  next
    case (processed user b' hc)
    then have "process_batch env user b' hc st = (out, st')" using assms by simp
    then show ?thesis
    proof (rule process_batch_effect)
      fix acc dup rej st1 r
      assume sb: "store_batch env (str_to_lowercase (sv_unicode env) (batch_handle b')) (batch_events b') st = ((acc, dup, rej), st1)"
        and eff: "event_table (sv_tables st') = event_table (sv_tables st1)" "quarantine_table (sv_tables st') = quarantine_table (sv_tables st1)"
          "sv_drawn st' = sv_drawn st1" "tables_ok (sv_store env) (sv_tables st1) \<longrightarrow> tables_ok (sv_store env) (sv_tables st')"
          "sv_audit st' = audit_append (batch_audit_entry env user b' (acc, dup, rej)) (sv_now env) (sv_audit st1)"
      show ?thesis by (rule store_batch_effect [OF sb]) (use eff in \<open>auto simp: ids_drawn_def\<close>)
    qed
  qed
  then show "ids_drawn env st \<Longrightarrow> ids_drawn env st'" "tables_ok (sv_store env) (sv_tables st) \<Longrightarrow> tables_ok (sv_store env) (sv_tables st')"
    "sv_audit st' = sv_audit st \<or> (\<exists>e now. sv_audit st' = audit_append e now (sv_audit st))"
    by blast+
qed

text \<open>A 200 accounts for every event of the batch.\<close>

lemma ingest_accounts:
  assumes "ingest_handle env tok b st = (out, st')" "http_json out = Some r" "folds_case (str_to_lowercase (sv_unicode env))"
  shows "accepted r + duplicate r + rejected r = of_nat (length (batch_events b))"
    "ids_drawn env st \<Longrightarrow> \<forall>evs. \<not> insert_fails env evs \<Longrightarrow> \<forall>q. \<not> quarantine_fails env q \<Longrightarrow> e \<in> set (batch_events b) \<Longrightarrow>
       server_holds env (account_handle env tok) (sv_tables st') e"
proof -
  obtain user b' hc where p: "require_unrestricted CapIngest (sv_auth env) tok = Inr user" "restamp env user b = (b', hc)"
      "eq_ignore_ascii_case (batch_handle b') (preferred_username user)" "process_batch env user b' hc st = (out, st')"
    by (cases rule: ingest_handle_cases [of env tok b st]) (use assms(1,2) in auto)
  note h = processed_handle [OF p(1,3) assms(3)]
  obtain acc dup rej st1 where sb: "store_batch env (account_handle env tok) (batch_events b) st = ((acc, dup, rej), st1)"
      "accepted r = acc" "duplicate r = dup" "rejected r = rej"
      "event_table (sv_tables st') = event_table (sv_tables st1)" "quarantine_table (sv_tables st') = quarantine_table (sv_tables st1)"
    by (rule process_batch_effect [OF p(4)]) (use h p(2) assms(2) in auto)
  show "accepted r + duplicate r + rejected r = of_nat (length (batch_events b))"
    by (rule store_batch_effect [OF sb(1)]) (simp add: sb(2-4))
  show "server_holds env (account_handle env tok) (sv_tables st') e"
    if "ids_drawn env st" "\<forall>evs. \<not> insert_fails env evs" "\<forall>q. \<not> quarantine_fails env q" "e \<in> set (batch_events b)"
    using store_batch_holds [OF sb(1) that] sb(5,6) by (simp add: server_holds_def)
qed

section \<open>Uploading again\<close>

lemma validate_batch_again:
  assumes "validate_batch env hdl es st = ((ins, rej), st')"
    and "\<forall>e\<in>set es. \<not> valid_event e \<longrightarrow> list_ex (\<lambda>q. held_handle q = hdl \<and> held_key q = idempotency_key e) (quarantine_table (sv_tables st))"
  shows "sv_tables st' = sv_tables st"
  using assms
proof (induction es arbitrary: st ins rej)
  case (Cons e es)
  from Cons.prems(1) show ?case
  proof (cases rule: validate_batch_step)
    case (valid ins')
    from Cons.IH [OF valid(2)] show ?thesis using Cons.prems(2) by simp
  next
    case (invalid err rej')
    let ?q = "quarantined_of env (fresh_uuid env (sv_drawn st)) hdl e err"
    have "snd (quarantine (quarantine_fails env) ?q (sv_tables st)) = sv_tables st"
      using Cons.prems(2) invalid(1) by (auto simp: quarantine_def quarantined_of_def)
    then show ?thesis using Cons.IH [OF invalid(2)] Cons.prems(2) by simp
  qed
qed simp

lemma no_new_rows:
  "roll_counts [] m = m" "mark_dirty now [] s = s"
  by (simp_all add: roll_counts_def mark_dirty_def upsert_groups_def)

lemma insert_batch_again:
  assumes "\<forall>x\<in>set evs. list_ex (conflicts env (bind_row env x)) (event_table t)" "\<not> fails evs"
  shows "insert_batch env now fails evs t = (Some (map (\<lambda>_. Duplicate) evs), t)"
proof -
  have "new_rows env (event_table t) (map (bind_row env) evs) = []" by (rule new_rows_none) (use assms(1) in simp)
  then show ?thesis using assms(2) by (simp add: insert_batch_def no_new_rows)
qed

lemma count_repeated [simp]: "tally_outcome Inserted (map (\<lambda>_. Duplicate) xs) = 0" "tally_outcome Duplicate (map (\<lambda>_. Duplicate) xs) = of_nat (length xs)"
  by (simp_all add: tally_outcome_length)

lemma store_batch_again:
  assumes "\<forall>e\<in>set evs. server_holds env hdl (sv_tables st) e" "\<forall>evs. \<not> insert_fails env evs"
    and "store_batch env hdl evs st = ((acc, dup, rej), st')"
  shows "sv_tables st' = sv_tables st \<and> acc = 0 \<and> dup = of_nat (length (filter (\<lambda>e. valid_event (stamp_missing hdl e)) evs)) \<and>
    rej = of_nat (length (filter (\<lambda>e. \<not> valid_event (stamp_missing hdl e)) evs))"
proof -
  let ?evs = "map (stamp_missing hdl) evs"
  obtain ins rv st1 where val: "validate_batch env hdl ?evs st = ((ins, rv), st1)"
    by (cases "validate_batch env hdl ?evs st") auto
  have same: "sv_tables st1 = sv_tables st"
    by (rule validate_batch_again [OF val]) (use assms(1) in \<open>auto simp: server_holds_def\<close>)
  have "list_ex (conflicts (sv_store env) (bind_row (sv_store env) x)) (event_table (sv_tables st))" if x: "x \<in> set ins" for x
  proof -
    obtain e u where e: "e \<in> set evs" "valid_event (stamp_missing hdl e)" "x = from_envelope (sv_store env) u (stamp_missing hdl e) hdl"
      using list_all2_left [OF conjunct1 [OF validate_batch_rows [OF val]] x] by auto
    then obtain r where r: "r \<in> set (event_table (sv_tables st))" "stored_handle r = hdl" "stored_key r = idempotency_key e \<or>
        same_content (sv_store env) (bind_row (sv_store env) (from_envelope (sv_store env) (stored_id r) e hdl)) r"
      using bspec [OF assms(1) e(1)] by (auto simp: server_holds_def list_ex_iff)
    then have "conflicts (sv_store env) (bind_row (sv_store env) x) r"
      using e(3) from_envelope_content [of "sv_store env" u hdl e r "stored_id r"] by (auto simp: conflicts_def)
    then show ?thesis using r(1) by (auto simp: list_ex_iff)
  qed
  then have "insert_batch (sv_store env) (sv_now env) (insert_fails env) ins (sv_tables st1) = (Some (map (\<lambda>_. Duplicate) ins), sv_tables st)"
    using insert_batch_again [of ins "sv_store env" "sv_tables st" "insert_fails env"] assms(2) same by simp
  moreover have "length ins = length (filter (\<lambda>e. valid_event (stamp_missing hdl e)) evs)"
      "rv = of_nat (length (filter (\<lambda>e. \<not> valid_event (stamp_missing hdl e)) evs))"
    using validate_batch_rows [OF val] list_all2_lengthD [OF conjunct1 [OF validate_batch_rows [OF val]]] by (auto simp: filter_map comp_def)
  ultimately show ?thesis using assms(3) val by (auto simp: store_batch_def same)
qed

section \<open>Runs\<close>

text \<open>Any interleaving of requests, each with its own view of the world but one database and one source of identifiers, and of the audit writer.\<close>

inductive server_step :: "store_env \<Rightarrow> (nat \<Rightarrow> string) \<Rightarrow> audit_env \<Rightarrow> server_state \<Rightarrow> server_state \<Rightarrow> bool" for senv uuids aenv where
  Request: "sv_store env = senv \<Longrightarrow> fresh_uuid env = uuids \<Longrightarrow> server_step senv uuids aenv st (snd (ingest_handle env tok b st))"
| WriteAudit: "server_step senv uuids aenv st (st\<lparr>sv_audit := write_metered aenv fate (sv_audit st)\<rparr>)"

definition empty_server :: server_state where
  "empty_server = \<lparr>sv_tables = empty_tables, sv_audit = empty_audit_log, sv_drawn = 0, sv_flags = []\<rparr>"

definition server_ok :: "store_env \<Rightarrow> server_state \<Rightarrow> bool" where
  "server_ok senv st \<longleftrightarrow> tables_ok senv (sv_tables st) \<and> (\<exists>acc. log_ok (acc, sv_audit st))"

lemma server_step_ok: "server_step senv uuids aenv st st' \<Longrightarrow> server_ok senv st \<Longrightarrow> server_ok senv st'"
proof (induction rule: server_step.induct)
  case (Request env st tok b)
  obtain out st' where run: "ingest_handle env tok b st = (out, st')" by fastforce
  obtain acc where acc: "log_ok (acc, sv_audit st)" using Request.prems by (auto simp: server_ok_def)
  have "\<exists>acc'. log_ok (acc', sv_audit st')"
    using ingest_keeps(3) [OF run]
  proof
    assume "\<exists>e now. sv_audit st' = audit_append e now (sv_audit st)"
    then show ?thesis using audit_step_ok [OF audit_step.Append acc] by metis
  qed (use acc in auto)
  then show ?case using ingest_keeps(2) [OF run] Request run by (simp add: server_ok_def)
next
  case (WriteAudit st fate)
  then obtain acc where "log_ok (acc, sv_audit st)" by (auto simp: server_ok_def)
  then have "log_ok (acc, write_metered aenv fate (sv_audit st))" by (rule write_metered_ok)
  then show ?case using WriteAudit by (auto simp: server_ok_def)
qed

lemma empty_server_ok: "server_ok senv empty_server"
proof -
  have "log_ok ([], empty_audit_log)" by (simp add: log_ok_def table_ok_def empty_audit_log_def entries_of_def)
  then show ?thesis by (auto simp: server_ok_def empty_server_def)
qed

interpretation server_sys: step_system "server_step senv uuids aenv" "\<lambda>st. st = empty_server" "server_ok senv" for senv uuids aenv
  by unfold_locales (simp add: empty_server_ok, rule server_step_ok)

section \<open>Drains against the server\<close>

text \<open>What became of a row of the outbox: nothing, or it is marked sent and the server has its event.\<close>

definition delivered :: "ingest_env \<Rightarrow> string \<Rightarrow> batch_env \<Rightarrow> server_state \<Rightarrow> event_row \<Rightarrow> bool" where
  "delivered env hdl benv srv r \<longleftrightarrow>
     (case build_envelope benv (map_unsent_row r) of Done e \<Rightarrow> server_holds env hdl (sv_tables srv) e | Panics \<Rightarrow> False)"

definition sent_or_kept :: "ingest_env \<Rightarrow> string \<Rightarrow> batch_env \<Rightarrow> string \<Rightarrow> server_state \<Rightarrow> event_row \<Rightarrow> event_row \<Rightarrow> bool" where
  "sent_or_kept env hdl benv now srv r r' \<longleftrightarrow> r' = r \<or> r' = r\<lparr>sent_at := Some now\<rparr> \<and> delivered env hdl benv srv r"

lemma delivered_mono:
  assumes "delivered env h benv srv r" "event_table (sv_tables srv') = event_table (sv_tables srv) @ rows"
    "quarantine_table (sv_tables srv') = quarantine_table (sv_tables srv) @ qs"
  shows "delivered env h benv srv' r"
  using assms(1) server_holds_mono [OF _ assms(2,3)] by (simp add: delivered_def split: exec.splits)

text \<open>The server never refuses a batch as malformed when its schema is the current one and its handle is not blank.\<close>

lemma ingest_no_bad_batch:
  assumes "schema_version b = CURRENT_SCHEMA_VERSION" "trim (batch_handle b) \<noteq> []" "ingest_handle env tok b srv = (out, srv')"
  shows "\<nexists>code bd. classify_response out = SendBadBatch code bd"
proof -
  have gate: "resp = Http c bd js \<Longrightarrow> c \<in> {403, 500}" if "enforce_device_sync_gate env user = Some resp" for user resp c bd js
    using that by (auto simp: enforce_device_sync_gate_def reject_sync_def split: if_splits option.splits bool.splits)
  have guard: "guard_status g \<in> {401, 403, 503}" for g
    by (cases g) (auto simp: guard_status_def auth_status_def split: auth_error.splits)
  show ?thesis
  proof (cases "require_unrestricted CapIngest (sv_auth env) tok")
    case (Inl g)
    then show ?thesis using assms(3) guard [of g] by (auto simp: ingest_handle_def classify_response_def split: if_splits option.splits)
  next
    case (Inr user)
    obtain b' hc where rs: "restamp env user b = (b', hc)" by fastforce
    show ?thesis
    proof (cases "enforce_device_sync_gate env user")
      case (Some resp)
      then obtain c bd where "resp = Http c bd None" using gate_refuses by blast
      then show ?thesis using assms Inr rs Some gate [OF Some, of c bd None]
        by (auto simp: ingest_handle_def classify_response_def CURRENT_SCHEMA_VERSION_def split: if_splits)
    next
      case None
      then show ?thesis using assms Inr rs
        by (auto simp: ingest_handle_def process_batch_def classify_response_def CURRENT_SCHEMA_VERSION_def Let_def split: if_splits prod.splits)
    qed
  qed
qed

text \<open>Marking events as sent once the server has them.\<close>

lemma delivered_stamp:
  assumes "list_all2 (sent_or_kept env h benv now srv) all (ls_events st)" "distinct (map row_id all)" "set rows \<subseteq> set all"
    and "set evs \<subseteq> map_unsent_row ` set rows" "\<forall>r\<in>set rows. map_unsent_row r \<in> set evs \<longrightarrow> delivered env h benv srv r"
  shows "list_all2 (sent_or_kept env h benv now srv) all (ls_events (stamp_ids now (unsent_id ` set evs) st))"
proof -
  have one: "sent_or_kept env h benv now srv r
      (if sent_at r' = None \<and> row_id r' \<in> unsent_id ` set evs then r'\<lparr>sent_at := Some now\<rparr> else r')"
    if r: "sent_or_kept env h benv now srv r r'" "r \<in> set all" for r r'
  proof (cases "sent_at r' = None \<and> row_id r' \<in> unsent_id ` set evs")
    case True
    then have "r' = r" using r(1) by (auto simp: sent_or_kept_def)
    with True obtain q where q: "q \<in> set rows" "map_unsent_row q \<in> set evs" "row_id q = row_id r"
      using assms(4) by (force simp: map_unsent_row_def)
    moreover from this have "q = r" using same_id_same_row [OF assms(2) r(2)] assms(3) by blast
    ultimately show ?thesis using assms(5) True \<open>r' = r\<close> by (auto simp: sent_or_kept_def)
  qed (use r in auto)
  show ?thesis
    unfolding stamp_ids_def update_rows_events list_all2_map2 by (rule list.rel_mono_strong [OF assms(1)]) (rule one)
qed

lemma try_send_ingest:
  assumes "try_send_batch benv (ingest_handle env tok) hdl evs pv sq srv = Done (res, srv')"
  obtains b out where "ingest_handle env tok b srv = (out, srv')" "res = classify_response out" "schema_version b = CURRENT_SCHEMA_VERSION"
    "batch_handle b = hdl" "map (build_envelope benv) evs = map Done (batch_events b)"
  using assms that by (auto simp: try_send_batch_def build_batch_def collect_exec_Done [symmetric] split: exec.splits prod.splits)

text \<open>The conditions on a server that keeps what it acknowledges.\<close>

definition sound_server :: "ingest_env \<Rightarrow> bool" where
  "sound_server env \<longleftrightarrow>
     (\<forall>evs. \<not> insert_fails env evs) \<and> (\<forall>q. \<not> quarantine_fails env q) \<and> folds_case (str_to_lowercase (sv_unicode env))"

lemma drain_step_delivers:
  assumes inv: "list_all2 (sent_or_kept env (account_handle env tok) benv now (ss_server st)) all (ls_events (ss_store st))"
    and ids: "ids_drawn env (ss_server st)"
    and page: "distinct (map row_id all)" "set rows \<subseteq> set all" "set part \<subseteq> map_unsent_row ` set rows"
    and env: "sound_server env" "trim hdl \<noteq> []"
    and step: "drain_step benv (ingest_handle env tok) now hdl pv part rest tot st = Done nx"
      "case nx of Continue stack' tot' st'' \<Rightarrow> st'' = st' | Stop e st'' \<Rightarrow> st'' = st'"
  shows "list_all2 (sent_or_kept env (account_handle env tok) benv now (ss_server st')) all (ls_events (ss_store st')) \<and> ids_drawn env (ss_server st')"
proof -
  let ?h = "account_handle env tok" and ?sq = "peek_next_batch_sequence (ss_store st)"
  obtain res srv where send: "try_send_batch benv (ingest_handle env tok) hdl part pv (Some ?sq) (ss_server st) = Done (res, srv)"
    using step(1) by (auto simp: drain_step_def Let_def split: exec.splits)
  obtain b out where b: "ingest_handle env tok b (ss_server st) = (out, srv)" "res = classify_response out" "schema_version b = CURRENT_SCHEMA_VERSION"
      "batch_handle b = hdl" "map (build_envelope benv) part = map Done (batch_events b)"
    by (rule try_send_ingest [OF send])
  have fold: "folds_case (str_to_lowercase (sv_unicode env))" using env(1) by (simp add: sound_server_def)
  obtain rws qs where grow: "event_table (sv_tables srv) = event_table (sv_tables (ss_server st)) @ rws"
      "quarantine_table (sv_tables srv) = quarantine_table (sv_tables (ss_server st)) @ qs"
    by (rule ingest_effect [OF b(1) fold])
  have kept: "list_all2 (sent_or_kept env ?h benv now srv) all (ls_events (ss_store st))"
    by (rule list_all2_mono [OF inv]) (auto simp: sent_or_kept_def intro: delivered_mono [OF _ grow])
  have ids': "ids_drawn env srv" by (rule ingest_keeps(1) [OF b(1) ids])
  show ?thesis
  proof (cases res)
    case (SendOk r)
    obtain tot' st'' where del: "batch_delivered now ?sq part r tot (st\<lparr>ss_server := srv\<rparr>) = (tot', st'')"
      by (cases "batch_delivered now ?sq part r tot (st\<lparr>ss_server := srv\<rparr>)")
    then have "st' = st''" using SendOk send step by (auto simp: drain_step_def)
    moreover have json: "http_json out = Some r"
      using SendOk b(2) by (auto simp: classify_response_def split: http_outcome.splits if_splits option.splits)
    have "delivered env ?h benv srv r" if "map_unsent_row r \<in> set part" for r
    proof -
      from that have "build_envelope benv (map_unsent_row r) \<in> set (map Done (batch_events b))" unfolding b(5) [symmetric] by simp
      then obtain e where "build_envelope benv (map_unsent_row r) = Done e" "e \<in> set (batch_events b)" by auto
      then show ?thesis using ingest_accounts(2) [OF b(1) json fold ids] env(1) by (simp add: delivered_def sound_server_def)
    qed
    ultimately show ?thesis
      using delivered_stamp [OF kept page] batch_delivered_store [OF del] ids' by (simp add: mark_sent_stamp)
  next
    case (SendBadBatch c bd)
    then show ?thesis using ingest_no_bad_batch [OF b(3) _ b(1)] b(2,4) env(2) by auto
  qed (use send step kept ids' in \<open>auto simp: drain_step_def Let_def lose_auth_def clear_persisted_device_token_def split: if_splits\<close>)
qed

lemma drain_loop_delivers:
  assumes "ids_drawn env (ss_server st)" "distinct (map row_id (ls_events (ss_store st)))" "set rows \<subseteq> set (ls_events (ss_store st))"
    and "set (concat stack) \<subseteq> map_unsent_row ` set rows" "[] \<notin> set stack" "sound_server env" "trim hdl \<noteq> []"
    and "drain_loop benv (ingest_handle env tok) now hdl pv stack tot st = Some (Done (res, st'))"
  shows "list_all2 (sent_or_kept env (account_handle env tok) benv now (ss_server st')) (ls_events (ss_store st)) (ls_events (ss_store st'))"
proof -
  define all where "all = ls_events (ss_store st)"
  let ?I = "\<lambda>s. list_all2 (sent_or_kept env (account_handle env tok) benv now (ss_server s)) all (ls_events (ss_store s)) \<and> ids_drawn env (ss_server s)"
  note one = drain_step_delivers [OF _ _ assms(2,3) [folded all_def] _ assms(6,7)]
  have "?I st'"
  proof (rule drain_loop_rule [where P = "\<lambda>stack tot s. [] \<notin> set stack \<and> set (concat stack) \<subseteq> map_unsent_row ` set rows \<and> ?I s"
        and Q = "\<lambda>r s. ?I s"])
    fix part rest tot s stack' tot' s'
    assume P: "[] \<notin> set (part # rest) \<and> set (concat (part # rest)) \<subseteq> map_unsent_row ` set rows \<and> ?I s"
      and step: "drain_step benv (ingest_handle env tok) now hdl pv part rest tot s = Done (Continue stack' tot' s')"
    show "[] \<notin> set stack' \<and> set (concat stack') \<subseteq> map_unsent_row ` set rows \<and> ?I s'"
      using drain_step_weight [OF step] P one [OF _ _ _ step] by (auto simp del: set_concat)
  next
    fix part rest tot s e s'
    assume P: "[] \<notin> set (part # rest) \<and> set (concat (part # rest)) \<subseteq> map_unsent_row ` set rows \<and> ?I s"
      and step: "drain_step benv (ingest_handle env tok) now hdl pv part rest tot s = Done (Stop e s')"
    show "?I s'" using P one [OF _ _ _ step] by auto
  qed (use assms in \<open>auto simp: all_def sent_or_kept_def list.rel_refl\<close>)
  then show ?thesis by (simp add: all_def)
qed

lemma build_batch_done:
  assumes "map (build_envelope benv) evs = map Done envs"
  obtains b where "build_batch benv hdl evs pv sq = Done b" "batch_events b = envs" "batch_handle b = hdl" "schema_version b = CURRENT_SCHEMA_VERSION"
  using assms that by (auto simp: build_batch_def collect_exec_Done [THEN iffD2])

lemma built_envelopes:
  assumes "\<forall>e\<in>set evs. build_envelope benv e \<noteq> Panics"
  obtains envs where "map (build_envelope benv) evs = map Done envs"
proof -
  have "\<forall>e\<in>set evs. \<exists>v. build_envelope benv e = Done v" using assms by (metis exec.exhaust)
  then obtain f where "\<forall>e\<in>set evs. build_envelope benv e = Done (f e)" by metis
  then have "map (build_envelope benv) evs = map Done (map f evs)" by simp
  then show ?thesis using that by blast
qed

text \<open>A server for the examples: one account, no failures.\<close>

definition sample_auth :: auth_env where
  "sample_auth =
     \<lparr>verify_token = (\<lambda>t. if t = ''tok'' then Inr \<lparr>claim_sub = ''u1'', iat = 0, claim_username = ''Me'', claim_type = DeviceToken, claim_device = Some ''d1''\<rparr>
                       else Inl BadHeader),
      parse_uuid = Some, rename_index = None, device_status = (\<lambda>_. Some DeviceActive), restriction_store = Some (\<lambda>_. Some None)\<rparr>"

definition sample_store_env :: store_env where
  "sample_store_env =
     \<lparr>event_value = (\<lambda>_. Some (JObject [(''type'', JString ''location_inventory_requested'')])), rfc3339_instant = (\<lambda>_. None),
      naive_instant = (\<lambda>_ _. None), timestamptz = (\<lambda>t. t), md5 = (\<lambda>x. x), jsonb_text = (\<lambda>_. [])\<rparr>"

definition sample_server :: ingest_env where
  "sample_server =
     \<lparr>sv_auth = sample_auth, sv_store = sample_store_env,
      sv_unicode = \<lparr>alphanumeric = (\<lambda>_. False), lower = to_ascii_lowercase, upper = to_ascii_uppercase\<rparr>,
      fresh_uuid = (\<lambda>k. replicate k (CHR ''u'')), api_error_body = (\<lambda>code _. code), guard_body = (\<lambda>_. ''account_restricted''),
      response_body = (\<lambda>_. []), sync_enabled_for = (\<lambda>_ _. Some (Some True)), sign_device = None, insert_fails = (\<lambda>_. False),
      quarantine_fails = (\<lambda>_. False), progress_fails = False, min_collector_var = None, sv_now = 0\<rparr>"

definition sample_batch_env :: batch_env where
  "sample_batch_env =
     (sample_env ''OOC_Stanton_1'')\<lparr>from_json := (\<lambda>_. Some (LocationInventoryRequested \<lparr>location_inventory_requested.timestamp = ''2026-01-01T00:00:00Z'',
       location_inventory_requested.player = ''me'', location_inventory_requested.location = ''OOC_Stanton_1''\<rparr>))\<rparr>"

definition sample_upload :: ingest_batch where
  "sample_upload =
     (case build_batch sample_batch_env ''me'' (map map_unsent_row (ls_events sample_store)) None (Some 1) of Done b \<Rightarrow> b)"

lemma sample_built_valid:
  assumes "build_envelope sample_batch_env x = Done e"
  shows "valid_event (stamp_missing ''me'' e)"
proof -
  let ?ev = "LocationInventoryRequested \<lparr>location_inventory_requested.timestamp = ''2026-01-01T00:00:00Z'',
       location_inventory_requested.player = ''me'', location_inventory_requested.location = ''OOC_Stanton_1''\<rparr>"
  have e: "event_envelope.event e = Some ?ev" "event_envelope.metadata e = None"
    using assms by (auto simp: build_envelope_def sample_batch_env_def Let_def split: option.splits exec.splits)
  have ok: "validate_game_event ?ev = Inr ()" "validate_metadata (stamp ?ev (Some ''me'')) = Inr ()" by code_simp+
  show ?thesis by (simp add: validate_event_def stamp_missing_def e ok)
qed

lemma sample_folds: "folds_case (str_to_lowercase (sv_unicode sample_server))"
proof -
  have "str_to_lowercase (sv_unicode sample_server) s = to_ascii_lowercase s" for s
  proof -
    have "str_to_lowercase (sv_unicode sample_server) s = to_ascii_lowercase (concat (utf8_chars s))"
      by (simp add: str_to_lowercase_def sample_server_def to_ascii_lowercase_def [abs_def] map_concat)
    then show ?thesis by (simp add: concat_utf8_chars)
  qed
  then show ?thesis by (simp add: folds_case_def eq_ignore_ascii_case_def)
qed

lemma sample_ids: "ids_drawn sample_server empty_server"
  by (auto simp: ids_drawn_def sample_server_def empty_server_def empty_tables_def inj_def dest: arg_cong [of _ _ length])

lemma sample_sound: "sound_server sample_server"
  using sample_folds by (simp add: sound_server_def sample_server_def)

lemma sample_upload_accepted:
  "map_option (\<lambda>r. (accepted r, duplicate r, rejected r)) (http_json (fst (ingest_handle sample_server (Some ''tok'') sample_upload empty_server))) =
     Some (3, 0, 0)"
  by code_simp

text \<open>A drain whose rows all build returns.\<close>

lemma drain_step_done:
  assumes "\<forall>e\<in>set part. build_envelope benv e \<noteq> Panics"
  obtains nx where "drain_step benv post now hdl pv part rest tot st = Done nx"
proof -
  obtain envs where "map (build_envelope benv) part = map Done envs" by (rule built_envelopes [OF assms])
  then obtain b where "build_batch benv hdl part pv (Some (peek_next_batch_sequence (ss_store st))) = Done b" by (rule build_batch_done)
  then show ?thesis using that by (cases "post b (ss_server st)") (auto simp: drain_step_def try_send_batch_def)
qed

lemma drain_loop_done:
  "[] \<notin> set stack \<Longrightarrow> \<forall>e\<in>set (concat stack). build_envelope benv e \<noteq> Panics \<Longrightarrow>
   \<exists>res st'. drain_loop benv post now hdl pv stack tot st = Some (Done (res, st'))"
proof (induction "stack_weight stack" arbitrary: stack tot st rule: less_induct)
  case less
  show ?case
  proof (cases stack)
    case Nil
    then show ?thesis by (subst drain_loop.simps) simp
  next
    case (Cons part rest)
    obtain nx where nx: "drain_step benv post now hdl pv part rest tot st = Done nx"
      by (rule drain_step_done [of part benv]) (use less.prems Cons in auto)
    show ?thesis
    proof (cases nx)
      case (Continue stack' tot' st')
      then have w: "stack_weight stack' < stack_weight stack" "[] \<notin> set stack'" "set (concat stack') \<subseteq> set (concat stack)"
        using drain_step_weight [of benv post now hdl pv part rest tot st] nx less.prems(1) Cons by auto
      then have "\<exists>res st''. drain_loop benv post now hdl pv stack' tot' st' = Some (Done (res, st''))"
        using less.prems(2) by (intro less.hyps) auto
      then show ?thesis using Cons nx Continue by (subst drain_loop.simps) simp
    next
      case (Stop e st')
      then show ?thesis using Cons nx by (subst drain_loop.simps) simp
    qed
  qed
qed

lemma drain_lane_done:
  assumes "\<forall>r\<in>set (page_rows types (lane = Priority) page (ss_store st)). build_envelope benv (map_unsent_row r) \<noteq> Panics"
  shows "\<exists>res tm' st'. drain_lane lane benv post le hdl types page max_bytes tm st = Some (Done (res, tm', st'))"
proof (cases "page_rows types (lane = Priority) page (ss_store st) = []")
  case True
  then show ?thesis by (auto simp: drain_lane_def read_unsent_page split: prod.splits option.splits)
next
  case False
  let ?rows = "page_rows types (lane = Priority) page (ss_store st)"
  let ?st = "st\<lparr>ss_stats := (ss_stats st)\<lparr>last_attempt_at := Some (now_text le)\<rparr>\<rparr>"
  have "\<forall>e\<in>set (concat (chunk_by_bytes (map map_unsent_row ?rows) max_bytes)). build_envelope benv e \<noteq> Panics"
    using assms by (simp add: chunk_by_bytes_concat)
  then obtain res st' where "drain_loop benv post (now_text le) hdl (read_parser_def_manifest_version (ss_store st))
      (chunk_by_bytes (map map_unsent_row ?rows) max_bytes) no_totals ?st = Some (Done (res, st'))"
    using drain_loop_done [OF chunk_by_bytes_nonempty] by blast
  then show ?thesis using False by (cases res) (auto simp: drain_lane_def read_unsent_page Let_def)
qed

lemma sample_builds: "build_envelope sample_batch_env (map_unsent_row r) \<noteq> Panics"
proof -
  have "list_all is_ascii ''OOC_Stanton_1''" by code_simp
  then have "plain_location sample_batch_env r" by (simp add: plain_location_def sample_batch_env_def location_raw_def)
  then show ?thesis by (rule plain_location_builds)
qed

section \<open>Properties\<close>

text \<open>C3. Under any interleaving of upload requests and audit writes, from an empty server: no two stored events share a handle and key or a handle and
  content, every counter of \<open>stat_event_counts\<close> is exactly the number, the earliest and the latest time of the stored events of its handle and type, every handle
  with events has a rollup state, quarantine rows are unique for a handle and key, and the audit chain holds.\<close>

theorem server_reachable_ok:
  assumes "(server_step senv uuids aenv)\<^sup>*\<^sup>* empty_server st"
  shows "sorted_wrt (\<lambda>a b. \<not> conflicts senv a b) (event_table (sv_tables st)) \<and>
    (\<forall>h ty. map_of (stat_event_counts (sv_tables st)) (h, ty) =
       (case filter (\<lambda>e. stored_handle e = h \<and> stored_type e = ty) (event_table (sv_tables st)) of
          [] \<Rightarrow> None
        | rows \<Rightarrow> Some \<lparr>event_count = length rows, first_seen_at = pg_min (map stored_at rows), last_seen_at = pg_max (map stored_at rows)\<rparr>)) \<and>
    (\<forall>e\<in>set (event_table (sv_tables st)). map_of (stat_rollup_state (sv_tables st)) (stored_handle e) \<noteq> None) \<and>
    distinct (map (\<lambda>q. (held_handle q, held_key q)) (quarantine_table (sv_tables st))) \<and>
    chained GENESIS_HASH (audit_rows (audit_table_of (sv_audit st)))"
proof -
  have ok: "tables_ok senv (sv_tables st)" "table_ok (audit_table_of (sv_audit st))"
    using server_sys.inv_reachable [OF assms] by (auto simp: server_ok_def log_ok_def)
  have "map_of (stat_event_counts (sv_tables st)) (h, ty) =
      (case filter (\<lambda>e. stored_handle e = h \<and> stored_type e = ty) (event_table (sv_tables st)) of
          [] \<Rightarrow> None
        | rows \<Rightarrow> Some \<lparr>event_count = length rows, first_seen_at = pg_min (map stored_at rows), last_seen_at = pg_max (map stored_at rows)\<rparr>)"
    for h ty
  proof -
    have "rows_of (h, ty) (event_table (sv_tables st)) = filter (\<lambda>e. stored_handle e = h \<and> stored_type e = ty) (event_table (sv_tables st))"
      by (simp add: rows_of_def row_group_def)
    then show ?thesis using ok(1) by (simp add: tables_ok_def counts_exact_def aggregate_def split: list.split)
  qed
  then show ?thesis using ok by (simp add: tables_ok_def table_ok_def)
qed

theorem server_reachable_ok_witness:
  "\<exists>st. (server_step sample_store_env (\<lambda>k. replicate k (CHR ''u'')) \<lparr>sha256 = (\<lambda>x. x), json_to_vec = (\<lambda>_. Some [])\<rparr>)\<^sup>*\<^sup>* empty_server st \<and>
     length (event_table (sv_tables st)) = 3 \<and> sorted_wrt (\<lambda>a b. \<not> conflicts sample_store_env a b) (event_table (sv_tables st))"
proof -
  let ?st = "snd (ingest_handle sample_server (Some ''tok'') sample_upload empty_server)"
  let ?aenv = "\<lparr>sha256 = (\<lambda>x. x), json_to_vec = (\<lambda>_. Some [])\<rparr>"
  have "(server_step sample_store_env (\<lambda>k. replicate k (CHR ''u'')) ?aenv)\<^sup>*\<^sup>* empty_server ?st"
    by (rule r_into_rtranclp, rule server_step.Request) (simp_all add: sample_server_def)
  moreover have "length (event_table (sv_tables ?st)) = 3" by code_simp
  ultimately show ?thesis using server_reachable_ok by blast
qed

text \<open>C4. Nobody writes under another account's handle: whatever a request adds to the events or the quarantine table carries the lower-case form of the
  current handle of the account that its token authenticates, nothing stored is changed, and a request that is not answered with counts leaves the server
  as it was.\<close>

theorem ingest_writes_own_handle:
  assumes "ingest_handle env tok b st = (out, st')" "folds_case (str_to_lowercase (sv_unicode env))"
  shows "\<exists>rows qs. event_table (sv_tables st') = event_table (sv_tables st) @ rows \<and>
    quarantine_table (sv_tables st') = quarantine_table (sv_tables st) @ qs \<and>
    (case require_unrestricted CapIngest (sv_auth env) tok of
       Inl _ \<Rightarrow> st' = st
     | Inr user \<Rightarrow> list_all (\<lambda>r. stored_handle r = str_to_lowercase (sv_unicode env) (preferred_username user)) rows \<and>
                    list_all (\<lambda>q. held_handle q = str_to_lowercase (sv_unicode env) (preferred_username user)) qs) \<and>
    (http_json out = None \<longrightarrow> st' = st)"
proof (rule ingest_effect [OF assms])
  fix rows qs
  assume "event_table (sv_tables st') = event_table (sv_tables st) @ rows" "\<forall>r\<in>set rows. stored_handle r = account_handle env tok"
    "quarantine_table (sv_tables st') = quarantine_table (sv_tables st) @ qs" "\<forall>q\<in>set qs. held_handle q = account_handle env tok"
    "http_json out = None \<longrightarrow> st' = st"
  moreover have "st' = st" if "require_unrestricted CapIngest (sv_auth env) tok = Inl g" for g
    using assms(1) that by (simp add: ingest_handle_def)
  ultimately show ?thesis
    by (intro exI [of _ rows] exI [of _ qs]) (auto simp: account_handle_def list_all_iff split: sum.splits)
qed

theorem ingest_writes_own_handle_witness:
  "\<exists>out st'. ingest_handle sample_server (Some ''tok'') sample_upload empty_server = (out, st') \<and>
     (\<exists>rows. event_table (sv_tables st') = rows \<and> list_all (\<lambda>r. stored_handle r = ''me'') rows)"
proof -
  obtain out st' where run: "ingest_handle sample_server (Some ''tok'') sample_upload empty_server = (out, st')" by fastforce
  have user: "require_unrestricted CapIngest (sv_auth sample_server) (Some ''tok'') =
      Inr \<lparr>sub = ''u1'', preferred_username = ''Me'', user_token_type = DeviceToken, user_device = Some ''d1''\<rparr>"
    "str_to_lowercase (sv_unicode sample_server) ''Me'' = ''me''"
    by code_simp+
  from ingest_writes_own_handle [OF run sample_folds] user run show ?thesis by (auto simp: empty_server_def empty_tables_def)
qed

text \<open>Nothing in an accepted batch goes missing: the counts of an answer add up to the batch, and when no write fails every event of it is afterwards stored
  under its key, or as the same content, or stands in quarantine if it is invalid.\<close>

theorem ingest_accounts_for_events:
  assumes "ingest_handle env tok b st = (out, st')" "http_json out = Some r" "folds_case (str_to_lowercase (sv_unicode env))"
    and "ids_drawn env st" "\<forall>evs. \<not> insert_fails env evs" "\<forall>q. \<not> quarantine_fails env q"
  shows "accepted r + duplicate r + rejected r = of_nat (length (batch_events b)) \<and>
    (\<forall>e\<in>set (batch_events b). server_holds env (account_handle env tok) (sv_tables st') e)"
  using ingest_accounts [OF assms(1-3)] assms(4-6) by blast

theorem ingest_accounts_for_events_witness:
  "\<exists>out r st'. ingest_handle sample_server (Some ''tok'') sample_upload empty_server = (out, st') \<and> http_json out = Some r \<and>
     accepted r + duplicate r + rejected r = 3 \<and> (\<forall>e\<in>set (batch_events sample_upload). server_holds sample_server ''me'' (sv_tables st') e)"
proof -
  obtain out st' where run: "ingest_handle sample_server (Some ''tok'') sample_upload empty_server = (out, st')" by fastforce
  obtain r where r: "http_json out = Some r" using sample_upload_accepted run by auto
  have "account_handle sample_server (Some ''tok'') = ''me''" "length (batch_events sample_upload) = 3" by code_simp+
  then show ?thesis
    using ingest_accounts_for_events [OF run r sample_folds sample_ids] run r sample_sound
    by (intro exI [of _ out] exI [of _ r] exI [of _ st']) (simp add: sound_server_def)
qed





text \<open>C36. A failed insert loses events: when the database refuses a batch, the server still answers 200 with the events counted as rejected, and the client marks
  every one of them as sent although neither the events nor the quarantine table has changed.\<close>

theorem failed_insert_loses_events:
  assumes "require_unrestricted CapIngest (sv_auth env) tok = Inr user" "eq_ignore_ascii_case hdl (preferred_username user)" "trim hdl \<noteq> []"
    and "enforce_device_sync_gate env user = None" "\<forall>evs. insert_fails env evs"
    and "map (build_envelope benv) part = map Done envs" "\<forall>e\<in>set envs. valid_event (stamp_missing (str_to_lowercase (sv_unicode env) hdl) e)"
  shows "\<exists>tot' st'. drain_step benv (ingest_handle env tok) now hdl pv part rest tot st = Done (Continue rest tot' st') \<and>
    ls_events (ss_store st') = ls_events (mark_sent now (map unsent_id part) (ss_store st)) \<and>
    event_table (sv_tables (ss_server st')) = event_table (sv_tables (ss_server st)) \<and>
    quarantine_table (sv_tables (ss_server st')) = quarantine_table (sv_tables (ss_server st))"
proof -
  let ?h = "str_to_lowercase (sv_unicode env) hdl" and ?sq = "peek_next_batch_sequence (ss_store st)"
  obtain b where b: "build_batch benv hdl part pv (Some ?sq) = Done b" "batch_events b = envs" "batch_handle b = hdl"
      "schema_version b = CURRENT_SCHEMA_VERSION"
    by (rule build_batch_done [OF assms(6)])
  obtain out srv where run: "ingest_handle env tok b (ss_server st) = (out, srv)" by fastforce
  have rs: "restamp env user b = (b, None)" using assms(2) b(3) by (simp add: restamp_def)
  have "\<not> (schema_version b < 1 \<or> schema_version b > CURRENT_SCHEMA_VERSION)" by (simp add: b(4) CURRENT_SCHEMA_VERSION_def)
  then have pb: "process_batch env user b None (ss_server st) = (out, srv)"
    using run unfolding ingest_handle_def assms(1) by (simp add: rs b(3) assms(2-4) del: word_less_1)
  obtain ins rv st1 where val: "validate_batch env ?h (map (stamp_missing ?h) envs) (ss_server st) = ((ins, rv), st1)"
    by (cases "validate_batch env ?h (map (stamp_missing ?h) envs) (ss_server st)") auto
  have "sv_tables st1 = sv_tables (ss_server st)" by (rule validate_batch_again [OF val]) (use assms(7) in auto)
  moreover have "snd (insert_batch (sv_store env) (sv_now env) (insert_fails env) ins (sv_tables st1)) = sv_tables st1"
    using assms(5) by (simp add: insert_batch_def)
  ultimately have tabs: "sv_tables (snd (store_batch env ?h envs (ss_server st))) = sv_tables (ss_server st)"
    using val by (auto simp: store_batch_def split: prod.splits option.splits)
  obtain r where same: "event_table (sv_tables srv) = event_table (sv_tables (ss_server st))"
      "quarantine_table (sv_tables srv) = quarantine_table (sv_tables (ss_server st))" "out = Http 200 (response_body env r) (Some r)"
    by (rule process_batch_effect [OF pb]) (use tabs in \<open>simp add: b(2,3)\<close>)
  then have ok: "classify_response out = SendOk r" by (simp add: classify_response_def)
  obtain tot' st' where del: "batch_delivered now ?sq part r tot (st\<lparr>ss_server := srv\<rparr>) = (tot', st')"
    by (cases "batch_delivered now ?sq part r tot (st\<lparr>ss_server := srv\<rparr>)")
  then have "drain_step benv (ingest_handle env tok) now hdl pv part rest tot st = Done (Continue rest tot' st')"
    using b(1) run ok by (simp add: drain_step_def try_send_batch_def)
  then show ?thesis using batch_delivered_store [OF del] same by auto
qed

theorem failed_insert_loses_events_witness:
  "\<exists>tot' st'. drain_step sample_batch_env (ingest_handle (sample_server\<lparr>insert_fails := (\<lambda>_. True)\<rparr>) (Some ''tok'')) ''now'' ''me'' None
       (map map_unsent_row (ls_events sample_store)) [] no_totals (sample_state empty_server) = Done (Continue [] tot' st') \<and>
     ls_events (ss_store st') = ls_events (mark_sent ''now'' (map row_id (ls_events sample_store)) sample_store) \<and>
     event_table (sv_tables (ss_server st')) = []"
proof -
  let ?env = "sample_server\<lparr>insert_fails := (\<lambda>_. True)\<rparr>"
  let ?user = "\<lparr>sub = ''u1'', preferred_username = ''Me'', user_token_type = DeviceToken, user_device = Some ''d1''\<rparr>"
  have gates: "require_unrestricted CapIngest (sv_auth ?env) (Some ''tok'') = Inr ?user" "eq_ignore_ascii_case ''me'' (preferred_username ?user)"
      "trim ''me'' \<noteq> []" "enforce_device_sync_gate ?env ?user = None"
    by code_simp+
  obtain envs where built: "map (build_envelope sample_batch_env) (map map_unsent_row (ls_events sample_store)) = map Done envs"
    using sample_builds built_envelopes [of "map map_unsent_row (ls_events sample_store)" sample_batch_env] by auto
  have "str_to_lowercase (sv_unicode ?env) ''me'' = ''me''" by code_simp
  moreover have "\<exists>x. build_envelope sample_batch_env x = Done e" if "e \<in> set envs" for e
  proof -
    from that have "Done e \<in> set (map (build_envelope sample_batch_env) (map map_unsent_row (ls_events sample_store)))" unfolding built by simp
    then show ?thesis by auto
  qed
  ultimately have fails: "\<forall>evs. insert_fails ?env evs" "\<forall>e\<in>set envs. valid_event (stamp_missing (str_to_lowercase (sv_unicode ?env) ''me'') e)"
    using sample_built_valid by auto
  have start: "ss_store (sample_state empty_server) = sample_store" "event_table (sv_tables (ss_server (sample_state empty_server))) = []"
      "map unsent_id (map map_unsent_row (ls_events sample_store)) = map row_id (ls_events sample_store)"
    by (simp_all add: sample_state_def empty_server_def empty_tables_def map_unsent_row_def)
  from failed_insert_loses_events [OF gates fails(1) built fails(2), of "''now''" None "[]" no_totals "sample_state empty_server"]
  show ?thesis unfolding start by blast
qed

text \<open>C37. A restriction on uploads unpairs the device: the server answers a restricted account with 403, the client takes this for a lost pairing and forgets its token
  and its handle, so uploads do not come back when the restriction ends.\<close>

theorem restricted_account_unpairs:
  assumes "require_unrestricted CapIngest (sv_auth env) tok = Inl (Denied cap why)" "\<not> contains_str (guard_body env (Denied cap why)) ''device_sync_disabled''"
    and "\<forall>e\<in>set part. build_envelope benv e \<noteq> Panics"
  shows "\<exists>st'. drain_step benv (ingest_handle env tok) now hdl pv part rest tot st = Done (Stop (AuthLost 403) st') \<and>
    ss_token st' = None \<and> ss_handle st' = None \<and> ss_auth_lost st' \<and> ss_store st' = ss_store st \<and> ss_server st' = ss_server st"
proof -
  obtain envs where "map (build_envelope benv) part = map Done envs" by (rule built_envelopes [OF assms(3)])
  then obtain b where b: "build_batch benv hdl part pv (Some (peek_next_batch_sequence (ss_store st))) = Done b" by (rule build_batch_done)
  have "ingest_handle env tok b (ss_server st) = (Http 403 (guard_body env (Denied cap why)) None, ss_server st)"
    using assms(1) by (simp add: ingest_handle_def guard_status_def)
  then show ?thesis using b assms(2)
    by (simp add: drain_step_def try_send_batch_def classify_response_def is_sync_disabled_rejection_def lose_auth_def clear_persisted_device_token_def)
qed

theorem restricted_account_unpairs_witness:
  "\<exists>st'. drain_step sample_batch_env
       (ingest_handle (sample_server\<lparr>sv_auth := sample_auth\<lparr>restriction_store := Some (\<lambda>_. Some (Some \<lparr>ingest_blocked = True, sharing_blocked = False,
          public_profile_blocked = False, submissions_blocked = False, chat_blocked = False, restriction_reason = ''spam'', restricted_by = ''mod'',
          restricted_at = 0, expires_at = Some 10\<rparr>))\<rparr>\<rparr>) (Some ''tok'')) ''now'' ''me'' None
       (map map_unsent_row (ls_events sample_store)) [] no_totals (sample_state empty_server) = Done (Stop (AuthLost 403) st') \<and> ss_token st' = None"
proof -
  let ?env = "sample_server\<lparr>sv_auth := sample_auth\<lparr>restriction_store := Some (\<lambda>_. Some (Some \<lparr>ingest_blocked = True, sharing_blocked = False,
      public_profile_blocked = False, submissions_blocked = False, chat_blocked = False, restriction_reason = ''spam'', restricted_by = ''mod'',
      restricted_at = 0, expires_at = Some 10\<rparr>))\<rparr>\<rparr>"
  have "require_unrestricted CapIngest (sv_auth ?env) (Some ''tok'') = Inl (Denied CapIngest ''spam'')"
      "\<not> contains_str (guard_body ?env (Denied CapIngest ''spam'')) ''device_sync_disabled''"
    by code_simp+
  moreover have "\<forall>e\<in>set (map map_unsent_row (ls_events sample_store)). build_envelope sample_batch_env e \<noteq> Panics" using sample_builds by simp
  ultimately show ?thesis by (meson restricted_account_unpairs)
qed

text \<open>Turning sync off for a device only pauses it: while the server has sync disabled for the device, or does not know it, a drain stops, no row is marked,
  the server is unchanged, and the client keeps its token and handle.\<close>

theorem sync_disabled_keeps_pairing:
  assumes "require_unrestricted CapIngest (sv_auth env) tok = Inr user" "user_token_type user = DeviceToken" "user_device user = Some dev"
    and "parse_uuid (sv_auth env) (sub user) = Some uid" "sync_enabled_for env uid dev = Some None \<or> sync_enabled_for env uid dev = Some (Some False)"
    and "eq_ignore_ascii_case hdl (preferred_username user)" "trim hdl \<noteq> []" "\<forall>code d. contains_str (api_error_body env code d) code"
    and "\<forall>e\<in>set part. build_envelope benv e \<noteq> Panics"
  shows "drain_step benv (ingest_handle env tok) now hdl pv part rest tot st = Done (Stop SyncDisabled st)"
proof -
  obtain envs where "map (build_envelope benv) part = map Done envs" by (rule built_envelopes [OF assms(9)])
  then obtain b where b: "build_batch benv hdl part pv (Some (peek_next_batch_sequence (ss_store st))) = Done b" "batch_handle b = hdl"
      "schema_version b = CURRENT_SCHEMA_VERSION"
    by (rule build_batch_done)
  have gate: "enforce_device_sync_gate env user = Some (reject_sync env sync_disabled_detail)"
    using assms(2-5) by (auto simp: enforce_device_sync_gate_def)
  have rs: "restamp env user b = (b, None)" using assms(6) b(2) by (simp add: restamp_def)
  have "\<not> (schema_version b < 1 \<or> schema_version b > CURRENT_SCHEMA_VERSION)" by (simp add: b(3) CURRENT_SCHEMA_VERSION_def)
  then have "ingest_handle env tok b (ss_server st) = (reject_sync env sync_disabled_detail, ss_server st)"
    unfolding ingest_handle_def assms(1) by (simp add: rs b(2) assms(6,7) gate del: word_less_1)
  then show ?thesis using b(1) assms(8)
    by (simp add: drain_step_def try_send_batch_def classify_response_def reject_sync_def is_sync_disabled_rejection_def)
qed

theorem sync_disabled_keeps_pairing_witness:
  "drain_step sample_batch_env (ingest_handle (sample_server\<lparr>sync_enabled_for := (\<lambda>_ _. Some (Some False))\<rparr>) (Some ''tok'')) ''now'' ''me'' None
     (map map_unsent_row (ls_events sample_store)) [] no_totals (sample_state empty_server) = Done (Stop SyncDisabled (sample_state empty_server))"
proof -
  let ?env = "sample_server\<lparr>sync_enabled_for := (\<lambda>_ _. Some (Some False))\<rparr>"
  let ?user = "\<lparr>sub = ''u1'', preferred_username = ''Me'', user_token_type = DeviceToken, user_device = Some ''d1''\<rparr>"
  have gates: "require_unrestricted CapIngest (sv_auth ?env) (Some ''tok'') = Inr ?user" "parse_uuid (sv_auth ?env) (sub ?user) = Some ''u1''"
      "eq_ignore_ascii_case ''me'' (preferred_username ?user)" "trim ''me'' \<noteq> []"
    by code_simp+
  have "contains_str code code" for code by (simp add: contains_str_def)
  then have "\<forall>code d. contains_str (api_error_body ?env code d) code" by (simp add: sample_server_def)
  then show ?thesis
    using sync_disabled_keeps_pairing [OF gates(1) _ _ gates(2) _ gates(3,4), of "''d1''" "map map_unsent_row (ls_events sample_store)" sample_batch_env]
      sample_builds by simp
qed

end
