(* ===== verification/Session_Rollup.thy ===== *)
theory Session_Rollup
  imports Server_Store
begin

text \<open>
  The session rollup of the server (\<open>crates/starstats-server/src/repo.rs\<close>): play sessions split at idle gaps, the incremental rebuild of
  \<open>session_summary\<close> from the earliest pending event (\<open>session_rebuild_window\<close>, \<open>rebuild_handle_session_stats\<close>), and the retention purge of
  \<open>retention.rs\<close> that invalidates it.  A handle is given in its stored, lower-case form.  Instants are those of \<open>TIMESTAMPTZ\<close>, in microseconds.

  A rebuild is a transaction of several statements under a lock for its handle, while uploads go on: it captures the rollup state, later recomputes the rows, and
  later still commits them and clears the dirty flag if the state was not touched since.  These are three steps, with any number of uploads between them.

  The lemmas show that the window is wide enough: whenever a handle is not dirty, its rows are those of a full recomputation over all its events.
\<close>

section \<open>Sessions\<close>

definition SESSION_IDLE_GAP_MINUTES :: int where
  "SESSION_IDLE_GAP_MINUTES = 30"

definition SESSION_ROLLUP_MIN_INTERVAL_SECS :: int where
  "SESSION_ROLLUP_MIN_INTERVAL_SECS = 60"

definition idle_gap :: int where
  "idle_gap = SESSION_IDLE_GAP_MINUTES * 60 * 1000000"

definition NON_SESSION_EVENT_TYPES :: "string list" where
  "NON_SESSION_EVENT_TYPES = [''launcher_activity'', ''game_crash'']"

record session_row =
  session_id :: nat
  session_started :: int
  session_ended :: int
  session_event_count :: nat
  session_death_count :: nat

record session_rebuild_window =
  window_from :: int
  discard_ending_at_or_after :: int

definition session_rebuild_window_of :: "int \<Rightarrow> int \<Rightarrow> (int \<times> int) list \<Rightarrow> session_rebuild_window" where
  "session_rebuild_window_of dirty_from gap bounds =
     (let cutoff = dirty_from - gap;
          suspects = map fst (filter (\<lambda>(started, ended). cutoff \<le> ended) bounds)
      in \<lparr>window_from = min (if suspects = [] then dirty_from else foldl min (hd suspects) (tl suspects)) dirty_from,
          discard_ending_at_or_after = cutoff\<rparr>)"

definition should_rebuild_session_stats :: "bool \<Rightarrow> int option \<Rightarrow> int \<Rightarrow> bool" where
  "should_rebuild_session_stats dirty built now =
     (if \<not> dirty then False
      else case built of None \<Rightarrow> True | Some b \<Rightarrow> SESSION_ROLLUP_MIN_INTERVAL_SECS * 1000000 \<le> now - b)"

text \<open>The events a session is made of: their times, and which of them are deaths.\<close>

definition session_points :: "string \<Rightarrow> stored_event list \<Rightarrow> (int \<times> bool) list" where
  "session_points h rows =
     map (\<lambda>e. (the (stored_at e), stored_type e = ''player_death''))
       (filter (\<lambda>e. stored_handle e = h \<and> stored_at e \<noteq> None \<and> \<not> List.member NON_SESSION_EVENT_TYPES (stored_type e)) rows)"

text \<open>\<open>LAG\<close> and the running \<open>SUM\<close>: a new ordinal at the first event and after every gap.\<close>

fun label_sessions :: "int \<Rightarrow> int option \<Rightarrow> nat \<Rightarrow> (int \<times> bool) list \<Rightarrow> (nat \<times> int \<times> bool) list" where
  "label_sessions gap prev k [] = []"
| "label_sessions gap prev k (x # xs) =
     (let k' = (case prev of None \<Rightarrow> k + 1 | Some p \<Rightarrow> if gap < fst x - p then k + 1 else k)
      in (k', x) # label_sessions gap (Some (fst x)) k' xs)"

definition session_of_group :: "nat \<Rightarrow> (int \<times> bool) list \<Rightarrow> session_row" where
  "session_of_group i grp =
     \<lparr>session_id = i, session_started = Min (set (map fst grp)), session_ended = Max (set (map fst grp)),
      session_event_count = length grp, session_death_count = length (filter snd grp)\<rparr>"

definition sessionise :: "int \<Rightarrow> nat \<Rightarrow> (int \<times> bool) list \<Rightarrow> session_row list" where
  "sessionise gap offset pts =
     (let labeled = label_sessions gap None 0 (sort_key fst pts)
      in map (\<lambda>k. session_of_group (k + offset) (map snd (filter (\<lambda>p. fst p = k) labeled))) (remdups (map fst labeled)))"

section \<open>Rebuilding\<close>

record session_rebuild =
  captured_updated_at :: "int option"
  rebuild_window :: "session_rebuild_window option"
  recomputed :: "session_row list option"

record rollup_db =
  db_tables :: ingest_tables
  session_summary :: "(string, session_row list) hmap"
  rebuilding :: "(string, session_rebuild) hmap"

definition summary_of :: "rollup_db \<Rightarrow> string \<Rightarrow> session_row list" where
  "summary_of db h = (case map_of (session_summary db) h of None \<Rightarrow> [] | Some rows \<Rightarrow> rows)"

text \<open>The lock admits one rebuild for a handle at a time; a handle that is not dirty any more is left alone.\<close>

definition rebuild_begin :: "string \<Rightarrow> rollup_db \<Rightarrow> rollup_db" where
  "rebuild_begin h db =
     (if map_of (rebuilding db) h \<noteq> None then db
      else
        let (still_dirty, captured, dirty_from) =
              (case map_of (stat_rollup_state (db_tables db)) h of
                 Some s \<Rightarrow> (sessions_dirty s, Some (state_updated_at s), sessions_dirty_from_ts s)
               | None \<Rightarrow> (True, None, None))
        in if \<not> still_dirty then db
           else
             let w = map_option (\<lambda>d. session_rebuild_window_of d idle_gap (map (\<lambda>r. (session_started r, session_ended r)) (summary_of db h))) dirty_from
             in db\<lparr>rebuilding := hmap_insert h \<lparr>captured_updated_at = captured, rebuild_window = w, recomputed = None\<rparr> (rebuilding db)\<rparr>)"

text \<open>Discard the suspect rows, continue their numbers, and sessionise the events from the head of the window on.\<close>

definition rebuilt_rows :: "session_rebuild_window option \<Rightarrow> session_row list \<Rightarrow> (int \<times> bool) list \<Rightarrow> session_row list" where
  "rebuilt_rows w rows pts =
     (let kept = (case w of None \<Rightarrow> [] | Some win \<Rightarrow> filter (\<lambda>r. \<not> discard_ending_at_or_after win \<le> session_ended r) rows);
          offset = foldl max 0 (map session_id kept);
          fresh = (case w of None \<Rightarrow> pts | Some win \<Rightarrow> filter (\<lambda>p. window_from win \<le> fst p) pts)
      in kept @ sessionise idle_gap offset fresh)"

definition rebuild_compute :: "string \<Rightarrow> rollup_db \<Rightarrow> rollup_db" where
  "rebuild_compute h db =
     (case map_of (rebuilding db) h of
        None \<Rightarrow> db
      | Some rb \<Rightarrow>
          if recomputed rb \<noteq> None then db
          else db\<lparr>rebuilding := hmap_insert h
                 (rb\<lparr>recomputed := Some (rebuilt_rows (rebuild_window rb) (summary_of db h) (session_points h (event_table (db_tables db))))\<rparr>)
                 (rebuilding db)\<rparr>)"

definition clear_dirty :: "string \<Rightarrow> int \<Rightarrow> int option \<Rightarrow> (string, rollup_state) hmap \<Rightarrow> (string, rollup_state) hmap" where
  "clear_dirty h now captured m =
     (case map_of m h of
        None \<Rightarrow>
          hmap_insert h \<lparr>sessions_dirty = False, contracts_dirty = True, sessions_dirty_from_ts = None, rebuilt_at = Some now, state_updated_at = now\<rparr> m
      | Some s \<Rightarrow>
          if captured = Some (state_updated_at s)
          then hmap_insert h (s\<lparr>sessions_dirty := False, sessions_dirty_from_ts := None, rebuilt_at := Some now, state_updated_at := now\<rparr>) m
          else m)"

definition rebuild_commit :: "string \<Rightarrow> int \<Rightarrow> rollup_db \<Rightarrow> rollup_db" where
  "rebuild_commit h now db =
     (case map_of (rebuilding db) h of
        None \<Rightarrow> db
      | Some rb \<Rightarrow>
          (case recomputed rb of
             None \<Rightarrow> db
           | Some rows \<Rightarrow>
               db\<lparr>session_summary := hmap_insert h rows (session_summary db), rebuilding := hmap_remove h (rebuilding db),
                  db_tables := (db_tables db)\<lparr>stat_rollup_state := clear_dirty h now (captured_updated_at rb) (stat_rollup_state (db_tables db))\<rparr>\<rparr>))"

text \<open>A failed statement rolls the transaction back.\<close>

definition rebuild_abort :: "string \<Rightarrow> rollup_db \<Rightarrow> rollup_db" where
  "rebuild_abort h db = db\<lparr>rebuilding := hmap_remove h (rebuilding db)\<rparr>"

definition rebuild_handle_session_stats :: "string \<Rightarrow> int \<Rightarrow> rollup_db \<Rightarrow> rollup_db" where
  "rebuild_handle_session_stats h now db = rebuild_commit h now (rebuild_compute h (rebuild_begin h db))"

definition ensure_session_stats_fresh :: "string \<Rightarrow> int \<Rightarrow> rollup_db \<Rightarrow> rollup_db" where
  "ensure_session_stats_fresh h now db =
     (let (dirty, built) = (case map_of (stat_rollup_state (db_tables db)) h of Some s \<Rightarrow> (sessions_dirty s, rebuilt_at s) | None \<Rightarrow> (True, None))
      in if should_rebuild_session_stats dirty built now then rebuild_handle_session_stats h now db else db)"

section \<open>Retention\<close>

text \<open>The purge of one user's events: batches of the oldest rows among those received before the cutoff (\<open>expired\<close>), until a batch is empty or their number
  reaches the cap.  Rows stand in the order of their receipt.\<close>

definition DELETE_BATCH_SIZE :: nat where
  "DELETE_BATCH_SIZE = 1000"

definition PER_USER_BATCH_CAP :: nat where
  "PER_USER_BATCH_CAP = 100"

fun purge_loop :: "nat \<Rightarrow> nat \<Rightarrow> nat \<Rightarrow> nat \<times> bool" where
  "purge_loop 0 batch n = (0, True)"
| "purge_loop (Suc k) batch n =
     (let deleted = min batch n
      in if deleted = 0 then (0, False)
         else case purge_loop k batch (n - deleted) of (gone, hit_cap) \<Rightarrow> (deleted + gone, hit_cap))"

fun remove_first :: "nat \<Rightarrow> ('a \<Rightarrow> bool) \<Rightarrow> 'a list \<Rightarrow> 'a list" where
  "remove_first k P [] = []"
| "remove_first k P (x # xs) = (if P x \<and> 0 < k then remove_first (k - 1) P xs else x # remove_first k P xs)"

definition purge_user_events :: "string \<Rightarrow> (stored_event \<Rightarrow> bool) \<Rightarrow> int \<Rightarrow> ingest_tables \<Rightarrow> (nat \<times> bool) \<times> ingest_tables" where
  "purge_user_events h expired now t =
     (let old = (\<lambda>e. stored_handle e = h \<and> expired e);
          (gone, hit_cap) = purge_loop PER_USER_BATCH_CAP DELETE_BATCH_SIZE (length (filter old (event_table t)));
          left = remove_first gone old (event_table t);
          mine = filter (\<lambda>e. stored_handle e = h) left
      in if gone = 0 then ((gone, hit_cap), t)
         else
           ((gone, hit_cap),
            t\<lparr>event_table := left,
              stat_event_counts := map (\<lambda>g. (g, aggregate (filter (\<lambda>e. row_group e = g) mine))) (remdups (map row_group mine)) @
                                   filter (\<lambda>(g, c). fst g \<noteq> h) (stat_event_counts t),
              stat_rollup_state :=
                hmap_insert h
                  (case map_of (stat_rollup_state t) h of
                     None \<Rightarrow> \<lparr>sessions_dirty = True, contracts_dirty = True, sessions_dirty_from_ts = None, rebuilt_at = None, state_updated_at = now\<rparr>
                   | Some s \<Rightarrow> s\<lparr>sessions_dirty := True, contracts_dirty := True, state_updated_at := now\<rparr>)
                  (stat_rollup_state t)\<rparr>))"

section \<open>Runs\<close>

text \<open>The reference: a session is a maximal run of events without a gap.\<close>

fun runs :: "int \<Rightarrow> (int \<times> bool) list \<Rightarrow> (int \<times> bool) list list" where
  "runs gap [] = []"
| "runs gap (x # xs) =
     (case runs gap xs of
        [] \<Rightarrow> [[x]]
      | r # rs \<Rightarrow> if gap < fst (hd r) - fst x then [x] # r # rs else (x # r) # rs)"

fun number :: "nat \<Rightarrow> 'a list list \<Rightarrow> (nat \<times> 'a) list" where
  "number k [] = []"
| "number k (r # rs) = map (Pair (Suc k)) r @ number (Suc k) rs"

lemma runs_nonempty: "[] \<notin> set (runs gap xs)"
  by (induction xs) (auto split: list.splits)

lemma concat_runs: "concat (runs gap xs) = xs"
  by (induction xs) (auto split: list.splits)

lemma runs_eq_Nil [simp]: "runs gap xs = [] \<longleftrightarrow> xs = []"
  by (metis concat.simps(1) concat_runs runs.simps(1))

lemma hd_concat: "rs \<noteq> [] \<Longrightarrow> [] \<notin> set rs \<Longrightarrow> hd (concat rs) = hd (hd rs)"
  by (cases rs) (auto simp: hd_append)

lemma last_concat_nonempty: "rs \<noteq> [] \<Longrightarrow> [] \<notin> set rs \<Longrightarrow> last (concat rs) = last (last rs)"
  by (cases rs rule: rev_cases) auto

lemma hd_runs: "xs \<noteq> [] \<Longrightarrow> hd (hd (runs gap xs)) = hd xs"
  by (metis concat_runs hd_concat runs_eq_Nil runs_nonempty)

lemma label_after: "label_sessions gap (Some p) (Suc k) xs =
    (if xs = [] then [] else label_sessions gap None (if gap < fst (hd xs) - p then Suc k else k) xs)"
  by (cases xs) simp_all

lemma label_runs: "label_sessions gap None k xs = number k (runs gap xs)"
proof (induction xs arbitrary: k)
  case (Cons x xs)
  show ?case
  proof (cases "runs gap xs")
    case Nil
    then show ?thesis by simp
  next
    case (Cons r rs)
    then have "xs \<noteq> []" "hd xs = hd r" using hd_runs [of xs gap] by (force, metis list.sel(1) runs_eq_Nil list.distinct(1))
    then show ?thesis using Cons \<open>\<And>k. label_sessions gap None k xs = number k (runs gap xs)\<close> by (simp add: label_after)
  qed
qed simp

lemma number_above: "p \<in> set (number k rs) \<Longrightarrow> k < fst p"
  by (induction k rs rule: number.induct) (auto intro: Suc_lessD)

text \<open>Grouping by ordinal gives the runs back.\<close>

lemma number_groups:
  "[] \<notin> set rs \<Longrightarrow> map (\<lambda>j. f j (map snd (filter (\<lambda>p. fst p = j) (number k rs)))) (remdups (map fst (number k rs))) =
     map2 f [Suc k..<Suc k + length rs] rs"
proof (induction rs arbitrary: k)
  case (Cons r rs)
  have above: "\<forall>p\<in>set (number (Suc k) rs). fst p \<noteq> Suc k" using number_above by fastforce
  have r: "r \<noteq> []" using Cons.prems by auto
  have keys: "remdups (map fst (number k (r # rs))) = Suc k # remdups (map fst (number (Suc k) rs))"
  proof -
    have "remdups (map fst (map (Pair (Suc k)) r) @ ys) = Suc k # remdups ys" if "Suc k \<notin> set ys" for ys
      using r
    proof (induction r)
      case (Cons x r)
      then show ?case using that by (cases r) (auto simp: comp_def)
    qed simp
    moreover have "Suc k \<notin> set (map fst (number (Suc k) rs))" using above by auto
    ultimately show ?thesis by simp
  qed
  have head: "map snd (filter (\<lambda>p. fst p = Suc k) (number k (r # rs))) = r"
    using above by (simp add: filter_empty_conv filter_map comp_def)
  have tail: "map snd (filter (\<lambda>p. fst p = j) (number k (r # rs))) = map snd (filter (\<lambda>p. fst p = j) (number (Suc k) rs))"
    if "j \<in> set (remdups (map fst (number (Suc k) rs)))" for j
    using that above by (auto simp: filter_map comp_def)
  have upt: "[Suc k..<Suc k + length (r # rs)] = Suc k # [Suc (Suc k)..<Suc (Suc k) + length rs]" by (simp add: upt_conv_Cons del: upt_Suc)
  have "map (\<lambda>j. f j (map snd (filter (\<lambda>p. fst p = j) (number k (r # rs))))) (remdups (map fst (number (Suc k) rs))) =
      map (\<lambda>j. f j (map snd (filter (\<lambda>p. fst p = j) (number (Suc k) rs)))) (remdups (map fst (number (Suc k) rs)))"
    by (rule map_cong [OF refl]) (simp only: tail)
  also have "\<dots> = map2 f [Suc (Suc k)..<Suc (Suc k) + length rs] rs" using Cons.IH [of "Suc k"] Cons.prems by simp
  finally show ?case unfolding keys upt list.map head by simp
qed simp

lemma sessionise_runs:
  "sessionise gap offset pts =
     map2 (\<lambda>k. session_of_group (k + offset)) [1..<Suc (length (runs gap (sort_key fst pts)))] (runs gap (sort_key fst pts))"
  using number_groups [OF runs_nonempty, of "\<lambda>k. session_of_group (k + offset)" 0]
  by (simp add: sessionise_def label_runs)

text \<open>Runs of a sorted list.\<close>

lemma runs_append:
  assumes "xs \<noteq> []" "ys \<noteq> []" "gap < fst (hd ys) - fst (last xs)"
  shows "runs gap (xs @ ys) = runs gap xs @ runs gap ys"
  using assms
proof (induction xs)
  case (Cons x xs)
  show ?case
  proof (cases "xs = []")
    case True
    obtain r rs where "runs gap ys = r # rs" "hd r = hd ys" using Cons.prems(2) hd_runs [of ys gap] by (cases "runs gap ys") auto
    then show ?thesis using True Cons.prems(3) by simp
  next
    case False
    then have "runs gap (xs @ ys) = runs gap xs @ runs gap ys" using Cons by simp
    moreover obtain r rs where "runs gap xs = r # rs" using False by (cases "runs gap xs") auto
    ultimately show ?thesis by simp
  qed
qed simp

lemma runs_split:
  "runs gap xs = ks @ rs \<Longrightarrow> runs gap (concat ks) = ks \<and> runs gap (concat rs) = rs \<and>
     (ks \<noteq> [] \<longrightarrow> rs \<noteq> [] \<longrightarrow> gap < fst (hd (concat rs)) - fst (last (concat ks)))"
proof (induction xs arbitrary: ks)
  case (Cons x xs)
  show ?case
  proof (cases ks)
    case Nil
    then show ?thesis using Cons.prems concat_runs [of gap "x # xs"] by simp
  next
    case k: (Cons k ks')
    obtain r rs' where run: "runs gap xs = r # rs' \<or> xs = []" by (cases "runs gap xs") auto
    show ?thesis
    proof (cases "xs = []")
      case True
      then show ?thesis using Cons.prems k by auto
    next
      case False
      then have run: "runs gap xs = r # rs'" using run by simp
      have ne: "r \<noteq> []" "[] \<notin> set rs'" using runs_nonempty [of gap xs] run by auto
      show ?thesis
      proof (cases "gap < fst (hd r) - fst x")
        case True
        then have "k = [x]" "ks' @ rs = runs gap xs" using Cons.prems k run by auto
        note IH = Cons.IH [OF this(2) [symmetric]]
        have "runs gap (x # concat ks') = [x] # ks'"
        proof (cases "ks' = []")
          case ks: False
          then have "hd (concat ks') = hd r" using \<open>ks' @ rs = runs gap xs\<close> run ne hd_concat [of ks'] by (cases ks') auto
          moreover obtain q qs where "ks' = q # qs" using ks by (cases ks') auto
          ultimately show ?thesis using IH True ne \<open>ks' @ rs = runs gap xs\<close> run by (cases "concat ks'") auto
        qed simp
        moreover have "gap < fst (hd (concat rs)) - fst (last (x # concat ks'))" if "rs \<noteq> []"
        proof (cases "ks' = []")
          case True
          then have "rs = r # rs'" using \<open>ks' @ rs = runs gap xs\<close> run by simp
          then show ?thesis using \<open>gap < fst (hd r) - fst x\<close> True ne by (simp add: hd_append)
        next
          case False
          then have "concat ks' \<noteq> []" using \<open>ks' @ rs = runs gap xs\<close> runs_nonempty [of gap xs] by (metis Un_iff concat_eq_Nil_conv last_in_set set_append)
          then show ?thesis using IH False that by auto
        qed
        ultimately show ?thesis using IH \<open>k = [x]\<close> k by simp
      next
        case False
        then have k': "k = x # r" "ks' @ rs = rs'" using Cons.prems k run by auto
        note IH = Cons.IH [of "r # ks'"]
        have "runs gap (concat (r # ks')) = r # ks'" "runs gap (concat rs) = rs"
          "rs \<noteq> [] \<longrightarrow> gap < fst (hd (concat rs)) - fst (last (concat (r # ks')))"
          using IH run k'(2) by auto
        then show ?thesis using False ne k'(1) k by simp
      qed
    qed
  qed
qed simp

lemma sorted_hd_last: "sorted (map f xs) \<Longrightarrow> x \<in> set xs \<Longrightarrow> f (hd xs) \<le> f x \<and> f x \<le> f (last xs)"
proof (induction xs)
  case (Cons y ys)
  then show ?case by (cases "ys = []") (auto dest: last_in_set)
qed simp

lemma runs_sorted: "sorted (map fst xs) \<Longrightarrow> r \<in> set (runs gap xs) \<Longrightarrow> sorted (map fst r)"
proof -
  assume "r \<in> set (runs gap xs)" "sorted (map fst xs)"
  moreover from this(1) obtain ks rs where "runs gap xs = ks @ r # rs" by (metis split_list)
  moreover from this have "xs = concat ks @ r @ concat rs" using concat_runs [of gap xs] by simp
  ultimately show "sorted (map fst r)" by (simp add: sorted_append)
qed

lemma group_bounds:
  assumes "sorted (map fst r)" "r \<noteq> []"
  shows "session_started (session_of_group i r) = fst (hd r)" "session_ended (session_of_group i r) = fst (last r)"
proof -
  have "fst (hd r) \<in> fst ` set r" "fst (last r) \<in> fst ` set r" using assms(2) by auto
  then show "session_started (session_of_group i r) = fst (hd r)" "session_ended (session_of_group i r) = fst (last r)"
    using sorted_hd_last [OF assms(1)] by (auto simp: session_of_group_def intro!: Min_eqI Max_eqI)
qed

text \<open>Runs that end before a cutoff come first.\<close>

lemma runs_ends_increase:
  assumes "sorted (map fst xs)" "0 \<le> gap"
  shows "sorted_wrt (\<lambda>r q. fst (last r) < fst (hd q)) (runs gap xs)"
  using assms(1)
proof (induction "runs gap xs" arbitrary: xs)
  case (Cons r rs)
  note split = runs_split [of gap xs "[r]" rs] Cons.hyps(2) [symmetric]
  have xs: "xs = r @ concat rs" using concat_runs [of gap xs] split(2) by simp
  have ne: "r \<noteq> []" "[] \<notin> set rs" using runs_nonempty [of gap xs] split(2) by auto
  have "sorted_wrt (\<lambda>r q. fst (last r) < fst (hd q)) rs"
    using Cons.hyps(1) [of "concat rs"] split Cons.prems xs by (simp add: sorted_append)
  moreover have "fst (last r) < fst (hd q)" if "q \<in> set rs" for q
  proof -
    have "rs \<noteq> []" using that by auto
    then have "fst (last r) < fst (hd (concat rs))" using split assms(2) by simp
    also have "q \<noteq> []" using that ne(2) by metis
    then have "hd q \<in> set (concat rs)" using that hd_in_set by fastforce
    then have "fst (hd (concat rs)) \<le> fst (hd q)"
      using sorted_hd_last [of fst "concat rs"] Cons.prems xs by (simp add: sorted_append)
    finally show ?thesis .
  qed
  ultimately show ?case using split(2) by simp
qed simp

lemma filter_takeWhile:
  assumes "sorted_wrt (\<lambda>r q. P q \<longrightarrow> P r) xs"
  shows "filter P xs = takeWhile P xs" "filter (\<lambda>x. \<not> P x) xs = dropWhile P xs"
  using assms by (induction xs) (auto simp: filter_empty_conv filter_id_conv)

section \<open>The window\<close>

lemma foldl_min: "foldl min a xs \<in> set (a # xs)" "\<forall>x\<in>set (a # xs). foldl min a xs \<le> x" for a :: int
proof -
  have "foldl min a xs \<in> set (a # xs) \<and> (\<forall>x\<in>set (a # xs). foldl min a xs \<le> x)"
  proof (induction xs arbitrary: a)
    case (Cons x xs)
    have "foldl min (min a x) xs \<le> min a x" using Cons.IH [of "min a x"] by simp
    then show ?case using Cons.IH [of "min a x"] by (auto simp: min_def split: if_splits)
  qed simp
  then show "foldl min a xs \<in> set (a # xs)" "\<forall>x\<in>set (a # xs). foldl min a xs \<le> x" by blast+
qed

text \<open>The head of the window is the pending event or the start of a suspect session, and no later than either.\<close>

lemma window_head:
  fixes d gap :: int and bounds :: "(int \<times> int) list"
  defines "w \<equiv> session_rebuild_window_of d gap bounds"
  shows "window_from w \<le> d" "\<forall>(s, e)\<in>set bounds. d - gap \<le> e \<longrightarrow> window_from w \<le> s"
    "window_from w = d \<or> (\<exists>(s, e)\<in>set bounds. d - gap \<le> e \<and> window_from w = s)" "discard_ending_at_or_after w = d - gap"
proof -
  let ?sus = "map fst (filter (\<lambda>(started, ended). d - gap \<le> ended) bounds)"
  have w: "window_from w = min (if ?sus = [] then d else foldl min (hd ?sus) (tl ?sus)) d"
    by (simp add: w_def session_rebuild_window_of_def Let_def)
  show "window_from w \<le> d" by (simp add: w)
  have m: "foldl min (hd ?sus) (tl ?sus) \<in> set ?sus" "\<forall>x\<in>set ?sus. foldl min (hd ?sus) (tl ?sus) \<le> x" if "?sus \<noteq> []"
  proof -
    obtain a as where "?sus = a # as" using \<open>?sus \<noteq> []\<close> by (metis neq_Nil_conv)
    then show "foldl min (hd ?sus) (tl ?sus) \<in> set ?sus" "\<forall>x\<in>set ?sus. foldl min (hd ?sus) (tl ?sus) \<le> x"
      using foldl_min [of a as] by simp_all
  qed
  show "\<forall>(s, e)\<in>set bounds. d - gap \<le> e \<longrightarrow> window_from w \<le> s"
  proof clarify
    fix s e
    assume "(s, e) \<in> set bounds" "d - gap \<le> e"
    then have "s \<in> set ?sus" by force
    then show "window_from w \<le> s" using m(2) by (cases "?sus = []") (auto simp: w min.coboundedI1)
  qed
  show "window_from w = d \<or> (\<exists>(s, e)\<in>set bounds. d - gap \<le> e \<and> window_from w = s)"
  proof (cases "?sus = [] \<or> d \<le> foldl min (hd ?sus) (tl ?sus)")
    case True
    then show ?thesis by (auto simp: w)
  next
    case False
    then have "window_from w \<in> set ?sus" using m(1) by (simp add: w)
    then show ?thesis by auto
  qed
  show "discard_ending_at_or_after w = d - gap" by (simp add: w_def session_rebuild_window_of_def Let_def)
qed

lemma runs_kept:
  assumes F: "sorted (map fst F)" and gap: "0 \<le> gap"
  shows "runs gap F = filter (\<lambda>r. fst (last r) < c) (runs gap F) @ filter (\<lambda>r. \<not> fst (last r) < c) (runs gap F)"
proof -
  have inc: "sorted_wrt (\<lambda>r q. fst (last r) < fst (hd q)) (runs gap F)" by (rule runs_ends_increase [OF F gap])
  have up: "fst (hd q) \<le> fst (last q)" if "q \<in> set (runs gap F)" for q
    using sorted_hd_last [OF runs_sorted [OF F that], of "hd q"] runs_nonempty [of gap F] that by (metis hd_in_set)
  have "sorted_wrt (\<lambda>r q. fst (last q) < c \<longrightarrow> fst (last r) < c) (runs gap F)"
    by (rule sorted_wrt_mono_rel [OF _ inc]) (use up in force)
  from filter_takeWhile [OF this] show ?thesis by simp
qed

lemma window_keeps:
  fixes F :: "(int \<times> bool) list" and gap d lo :: int
  assumes F: "sorted (map fst F)" and gap: "0 \<le> gap"
    and head: "lo \<le> d" "\<forall>r\<in>set (runs gap F). d - gap \<le> fst (last r) \<longrightarrow> lo \<le> fst (hd r)"
      "lo = d \<or> (\<exists>r\<in>set (runs gap F). d - gap \<le> fst (last r) \<and> lo = fst (hd r))"
  defines "ks \<equiv> filter (\<lambda>r. fst (last r) < d - gap) (runs gap F)"
  shows "concat ks = filter (\<lambda>p. fst p < lo) F"
    "rest \<noteq> [] \<Longrightarrow> lo \<le> fst (hd rest) \<Longrightarrow> runs gap (concat ks @ rest) = ks @ runs gap rest"
proof -
  let ?P = "\<lambda>r. fst (last r) < d - gap"
  let ?rs = "filter (\<lambda>r. \<not> ?P r) (runs gap F)"
  have both: "runs gap F = ks @ ?rs" unfolding ks_def by (rule runs_kept [OF F gap])
  note split = runs_split [OF both]
  have ne: "[] \<notin> set ks" "[] \<notin> set ?rs" using runs_nonempty [of gap F] both by (metis Un_iff set_append)+
  have F': "F = concat ks @ concat ?rs" using concat_runs [of gap F] both by (metis concat_append)
  have sF: "sorted (map fst (concat ks @ concat ?rs))" using F F' by metis
  have near: "gap < lo - fst (last (concat ks))" if "ks \<noteq> []"
  proof -
    have k: "last ks \<in> set ks" "last (concat ks) = last (last ks)" using that ne(1) by (auto simp: last_concat_nonempty)
    from head(3) show ?thesis
    proof
      assume "lo = d"
      then show ?thesis using k by (auto simp: ks_def)
    next
      assume "\<exists>r\<in>set (runs gap F). d - gap \<le> fst (last r) \<and> lo = fst (hd r)"
      then obtain r where "r \<in> set (runs gap F)" "d - gap \<le> fst (last r)" and lo: "lo = fst (hd r)" by blast
      then have r: "r \<in> set ?rs" "lo = fst (hd r)" by simp_all
      then have "r \<noteq> []" "?rs \<noteq> []" using ne(2) by (metis, metis empty_iff list.set(1))
      then have "hd r \<in> set (concat ?rs)" "?rs \<noteq> []" using r(1) hd_in_set by (force, simp)
      moreover from this have "fst (hd (concat ?rs)) \<le> fst (hd r)"
        using sorted_hd_last [of fst "concat ?rs" "hd r"] sF by (simp add: sorted_append)
      ultimately show ?thesis using split that r(2) by fastforce
    qed
  qed
  show keep: "concat ks = filter (\<lambda>p. fst p < lo) F"
  proof -
    have "fst p < lo" if "p \<in> set (concat ks)" for p
    proof -
      have "fst p \<le> fst (last (concat ks))" using sorted_hd_last [of fst, OF _ that] sF by (simp add: sorted_append)
      then show ?thesis using near gap that by fastforce
    qed
    moreover have "\<not> fst p < lo" if p: "p \<in> set (concat ?rs)" for p
    proof -
      obtain r where r: "r \<in> set ?rs" "p \<in> set r" using p by auto
      then have "lo \<le> fst (hd r)" using head(2) by auto
      then show ?thesis using sorted_hd_last [OF runs_sorted [OF F], of r gap p] r by auto
    qed
    ultimately have "filter (\<lambda>p. fst p < lo) (concat ks @ concat ?rs) = concat ks" by (simp add: filter_id_conv filter_empty_conv del: set_concat)
    then show ?thesis using F' by metis
  qed
  show "runs gap (concat ks @ rest) = ks @ runs gap rest" if "rest \<noteq> []" "lo \<le> fst (hd rest)"
  proof (cases "ks = []")
    case False
    then have "concat ks \<noteq> []" using ne(1) by (metis concat_eq_Nil_conv last_in_set)
    moreover have "gap < fst (hd rest) - fst (last (concat ks))" using near [OF False] that(2) by simp
    ultimately show ?thesis using runs_append [OF _ that(1)] split by simp
  qed simp
qed

section \<open>What a rebuild shows\<close>

text \<open>What a reader sees of a session: everything but its number.\<close>

definition session_view :: "session_row \<Rightarrow> int \<times> int \<times> nat \<times> nat" where
  "session_view r = (session_started r, session_ended r, session_event_count r, session_death_count r)"

definition group_view :: "(int \<times> bool) list \<Rightarrow> int \<times> int \<times> nat \<times> nat" where
  "group_view grp = session_view (session_of_group 0 grp)"

lemma group_view_any: "session_view (session_of_group i grp) = group_view grp"
  by (simp add: group_view_def session_view_def session_of_group_def)

lemma sessionise_view: "map session_view (sessionise gap offset pts) = map group_view (runs gap (sort_key fst pts))"
proof -
  have "map session_view (map2 (\<lambda>k. session_of_group (k + offset)) ks rs) = map group_view rs" if "length ks = length rs" for ks rs
    using that by (induction ks rs rule: list_induct2) (simp_all add: group_view_any)
  then show ?thesis unfolding sessionise_runs by (simp del: upt_Suc)
qed

definition rows_of_runs :: "session_row list \<Rightarrow> (int \<times> bool) list \<Rightarrow> bool" where
  "rows_of_runs rows F \<longleftrightarrow> sorted (map fst F) \<and> map session_view rows = map group_view (runs idle_gap F)"

lemma group_view_bounds:
  "sorted (map fst F) \<Longrightarrow> r \<in> set (runs gap F) \<Longrightarrow> fst (group_view r) = fst (hd r) \<and> fst (snd (group_view r)) = fst (last r)"
  using group_bounds [OF runs_sorted, of F r gap 0] runs_nonempty [of gap F] by (auto simp: group_view_def session_view_def)

lemma idle_gap_nonneg [simp]: "0 \<le> idle_gap"
  by (simp add: idle_gap_def SESSION_IDLE_GAP_MINUTES_def)

text \<open>An incremental rebuild shows the runs of what was summarised below the window and of all events from its head on.\<close>

lemma rebuilt_incremental:
  assumes "rows_of_runs rows F"
    and w: "w = session_rebuild_window_of d idle_gap (map (\<lambda>r. (session_started r, session_ended r)) rows)"
  shows "window_from w \<le> d"
    "rows_of_runs (rebuilt_rows (Some w) rows pts) (filter (\<lambda>p. fst p < window_from w) F @ filter (\<lambda>p. window_from w \<le> fst p) (sort_key fst pts))"
proof -
  let ?lo = "window_from w" and ?rs = "runs idle_gap F"
  let ?E = "filter (\<lambda>p. ?lo \<le> fst p) (sort_key fst pts)"
  have F: "sorted (map fst F)" and rows: "map session_view rows = map group_view ?rs" using assms(1) by (simp_all add: rows_of_runs_def)
  let ?b = "\<lambda>v :: int \<times> int \<times> nat \<times> nat. (fst v, fst (snd v))"
  have "map (\<lambda>r. (session_started r, session_ended r)) rows = map ?b (map session_view rows)" by (simp add: session_view_def)
  also have "\<dots> = map (\<lambda>r. (fst (hd r), fst (last r))) ?rs" unfolding rows using group_view_bounds [OF F, of _ idle_gap] by simp
  finally have bounds: "map (\<lambda>r. (session_started r, session_ended r)) rows = map (\<lambda>r. (fst (hd r), fst (last r))) ?rs" .
  note head = window_head [where d = d and gap = idle_gap and bounds = "map (\<lambda>r. (fst (hd r), fst (last r))) ?rs", folded w [unfolded bounds]]
  show lo: "?lo \<le> d" by (rule head(1))
  let ?ks = "filter (\<lambda>r. fst (last r) < d - idle_gap) ?rs"
  have "?lo = d \<or> (\<exists>r\<in>set ?rs. d - idle_gap \<le> fst (last r) \<and> ?lo = fst (hd r))" "\<forall>r\<in>set ?rs. d - idle_gap \<le> fst (last r) \<longrightarrow> ?lo \<le> fst (hd r)"
    using head(2,3) by auto
  note keeps = window_keeps [OF F idle_gap_nonneg lo this(2,1)]
  have all: "runs idle_gap (concat ?ks @ ?E) = ?ks @ runs idle_gap ?E"
  proof (cases "?E = []")
    case True
    have "runs idle_gap (concat ?ks) = ?ks"
      using runs_split [of idle_gap F ?ks "filter (\<lambda>r. \<not> fst (last r) < d - idle_gap) ?rs"] runs_kept [OF F idle_gap_nonneg, of "d - idle_gap"] by simp
    then show ?thesis unfolding True by simp
  next
    case False
    then have "?lo \<le> fst (hd ?E)" using hd_in_set [OF False] by auto
    then show ?thesis by (rule keeps(2) [OF False])
  qed
  have "map session_view (filter (\<lambda>r. \<not> d - idle_gap \<le> session_ended r) rows) = filter (\<lambda>v. fst (snd v) < d - idle_gap) (map session_view rows)"
    by (simp add: filter_map comp_def session_view_def not_le)
  also have "\<dots> = map group_view ?ks"
    unfolding rows filter_map using group_view_bounds [OF F, of _ idle_gap] by (auto intro!: arg_cong [where f = "map group_view"] filter_cong)
  finally have kept: "map session_view (filter (\<lambda>r. \<not> d - idle_gap \<le> session_ended r) rows) = map group_view ?ks" .
  have sorted: "sorted (map fst (filter (\<lambda>p. fst p < ?lo) F @ ?E))"
    using F sorted_sort_key [of fst pts] by (auto simp: sorted_append sorted_filter)
  show "rows_of_runs (rebuilt_rows (Some w) rows pts) (filter (\<lambda>p. fst p < ?lo) F @ ?E)"
    unfolding rows_of_runs_def keeps(1) [symmetric] using sorted kept all
    by (simp add: rebuilt_rows_def Let_def sessionise_view head(4) filter_sort keeps(1))
qed

section \<open>The invariant\<close>

text \<open>Below the watermark the summarised events are the stored ones.\<close>

abbreviation below :: "int \<Rightarrow> (int \<times> bool) list \<Rightarrow> (int \<times> bool) list" where
  "below d \<equiv> filter (\<lambda>p. fst p < d)"

definition covered :: "rollup_state option \<Rightarrow> (int \<times> bool) list \<Rightarrow> (int \<times> bool) list \<Rightarrow> bool" where
  "covered so E F = (case so of None \<Rightarrow> True | Some s \<Rightarrow> (case sessions_dirty_from_ts s of None \<Rightarrow> True | Some d \<Rightarrow> below d F = below d E))"

definition untouched :: "rollup_state option \<Rightarrow> session_rebuild \<Rightarrow> bool" where
  "untouched so rb \<longleftrightarrow> captured_updated_at rb = map_option state_updated_at so"

abbreviation bounds_of :: "session_row list \<Rightarrow> (int \<times> int) list" where
  "bounds_of rows \<equiv> map (\<lambda>r. (session_started r, session_ended r)) rows"

text \<open>A rebuild in flight: what it captured is not newer than the state, the handle stays dirty, its window was taken from a watermark that has only moved down
  since, and its rows, once computed, are exact unless the state was touched.\<close>

definition rebuild_ok :: "rollup_state option \<Rightarrow> (int \<times> bool) list \<Rightarrow> session_row list \<Rightarrow> session_rebuild \<Rightarrow> bool" where
  "rebuild_ok so E S rb \<longleftrightarrow>
     (\<forall>u. captured_updated_at rb = Some u \<longrightarrow> (\<exists>s. so = Some s \<and> u \<le> state_updated_at s)) \<and>
     (\<forall>s. so = Some s \<longrightarrow> sessions_dirty s) \<and>
     (case recomputed rb of
        None \<Rightarrow>
          (\<forall>w. rebuild_window rb = Some w \<longrightarrow>
             (\<exists>d F s d'. w = session_rebuild_window_of d idle_gap (bounds_of S) \<and> rows_of_runs S F \<and> so = Some s \<and>
                sessions_dirty_from_ts s = Some d' \<and> d' \<le> d \<and> (untouched so rb \<longrightarrow> d' = d) \<and> below d' F = below d' E))
      | Some rows \<Rightarrow> \<exists>F. rows_of_runs rows F \<and> covered so E F \<and> (untouched so rb \<longrightarrow> F = E))"

definition handle_ok :: "rollup_state option \<Rightarrow> (int \<times> bool) list \<Rightarrow> session_row list \<Rightarrow> session_rebuild option \<Rightarrow> bool" where
  "handle_ok so E S rbo \<longleftrightarrow>
     (so = None \<longrightarrow> E = [] \<and> S = []) \<and>
     (\<forall>s. so = Some s \<longrightarrow> \<not> sessions_dirty s \<longrightarrow> sessions_dirty_from_ts s = None \<and> rows_of_runs S E) \<and>
     (\<forall>s. so = Some s \<longrightarrow> sessions_dirty s \<longrightarrow> sessions_dirty_from_ts s \<noteq> None \<longrightarrow> (\<exists>F. rows_of_runs S F \<and> covered so E F)) \<and>
     (\<forall>rb. rbo = Some rb \<longrightarrow> rebuild_ok so E S rb)"

definition points_of :: "rollup_db \<Rightarrow> string \<Rightarrow> (int \<times> bool) list" where
  "points_of db h = sort_key fst (session_points h (event_table (db_tables db)))"

definition session_ok :: "rollup_db \<Rightarrow> string \<Rightarrow> bool" where
  "session_ok db h \<longleftrightarrow>
     handle_ok (map_of (stat_rollup_state (db_tables db)) h) (points_of db h) (summary_of db h) (map_of (rebuilding db) h)"

lemma below_mono: "below d F = below d E \<Longrightarrow> d' \<le> d \<Longrightarrow> below d' F = below d' E"
proof -
  assume "below d F = below d E" "d' \<le> d"
  then have "below d' (below d F) = below d' (below d E)" "\<And>xs. below d' (below d xs) = below d' xs" by (auto intro!: filter_cong)
  then show ?thesis by metis
qed

lemma sorted_split: "sorted (map fst E) \<Longrightarrow> below d E @ filter (\<lambda>p. d \<le> fst p) E = E"
proof (induction E)
  case (Cons x E)
  show ?case
  proof (cases "fst x < d")
    case False
    then have "below d E = []" using Cons.prems by (force simp: filter_empty_conv)
    then show ?thesis using False Cons by simp
  qed (use Cons in simp)
qed simp

lemma rows_of_runs_sorted: "rows_of_runs rows F \<Longrightarrow> sorted (map fst F)"
  by (simp add: rows_of_runs_def)

lemma below_later: "\<forall>p\<in>set N. d \<le> fst p \<Longrightarrow> below d (sort_key fst (pts @ N)) = below d (sort_key fst pts)"
  by (simp add: filter_sort filter_empty_conv not_less)

text \<open>Recomputing.\<close>

lemma compute_ok:
  assumes ok: "handle_ok so (sort_key fst pts) S (Some rb)" "recomputed rb = None"
  shows "handle_ok so (sort_key fst pts) S (Some (rb\<lparr>recomputed := Some (rebuilt_rows (rebuild_window rb) S pts)\<rparr>))"
proof -
  let ?E = "sort_key fst pts"
  have rb: "rebuild_ok so ?E S rb" using ok(1) by (simp add: handle_ok_def)
  have "\<exists>F. rows_of_runs (rebuilt_rows (rebuild_window rb) S pts) F \<and> covered so ?E F \<and> (untouched so rb \<longrightarrow> F = ?E)"
  proof (cases "rebuild_window rb")
    case None
    have "rows_of_runs (rebuilt_rows None S pts) ?E" by (simp add: rows_of_runs_def rebuilt_rows_def sessionise_view)
    then show ?thesis using None by (auto simp: covered_def split: option.split)
  next
    case (Some w)
    then obtain d F s d' where w: "w = session_rebuild_window_of d idle_gap (bounds_of S)" "rows_of_runs S F" "so = Some s"
        "sessions_dirty_from_ts s = Some d'" "d' \<le> d" "untouched so rb \<longrightarrow> d' = d" "below d' F = below d' ?E"
      using rb ok(2) by (auto simp: rebuild_ok_def)
    let ?lo = "window_from w" let ?F = "below ?lo F @ filter (\<lambda>p. ?lo \<le> fst p) ?E"
    note inc = rebuilt_incremental(1) [OF w(2,1)] rebuilt_incremental(2) [OF w(2,1), of pts]
    have same: "?F = ?E" if "?lo \<le> d'" using below_mono [OF w(7) that] sorted_split [of ?E ?lo] by simp
    have "below d' ?F = below d' ?E"
    proof (cases "?lo \<le> d'")
      case False
      then have "below d' ?F = below d' F" by (auto simp: filter_empty_conv intro!: filter_cong)
      then show ?thesis using w(7) by simp
    qed (use same in simp)
    then show ?thesis using inc(2) same inc(1) w Some by (auto simp: covered_def)
  qed
  then show ?thesis using ok rb by (auto simp: handle_ok_def rebuild_ok_def untouched_def)
qed

text \<open>Capturing.\<close>

lemma begin_ok:
  assumes ok: "handle_ok so E S None" "\<forall>s. so = Some s \<longrightarrow> sessions_dirty s"
  shows "handle_ok so E S (Some \<lparr>captured_updated_at = map_option state_updated_at so,
      rebuild_window = map_option (\<lambda>d. session_rebuild_window_of d idle_gap (bounds_of S)) (Option.bind so sessions_dirty_from_ts), recomputed = None\<rparr>)"
proof -
  have "rebuild_ok so E S \<lparr>captured_updated_at = map_option state_updated_at so,
      rebuild_window = map_option (\<lambda>d. session_rebuild_window_of d idle_gap (bounds_of S)) (Option.bind so sessions_dirty_from_ts), recomputed = None\<rparr>"
  proof (cases "Option.bind so sessions_dirty_from_ts")
    case (Some d)
    then obtain s where s: "so = Some s" "sessions_dirty_from_ts s = Some d" by (cases so) auto
    then obtain F where "rows_of_runs S F" "below d F = below d E" using ok by (auto simp: handle_ok_def covered_def)
    then show ?thesis using s ok(2) by (auto simp: rebuild_ok_def)
  qed (use ok(2) in \<open>auto simp: rebuild_ok_def\<close>)
  then show ?thesis using ok by (simp add: handle_ok_def)
qed

text \<open>Committing.\<close>

lemma commit_ok:
  assumes ok: "handle_ok so E S (Some rb)" "recomputed rb = Some rows"
    and so': "so' = (case so of
        None \<Rightarrow> Some \<lparr>sessions_dirty = False, contracts_dirty = True, sessions_dirty_from_ts = None, rebuilt_at = Some now, state_updated_at = now\<rparr>
      | Some s \<Rightarrow> if captured_updated_at rb = Some (state_updated_at s)
          then Some (s\<lparr>sessions_dirty := False, sessions_dirty_from_ts := None, rebuilt_at := Some now, state_updated_at := now\<rparr>) else Some s)"
  shows "handle_ok so' E rows None"
proof -
  obtain F where F: "rows_of_runs rows F" "covered so E F" "untouched so rb \<longrightarrow> F = E" "\<forall>s. so = Some s \<longrightarrow> sessions_dirty s"
      "so = None \<longrightarrow> captured_updated_at rb = None"
    using ok by (cases "captured_updated_at rb") (auto simp: handle_ok_def rebuild_ok_def)
  show ?thesis
  proof (cases so)
    case None
    then show ?thesis using F so' by (auto simp: handle_ok_def untouched_def)
  next
    case (Some s)
    then show ?thesis using F so' by (auto simp: handle_ok_def untouched_def)
  qed
qed

text \<open>Uploading: the watermark moves to the earliest new event, or stays below it.\<close>

definition dirtied :: "int \<Rightarrow> int option \<Rightarrow> rollup_state option \<Rightarrow> rollup_state" where
  "dirtied now excluded old =
     (case old of
        None \<Rightarrow> \<lparr>sessions_dirty = True, contracts_dirty = True, sessions_dirty_from_ts = excluded, rebuilt_at = None, state_updated_at = now\<rparr>
      | Some s \<Rightarrow>
          s\<lparr>sessions_dirty := True, contracts_dirty := True, state_updated_at := now,
            sessions_dirty_from_ts :=
              (if sessions_dirty s \<and> sessions_dirty_from_ts s = None then None else pg_least (sessions_dirty_from_ts s) excluded)\<rparr>)"

lemma dirtied_fields [simp]: "sessions_dirty (dirtied now x so)" "state_updated_at (dirtied now x so) = now"
  by (simp_all add: dirtied_def split: option.split)

lemma dirtied_watermark:
  assumes "sessions_dirty_from_ts (dirtied now x so) = Some d"
  shows "x = Some m \<Longrightarrow> d \<le> m" "\<lbrakk>so = Some s; sessions_dirty_from_ts s = Some k\<rbrakk> \<Longrightarrow> d \<le> k"
    "\<lbrakk>so = Some s; sessions_dirty_from_ts s = None\<rbrakk> \<Longrightarrow> \<not> sessions_dirty s"
  using assms pg_least_lower [of _ x d] by (auto simp: dirtied_def split: option.splits if_splits)

lemma upload_covers:
  assumes "covered so (sort_key fst pts) F" "so = None \<Longrightarrow> F = sort_key fst pts"
    and "\<forall>s. so = Some s \<longrightarrow> \<not> sessions_dirty s \<longrightarrow> F = sort_key fst pts" "\<forall>p\<in>set N. \<exists>m. x = Some m \<and> m \<le> fst p"
  shows "covered (Some (dirtied now x so)) (sort_key fst (pts @ N)) F"
proof (cases "sessions_dirty_from_ts (dirtied now x so)")
  case (Some d)
  note mark = dirtied_watermark [OF Some]
  have "\<forall>p\<in>set N. d \<le> fst p" using assms(4) mark(1) by fastforce
  then have new: "below d (sort_key fst (pts @ N)) = below d (sort_key fst pts)" by (rule below_later)
  have "below d F = below d (sort_key fst pts)"
  proof (cases so)
    case so: (Some s)
    show ?thesis
    proof (cases "sessions_dirty_from_ts s")
      case None
      then show ?thesis using mark(3) [OF so] assms(3) so by simp
    next
      case k: (Some k)
      have "below k F = below k (sort_key fst pts)" using assms(1) so k by (simp add: covered_def)
      then show ?thesis by (rule below_mono [OF _ mark(2) [OF so k]])
    qed
  qed (use assms(2) in simp)
  then show ?thesis using Some new by (simp add: covered_def)
qed (simp add: covered_def)

lemma upload_ok:
  assumes ok: "handle_ok so (sort_key fst pts) S rbo" and clock: "\<forall>s. so = Some s \<longrightarrow> state_updated_at s < now"
    and N: "\<forall>p\<in>set N. \<exists>m. x = Some m \<and> m \<le> fst p"
  shows "handle_ok (Some (dirtied now x so)) (sort_key fst (pts @ N)) S rbo"
proof -
  let ?E = "sort_key fst pts" and ?so = "Some (dirtied now x so)"
  note cover = upload_covers [where N = N and x = x and now = now, OF _ _ _ N]
  have base: "\<exists>F. rows_of_runs S F \<and> covered ?so (sort_key fst (pts @ N)) F" if marked: "sessions_dirty_from_ts (dirtied now x so) \<noteq> None"
  proof -
    obtain d where d: "sessions_dirty_from_ts (dirtied now x so) = Some d" using marked by auto
    obtain F where F: "rows_of_runs S F" "covered so ?E F" "so = None \<Longrightarrow> F = ?E" "\<forall>s. so = Some s \<longrightarrow> \<not> sessions_dirty s \<longrightarrow> F = ?E"
    proof (cases so)
      case None
      then have "?E = []" "S = []" using ok by (simp_all add: handle_ok_def)
      then show ?thesis using that [of "[]"] None by (auto simp: rows_of_runs_def covered_def)
    next
      case (Some s)
      show ?thesis
      proof (cases "sessions_dirty s")
        case True
        then have "sessions_dirty_from_ts s \<noteq> None" using dirtied_watermark(3) [OF d Some] by auto
        then show ?thesis using that ok True Some by (auto simp: handle_ok_def)
      next
        case False
        then show ?thesis using that [of ?E] ok Some by (auto simp: handle_ok_def covered_def)
      qed
    qed
    then show ?thesis using cover [OF F(2-4)] by blast
  qed
  have flight: "rebuild_ok ?so (sort_key fst (pts @ N)) S rb" if "rbo = Some rb" for rb
  proof -
    have rb: "rebuild_ok so ?E S rb" using ok that by (simp add: handle_ok_def)
    then have touched: "\<not> untouched ?so rb" using clock by (cases so) (auto simp: untouched_def rebuild_ok_def)
    have older: "captured_updated_at rb = Some u \<Longrightarrow> u \<le> now" for u using rb clock by (fastforce simp: rebuild_ok_def)
    have dirty: "\<forall>s. so = Some s \<longrightarrow> sessions_dirty s" using rb by (simp add: rebuild_ok_def)
    show ?thesis
    proof (cases "recomputed rb")
      case None
      have "\<exists>d F s d'. w = session_rebuild_window_of d idle_gap (bounds_of S) \<and> rows_of_runs S F \<and> ?so = Some s \<and>
          sessions_dirty_from_ts s = Some d' \<and> d' \<le> d \<and> (untouched ?so rb \<longrightarrow> d' = d) \<and> below d' F = below d' (sort_key fst (pts @ N))"
        if win: "rebuild_window rb = Some w" for w
      proof -
        obtain d F s d' where w: "w = session_rebuild_window_of d idle_gap (bounds_of S)" "rows_of_runs S F" "so = Some s"
            "sessions_dirty_from_ts s = Some d'" "d' \<le> d" "below d' F = below d' ?E"
          using rb None win by (auto simp: rebuild_ok_def)
        have "covered ?so (sort_key fst (pts @ N)) F" by (rule cover) (use w dirty in \<open>auto simp: covered_def\<close>)
        moreover obtain k where k: "sessions_dirty_from_ts (dirtied now x so) = Some k" "k \<le> d'"
          using w(3,4) by (cases x) (auto simp: dirtied_def)
        ultimately show ?thesis using w touched by (intro exI [of _ d] exI [of _ F]) (auto simp: covered_def)
      qed
      then show ?thesis using None older by (auto simp: rebuild_ok_def)
    next
      case (Some rows)
      then obtain F where F: "rows_of_runs rows F" "covered so ?E F" "untouched so rb \<longrightarrow> F = ?E" using rb by (auto simp: rebuild_ok_def)
      moreover have "untouched so rb" if "so = None" using rb that by (cases "captured_updated_at rb") (auto simp: rebuild_ok_def untouched_def)
      ultimately have "covered ?so (sort_key fst (pts @ N)) F" by (intro cover) (use dirty in auto)
      then show ?thesis using F(1) Some touched older by (auto simp: rebuild_ok_def)
    qed
  qed
  show ?thesis using base flight by (auto simp: handle_ok_def)
qed

section \<open>Steps\<close>

text \<open>Uploads, each at a later instant than the states it finds, and the three steps of rebuilds, of any handles and in any order.  The code tells an untouched state
  by its \<open>updated_at\<close> alone; two uploads of one handle within the same microsecond, which it could not tell apart, are outside these runs.\<close>

inductive rollup_step :: "store_env \<Rightarrow> rollup_db \<Rightarrow> rollup_db \<Rightarrow> bool" for env where
  Upload: "\<forall>h s. map_of (stat_rollup_state (db_tables db)) h = Some s \<longrightarrow> state_updated_at s < now \<Longrightarrow>
      rollup_step env db (db\<lparr>db_tables := snd (insert_batch env now fails evs (db_tables db))\<rparr>)"
| Begin: "rollup_step env db (rebuild_begin h db)"
| Compute: "rollup_step env db (rebuild_compute h db)"
| Commit: "rollup_step env db (rebuild_commit h now db)"
| Abort: "rollup_step env db (rebuild_abort h db)"

definition empty_rollup :: rollup_db where
  "empty_rollup = \<lparr>db_tables = empty_tables, session_summary = [], rebuilding = []\<rparr>"

lemma mark_dirty_lookup:
  "map_of (mark_dirty now ins m) h =
     (if h \<in> stored_handle ` set ins then Some (dirtied now (pg_min (map stored_at (filter (\<lambda>e. stored_handle e = h) ins))) (map_of m h)) else map_of m h)"
  by (simp add: mark_dirty_def upsert_lookup dirtied_def Let_def)

lemma session_points_append [simp]: "session_points h (xs @ ys) = session_points h xs @ session_points h ys"
  by (simp add: session_points_def)

lemma session_points_after:
  assumes "p \<in> set (session_points h ins)"
  shows "\<exists>m. pg_min (map stored_at (filter (\<lambda>e. stored_handle e = h) ins)) = Some m \<and> m \<le> fst p"
proof -
  from assms obtain e where e: "e \<in> set ins" "stored_handle e = h" "stored_at e = Some (fst p)" by (auto simp: session_points_def)
  then have "Some (fst p) \<in> set (map stored_at (filter (\<lambda>e. stored_handle e = h) ins))" by (force intro: rev_image_eqI)
  moreover from this have "pg_min (map stored_at (filter (\<lambda>e. stored_handle e = h) ins)) \<noteq> None" unfolding pg_min_none by auto
  ultimately show ?thesis using pg_min_lower by fastforce
qed

lemma upload_step_ok:
  assumes "session_ok db h" "\<forall>h s. map_of (stat_rollup_state (db_tables db)) h = Some s \<longrightarrow> state_updated_at s < now"
  shows "session_ok (db\<lparr>db_tables := snd (insert_batch env now fails evs (db_tables db))\<rparr>) h"
proof (cases "snd (insert_batch env now fails evs (db_tables db)) = db_tables db")
  case True
  then show ?thesis using assms(1) by simp
next
  case False
  let ?t = "db_tables db"
  let ?ins = "new_rows env (event_table ?t) (map (bind_row env) evs)"
  have t: "snd (insert_batch env now fails evs ?t) =
      ?t\<lparr>event_table := event_table ?t @ ?ins, stat_event_counts := roll_counts ?ins (stat_event_counts ?t),
         stat_rollup_state := mark_dirty now ?ins (stat_rollup_state ?t)\<rparr>"
    using False by (auto simp: insert_batch_def Let_def split: if_splits)
  have S: "summary_of (db\<lparr>db_tables := u\<rparr>) h = summary_of db h" for u by (simp add: summary_of_def)
  show ?thesis
  proof (cases "h \<in> stored_handle ` set ?ins")
    case True
    have "handle_ok (Some (dirtied now (pg_min (map stored_at (filter (\<lambda>e. stored_handle e = h) ?ins))) (map_of (stat_rollup_state ?t) h)))
        (sort_key fst (session_points h (event_table ?t) @ session_points h ?ins)) (summary_of db h) (map_of (rebuilding db) h)"
      by (rule upload_ok) (use assms session_points_after in \<open>auto simp: session_ok_def points_of_def\<close>)
    then show ?thesis using True by (simp add: session_ok_def points_of_def t mark_dirty_lookup S)
  next
    case False
    then have "session_points h ?ins = []" by (auto simp: session_points_def filter_empty_conv)
    then show ?thesis using assms(1) False by (simp add: session_ok_def points_of_def t mark_dirty_lookup S)
  qed
qed

lemma begin_step_ok:
  assumes "session_ok db h"
  shows "session_ok (rebuild_begin h' db) h"
proof (cases "h' = h \<and> rebuild_begin h db \<noteq> db")
  case True
  let ?so = "map_of (stat_rollup_state (db_tables db)) h"
  have free: "map_of (rebuilding db) h = None" and dirty: "\<forall>s. ?so = Some s \<longrightarrow> sessions_dirty s"
    using True by (auto simp: rebuild_begin_def Let_def split: if_splits option.splits)
  let ?rb = "\<lparr>captured_updated_at = map_option state_updated_at ?so,
      rebuild_window = map_option (\<lambda>d. session_rebuild_window_of d idle_gap (bounds_of (summary_of db h))) (Option.bind ?so sessions_dirty_from_ts), recomputed = None\<rparr>"
  have "rebuild_begin h db = db\<lparr>rebuilding := hmap_insert h ?rb (rebuilding db)\<rparr>"
    using free dirty by (cases ?so) (auto simp: rebuild_begin_def)
  moreover have "handle_ok ?so (points_of db h) (summary_of db h) (Some ?rb)"
    by (rule begin_ok) (use assms free dirty in \<open>simp_all add: session_ok_def\<close>)
  ultimately show ?thesis using True by (simp add: session_ok_def points_of_def summary_of_def hmap_insert_lookup)
next
  case False
  then show ?thesis using assms
    by (cases "rebuild_begin h' db = db") (auto simp: rebuild_begin_def session_ok_def points_of_def summary_of_def hmap_insert_lookup Let_def split: if_splits option.splits)
qed

lemma compute_step_ok:
  assumes "session_ok db h"
  shows "session_ok (rebuild_compute h' db) h"
proof (cases "\<exists>rb. map_of (rebuilding db) h' = Some rb \<and> recomputed rb = None")
  case True
  then obtain rb where rb: "map_of (rebuilding db) h' = Some rb" "recomputed rb = None" by blast
  show ?thesis
  proof (cases "h' = h")
    case True
    have "handle_ok (map_of (stat_rollup_state (db_tables db)) h) (points_of db h) (summary_of db h)
        (Some (rb\<lparr>recomputed := Some (rebuilt_rows (rebuild_window rb) (summary_of db h) (session_points h (event_table (db_tables db))))\<rparr>))"
      unfolding points_of_def by (rule compute_ok) (use assms rb True in \<open>simp_all add: session_ok_def points_of_def\<close>)
    then show ?thesis using rb True by (simp add: rebuild_compute_def session_ok_def points_of_def summary_of_def hmap_insert_lookup)
  qed (use assms rb in \<open>simp add: rebuild_compute_def session_ok_def points_of_def summary_of_def hmap_insert_lookup\<close>)
next
  case False
  then have "rebuild_compute h' db = db" by (auto simp: rebuild_compute_def split: option.splits)
  then show ?thesis using assms by simp
qed

lemma commit_step_ok:
  assumes "session_ok db h"
  shows "session_ok (rebuild_commit h' now db) h"
proof (cases "\<exists>rb rows. map_of (rebuilding db) h' = Some rb \<and> recomputed rb = Some rows")
  case True
  then obtain rb rows where rb: "map_of (rebuilding db) h' = Some rb" "recomputed rb = Some rows" by blast
  show ?thesis
  proof (cases "h' = h")
    case True
    let ?so = "map_of (clear_dirty h now (captured_updated_at rb) (stat_rollup_state (db_tables db))) h"
    have "handle_ok ?so (points_of db h) rows None"
      by (rule commit_ok [of "map_of (stat_rollup_state (db_tables db)) h" "points_of db h" "summary_of db h" rb rows ?so now])
        (use assms rb True in \<open>auto simp: session_ok_def clear_dirty_def hmap_insert_lookup split: option.split\<close>)
    then show ?thesis using rb True
      by (simp add: rebuild_commit_def session_ok_def points_of_def summary_of_def hmap_insert_lookup hmap_lookup_remove)
  next
    case False
    have "map_of (clear_dirty h' now c m) h = map_of m h" for c m using False by (auto simp: clear_dirty_def hmap_insert_lookup split: option.split)
    then show ?thesis using assms rb False
      by (simp add: rebuild_commit_def session_ok_def points_of_def summary_of_def hmap_insert_lookup hmap_lookup_remove)
  qed
next
  case False
  then have "rebuild_commit h' now db = db" by (auto simp: rebuild_commit_def split: option.splits)
  then show ?thesis using assms by simp
qed

lemma rollup_step_ok: "rollup_step env db db' \<Longrightarrow> session_ok db h \<Longrightarrow> session_ok db' h"
proof (induction rule: rollup_step.induct)
  case (Abort db h')
  then show ?case by (auto simp: rebuild_abort_def session_ok_def points_of_def summary_of_def hmap_lookup_remove handle_ok_def)
qed (auto intro: upload_step_ok begin_step_ok compute_step_ok commit_step_ok)

text \<open>Numbers of sessions stay distinct.\<close>

lemma foldl_max_upper: "a \<le> foldl max a xs" "x \<in> set xs \<Longrightarrow> x \<le> foldl max a xs" for a :: nat
proof (induction xs arbitrary: a)
  case (Cons y ys)
  { case 1 then show ?case using Cons(1) [of "max a y"] by simp }
  { case 2 then show ?case using Cons(1,2) [of "max a y"] by auto }
qed simp_all

lemma sessionise_ids:
  "distinct (map session_id (sessionise gap offset pts))" "\<forall>r\<in>set (sessionise gap offset pts). offset < session_id r"
proof -
  have "map session_id (map2 (\<lambda>k. session_of_group (k + offset)) ks rs) = map (\<lambda>k. k + offset) ks" if "length ks = length rs" for ks rs
    using that by (induction ks rs rule: list_induct2) (simp_all add: session_of_group_def)
  then have ids: "map session_id (sessionise gap offset pts) = map (\<lambda>k. k + offset) [1..<Suc (length (runs gap (sort_key fst pts)))]"
    unfolding sessionise_runs by (simp del: upt_Suc)
  then show "distinct (map session_id (sessionise gap offset pts))" by (simp add: distinct_map inj_on_def del: upt_Suc)
  have "session_id ` set (sessionise gap offset pts) = set (map (\<lambda>k. k + offset) [1..<Suc (length (runs gap (sort_key fst pts)))])"
    using arg_cong [OF ids, of set] by simp
  then have "session_id r \<in> set (map (\<lambda>k. k + offset) [1..<Suc (length (runs gap (sort_key fst pts)))])" if "r \<in> set (sessionise gap offset pts)" for r
    using that by blast
  then show "\<forall>r\<in>set (sessionise gap offset pts). offset < session_id r" by (force simp del: upt_Suc)
qed

lemma rebuilt_ids:
  assumes "distinct (map session_id rows)"
  shows "distinct (map session_id (rebuilt_rows w rows pts))"
proof -
  let ?kept = "case w of None \<Rightarrow> [] | Some win \<Rightarrow> filter (\<lambda>r. \<not> discard_ending_at_or_after win \<le> session_ended r) rows"
  let ?fresh = "sessionise idle_gap (foldl max 0 (map session_id ?kept)) (case w of None \<Rightarrow> pts | Some win \<Rightarrow> filter (\<lambda>p. window_from win \<le> fst p) pts)"
  have "distinct (map session_id ?kept)" using assms by (auto split: option.split simp: distinct_map_filter)
  moreover have "session_id r \<le> foldl max 0 (map session_id ?kept)" if "r \<in> set ?kept" for r
    by (rule foldl_max_upper(2)) (use that in simp)
  then have "session_id ` set ?kept \<inter> session_id ` set ?fresh = {}" using sessionise_ids(2) by fastforce
  ultimately show ?thesis using sessionise_ids(1) by (simp add: rebuilt_rows_def Let_def)
qed

definition ids_distinct :: "rollup_db \<Rightarrow> bool" where
  "ids_distinct db \<longleftrightarrow>
     (\<forall>h. distinct (map session_id (summary_of db h)) \<and>
       (\<forall>rb rows. map_of (rebuilding db) h = Some rb \<longrightarrow> recomputed rb = Some rows \<longrightarrow> distinct (map session_id rows)))"

lemma rollup_step_ids: "rollup_step env db db' \<Longrightarrow> ids_distinct db \<Longrightarrow> ids_distinct db'"
proof (induction rule: rollup_step.induct)
  case (Begin db h)
  then show ?case by (auto simp: ids_distinct_def summary_of_def rebuild_begin_def hmap_insert_lookup Let_def split: if_splits option.splits)
next
  case (Compute db h)
  have same: "summary_of (rebuild_compute h db) k = summary_of db k" for k by (simp add: summary_of_def rebuild_compute_def split: option.split)
  show ?case unfolding ids_distinct_def same
    using Compute rebuilt_ids by (auto simp: ids_distinct_def rebuild_compute_def hmap_insert_lookup split: option.splits if_splits)
next
  case (Commit db h now)
  then show ?case by (auto simp: ids_distinct_def summary_of_def rebuild_commit_def hmap_insert_lookup hmap_lookup_remove split: option.splits if_splits)
next
  case (Abort db h)
  then show ?case by (auto simp: ids_distinct_def summary_of_def rebuild_abort_def hmap_lookup_remove)
qed (simp add: ids_distinct_def summary_of_def)

interpretation rollup_sys: step_system "rollup_step env" "\<lambda>db. db = empty_rollup" "\<lambda>db. ids_distinct db \<and> (\<forall>h. session_ok db h)" for env
proof
  fix db
  assume "db = empty_rollup"
  then show "ids_distinct db \<and> (\<forall>h. session_ok db h)"
    by (simp add: ids_distinct_def session_ok_def handle_ok_def empty_rollup_def empty_tables_def points_of_def summary_of_def session_points_def)
qed (blast intro: rollup_step_ok rollup_step_ids)

lemma rollup_reachable:
  assumes "(rollup_step env)\<^sup>*\<^sup>* empty_rollup db"
  shows "session_ok db h" "ids_distinct db"
  using rollup_sys.inv_reachable [OF assms] by simp_all

lemma exact_view:
  "rows_of_runs rows (points_of db h) \<Longrightarrow>
   map session_view rows = map session_view (sessionise idle_gap 0 (session_points h (event_table (db_tables db))))"
  by (simp add: rows_of_runs_def sessionise_view points_of_def)

section \<open>The purge and the tables\<close>

lemma remove_first_sub: "set (remove_first k P xs) \<subseteq> set xs"
  by (induction k P xs rule: remove_first.induct) auto

lemma remove_first_other: "(\<forall>x. Q x \<longrightarrow> \<not> P x) \<Longrightarrow> filter Q (remove_first k P xs) = filter Q xs"
  by (induction k P xs rule: remove_first.induct) auto

lemma remove_first_sorted_wrt: "sorted_wrt R xs \<Longrightarrow> sorted_wrt R (remove_first k P xs)"
  by (induction k P xs rule: remove_first.induct) (auto dest: subsetD [OF remove_first_sub])

lemma map_of_built: "map_of (map (\<lambda>g. (g, f g)) gs @ m) g = (if g \<in> set gs then Some (f g) else map_of m g)"
  by (induction gs) auto

lemma map_of_filter_keys: "map_of (filter (\<lambda>(g, c). P g) m) g = (if P g then map_of m g else None)"
  by (induction m) auto

text \<open>The counters of the handle are recomputed from what is left; the purge keeps every invariant of the tables.\<close>

lemma purge_counts:
  assumes "counts_exact t"
  shows "counts_exact (snd (purge_user_events h expired now t))"
proof -
  obtain gone hit where loop: "purge_loop PER_USER_BATCH_CAP DELETE_BATCH_SIZE (length (filter (\<lambda>e. stored_handle e = h \<and> expired e) (event_table t))) = (gone, hit)"
    by fastforce
  let ?left = "remove_first gone (\<lambda>e. stored_handle e = h \<and> expired e) (event_table t)"
  let ?mine = "filter (\<lambda>e. stored_handle e = h) ?left"
  let ?counts = "map (\<lambda>g. (g, aggregate (filter (\<lambda>e. row_group e = g) ?mine))) (remdups (map row_group ?mine)) @
      filter (\<lambda>(g, c). fst g \<noteq> h) (stat_event_counts t)"
  have one: "map_of ?counts g = (if rows_of g ?left = [] then None else Some (aggregate (rows_of g ?left)))" for g
  proof (cases "fst g = h")
    case True
    then have rows: "filter (\<lambda>e. row_group e = g) ?mine = rows_of g ?left" by (auto simp: rows_of_def row_group_def intro: filter_cong)
    have "g \<in> set (map row_group ?mine) \<longleftrightarrow> rows_of g ?left \<noteq> []" unfolding rows [symmetric] by (auto simp: filter_empty_conv)
    then show ?thesis unfolding map_of_built using True rows by (simp add: map_of_filter_keys [of "\<lambda>g. fst g \<noteq> h"])
  next
    case False
    then have "g \<notin> set (map row_group ?mine)" by (auto simp: row_group_def)
    moreover have "rows_of g ?left = rows_of g (event_table t)"
      unfolding rows_of_def by (rule remove_first_other) (use False in \<open>auto simp: row_group_def\<close>)
    moreover have "map_of (stat_event_counts t) g = (if rows_of g (event_table t) = [] then None else Some (aggregate (rows_of g (event_table t))))"
      using assms by (simp only: counts_exact_def)
    ultimately show ?thesis unfolding map_of_built using False by (simp add: map_of_filter_keys [of "\<lambda>g. fst g \<noteq> h"])
  qed
  show ?thesis
  proof (cases "gone = 0")
    case True
    then show ?thesis using assms loop by (simp add: purge_user_events_def)
  next
    case False
    then show ?thesis using loop one by (simp add: purge_user_events_def Let_def counts_exact_def del: split_paired_All)
  qed
qed

lemma purge_tables_ok: "tables_ok env t \<Longrightarrow> tables_ok env (snd (purge_user_events h expired now t))"
  using purge_counts [of t h expired now]
  by (auto simp: tables_ok_def purge_user_events_def Let_def hmap_insert_lookup remove_first_sorted_wrt
      dest: subsetD [OF remove_first_sub] split: prod.splits)

lemma purge_loop_all: "0 < b \<Longrightarrow> n \<le> k * b \<Longrightarrow> fst (purge_loop k b n) = n"
proof (induction k arbitrary: n)
  case (Suc k)
  show ?case
  proof (cases "n = 0")
    case False
    have "n - min b n \<le> k * b" using Suc.prems(2) by simp
    then have "fst (purge_loop k b (n - min b n)) = n - min b n" by (rule Suc.IH [OF Suc.prems(1)])
    then show ?thesis using False Suc.prems(1) by (auto simp: Let_def split: prod.splits)
  qed simp
qed simp

lemma remove_first_all: "length (filter P xs) \<le> k \<Longrightarrow> remove_first k P xs = filter (\<lambda>x. \<not> P x) xs"
  by (induction k P xs rule: remove_first.induct) auto

text \<open>A purge within its cap deletes all expired events, and keeps the watermark.\<close>

definition expired_rows :: "string \<Rightarrow> (stored_event \<Rightarrow> bool) \<Rightarrow> ingest_tables \<Rightarrow> stored_event list" where
  "expired_rows h expired t = filter (\<lambda>e. stored_handle e = h \<and> expired e) (event_table t)"

lemma purge_all:
  assumes "expired_rows h expired t \<noteq> []" "length (expired_rows h expired t) \<le> PER_USER_BATCH_CAP * DELETE_BATCH_SIZE"
  shows "event_table (snd (purge_user_events h expired now t)) = filter (\<lambda>e. \<not> (stored_handle e = h \<and> expired e)) (event_table t)"
    "map_of (stat_rollup_state t) h = Some s \<Longrightarrow> map_of (stat_rollup_state (snd (purge_user_events h expired now t))) h =
       Some (s\<lparr>sessions_dirty := True, contracts_dirty := True, state_updated_at := now\<rparr>)"
proof -
  let ?n = "length (expired_rows h expired t)"
  obtain hit where loop: "purge_loop PER_USER_BATCH_CAP DELETE_BATCH_SIZE ?n = (?n, hit)"
    using purge_loop_all [OF _ assms(2)] by (metis DELETE_BATCH_SIZE_def prod.collapse zero_less_numeral)
  have "remove_first ?n (\<lambda>e. stored_handle e = h \<and> expired e) (event_table t) = filter (\<lambda>e. \<not> (stored_handle e = h \<and> expired e)) (event_table t)"
    by (rule remove_first_all) (simp add: expired_rows_def)
  then show "event_table (snd (purge_user_events h expired now t)) = filter (\<lambda>e. \<not> (stored_handle e = h \<and> expired e)) (event_table t)"
    using assms(1) loop by (simp add: purge_user_events_def expired_rows_def [symmetric] Let_def)
  show "map_of (stat_rollup_state t) h = Some s \<Longrightarrow> map_of (stat_rollup_state (snd (purge_user_events h expired now t))) h =
       Some (s\<lparr>sessions_dirty := True, contracts_dirty := True, state_updated_at := now\<rparr>)"
    using assms(1) loop by (simp add: purge_user_events_def expired_rows_def [symmetric] Let_def hmap_insert_lookup)
qed

lemma rebuild_dirty:
  assumes "map_of (stat_rollup_state (db_tables db)) h = Some s" "sessions_dirty s" "map_of (rebuilding db) h = None"
  shows "summary_of (rebuild_handle_session_stats h now db) h =
      rebuilt_rows (map_option (\<lambda>d. session_rebuild_window_of d idle_gap (map (\<lambda>r. (session_started r, session_ended r)) (summary_of db h))) (sessions_dirty_from_ts s))
        (summary_of db h) (session_points h (event_table (db_tables db)))"
    "event_table (db_tables (rebuild_handle_session_stats h now db)) = event_table (db_tables db)"
    "map_option sessions_dirty (map_of (stat_rollup_state (db_tables (rebuild_handle_session_stats h now db))) h) = Some False"
  using assms
  by (simp_all add: rebuild_handle_session_stats_def rebuild_begin_def rebuild_compute_def rebuild_commit_def clear_dirty_def summary_of_def Let_def hmap_insert_lookup)

lemma sessionise_starts: "r \<in> set (sessionise gap offset pts) \<Longrightarrow> session_started r \<in> fst ` set pts"
proof -
  assume "r \<in> set (sessionise gap offset pts)"
  then have "session_view r \<in> set (map group_view (runs gap (sort_key fst pts)))" unfolding sessionise_view [symmetric, where offset = offset] by simp
  then obtain grp where grp: "grp \<in> set (runs gap (sort_key fst pts))" "session_view r = group_view grp" by auto
  then have ne: "grp \<noteq> []" and within: "set grp \<subseteq> set pts" using runs_nonempty [of gap "sort_key fst pts"] arg_cong [OF concat_runs [of gap "sort_key fst pts"], of set] by auto
  have "session_started r = Min (fst ` set grp)" using grp(2) by (simp add: session_view_def group_view_def session_of_group_def)
  then have "session_started r \<in> fst ` set grp" using ne by (simp add: Min_in)
  then show ?thesis using image_mono [OF within, of fst] by blast
qed

lemma view_starts: "map session_view rows = map session_view rows' \<Longrightarrow> session_started ` set rows = session_started ` set rows'"
proof -
  assume "map session_view rows = map session_view rows'"
  then have "map fst (map session_view rows) = map fst (map session_view rows')" by (rule arg_cong)
  then have "map session_started rows = map session_started rows'" by (simp add: session_view_def comp_def)
  then show ?thesis by (metis set_map)
qed

section \<open>An example\<close>

text \<open>A handle with two evenings of play, an hour and more apart.\<close>

definition sample_rollup_env :: store_env where
  "sample_rollup_env =
     \<lparr>event_value = (\<lambda>_. None), rfc3339_instant = (\<lambda>_. None), naive_instant = (\<lambda>_ _. None), timestamptz = (\<lambda>t. t), md5 = (\<lambda>x. x), jsonb_text = (\<lambda>_. [])\<rparr>"

definition sample_stored :: "string \<Rightarrow> int \<Rightarrow> stored_event" where
  "sample_stored k ts =
     \<lparr>stored_id = k, stored_key = k, stored_handle = ''me'', stored_type = ''player_death'', stored_at = Some ts, stored_source = Live,
      stored_offset = 0, stored_raw = k, stored_payload = JNull, stored_metadata = None, stored_location = None\<rparr>"

definition sample_upload_at :: "int \<Rightarrow> stored_event list \<Rightarrow> rollup_db \<Rightarrow> rollup_db" where
  "sample_upload_at now evs db = db\<lparr>db_tables := snd (insert_batch sample_rollup_env now (\<lambda>_. False) evs (db_tables db))\<rparr>"

definition sample_rollup :: rollup_db where
  "sample_rollup =
     sample_upload_at 3 [sample_stored ''b'' 10000000000] (rebuild_handle_session_stats ''me'' 2 (sample_upload_at 1 [sample_stored ''a'' 0] empty_rollup))"

lemma sample_upload_step:
  "\<forall>(h, s)\<in>set (stat_rollup_state (db_tables db)). state_updated_at s < now \<Longrightarrow> rollup_step sample_rollup_env db (sample_upload_at now evs db)"
  unfolding sample_upload_at_def by (rule rollup_step.Upload) (auto dest: map_of_SomeD)

lemma rebuild_steps: "(rollup_step env)\<^sup>*\<^sup>* db (rebuild_handle_session_stats h now db)"
  unfolding rebuild_handle_session_stats_def
  by (meson rollup_step.Begin rollup_step.Compute rollup_step.Commit rtranclp.rtrancl_into_rtrancl rtranclp.rtrancl_refl)

lemma sample_rollup_reachable: "(rollup_step sample_rollup_env)\<^sup>*\<^sup>* empty_rollup sample_rollup"
proof -
  let ?one = "sample_upload_at 1 [sample_stored ''a'' 0] empty_rollup"
  have "rollup_step sample_rollup_env empty_rollup ?one" by (rule sample_upload_step) (simp add: empty_rollup_def empty_tables_def)
  moreover have "list_all (\<lambda>(h, s). state_updated_at s < 3) (stat_rollup_state (db_tables (rebuild_handle_session_stats ''me'' 2 ?one)))" by code_simp
  then have "rollup_step sample_rollup_env (rebuild_handle_session_stats ''me'' 2 ?one) sample_rollup"
    unfolding sample_rollup_def by (intro sample_upload_step) (simp add: list_all_iff case_prod_unfold)
  ultimately show ?thesis using rebuild_steps by (meson converse_rtranclp_into_rtranclp rtranclp.rtrancl_into_rtrancl)
qed

section \<open>Properties\<close>

text \<open>C1. Incremental rebuilds are exact.  Under any interleaving of uploads with the steps of rebuilds, whenever a handle is not dirty its session rows show the
  sessions of a full recomputation over all its stored events, in order and with their bounds, event and death counts, and their numbers are distinct.\<close>

theorem clean_rollup_exact:
  assumes "(rollup_step env)\<^sup>*\<^sup>* empty_rollup db" "map_of (stat_rollup_state (db_tables db)) h = Some s" "\<not> sessions_dirty s"
  shows "map session_view (summary_of db h) = map session_view (sessionise idle_gap 0 (session_points h (event_table (db_tables db)))) \<and>
    distinct (map session_id (summary_of db h))"
  using rollup_reachable(1) [OF assms(1), of h] rollup_reachable(2) [OF assms(1)] assms(2,3) exact_view
  by (simp add: session_ok_def handle_ok_def ids_distinct_def)

theorem clean_rollup_exact_witness:
  "\<exists>db s. (rollup_step sample_rollup_env)\<^sup>*\<^sup>* empty_rollup db \<and> map_of (stat_rollup_state (db_tables db)) ''me'' = Some s \<and> \<not> sessions_dirty s \<and>
     length (summary_of db ''me'') = 2 \<and>
     map session_view (summary_of db ''me'') = map session_view (sessionise idle_gap 0 (session_points ''me'' (event_table (db_tables db))))"
proof -
  let ?db = "rebuild_handle_session_stats ''me'' 4 sample_rollup"
  have run: "(rollup_step sample_rollup_env)\<^sup>*\<^sup>* empty_rollup ?db" using sample_rollup_reachable rebuild_steps by (meson rtranclp_trans)
  have "map_option sessions_dirty (map_of (stat_rollup_state (db_tables ?db)) ''me'') = Some False" "length (summary_of ?db ''me'') = 2" by code_simp+
  then obtain s where "map_of (stat_rollup_state (db_tables ?db)) ''me'' = Some s" "\<not> sessions_dirty s" "length (summary_of ?db ''me'') = 2" by auto
  with clean_rollup_exact [OF run] run show ?thesis by blast
qed

text \<open>C14. A read that finds a handle dirty, never built or last built a minute ago or more, and no rebuild under way, leaves it clean with the sessions of all its events.\<close>

theorem ensure_fresh_exact:
  assumes "(rollup_step env)\<^sup>*\<^sup>* empty_rollup db" "map_of (stat_rollup_state (db_tables db)) h = Some s" "map_of (rebuilding db) h = None"
    and "sessions_dirty s" "rebuilt_at s = None \<or> (\<exists>b. rebuilt_at s = Some b \<and> 60000000 \<le> now - b)"
  shows "\<exists>s'. map_of (stat_rollup_state (db_tables (ensure_session_stats_fresh h now db))) h = Some s' \<and> \<not> sessions_dirty s' \<and> rebuilt_at s' = Some now \<and>
    map session_view (summary_of (ensure_session_stats_fresh h now db) h) =
      map session_view (sessionise idle_gap 0 (session_points h (event_table (db_tables db))))"
proof -
  let ?db = "rebuild_handle_session_stats h now db"
  have go: "ensure_session_stats_fresh h now db = ?db"
    using assms(2,4,5) by (auto simp: ensure_session_stats_fresh_def should_rebuild_session_stats_def SESSION_ROLLUP_MIN_INTERVAL_SECS_def)
  have run: "(rollup_step env)\<^sup>*\<^sup>* empty_rollup ?db" using assms(1) rebuild_steps by (meson rtranclp_trans)
  have "event_table (db_tables ?db) = event_table (db_tables db) \<and>
      (\<exists>s'. map_of (stat_rollup_state (db_tables ?db)) h = Some s' \<and> \<not> sessions_dirty s' \<and> rebuilt_at s' = Some now)"
    using assms(2,3,4)
    by (simp add: rebuild_handle_session_stats_def rebuild_begin_def rebuild_compute_def rebuild_commit_def clear_dirty_def hmap_insert_lookup Let_def)
  then show ?thesis using rollup_reachable(1) [OF run, of h] exact_view [of _ ?db h] unfolding go by (auto simp: session_ok_def handle_ok_def)
qed

theorem ensure_fresh_exact_witness:
  "map session_view (summary_of (ensure_session_stats_fresh ''me'' 70000000 sample_rollup) ''me'') =
     map session_view (sessionise idle_gap 0 (session_points ''me'' (event_table (db_tables sample_rollup))))"
proof -
  have "map_option (\<lambda>s. (sessions_dirty s, rebuilt_at s)) (map_of (stat_rollup_state (db_tables sample_rollup)) ''me'') = Some (True, Some 2)"
    "map_of (rebuilding sample_rollup) ''me'' = None"
    by code_simp+
  then obtain s where "map_of (stat_rollup_state (db_tables sample_rollup)) ''me'' = Some s" "map_of (rebuilding sample_rollup) ''me'' = None"
      "sessions_dirty s" "rebuilt_at s = Some 2"
    by auto
  from ensure_fresh_exact [OF sample_rollup_reachable this(1-3), of 70000000] this(4) show ?thesis by auto
qed

text \<open>C38. A retention purge leaves sessions of deleted events behind whenever uploads are pending.  Let a handle have a watermark, and let a session of its rollup end
  more than an idle gap below it.  When a purge within its cap deletes all events of that session, the next rebuild keeps the session although no event of the handle lies in
  its span, the handle counts as clean, and the rollup differs from a full recomputation: the purge marks the handle dirty but keeps the watermark, so the rebuild
  does not look below it.\<close>

theorem purge_leaves_stale_sessions:
  assumes "map_of (stat_rollup_state (db_tables db)) h = Some s" "sessions_dirty_from_ts s = Some d" "map_of (rebuilding db) h = None"
    and "row \<in> set (summary_of db h)" "session_started row \<le> session_ended row" "session_ended row < d - idle_gap"
    and "expired_rows h expired (db_tables db) \<noteq> []" "length (expired_rows h expired (db_tables db)) \<le> PER_USER_BATCH_CAP * DELETE_BATCH_SIZE"
    and "\<forall>e\<in>set (event_table (db_tables db)). \<forall>t. stored_handle e = h \<longrightarrow> stored_at e = Some t \<longrightarrow>
      session_started row \<le> t \<longrightarrow> t \<le> session_ended row \<longrightarrow> expired e"
  shows "let db' = rebuild_handle_session_stats h now' (db\<lparr>db_tables := snd (purge_user_events h expired now (db_tables db))\<rparr>);
             pts = session_points h (event_table (db_tables db'))
         in row \<in> set (summary_of db' h) \<and> (\<forall>p\<in>set pts. \<not> (session_started row \<le> fst p \<and> fst p \<le> session_ended row)) \<and>
            map_option sessions_dirty (map_of (stat_rollup_state (db_tables db')) h) = Some False \<and>
            map session_view (summary_of db' h) \<noteq> map session_view (sessionise idle_gap 0 pts)"
proof -
  define db1 where "db1 = db\<lparr>db_tables := snd (purge_user_events h expired now (db_tables db))\<rparr>"
  define db' where "db' = rebuild_handle_session_stats h now' db1"
  define pts where "pts = session_points h (event_table (db_tables db'))"
  have t: "event_table (db_tables db1) = filter (\<lambda>e. \<not> (stored_handle e = h \<and> expired e)) (event_table (db_tables db))"
      "map_of (stat_rollup_state (db_tables db1)) h = Some (s\<lparr>sessions_dirty := True, contracts_dirty := True, state_updated_at := now\<rparr>)"
    using purge_all [OF assms(7,8), where now = now] assms(1) unfolding db1_def by simp_all
  have keep: "map_of (rebuilding db1) h = None" "summary_of db1 h = summary_of db h" using assms(3) by (simp_all add: db1_def summary_of_def)
  have "row \<in> set (rebuilt_rows (Some (session_rebuild_window_of d idle_gap b)) (summary_of db1 h) q)" for b q
    using assms(4,6) by (simp add: keep rebuilt_rows_def session_rebuild_window_of_def Let_def)
  then have row: "row \<in> set (summary_of db' h)" and clean: "map_option sessions_dirty (map_of (stat_rollup_state (db_tables db')) h) = Some False"
      and ev: "event_table (db_tables db') = event_table (db_tables db1)"
    using rebuild_dirty [OF t(2) _ keep(1), of now'] assms(2) unfolding db'_def by simp_all
  have gone: "\<forall>p\<in>set pts. \<not> (session_started row \<le> fst p \<and> fst p \<le> session_ended row)"
    using assms(9) by (auto simp: pts_def ev t(1) session_points_def)
  have "session_started r \<in> fst ` set pts" if r: "r \<in> set (sessionise idle_gap 0 pts)" for r
    using sessionise_starts [OF r] .
  moreover have "session_started row \<notin> fst ` set pts" using gone assms(5) by force
  ultimately have "session_started row \<notin> session_started ` set (sessionise idle_gap 0 pts)" by force
  then have "map session_view (summary_of db' h) \<noteq> map session_view (sessionise idle_gap 0 pts)"
    using row view_starts [of "summary_of db' h" "sessionise idle_gap 0 pts"] by auto
  then show ?thesis using row gone clean unfolding Let_def pts_def db'_def db1_def by blast
qed

theorem purge_leaves_stale_sessions_witness:
  "\<exists>db. (rollup_step sample_rollup_env)\<^sup>*\<^sup>* empty_rollup db \<and>
     (let db' = rebuild_handle_session_stats ''me'' 5 (db\<lparr>db_tables := snd (purge_user_events ''me'' (\<lambda>e. stored_key e = ''a'') 4 (db_tables db))\<rparr>)
      in map_option sessions_dirty (map_of (stat_rollup_state (db_tables db')) ''me'') = Some False \<and>
         map session_view (summary_of db' ''me'') \<noteq> map session_view (sessionise idle_gap 0 (session_points ''me'' (event_table (db_tables db')))))"
proof -
  have "case map_of (stat_rollup_state (db_tables sample_rollup)) ''me'' of Some s \<Rightarrow> sessions_dirty_from_ts s = Some 10000000000 | None \<Rightarrow> False"
      "map_of (rebuilding sample_rollup) ''me'' = None"
      "case summary_of sample_rollup ''me'' of [row] \<Rightarrow> session_started row = 0 \<and> session_ended row = 0 | _ \<Rightarrow> False"
      "map (\<lambda>e. (stored_key e, stored_at e)) (event_table (db_tables sample_rollup)) = [(''a'', Some 0), (''b'', Some 10000000000)]"
      "length (expired_rows ''me'' (\<lambda>e. stored_key e = ''a'') (db_tables sample_rollup)) = 1"
    by code_simp+
  then obtain s row where w: "map_of (stat_rollup_state (db_tables sample_rollup)) ''me'' = Some s" "sessions_dirty_from_ts s = Some 10000000000"
      "map_of (rebuilding sample_rollup) ''me'' = None" "row \<in> set (summary_of sample_rollup ''me'')" "session_started row = 0" "session_ended row = 0"
      "\<forall>e\<in>set (event_table (db_tables sample_rollup)). stored_at e = Some 0 \<longrightarrow> stored_key e = ''a''"
      "length (expired_rows ''me'' (\<lambda>e. stored_key e = ''a'') (db_tables sample_rollup)) = 1"
    by (auto split: option.splits list.splits simp: map_eq_Cons_conv)
  then have rows: "expired_rows ''me'' (\<lambda>e. stored_key e = ''a'') (db_tables sample_rollup) \<noteq> []" by auto
  have "session_ended row < 10000000000 - idle_gap" using w(6) by (simp add: idle_gap_def SESSION_IDLE_GAP_MINUTES_def)
  with purge_leaves_stale_sessions [of sample_rollup "''me''" s 10000000000 row "\<lambda>e. stored_key e = ''a''" 5 4] w rows
  have "let db' = rebuild_handle_session_stats ''me'' 5 (sample_rollup\<lparr>db_tables := snd (purge_user_events ''me'' (\<lambda>e. stored_key e = ''a'') 4 (db_tables sample_rollup))\<rparr>)
      in map_option sessions_dirty (map_of (stat_rollup_state (db_tables db')) ''me'') = Some False \<and>
         map session_view (summary_of db' ''me'') \<noteq> map session_view (sessionise idle_gap 0 (session_points ''me'' (event_table (db_tables db'))))"
    by (simp add: Let_def PER_USER_BATCH_CAP_def DELETE_BATCH_SIZE_def)
  then show ?thesis using sample_rollup_reachable by blast
qed

end
