(* ===== verification/Spec2Isabelle.thy ===== *)
theory Spec2Isabelle
  imports Transactions Templates Character_Life Contract_Life Contract_Taxonomy Tail_Ingest Combatant Cohorts Server_Ingest Session_Rollup
begin

text \<open>
  StarStats reads the log files of a game, turns their lines into typed events, derives further facts from the event stream and
  serves them.  This development models the core library, \<open>crates/starstats-core/src\<close>, which the tray client and the server share, the
  path of a line through the tray client, \<open>crates/starstats-client/src\<close> (log tail, database and sync worker), and its arrival at the server,
  \<open>crates/starstats-server/src\<close>: authentication, upload endpoint, event store, audit log and session rollup.

  \<^bold>\<open>How the parts work together.\<close>  The tray client's tail reads the complete lines of a log, stitches split records, collapses
  bursts and feeds the other lines to the parser.  The structural pass splits a line,
  the classifier turns it into a \<open>GameEvent\<close> or fails; then the rules downloaded from the server are tried; a line that nothing
  recognises is captured with its shape, its interest and the personal data found in it.  Events are stamped with metadata (entity, source, group
  key), stored in the client's database, and travel in envelopes: the sync worker drains the outbox in batches, isolates events the server refuses
  and marks the others sent.  The server turns the bearer token into a user, denies
  restricted accounts and disabled devices, gates each envelope with the validators, keeps what they reject in quarantine, inserts the rest in one
  statement together with its counters, queues an audit entry and answers; the client reads the answer as its word on the rows.  Reads of the session
  rollup rebuild it from the earliest pending event, and retention purges old events.  Passes over ordered envelopes derive
  inferred events, template hits, bursts, character lives, contract runs and transactions; locations and names are resolved for display.

  \<^bold>\<open>Theories and sources.\<close>
  \<^item> \<open>Prelude\<close>, \<open>Control\<close>, \<open>Text_Ops\<close>, \<open>Json\<close>: strings, machine numbers, floats, maps, early return and panic, \<open>str\<close> operations, JSON values;
    the interfaces \<open>map_store\<close>, \<open>closed_vocabulary\<close>, \<open>step_system\<close> and the fold invariants that the components instantiate.
  \<^item> \<open>Events\<close> (events.rs), \<open>Metadata\<close> (metadata.rs), \<open>Wire\<close> (wire.rs), \<open>Validators\<close> (validators.rs): the event model, type keys, group keys, envelopes and the
    acceptance gate.
  \<^item> \<open>Parser\<close> and \<open>Classify\<close> (parser.rs), \<open>Parser_Defs\<close> (parser_defs.rs), \<open>Unknown_Lines\<close> (unknown_lines.rs), \<open>Ingest\<close> (the entry point of
    parser.rs): from a line to an event, a remote match or a captured line.
  \<^item> \<open>Inference\<close> (inference.rs), \<open>Inference_Defs\<close> (inference_defs.rs): the built-in and the downloaded inference rules.
  \<^item> \<open>Templates\<close> (templates.rs), \<open>Character_Life\<close> (character_life.rs), \<open>Contract_Life\<close> (contract_life.rs), \<open>Transactions\<close> (transactions.rs): the other passes.
  \<^item> \<open>Contract_Taxonomy\<close> (contract_taxonomy.rs), \<open>Location_Taxonomy\<close> (location_taxonomy.rs), \<open>Location_Catalog\<close> (location_catalog.rs),
    \<open>Location_Classifier\<close> (location_classifier.rs), \<open>Combatant\<close> (combatant.rs), \<open>Cohorts\<close> (peer_group.rs, cohort.rs, stats.rs): names, places and
    reference statistics.
  \<^item> \<open>Local_Store\<close> (storage.rs of the client), \<open>Sync\<close> and \<open>Delivery\<close> (sync.rs of the client): the database, its operations and invariant; batches,
    sending, bisection and lanes; what they do to the rows, over the interface \<open>outbox\<close>.
  \<^item> \<open>Tail\<close> and \<open>Tail_Ingest\<close> (gamelog.rs, burst_rules.rs and backfill.rs of the client): resume offsets, reading and stitching of lines; the passes over a buffer, the
    drain of the live tail and the sweep over archived logs.
  \<^item> \<open>Server_Accounts\<close> (validation.rs, handle_renames.rs, account_restrictions.rs, restriction_guard.rs, auth.rs of the server, and
    the friendship lookups of social.rs), \<open>Audit_Log\<close> (audit.rs and its
    migration), \<open>Server_Store\<close> (the write side of repo.rs and its tables), \<open>Server_Ingest\<close> (ingest.rs, and the client's drains against it),
    \<open>Session_Rollup\<close> (the session rollup of repo.rs and the purge of retention.rs).
  Each struct is a record with the source's field names, each enum a datatype with the source's constructors, each function a
  definition of the same name; the loop bodies of a function are definitions of their own, named in the manifest with the lines they
  translate.

  \<^bold>\<open>What stands for code outside the repository.\<close>  Compiled regular expressions, chrono's RFC 3339 parser, serde, Unicode's character
  tables, the hashers, uuid, the lossy UTF-8 decoding, the JWT library, the clocks, and Postgres's own functions and collation are arguments of the definitions that use them, and so is which
  call to the database fails; a property that relies on their documented behaviour
  says so in a hypothesis and has a witness that instantiates it.  The iteration order of a hash map is an argument or proved not to matter.

  \<^bold>\<open>Numbers and termination.\<close>  Strings are UTF-8 byte lists.  Unsigned integers are words where they wrap and naturals reduced
  explicitly elsewhere; floats are rationals rounded to the format at every operation.  Every loop of the core library is a
  structural recursion or a function with a termination proof; the drain, whose turns depend on the server, is a partial function that is
  proved to return.  The lane's endless loop is run for a given list of turns.  Panics of index, slice and \<open>unwrap\<close> are values of \<open>flow\<close> and \<open>exec\<close>, so a
  claim that code returns is proved as such.

  \<^bold>\<open>What the lemmas show.\<close>  Parsing: no line makes the two parser passes panic, every line is classified, matched or captured in that priority.
  Derived facts: inferred events, lives, runs, bursts and transactions are exactly those the stream justifies, are well-formed and
  do not depend on hash order.  Gates: the validators accept exactly the declarative field rules, and the rows of inference rules pass them.
  Tail: over any drains of a growing file every complete line is read once, no recognised line misses its row, a second reading adds none, and the
  cursor in the database is the position of the tail.  Delivery: the database keeps its invariant under every
  sequence of operations and stores a line once; a drain ends, no row changes without the server's word, and a lane empties its outbox.
  Server: the unique indexes, the per-type counters and the audit chain hold under every interleaving of requests and writes; a request writes only under
  the handle of its account; a row that a drain marks sent is stored or in quarantine, unless the database failed; a repeated upload changes nothing; the rollup of
  a handle that is not dirty is that of a full recomputation.  Where the code falls short of this, a lemma shows the failing run.
  Names: lookups and fuzzy matches are exact and optimal, links lead to catalogued places, vocabularies round-trip.

  \<^bold>\<open>Not modelled.\<close>  The web applications (TypeScript).  Of the tray client: Tauri commands, file watching and discovery, failures of disk and
  database, migrations.  Of the server: the read queries and the other rollups, which are SQL text aggregated by Postgres; the axum routes over them, sharing over
  SpiceDB, administration, mail, metrics and object storage; the isolation of concurrent transactions is modelled only where a step says so.  In the
  core library: the \<open>Display\<close> texts of errors, \<open>ParseStats::coverage\<close> and the wire payloads that no operation reads.
\<close>

section \<open>Properties across components\<close>

definition sample_lane :: lane_state where
  "sample_lane = \<lparr>lane_handle = ''me'', lane_token = ''tok'', consecutive_failures = 0, catching_up = False,
     timers = \<lparr>last_heartbeat = None, last_tag_report = None\<rparr>\<rparr>"

text \<open>What is kept of a row when it is sent.\<close>

lemma restamped_rows:
  assumes "list_all2 (\<lambda>r r'. sent_at r' \<noteq> None \<and> (\<exists>tm. r' = r\<lparr>sent_at := tm\<rparr>)) rows rows'"
  shows "filter (\<lambda>r. sent_at r \<noteq> None) rows' = rows'" "stored_in env rows' = stored_in env rows"
proof -
  show "filter (\<lambda>r. sent_at r \<noteq> None) rows' = rows'" using assms by (induction rule: list_all2_induct) auto
  have "list_ex P rows' = list_ex P rows" if P: "\<forall>r tm. P (r\<lparr>sent_at := tm\<rparr>) = P r" for P
    using assms by (induction rule: list_all2_induct) (auto simp: P)
  then show "stored_in env rows' = stored_in env rows" by (simp add: stored_in_def fun_eq_iff)
qed



text \<open>The marker that links two components: when the rows of the inference pass are stored and read back as events,
  every death among them is counted by the character-life pass as an inferred one, and none is missed.\<close>

theorem inferred_deaths_counted:
  assumes "map event_envelope.event envs = map (\<lambda>row. Some (inferred_event.event row)) (infer rfc obs cfg)"
  shows "deaths (derive_lives rfc' envs lcfg) = deaths_inferred (derive_lives rfc' envs lcfg) \<and>
    deaths (derive_lives rfc' envs lcfg) =
      as_u32 (length (filter (\<lambda>row. is_player_death (inferred_event.event row)) (infer rfc obs cfg)))"
proof -
  let ?rows = "infer rfc obs cfg"
  have count: "length (filter (is_event P) envs) = length (filter (\<lambda>row. P (inferred_event.event row)) ?rows)" for P
  proof -
    have "length (filter (is_event P) envs) =
        length (filter (\<lambda>e. case e of None \<Rightarrow> False | Some ev \<Rightarrow> P ev) (map event_envelope.event envs))"
      by (simp add: filter_map comp_def is_event_def [abs_def])
    then show ?thesis unfolding assms by (simp add: filter_map comp_def)
  qed
  have "filter (\<lambda>row. is_inferred_death (inferred_event.event row)) ?rows =
      filter (\<lambda>row. is_player_death (inferred_event.event row)) ?rows"
    using inferred_death_class [of _ rfc obs cfg]
    by (intro filter_cong) (auto simp: is_inferred_death_def is_player_death_def split: game_event.splits)
  then show ?thesis by (simp add: summary_counts count)
qed

abbreviation (input) sample_wreck :: event_envelope where
  "sample_wreck \<equiv> sample_envelope ''a'' (VehicleDestruction
     \<lparr>vehicle_destruction.timestamp = ''x'', vehicle_destruction.vehicle_class = ''Cutlass'', vehicle_destruction.vehicle_id = None,
      destroy_level = 2, caused_by = ''self'', vehicle_destruction.zone = None\<rparr>)"

abbreviation (input) sample_respawn :: event_envelope where
  "sample_respawn \<equiv> sample_envelope ''b'' (ResolveSpawn
     \<lparr>resolve_spawn.timestamp = ''xx'', player_geid = ''g'', fallback = False\<rparr>)"

abbreviation (input) sample_death :: event_envelope where
  "sample_death \<equiv> sample_envelope ''c'' (PlayerDeath
     \<lparr>player_death.timestamp = ''x'', body_class = ''inferred'', body_id = ''inferred_a'', player_death.zone = None\<rparr>)"

theorem inferred_deaths_counted_witness:
  "deaths_inferred (derive_lives length_clock [sample_death] default_life_config) =
     deaths (derive_lives length_clock [sample_death] default_life_config)"
proof -
  have "map event_envelope.event [sample_death] =
      map (\<lambda>row. Some (inferred_event.event row)) (infer length_clock [sample_wreck, sample_respawn] default_config)"
    by code_simp
  from inferred_deaths_counted [OF this] show ?thesis by simp
qed

end
